(* ===== verification/Prelude.thy ===== *)
theory Prelude
  imports Main "HOL-Library.Word"
begin

unbundle bit_operations_syntax

text \<open>
  The prelude of the development: the names of the machine types the C++ sources use, the
  collections of facts the component theories extend, a little library on byte strings
  (\<open>std::string\<close> and \<open>std::vector<char>\<close> are both HOL \<open>string\<close>s, a HOL \<open>char\<close>
  being one byte), the memory layout of integers, and the generic notion of a system that runs
  over a list of operations and keeps an invariant.
\<close>

section \<open>Machine types\<close>

type_synonym u8 = "8 word"
type_synonym u16 = "16 word"
type_synonym u32 = "32 word"
type_synonym u64 = "64 word"

text \<open>
  A time stamp (\<open>int64_t\<close> milliseconds since the epoch) and the signed durations compared
  with it are integers: signed overflow is undefined behaviour in C++ and the clock stays far
  below \<open>2 ^ 63\<close>. Counts and identifiers the code lets wrap (\<open>uint16_t\<close>, \<open>uint32_t\<close>,
  \<open>uint64_t\<close>, the atomic \<open>size_t\<close> counters) are words.
\<close>

type_synonym ms = int

named_theorems byte_simps "facts on bytes, their memory layout and slices of byte strings"
named_theorems inv_intros "preservation of the components' invariants, one fact per operation"

section \<open>Bytes\<close>

definition byte_of_char :: "char \<Rightarrow> u8" where
  "byte_of_char c = of_nat (of_char c)"

definition char_of_byte :: "u8 \<Rightarrow> char" where
  "char_of_byte b = char_of (unat b)"

lemma char_of_byte_of_char [simp]: "char_of_byte (byte_of_char c) = c"
proof -
  have "of_char c < (256 :: nat)" by simp
  then show ?thesis
    by (simp add: char_of_byte_def byte_of_char_def unat_of_nat)
qed

lemma byte_of_char_of_byte [simp]: "byte_of_char (char_of_byte b) = b"
proof -
  have "unat b < 256" using unsigned_less [of b, where ?'a = nat] by simp
  then show ?thesis
    by (simp add: char_of_byte_def byte_of_char_def)
qed

lemma byte_of_char_inject [simp]: "byte_of_char c = byte_of_char d \<longleftrightarrow> c = d"
  by (metis char_of_byte_of_char)

section \<open>The memory layout of integers\<close>

text \<open>
  \<open>le_bytes n x\<close> is what \<open>memcpy\<close> reads from an \<open>n\<close>-byte integer with value \<open>x\<close> on the
  little-endian hosts the server is built for; \<open>le_nat\<close> is the value \<open>memcpy\<close> leaves in such an
  integer. \<open>be_bytes\<close> and \<open>be_nat\<close> are the network byte order.
\<close>

primrec le_bytes :: "nat \<Rightarrow> nat \<Rightarrow> string" where
  "le_bytes 0 x = []"
| "le_bytes (Suc n) x = char_of (x mod 256) # le_bytes n (x div 256)"

primrec le_nat :: "string \<Rightarrow> nat" where
  "le_nat [] = 0"
| "le_nat (c # cs) = of_char c + 256 * le_nat cs"

definition be_bytes :: "nat \<Rightarrow> nat \<Rightarrow> string" where
  "be_bytes n x = rev (le_bytes n x)"

definition be_nat :: "string \<Rightarrow> nat" where
  "be_nat cs = le_nat (rev cs)"

lemma length_le_bytes [simp]: "length (le_bytes n x) = n"
  by (induction n arbitrary: x) auto

lemma length_be_bytes [simp]: "length (be_bytes n x) = n"
  by (simp add: be_bytes_def)

lemma le_nat_le_bytes [byte_simps]: "le_nat (le_bytes n x) = x mod 256 ^ n"
proof (induction n arbitrary: x)
  case 0
  then show ?case by simp
next
  case (Suc n)
  have "x mod 256 ^ Suc n = x mod 256 + 256 * (x div 256 mod 256 ^ n)"
    by (simp add: mod_mult2_eq)
  with Suc show ?case by (simp del: power_Suc)
qed

lemma le_bytes_le_nat [byte_simps]: "length cs = n \<Longrightarrow> le_bytes n (le_nat cs) = cs"
proof (induction cs arbitrary: n)
  case Nil
  then show ?case by simp
next
  case (Cons c cs)
  have "of_char c < (256 :: nat)" by simp
  with Cons show ?case by (cases n) auto
qed

lemma le_nat_bound: "le_nat cs < 256 ^ length cs"
proof (induction cs)
  case Nil
  then show ?case by simp
next
  case (Cons c cs)
  have "of_char c < (256 :: nat)" by simp
  then have "of_char c + 256 * le_nat cs < 256 + 256 * le_nat cs"
    by (rule add_strict_right_mono)
  also have "\<dots> \<le> 256 * 256 ^ length cs"
    using Cons by (simp flip: mult_Suc_right)
  finally show ?case by simp
qed

lemma be_nat_be_bytes [byte_simps]: "be_nat (be_bytes n x) = x mod 256 ^ n"
  by (simp add: be_nat_def be_bytes_def byte_simps)

lemma be_nat_bound: "be_nat cs < 256 ^ length cs"
  using le_nat_bound [of "rev cs"] by (simp add: be_nat_def)

lemma le_bytes_mod [byte_simps]: "le_bytes n (x mod 256 ^ n) = le_bytes n x"
  by (metis le_bytes_le_nat le_nat_le_bytes length_le_bytes)

lemma be_bytes_mod [byte_simps]: "be_bytes n (x mod 256 ^ n) = be_bytes n x"
  by (simp add: be_bytes_def le_bytes_mod)

lemma le_bytes_add: "le_bytes (m + n) x = le_bytes m x @ le_bytes n (x div 256 ^ m)"
  by (induction m arbitrary: x) (simp_all add: div_mult2_eq)

lemma be_bytes_add: "be_bytes (m + n) x = be_bytes n (x div 256 ^ m) @ be_bytes m x"
  by (simp add: be_bytes_def le_bytes_add)

lemma le_nat_append: "le_nat (cs @ ds) = le_nat cs + 256 ^ length cs * le_nat ds"
  by (induction cs) (simp_all add: algebra_simps)

lemma be_nat_append: "be_nat (cs @ ds) = be_nat ds + 256 ^ length ds * be_nat cs"
  by (simp add: be_nat_def le_nat_append)

section \<open>Slices of a byte string\<close>

text \<open>
  \<open>substr off n s\<close> is \<open>std::string(s + off, n)\<close>; \<open>write_at off bs s\<close> is
  \<open>memcpy(s + off, bs, bs.size())\<close>.
\<close>

definition substr :: "nat \<Rightarrow> nat \<Rightarrow> 'a list \<Rightarrow> 'a list" where
  "substr off n s = take n (drop off s)"

definition write_at :: "nat \<Rightarrow> 'a list \<Rightarrow> 'a list \<Rightarrow> 'a list" where
  "write_at off bs s = take off s @ bs @ drop (off + length bs) s"

lemma length_substr [simp]: "length (substr off n s) = min n (length s - off)"
  by (simp add: substr_def)

lemma length_write_at [simp]:
  "off + length bs \<le> length s \<Longrightarrow> length (write_at off bs s) = length s"
  by (simp add: write_at_def)

lemma substr_append_left [byte_simps]:
  "off + n \<le> length s \<Longrightarrow> substr off n (s @ t) = substr off n s"
  by (simp add: substr_def)

lemma substr_append_right [byte_simps]:
  "length s \<le> off \<Longrightarrow> substr off n (s @ t) = substr (off - length s) n t"
  by (simp add: substr_def)

lemma substr_all [byte_simps]: "length s \<le> n \<Longrightarrow> substr 0 n s = s"
  by (simp add: substr_def)

lemma write_at_append_left:
  "off + length bs \<le> length s \<Longrightarrow> write_at off bs (s @ t) = write_at off bs s @ t"
  by (simp add: write_at_def)

text \<open>Writing consecutive fields is writing their concatenation.\<close>

lemma write_at_write_at:
  "off + length bs + length cs \<le> length s \<Longrightarrow>
   write_at (off + length bs) cs (write_at off bs s) = write_at off (bs @ cs) s"
  by (cases bs) (auto simp: write_at_def min_def ac_simps)

section \<open>The text of numbers\<close>

text \<open>
  What \<open>operator<<\<close> and \<open>std::to_string\<close> print for an unsigned integer, in decimal and in
  hexadecimal (lower case). The digits determine the number.
\<close>

fun digits :: "nat \<Rightarrow> nat \<Rightarrow> nat list" where
  "digits b n = (if n < b \<or> b < 2 then [n] else digits b (n div b) @ [n mod b])"

declare digits.simps [simp del]

definition digit_char :: "nat \<Rightarrow> char" where
  "digit_char d = char_of (if d < 10 then 48 + d else 87 + d)"

definition dec :: "nat \<Rightarrow> string" where
  "dec n = map digit_char (digits 10 n)"

definition hex :: "nat \<Rightarrow> string" where
  "hex n = map digit_char (digits 16 n)"

lemma digits_value: "2 \<le> b \<Longrightarrow> foldl (\<lambda>a d. a * b + d) 0 (digits b n) = n"
proof (induction b n rule: digits.induct)
  case (1 b n)
  then show ?case by (subst digits.simps) auto
qed

lemma digits_less: "2 \<le> b \<Longrightarrow> d \<in> set (digits b n) \<Longrightarrow> d < b"
proof (induction b n rule: digits.induct)
  case (1 b n)
  from 1(3) show ?case
    by (subst (asm) digits.simps) (use 1 in \<open>auto split: if_splits\<close>)
qed

lemma digits_not_Nil [simp]: "digits b n \<noteq> []"
  by (subst digits.simps) simp

lemma of_char_digit: "d < 16 \<Longrightarrow> of_char (digit_char d) = (if d < 10 then 48 + d else 87 + d)"
  by (simp add: digit_char_def)

lemma digit_char_inj: "d < 16 \<Longrightarrow> e < 16 \<Longrightarrow> digit_char d = digit_char e \<Longrightarrow> d = e"
  by (drule arg_cong [of _ _ "of_char :: char \<Rightarrow> nat"]) (simp add: of_char_digit split: if_splits)

lemma digit_text_inj:
  assumes "2 \<le> b" "b \<le> 16" "map digit_char (digits b m) = map digit_char (digits b n)"
  shows "m = n"
proof -
  have "inj_on digit_char (set (digits b m) \<union> set (digits b n))"
    using assms(1,2) by (auto intro!: inj_onI digit_char_inj dest!: digits_less [OF assms(1)])
  with assms(3) have "digits b m = digits b n" using map_inj_on by blast
  then show ?thesis by (metis digits_value [OF assms(1)])
qed

lemma dec_inject [simp]: "dec m = dec n \<longleftrightarrow> m = n"
  by (auto simp: dec_def dest: digit_text_inj [rotated 2])

lemma hex_inject [simp]: "hex m = hex n \<longleftrightarrow> m = n"
  by (auto simp: hex_def dest: digit_text_inj [rotated 2])

lemma digit_chars:
  "c \<in> set (hex n) \<Longrightarrow> (of_char c :: nat) \<in> {48..57} \<union> {97..102}"
  "c \<in> set (dec n) \<Longrightarrow> (of_char c :: nat) \<in> {48..57}"
proof -
  have d: "(of_char (digit_char d) :: nat) \<in> (if d < 10 then {48..57} else {97..102})" if "d < 16" for d
    using of_char_digit [OF that] that by (simp split: if_splits)
  show "(of_char c :: nat) \<in> {48..57} \<union> {97..102}" if "c \<in> set (hex n)"
  proof -
    from that obtain e where "e \<in> set (digits 16 n)" "c = digit_char e" by (auto simp: hex_def)
    with d [of e] digits_less [of 16 e n] show ?thesis by (cases "e < 10") auto
  qed
  show "(of_char c :: nat) \<in> {48..57}" if "c \<in> set (dec n)"
  proof -
    from that obtain e where "e \<in> set (digits 10 n)" "c = digit_char e" by (auto simp: dec_def)
    with d [of e] digits_less [of 10 e n] show ?thesis by simp
  qed
qed

section \<open>C strings and signed numbers as text\<close>

text \<open>\<open>s.c_str()\<close> read by C code: the text up to the first zero byte.\<close>

definition c_str :: "string \<Rightarrow> string" where
  "c_str s = takeWhile (\<lambda>c. c \<noteq> CHR 0x00) s"

definition show_int :: "int \<Rightarrow> string" where
  "show_int i = (if i < 0 then ''-'' @ dec (nat (- i)) else dec (nat i))"

lemma c_str_idem [simp]: "c_str (c_str s) = c_str s"
  by (simp add: c_str_def takeWhile_idem)

lemma c_str_id: "CHR 0x00 \<notin> set s \<Longrightarrow> c_str s = s"
  by (auto simp: c_str_def takeWhile_eq_all_conv)

lemma c_str_append: "CHR 0x00 \<notin> set s \<Longrightarrow> c_str (s @ t) = s @ c_str t"
  by (auto simp: c_str_def intro!: takeWhile_append2)

section \<open>Counters that do not reach their width\<close>

lemma unat_Suc_u64:
  fixes x :: u64
  assumes "Suc (unat x) < 2 ^ 64"
  shows "unat (x + 1) = Suc (unat x)"
  using assms by (simp add: unat_word_ariths)

lemma less_Suc_u64: "Suc (unat x) < 2 ^ 64 \<Longrightarrow> k < x + 1 \<longleftrightarrow> k \<le> (x :: u64)"
  by (simp add: word_less_nat_alt word_le_nat_alt unat_Suc_u64 less_Suc_eq_le)

lemma le_Suc_u64: "Suc (unat x) < 2 ^ 64 \<Longrightarrow> k \<le> x + 1 \<longleftrightarrow> k \<le> x \<or> k = (x + 1 :: u64)"
  by (auto simp: word_le_nat_alt unat_Suc_u64 le_Suc_eq word_unat_eq_iff)

lemma wrapped_u64: "x + 1 \<le> x \<Longrightarrow> x + 1 = (0 :: u64)"
  by unat_arith

lemma sorted_wrt_last:
  "sorted_wrt (<) (map f xs) \<Longrightarrow> x \<in> set xs \<Longrightarrow> f x \<le> (f (last xs) :: 'a::linorder)"
  by (induction xs rule: rev_induct) (auto simp: sorted_wrt_append intro: less_imp_le)

section \<open>Associative containers\<close>

text \<open>
  \<open>std::unordered_map\<close> is a HOL map where only look-up matters. \<open>opt_default\<close> is the value
  \<open>m[k]\<close> reads: the value-initialised element when the key is absent.
\<close>

definition opt_default :: "'v \<Rightarrow> 'v option \<Rightarrow> 'v" where
  "opt_default d x = (case x of None \<Rightarrow> d | Some v \<Rightarrow> v)"

lemma opt_default_simps [simp]:
  "opt_default d None = d" "opt_default d (Some v) = v"
  by (simp_all add: opt_default_def)

section \<open>Connections as the services see them\<close>

text \<open>
  A \<open>std::shared_ptr<TcpConnection>\<close>: the object's identity and its file descriptor. The services
  index their tables by \<open>std::to_string(conn->fd())\<close>; a descriptor is not negative.
\<close>

record conn_ref =
  conn_object :: nat
  conn_fd :: nat

definition connId :: "conn_ref \<Rightarrow> string" where
  "connId conn = dec (conn_fd conn)"

section \<open>Systems that run over a list of operations\<close>

text \<open>
  A component whose public operations are serialised by its mutex is a step function from states
  and operations to states; a history is a list of operations. \<open>run\<close> folds it.
\<close>

primrec run :: "('s \<Rightarrow> 'o \<Rightarrow> 's) \<Rightarrow> 's \<Rightarrow> 'o list \<Rightarrow> 's" where
  "run f s [] = s"
| "run f s (a # as) = run f (f s a) as"

lemma run_append [simp]: "run f s (as @ bs) = run f (run f s as) bs"
  by (induction as arbitrary: s) auto

text \<open>
  The contract of such a component: an invariant that the initial states satisfy and every
  operation keeps. Every state a history reaches satisfies it.
\<close>

locale invariant_system =
  fixes init :: "'s \<Rightarrow> bool"
    and step :: "'s \<Rightarrow> 'o \<Rightarrow> 's"
    and inv :: "'s \<Rightarrow> bool"
  assumes inv_init: "init s \<Longrightarrow> inv s"
    and inv_step: "inv s \<Longrightarrow> inv (step s a)"
begin

lemma inv_run: "inv s \<Longrightarrow> inv (run step s as)"
  by (induction as arbitrary: s) (auto intro: inv_step)

lemma inv_reached: "init s \<Longrightarrow> inv (run step s as)"
  by (rule inv_run) (rule inv_init)

end

text \<open>
  A component with counters that would wrap around after \<open>bound\<close> operations: the invariant is
  indexed by the number of operations done so far.
\<close>

locale bounded_system =
  fixes init :: "'s \<Rightarrow> bool"
    and step :: "'s \<Rightarrow> 'o \<Rightarrow> 's"
    and inv :: "nat \<Rightarrow> 's \<Rightarrow> bool"
    and bound :: nat
  assumes inv_start: "init s \<Longrightarrow> inv 0 s"
    and inv_next: "inv n s \<Longrightarrow> n < bound \<Longrightarrow> inv (Suc n) (step s a)"
begin

lemma inv_within: "inv n s \<Longrightarrow> n + length as \<le> bound \<Longrightarrow> inv (n + length as) (run step s as)"
proof (induction as arbitrary: n s)
  case Nil
  then show ?case by simp
next
  case (Cons a as)
  from Cons.prems have "inv (Suc n) (step s a)" by (intro inv_next) simp_all
  from Cons.IH [OF this] Cons.prems show ?case by simp
qed

lemma inv_bounded: "init s \<Longrightarrow> length as \<le> bound \<Longrightarrow> inv (length as) (run step s as)"
  using inv_within [of 0 s as] by (simp add: inv_start)

end

end
