(* ===== verification/Util.thy ===== *)
theory Util
  imports Prelude "HOL-Library.Sublist"
begin

unbundle bit_operations_syntax

text \<open>
  \<open>src/base/util.cpp\<close>: byte order, the clock, and string helpers. The C library's \<open>htons\<close>,
  \<open>htonl\<close> and their inverses are the byte swaps of a little-endian host; the 64-bit conversions
  are the code's own, built from two 32-bit ones. The theorem that matters to the codec is that
  the bytes \<open>memcpy\<close> takes from a converted integer are its big-endian bytes.
\<close>

section \<open>Byte order\<close>

definition htons :: "u16 \<Rightarrow> u16" where
  "htons x = of_nat (be_nat (le_bytes 2 (unat x)))"

definition htonl :: "u32 \<Rightarrow> u32" where
  "htonl x = of_nat (be_nat (le_bytes 4 (unat x)))"

definition HostToNetwork16 :: "u16 \<Rightarrow> u16" where
  "HostToNetwork16 host16 = htons host16"

definition NetworkToHost16 :: "u16 \<Rightarrow> u16" where
  "NetworkToHost16 net16 = htons net16"

definition HostToNetwork32 :: "u32 \<Rightarrow> u32" where
  "HostToNetwork32 host32 = htonl host32"

definition NetworkToHost32 :: "u32 \<Rightarrow> u32" where
  "NetworkToHost32 net32 = htonl net32"

definition HostToNetwork64 :: "u64 \<Rightarrow> u64" where
  "HostToNetwork64 host64 =
     push_bit 32 (ucast (htonl (ucast (host64 AND 0xFFFFFFFF)))) OR
     ucast (htonl (ucast (drop_bit 32 host64)))"

definition NetworkToHost64 :: "u64 \<Rightarrow> u64" where
  "NetworkToHost64 net64 =
     push_bit 32 (ucast (htonl (ucast (net64 AND 0xFFFFFFFF)))) OR
     ucast (htonl (ucast (drop_bit 32 net64)))"

text \<open>The bytes of an integer in memory, and the integer a byte string is read into.\<close>

definition mem16 :: "u16 \<Rightarrow> string" where "mem16 x = le_bytes 2 (unat x)"
definition mem32 :: "u32 \<Rightarrow> string" where "mem32 x = le_bytes 4 (unat x)"
definition mem64 :: "u64 \<Rightarrow> string" where "mem64 x = le_bytes 8 (unat x)"

definition load16 :: "string \<Rightarrow> u16" where "load16 s = of_nat (le_nat s)"
definition load32 :: "string \<Rightarrow> u32" where "load32 s = of_nat (le_nat s)"
definition load64 :: "string \<Rightarrow> u64" where "load64 s = of_nat (le_nat s)"

lemma length_mem [simp]:
  "length (mem16 x) = 2" "length (mem32 y) = 4" "length (mem64 z) = 8"
  by (simp_all add: mem16_def mem32_def mem64_def)

lemma unat_htons: "unat (htons x) = be_nat (le_bytes 2 (unat x))"
  using be_nat_bound [of "le_bytes 2 (unat x)"]
  by (simp add: htons_def unat_of_nat)

lemma unat_htonl: "unat (htonl x) = be_nat (le_bytes 4 (unat x))"
  using be_nat_bound [of "le_bytes 4 (unat x)"]
  by (simp add: htonl_def unat_of_nat)

lemma le_bytes_be_nat: "length cs = n \<Longrightarrow> le_bytes n (be_nat cs) = rev cs"
  by (simp add: be_nat_def le_bytes_le_nat)

lemma mem_HostToNetwork16: "mem16 (HostToNetwork16 x) = be_bytes 2 (unat x)"
  by (simp add: mem16_def HostToNetwork16_def unat_htons le_bytes_be_nat be_bytes_def)

lemma mem_HostToNetwork32: "mem32 (HostToNetwork32 x) = be_bytes 4 (unat x)"
  by (simp add: mem32_def HostToNetwork32_def unat_htonl le_bytes_be_nat be_bytes_def)

text \<open>The two halves of a 64-bit word, and the word two halves make.\<close>

lemma unat_low_half: "unat (ucast (x AND 0xFFFFFFFF) :: u32) = unat (x :: u64) mod 2 ^ 32"
proof -
  have "x AND 0xFFFFFFFF = take_bit 32 x"
    using take_bit_eq_mask [of 32 x] by (simp add: mask_eq_exp_minus_1)
  moreover have "unat (ucast (take_bit 32 x) :: u32) = take_bit 32 (unat x)"
    by (simp add: unsigned_ucast_eq unsigned_take_bit_eq)
  ultimately show ?thesis by (simp add: take_bit_eq_mod)
qed

lemma unat_high_half: "unat (ucast (drop_bit 32 x) :: u32) = unat (x :: u64) div 2 ^ 32"
proof -
  have "unat x div 2 ^ 32 < 2 ^ 32"
    using unsigned_less [of x, where ?'a = nat] by (simp add: less_mult_imp_div_less)
  moreover have "unat (ucast (drop_bit 32 x) :: u32) = take_bit 32 (drop_bit 32 (unat x))"
    using unsigned_less [of x, where ?'a = nat]
    by (simp add: unsigned_ucast_eq unsigned_drop_bit_eq take_bit_nat_eq_self)
  ultimately show ?thesis
    by (simp add: drop_bit_eq_div take_bit_eq_mod)
qed

lemma push_bit_or_nat:
  assumes "b < 2 ^ n"
  shows "push_bit n a OR b = a * 2 ^ n + (b :: nat)"
proof -
  have "take_bit n b = b" using assms by (simp add: take_bit_nat_eq_self)
  then have "push_bit n a AND b = push_bit n a AND take_bit n b" by simp
  also have "\<dots> = 0" by (rule bit_eqI) (auto simp: bit_simps)
  finally show ?thesis
    using disjunctive_add_eq_or [of "push_bit n a" b] by (simp add: push_bit_eq_mult)
qed

lemma unat_join_halves:
  "unat (push_bit 32 (ucast a) OR ucast b :: u64) = unat (a :: u32) * 2 ^ 32 + unat (b :: u32)"
proof -
  have lt: "unat a < 2 ^ 32" "unat b < 2 ^ 32"
    using unsigned_less [of a, where ?'a = nat] unsigned_less [of b, where ?'a = nat] by simp_all
  then have "unat (push_bit 32 (ucast a :: u64)) = take_bit 64 (push_bit 32 (unat a))"
    by (simp add: unsigned_push_bit_eq unsigned_ucast_eq take_bit_nat_eq_self)
  moreover have "push_bit 32 (unat a) < 2 ^ 64"
    using lt(1) by (simp add: push_bit_eq_mult)
  ultimately have "unat (push_bit 32 (ucast a :: u64)) = push_bit 32 (unat a)"
    by (simp only: take_bit_nat_eq_self)
  moreover have "unat (ucast b :: u64) = unat b"
    using lt by (simp add: unsigned_ucast_eq take_bit_nat_eq_self)
  ultimately show ?thesis
    using push_bit_or_nat [OF lt(2), of "unat a"] by (simp only: unsigned_or_eq)
qed

lemma unat_HostToNetwork64:
  "unat (HostToNetwork64 x) = be_nat (le_bytes 8 (unat x))"
proof -
  have lo: "unat (htonl (ucast (x AND 0xFFFFFFFF))) = be_nat (le_bytes 4 (unat x))"
    using le_bytes_mod [of 4 "unat x"] by (simp add: unat_htonl unat_low_half)
  have hi: "unat (htonl (ucast (drop_bit 32 x))) = be_nat (le_bytes 4 (unat x div 2 ^ 32))"
    by (simp only: unat_htonl unat_high_half)
  have "unat (HostToNetwork64 x) = be_nat (le_bytes 4 (unat x)) * 2 ^ 32 + be_nat (le_bytes 4 (unat x div 2 ^ 32))"
    by (simp only: HostToNetwork64_def unat_join_halves lo hi)
  then show ?thesis
    using le_bytes_add [of 4 4 "unat x"] by (simp add: be_nat_append)
qed

lemma HostToNetwork64_swap: "HostToNetwork64 x = of_nat (be_nat (le_bytes 8 (unat x)))"
  by (simp flip: unat_HostToNetwork64)

lemma mem_HostToNetwork64: "mem64 (HostToNetwork64 x) = be_bytes 8 (unat x)"
  by (simp add: mem64_def unat_HostToNetwork64 le_bytes_be_nat be_bytes_def)

text \<open>Reading an integer from memory and converting it to host order reads big-endian bytes.\<close>

lemma NetworkToHost16_load: "length s = 2 \<Longrightarrow> NetworkToHost16 (load16 s) = of_nat (be_nat s)"
  using le_nat_bound [of s]
  by (simp add: NetworkToHost16_def load16_def htons_def unat_of_nat le_bytes_le_nat)

lemma NetworkToHost32_load: "length s = 4 \<Longrightarrow> NetworkToHost32 (load32 s) = of_nat (be_nat s)"
  using le_nat_bound [of s]
  by (simp add: NetworkToHost32_def load32_def htonl_def unat_of_nat le_bytes_le_nat)

lemma NetworkToHost64_load: "length s = 8 \<Longrightarrow> NetworkToHost64 (load64 s) = of_nat (be_nat s)"
proof -
  assume len: "length s = 8"
  have "NetworkToHost64 y = HostToNetwork64 y" for y
    by (simp add: NetworkToHost64_def HostToNetwork64_def)
  moreover have "unat (load64 s) = le_nat s"
    using le_nat_bound [of s] len by (simp add: load64_def unat_of_nat)
  ultimately show ?thesis
    using len by (simp add: HostToNetwork64_swap le_bytes_le_nat)
qed

lemmas net_order = mem_HostToNetwork16 mem_HostToNetwork32 mem_HostToNetwork64
  NetworkToHost16_load NetworkToHost32_load NetworkToHost64_load

lemma be_word_roundtrip [simp]:
  "(of_nat (be_nat (be_bytes 2 (unat (a :: u16)))) :: u16) = a"
  "(of_nat (be_nat (be_bytes 4 (unat (b :: u32)))) :: u32) = b"
  "(of_nat (be_nat (be_bytes 8 (unat (c :: u64)))) :: u64) = c"
  using unsigned_less [of a, where ?'a = nat] unsigned_less [of b, where ?'a = nat]
    unsigned_less [of c, where ?'a = nat]
  by (simp_all add: byte_simps)

section \<open>The clock\<close>

text \<open>\<open>gettimeofday\<close> is the environment's; the two readings the server takes of it are here.\<close>

record timeval =
  tv_sec :: int
  tv_usec :: int

text \<open>C++ division truncates towards zero; both operands are non-negative here.\<close>

definition GetTimestampMs :: "timeval \<Rightarrow> ms" where
  "GetTimestampMs tv = tv_sec tv * 1000 + tv_usec tv div 1000"

definition GetTimestampUs :: "timeval \<Rightarrow> int" where
  "GetTimestampUs tv = tv_sec tv * 1000000 + tv_usec tv"

section \<open>Strings\<close>

definition is_trim_char :: "char \<Rightarrow> bool" where
  "is_trim_char c \<longleftrightarrow> c \<in> set [CHR '' '', CHR 0x09, CHR 0x0A, CHR 0x0D]"

text \<open>\<open>std::getline\<close> on the remaining characters: the token up to the delimiter, which is consumed.\<close>

function SplitString :: "string \<Rightarrow> char \<Rightarrow> string list" where
  "SplitString str delimiter =
     (if str = [] then []
      else takeWhile (\<lambda>c. c \<noteq> delimiter) str #
           SplitString (tl (dropWhile (\<lambda>c. c \<noteq> delimiter) str)) delimiter)"
  by pat_completeness auto
termination
proof (relation "measure (\<lambda>(s, d). length s)")
  fix str :: string and delimiter :: char
  assume "str \<noteq> []"
  moreover have "length (dropWhile (\<lambda>c. c \<noteq> delimiter) str) \<le> length str"
    by (rule length_dropWhile_le)
  ultimately show "((tl (dropWhile (\<lambda>c. c \<noteq> delimiter) str), delimiter), str, delimiter)
      \<in> measure (\<lambda>(s, d). length s)"
    by (cases str) (auto simp: less_Suc_eq_le)
qed simp

declare SplitString.simps [simp del]

text \<open>\<open>find_first_not_of\<close> and \<open>find_last_not_of\<close>; \<open>None\<close> is \<open>npos\<close>.\<close>

fun find_first_not_trim :: "string \<Rightarrow> nat option" where
  "find_first_not_trim [] = None"
| "find_first_not_trim (c # cs) =
     (if is_trim_char c then map_option Suc (find_first_not_trim cs) else Some 0)"

definition find_last_not_trim :: "string \<Rightarrow> nat option" where
  "find_last_not_trim s = map_option (\<lambda>i. length s - 1 - i) (find_first_not_trim (rev s))"

definition TrimString :: "string \<Rightarrow> string" where
  "TrimString str =
     (case (find_first_not_trim str, find_last_not_trim str) of
        (Some start, Some end) \<Rightarrow> substr start (end - start + 1) str
      | _ \<Rightarrow> [])"

definition tolower :: "char \<Rightarrow> char" where
  "tolower c = (let n = of_char c :: nat in if 65 \<le> n \<and> n \<le> 90 then char_of (n + 32) else c)"

definition toupper :: "char \<Rightarrow> char" where
  "toupper c = (let n = of_char c :: nat in if 97 \<le> n \<and> n \<le> 122 then char_of (n - 32) else c)"

definition ToLower :: "string \<Rightarrow> string" where
  "ToLower str = map tolower str"

definition ToUpper :: "string \<Rightarrow> string" where
  "ToUpper str = map toupper str"

definition StartWith :: "string \<Rightarrow> string \<Rightarrow> bool" where
  "StartWith str pre =
     (if length str < length pre then False else substr 0 (length pre) str = pre)"

definition EndWith :: "string \<Rightarrow> string \<Rightarrow> bool" where
  "EndWith str suf =
     (if length str < length suf then False
      else substr (length str - length suf) (length suf) str = suf)"

text \<open>
  No token holds the delimiter, and the tokens, each followed by the delimiter, are the input
  (completed by a delimiter when it did not end in one): nothing is lost but the information
  whether the input ended in a delimiter.
\<close>

lemma SplitString_tokens: "t \<in> set (SplitString str d) \<Longrightarrow> d \<notin> set t"
proof (induction str d rule: SplitString.induct)
  case (1 str d)
  show ?case
  proof (cases "str = []")
    case True
    with "1.prems" show ?thesis by (simp add: SplitString.simps)
  next
    case False
    with "1.prems" have "t = takeWhile (\<lambda>c. c \<noteq> d) str \<or>
        t \<in> set (SplitString (tl (dropWhile (\<lambda>c. c \<noteq> d) str)) d)"
      by (simp add: SplitString.simps [of str d])
    then show ?thesis
      using "1.IH" [OF False] by (auto dest: set_takeWhileD)
  qed
qed

lemma SplitString_join:
  "concat (map (\<lambda>t. t @ [d]) (SplitString str d)) =
   str @ (if str = [] \<or> last str = d then [] else [d])"
proof (induction str d rule: SplitString.induct)
  case (1 str d)
  let ?rest = "dropWhile (\<lambda>c. c \<noteq> d) str"
  show ?case
  proof (cases "str = []")
    case True
    then show ?thesis by (simp add: SplitString.simps)
  next
    case False
    have unf: "SplitString str d = takeWhile (\<lambda>c. c \<noteq> d) str # SplitString (tl ?rest) d"
      using False by (subst SplitString.simps) simp
    have split: "str = takeWhile (\<lambda>c. c \<noteq> d) str @ ?rest" by simp
    show ?thesis
    proof (cases "?rest")
      case Nil
      with False have "last str \<noteq> d" "takeWhile (\<lambda>c. c \<noteq> d) str = str"
        by (auto simp: dropWhile_eq_Nil_conv)
      with False show ?thesis
        unfolding unf Nil by (simp add: SplitString.simps [of "[]" d])
    next
      case (Cons c r)
      then have "c = d" using hd_dropWhile [of "\<lambda>c. c \<noteq> d" str] by auto
      moreover have "last str = (if r = [] then d else last r)"
        using split Cons \<open>c = d\<close> by (metis last.simps last_appendR list.discI)
      moreover have "str = takeWhile (\<lambda>c. c \<noteq> d) str @ d # r"
        using split Cons \<open>c = d\<close> by simp
      ultimately show ?thesis
        using "1.IH" [OF False] Cons False unf by auto
    qed
  qed
qed

text \<open>\<open>TrimString\<close> strips exactly the blanks at both ends.\<close>

lemma find_first_not_trim_eq:
  "find_first_not_trim s =
     (if list_all is_trim_char s then None else Some (length (takeWhile is_trim_char s)))"
  by (induction s) auto

lemma TrimString_eq:
  "TrimString s = rev (dropWhile is_trim_char (rev (dropWhile is_trim_char s)))"
proof (cases "list_all is_trim_char s")
  case True
  then have "dropWhile is_trim_char s = []"
    by (simp only: dropWhile_eq_Nil_conv list_all_iff)
  with True show ?thesis
    by (simp add: TrimString_def find_first_not_trim_eq del: dropWhile_eq_Nil_conv)
next
  case False
  define a where "a = takeWhile is_trim_char s"
  define b where "b = dropWhile is_trim_char s"
  define c where "c = takeWhile is_trim_char (rev b)"
  have s: "s = a @ b" by (simp add: a_def b_def)
  have "set s = set a \<union> set b" using arg_cong [OF s, of set] by simp
  then have b: "\<exists>x\<in>set b. \<not> is_trim_char x"
    using False by (auto simp: list_all_iff a_def dest: set_takeWhileD)
  then have "takeWhile is_trim_char (rev b @ rev a) = c"
    unfolding c_def by (metis set_rev takeWhile_append1)
  then have c': "takeWhile is_trim_char (rev s) = c"
    using arg_cong [OF s, of rev] by simp
  have "length c < length b"
  proof (rule ccontr)
    assume "\<not> length c < length b"
    then have "length (takeWhile is_trim_char (rev b)) = length (rev b)"
      using length_takeWhile_le [of is_trim_char "rev b"] by (simp add: c_def)
    then have "takeWhile is_trim_char (rev b) = rev b"
      by (metis takeWhile_eq_take take_all_iff order_refl)
    with b show False by (metis set_rev set_takeWhileD)
  qed
  moreover have "\<not> list_all is_trim_char (rev s)" using False by (simp add: list_all_iff)
  moreover have "length s = length a + length b" using arg_cong [OF s, of length] by simp
  moreover have "drop (length a) s = b" by (simp add: a_def b_def dropWhile_eq_drop)
  ultimately have "TrimString s = take (length b - length c) b"
    using False
    by (simp add: TrimString_def find_last_not_trim_def find_first_not_trim_eq c' substr_def
        a_def [symmetric] Suc_diff_Suc)
  also have "\<dots> = rev (drop (length c) (rev b))"
    by (simp add: rev_drop)
  also have "drop (length c) (rev b) = dropWhile is_trim_char (rev b)"
    by (simp add: c_def dropWhile_eq_drop)
  finally show ?thesis by (simp add: b_def)
qed

lemma StartWith_prefix: "StartWith str pre \<longleftrightarrow> prefix pre str"
  by (auto simp: StartWith_def substr_def prefix_def) (metis append_take_drop_id)+

lemma EndWith_suffix: "EndWith str suf \<longleftrightarrow> suffix suf str"
  by (auto simp: EndWith_def substr_def suffix_def) (metis append_take_drop_id)+

end
