(* ===== verification/RedisClient.thy ===== *)
theory RedisClient
  imports Util "HOL-Library.Monad_Syntax" "HOL-Library.Signed_Division"
begin

text \<open>
  \<open>src/base/redisClient.cpp\<close>: the client every service reaches Redis through. The C library
  (hiredis) and the server behind it are not part of the sources: they are the argument \<open>lib\<close>, which
  transforms an arbitrary world \<open>'w\<close>. An operation is partial: it is \<open>None\<close> where the code hands a
  null context to the library, which dereferences it, or builds a string from a null pointer.
\<close>

section \<open>The library's interface\<close>

datatype redisReply =
    REPLY_STRING string
  | REPLY_ARRAY "redisReply list"
  | REPLY_INTEGER int
  | REPLY_NIL
  | REPLY_STATUS string
  | REPLY_ERROR "string option"

record redisContext =
  ctx_err :: int
  ctx_errstr :: string

text \<open>
  \<open>hr_command\<close> is \<open>redisCommand\<close> on the words of the command: the library inserts a \<open>%s\<close> argument as one
  word, whatever it contains. A null reply is \<open>None\<close>.
\<close>

record 'w hiredis =
  hr_connect :: "string \<Rightarrow> int \<Rightarrow> timeval \<Rightarrow> 'w \<Rightarrow> redisContext option \<times> 'w"
  hr_command :: "string list \<Rightarrow> redisContext \<Rightarrow> 'w \<Rightarrow> redisReply option \<times> redisContext \<times> 'w"
  hr_free :: "redisContext \<Rightarrow> 'w \<Rightarrow> 'w"

section \<open>The client\<close>

record RedisClient =
  rc_context :: "redisContext option"
  rc_lastError :: string

definition RedisClient_init :: RedisClient where
  "RedisClient_init = \<lparr>rc_context = None, rc_lastError = []\<rparr>"

definition connect :: "'w hiredis \<Rightarrow> string \<Rightarrow> int \<Rightarrow> int \<Rightarrow> RedisClient \<times> 'w \<Rightarrow> bool \<times> RedisClient \<times> 'w" where
  "connect lib host port timeoutMs = (\<lambda>(c, w).
     let timeout = \<lparr>tv_sec = timeoutMs sdiv 1000, tv_usec = (timeoutMs smod 1000) * 1000\<rparr>;
         (ctx, w') = hr_connect lib (c_str host) port timeout w in
     case ctx of
       None \<Rightarrow> (False, c\<lparr>rc_context := None, rc_lastError := ''Failed to allocate redis context''\<rparr>, w')
     | Some x \<Rightarrow>
         if ctx_err x \<noteq> 0
         then (False, c\<lparr>rc_context := None, rc_lastError := ctx_errstr x\<rparr>, hr_free lib x w')
         else (True, c\<lparr>rc_context := Some x\<rparr>, w'))"

definition disconnect :: "'w hiredis \<Rightarrow> RedisClient \<times> 'w \<Rightarrow> RedisClient \<times> 'w" where
  "disconnect lib = (\<lambda>(c, w).
     case rc_context c of
       None \<Rightarrow> (c, w)
     | Some x \<Rightarrow> (c\<lparr>rc_context := None\<rparr>, hr_free lib x w))"

definition isConnected :: "RedisClient \<Rightarrow> bool" where
  "isConnected c = (case rc_context c of None \<Rightarrow> False | Some x \<Rightarrow> ctx_err x = 0)"

definition checkReply :: "redisReply option \<Rightarrow> RedisClient \<Rightarrow> bool \<times> RedisClient" where
  "checkReply reply c =
     (case reply of
        None \<Rightarrow> (False, c\<lparr>rc_lastError := ''Redis reply is null''\<rparr>)
      | Some (REPLY_ERROR e) \<Rightarrow>
          (False, c\<lparr>rc_lastError := (case e of None \<Rightarrow> ''Unknown error'' | Some s \<Rightarrow> c_str s)\<rparr>)
      | Some _ \<Rightarrow> (True, c))"

definition executeCommand ::
    "'w hiredis \<Rightarrow> string list \<Rightarrow> RedisClient \<times> 'w \<Rightarrow> (redisReply option \<times> RedisClient \<times> 'w) option" where
  "executeCommand lib args = (\<lambda>(c, w).
     case rc_context c of
       None \<Rightarrow> None
     | Some x \<Rightarrow> (case hr_command lib args x w of
         (reply, x', w') \<Rightarrow> Some (reply, c\<lparr>rc_context := Some x'\<rparr>, w')))"

text \<open>
  The four shapes of the operations: success of the command, a string, an integer, a list. The
  last is the reply's elements, whose texts are read without a test of their type.
\<close>

definition status_op :: "'w hiredis \<Rightarrow> string list \<Rightarrow> RedisClient \<times> 'w \<Rightarrow> (bool \<times> RedisClient \<times> 'w) option" where
  "status_op lib args s = do {
     (reply, c, w) \<leftarrow> executeCommand lib args s;
     let (ok, c') = checkReply reply c;
     Some (ok, c', w)
   }"

definition string_op :: "'w hiredis \<Rightarrow> string list \<Rightarrow> RedisClient \<times> 'w \<Rightarrow> (string \<times> RedisClient \<times> 'w) option" where
  "string_op lib args s = do {
     (reply, c, w) \<leftarrow> executeCommand lib args s;
     let (ok, c') = checkReply reply c;
     Some (case reply of Some (REPLY_STRING t) \<Rightarrow> t | _ \<Rightarrow> [], c', w)
   }"

definition integer_op ::
    "'w hiredis \<Rightarrow> int \<Rightarrow> string list \<Rightarrow> RedisClient \<times> 'w \<Rightarrow> (int \<times> RedisClient \<times> 'w) option" where
  "integer_op lib d args s = do {
     (reply, c, w) \<leftarrow> executeCommand lib args s;
     let (ok, c') = checkReply reply c;
     Some (case reply of Some (REPLY_INTEGER i) \<Rightarrow> i | _ \<Rightarrow> d, c', w)
   }"

definition element_str :: "redisReply \<Rightarrow> string option" where
  "element_str r =
     (case r of REPLY_STRING t \<Rightarrow> Some t | REPLY_STATUS t \<Rightarrow> Some t | REPLY_ERROR e \<Rightarrow> e | _ \<Rightarrow> None)"

primrec element_strs :: "redisReply list \<Rightarrow> string list option" where
  "element_strs [] = Some []"
| "element_strs (r # rs) = do { t \<leftarrow> element_str r; ts \<leftarrow> element_strs rs; Some (t # ts) }"

fun element_pairs :: "redisReply list \<Rightarrow> (string \<rightharpoonup> string) \<Rightarrow> (string \<rightharpoonup> string) option" where
  "element_pairs (f # v # rs) m = do {
     field \<leftarrow> element_str f; val \<leftarrow> element_str v; element_pairs rs (m(field \<mapsto> val)) }"
| "element_pairs _ m = Some m"

definition array_op ::
    "'w hiredis \<Rightarrow> (redisReply list \<Rightarrow> 'a option) \<Rightarrow> string list \<Rightarrow> RedisClient \<times> 'w \<Rightarrow> ('a \<times> RedisClient \<times> 'w) option" where
  "array_op lib f args s = do {
     (reply, c, w) \<leftarrow> executeCommand lib args s;
     let (ok, c') = checkReply reply c;
     a \<leftarrow> f (case reply of Some (REPLY_ARRAY rs) \<Rightarrow> rs | _ \<Rightarrow> []);
     Some (a, c', w)
   }"

subsection \<open>Keys\<close>

definition redis_set where
  "redis_set lib key v = status_op lib [''SET'', c_str key, c_str v]"

definition setex where
  "setex lib key v expireSeconds = status_op lib [''SETEX'', c_str key, show_int expireSeconds, c_str v]"

definition get where
  "get lib key = string_op lib [''GET'', c_str key]"

definition del where
  "del lib key = status_op lib [''DEL'', c_str key]"

definition exists where
  "exists lib key s = map_option (apfst (\<lambda>i. i = 1)) (integer_op lib 0 [''EXISTS'', c_str key] s)"

definition expire where
  "expire lib key seconds = status_op lib [''EXPIRE'', c_str key, show_int seconds]"

definition ttl where
  "ttl lib key s = map_option (apfst (signed_take_bit 31)) (integer_op lib (- 1) [''TTL'', c_str key] s)"

subsection \<open>Counters\<close>

definition incr where
  "incr lib key = integer_op lib 0 [''INCR'', c_str key]"

definition decr where
  "decr lib key = integer_op lib 0 [''DECR'', c_str key]"

definition incrBy where
  "incrBy lib key increment = integer_op lib 0 [''INCRBY'', c_str key, show_int increment]"

subsection \<open>Hashes\<close>

definition hset where
  "hset lib key field v = status_op lib [''HSET'', c_str key, c_str field, c_str v]"

definition hget where
  "hget lib key field = string_op lib [''HGET'', c_str key, c_str field]"

definition hdel where
  "hdel lib key field = status_op lib [''HDEL'', c_str key, c_str field]"

definition hgetall where
  "hgetall lib key = array_op lib (\<lambda>rs. element_pairs rs Map.empty) [''HGETALL'', c_str key]"

subsection \<open>Lists\<close>

definition lpush where
  "lpush lib key v = integer_op lib 0 [''LPUSH'', c_str key, c_str v]"

definition rpush where
  "rpush lib key v = integer_op lib 0 [''RPUSH'', c_str key, c_str v]"

definition lpop where
  "lpop lib key = string_op lib [''LPOP'', c_str key]"

definition rpop where
  "rpop lib key = string_op lib [''RPOP'', c_str key]"

definition lrange where
  "lrange lib key start stop = array_op lib element_strs [''LRANGE'', c_str key, show_int start, show_int stop]"

subsection \<open>Sets\<close>

definition sadd where
  "sadd lib key member = status_op lib [''SADD'', c_str key, c_str member]"

definition srem where
  "srem lib key member = status_op lib [''SREM'', c_str key, c_str member]"

definition sismember where
  "sismember lib key member s =
     map_option (apfst (\<lambda>i. i = 1)) (integer_op lib 0 [''SISMEMBER'', c_str key, c_str member] s)"

definition smembers where
  "smembers lib key = array_op lib element_strs [''SMEMBERS'', c_str key]"

section \<open>What the documentation promises of a working server\<close>

text \<open>
  \<open>db w\<close> are the string keys alive in world \<open>w\<close>. While the connection is good the server answers, the
  connection stays good and each command has its documented effect; keys that run out of time are
  not written down here, a property that uses these laws is about commands within a key's life.
\<close>

definition redis_laws :: "'w hiredis \<Rightarrow> ('w \<Rightarrow> string \<rightharpoonup> string) \<Rightarrow> bool" where
  "redis_laws lib db \<longleftrightarrow>
     (\<forall>k v n x w. ctx_err x = 0 \<longrightarrow> 0 < n \<longrightarrow>
        (\<exists>w'. hr_command lib [''SETEX'', k, show_int n, v] x w = (Some (REPLY_STATUS ''OK''), x, w') \<and>
           db w' = (db w)(k \<mapsto> v))) \<and>
     (\<forall>k x w. ctx_err x = 0 \<longrightarrow>
        (\<exists>w'. hr_command lib [''GET'', k] x w =
             (Some (case db w k of None \<Rightarrow> REPLY_NIL | Some v \<Rightarrow> REPLY_STRING v), x, w') \<and> db w' = db w)) \<and>
     (\<forall>k x w. ctx_err x = 0 \<longrightarrow>
        (\<exists>i w'. hr_command lib [''DEL'', k] x w = (Some (REPLY_INTEGER i), x, w') \<and>
           db w' = (db w)(k := None)))"

text \<open>A server that is nothing but its table satisfies the laws.\<close>

fun table_command ::
    "string list \<Rightarrow> redisContext \<Rightarrow> (string \<rightharpoonup> string) \<Rightarrow> redisReply option \<times> redisContext \<times> (string \<rightharpoonup> string)" where
  "table_command [a, b] x m =
     (if a = ''GET'' then (Some (case m b of None \<Rightarrow> REPLY_NIL | Some v \<Rightarrow> REPLY_STRING v), x, m)
      else if a = ''DEL'' then (Some (REPLY_INTEGER (if m b = None then 0 else 1)), x, m(b := None))
      else (Some (REPLY_ERROR None), x, m))"
| "table_command [a, b, c, d] x m =
     (if a = ''SETEX'' then (Some (REPLY_STATUS ''OK''), x, m(b \<mapsto> d)) else (Some (REPLY_ERROR None), x, m))"
| "table_command _ x m = (Some (REPLY_ERROR None), x, m)"

definition table_server :: "(string \<rightharpoonup> string) hiredis" where
  "table_server =
     \<lparr>hr_connect = (\<lambda>_ _ _ m. (Some \<lparr>ctx_err = 0, ctx_errstr = []\<rparr>, m)), hr_command = table_command,
      hr_free = (\<lambda>_ m. m)\<rparr>"

lemma table_server_laws: "redis_laws table_server (\<lambda>m. m)"
  by (auto simp: redis_laws_def table_server_def)

definition good_client :: RedisClient where
  "good_client = \<lparr>rc_context = Some \<lparr>ctx_err = 0, ctx_errstr = []\<rparr>, rc_lastError = []\<rparr>"

lemma good_client_connected: "isConnected good_client"
  by (simp add: isConnected_def good_client_def)

lemma isConnected_context: "isConnected c \<Longrightarrow> \<exists>x. rc_context c = Some x \<and> ctx_err x = 0"
  by (auto simp: isConnected_def split: option.splits)

lemma setex_works:
  assumes "redis_laws lib db" "isConnected c" "0 < n"
  shows "\<exists>w'. setex lib k v n (c, w) = Some (True, c, w') \<and> db w' = (db w)(c_str k \<mapsto> c_str v)"
proof -
  obtain x where x: "rc_context c = Some x" "ctx_err x = 0" using isConnected_context [OF assms(2)] by blast
  obtain w' where "hr_command lib [''SETEX'', c_str k, show_int n, c_str v] x w = (Some (REPLY_STATUS ''OK''), x, w')"
    "db w' = (db w)(c_str k \<mapsto> c_str v)"
    using assms(1,3) x(2) unfolding redis_laws_def by blast
  with x(1) show ?thesis
    by (auto simp: setex_def status_op_def executeCommand_def checkReply_def intro!: exI [of _ w'] RedisClient.equality)
qed

lemma get_works:
  assumes "redis_laws lib db" "isConnected c"
  shows "\<exists>w'. get lib k (c, w) = Some (opt_default [] (db w (c_str k)), c, w') \<and> db w' = db w"
proof -
  obtain x where x: "rc_context c = Some x" "ctx_err x = 0" using isConnected_context [OF assms(2)] by blast
  obtain w' where "hr_command lib [''GET'', c_str k] x w =
      (Some (case db w (c_str k) of None \<Rightarrow> REPLY_NIL | Some v \<Rightarrow> REPLY_STRING v), x, w')" "db w' = db w"
    using assms(1) x(2) unfolding redis_laws_def by blast
  with x(1) show ?thesis
    by (auto simp: get_def string_op_def executeCommand_def checkReply_def opt_default_def split: option.splits
        intro!: exI [of _ w'] RedisClient.equality)
qed

lemma del_works:
  assumes "redis_laws lib db" "isConnected c"
  shows "\<exists>w'. del lib k (c, w) = Some (True, c, w') \<and> db w' = (db w)(c_str k := None)"
proof -
  obtain x where x: "rc_context c = Some x" "ctx_err x = 0" using isConnected_context [OF assms(2)] by blast
  obtain i w' where "hr_command lib [''DEL'', c_str k] x w = (Some (REPLY_INTEGER i), x, w')"
    "db w' = (db w)(c_str k := None)"
    using assms(1) x(2) unfolding redis_laws_def by blast
  with x(1) show ?thesis
    by (auto simp: del_def status_op_def executeCommand_def checkReply_def intro!: exI [of _ w'] RedisClient.equality)
qed

end
