(* ===== verification/TextNumbers.thy ===== *)
theory TextNumbers
  imports Prelude "HOL-Library.Monad_Syntax"
begin

text \<open>
  The number readers of the C++ library that the configuration and the database columns go through, and
  that they read back what \<open>std::to_string\<close> prints.
\<close>

section \<open>Reading a number\<close>

text \<open>
  \<open>std::stoull\<close>, \<open>std::stoul\<close>, \<open>std::stoll\<close> and \<open>std::stoi\<close> on base 10: blanks, a sign, then the longest run of
  digits. No digit or a value out of range throws, which is \<open>None\<close>; the unsigned ones negate modulo
  the width (\<open>unsigned long\<close> has 64 bits here).
\<close>

definition is_blank :: "char \<Rightarrow> bool" where
  "is_blank c \<longleftrightarrow> c \<in> {CHR '' '', CHR 0x09, CHR 0x0A, CHR 0x0B, CHR 0x0C, CHR 0x0D}"

definition is_digit :: "char \<Rightarrow> bool" where
  "is_digit c \<longleftrightarrow> (48 :: nat) \<le> of_char c \<and> of_char c \<le> (57 :: nat)"

definition digits_value_of :: "string \<Rightarrow> nat" where
  "digits_value_of s = foldl (\<lambda>a c. a * 10 + (of_char c - 48)) 0 s"

definition scan_number :: "string \<Rightarrow> (bool \<times> nat) option" where
  "scan_number s =
     (let t = dropWhile is_blank s;
          (neg, u) = (case t of [] \<Rightarrow> (False, []) | c # r \<Rightarrow>
             if c = CHR ''-'' then (True, r) else if c = CHR ''+'' then (False, r) else (False, t));
          ds = takeWhile is_digit u in
      if ds = [] then None else Some (neg, digits_value_of ds))"

definition stoull :: "string \<Rightarrow> u64 option" where
  "stoull s = do {
     (neg, n) \<leftarrow> scan_number s;
     if n < 2 ^ 64 then Some (if neg then - of_nat n else of_nat n) else None }"

definition stoll :: "string \<Rightarrow> int option" where
  "stoll s = do {
     (neg, n) \<leftarrow> scan_number s;
     let i = (if neg then - int n else int n);
     if - (2 ^ 63) \<le> i \<and> i < 2 ^ 63 then Some i else None }"

definition stoi :: "string \<Rightarrow> int option" where
  "stoi s = do {
     (neg, n) \<leftarrow> scan_number s;
     let i = (if neg then - int n else int n);
     if - (2 ^ 31) \<le> i \<and> i < 2 ^ 31 then Some i else None }"

lemma of_char_digit_char: "d < 10 \<Longrightarrow> (of_char (digit_char d) :: nat) = 48 + d"
  by (simp add: of_char_digit)

lemma dec_all_digits: "c \<in> set (dec n) \<Longrightarrow> is_digit c"
  using digit_chars(2) [of c n] by (simp add: is_digit_def)

lemma digits_value_of_dec: "digits_value_of (dec n) = n"
proof -
  have "foldl (\<lambda>a c. a * 10 + (of_char c - 48)) b (map digit_char ds) = foldl (\<lambda>a d. a * 10 + d) b ds"
    if "\<forall>d \<in> set ds. d < 10" for b :: nat and ds
    using that by (induction ds arbitrary: b) (auto simp: of_char_digit_char)
  with digits_less [of 10 _ n] digits_value [of 10 n] show ?thesis
    by (simp add: digits_value_of_def dec_def)
qed

lemma digit_not_special: "is_digit c \<Longrightarrow> \<not> is_blank c \<and> c \<noteq> CHR ''-'' \<and> c \<noteq> CHR ''+''"
  by (auto simp: is_digit_def is_blank_def)

lemma dec_not_Nil [simp]: "dec n \<noteq> []"
  by (simp add: dec_def)

lemma takeWhile_dec: "takeWhile is_digit (dec n) = dec n"
  by (simp add: takeWhile_eq_all_conv dec_all_digits)

lemma scan_number_dec: "scan_number (dec n) = Some (False, n)"
proof -
  obtain c r where d: "dec n = c # r" by (cases "dec n") auto
  then have "is_digit c" using dec_all_digits [of c n] by simp
  moreover have "takeWhile is_digit r = r" "digits_value_of (c # r) = n"
    using dec_all_digits [of _ n] digits_value_of_dec [of n] by (simp_all add: d takeWhile_eq_all_conv)
  ultimately show ?thesis
    using digit_not_special [of c] by (simp add: scan_number_def d takeWhile_eq_all_conv [THEN iffD2])
qed

lemma scan_number_minus: "scan_number (CHR ''-'' # dec n) = Some (True, n)"
  by (simp add: scan_number_def is_blank_def takeWhile_dec digits_value_of_dec)

lemma stoull_dec [simp]: "stoull (dec (unat n)) = Some n"
  using unsigned_less [of n] by (simp add: stoull_def scan_number_dec)

lemma stoll_show_int [simp]: "- (2 ^ 63) \<le> i \<Longrightarrow> i < 2 ^ 63 \<Longrightarrow> stoll (show_int i) = Some i"
  by (auto simp: stoll_def show_int_def scan_number_dec scan_number_minus)

lemma stoi_show_int: "- (2 ^ 31) \<le> i \<Longrightarrow> i < 2 ^ 31 \<Longrightarrow> stoi (show_int i) = Some i"
  by (auto simp: stoi_def show_int_def scan_number_dec scan_number_minus)

lemma show_int_not_Nil [simp]: "show_int i \<noteq> []"
  by (simp add: show_int_def)

end
