(* ===== verification/MySqlClient.thy ===== *)
theory MySqlClient
  imports TextNumbers "HOL-Library.Signed_Division"
begin

text \<open>
  \<open>src/storage/mysqlClient.cpp\<close>, built with \<open>HAVE_MYSQL_CLIENT\<close>: one connection to MySQL. The C client
  library and the server are not part of the sources: they are the argument \<open>lib\<close>, which acts on
  handles \<open>'h\<close> and transforms an arbitrary world \<open>'w\<close>. The escaping of the build without the library is
  modelled too.
\<close>

section \<open>The library's interface\<close>

text \<open>A stored result: the column names and the rows, either of which may hold null pointers.\<close>

record MYSQL_RES =
  res_fields :: "string option list"
  res_rows :: "string option list list"

record ('h, 'w) mysql_lib =
  ml_init :: "'w \<Rightarrow> 'h option \<times> 'w"
  ml_connect_timeout :: "'h \<Rightarrow> u32 \<Rightarrow> 'w \<Rightarrow> 'w"
  ml_real_connect :: "'h \<Rightarrow> string \<Rightarrow> string \<Rightarrow> string \<Rightarrow> string \<Rightarrow> u32 \<Rightarrow> 'w \<Rightarrow> bool \<times> 'w"
  ml_error :: "'h \<Rightarrow> 'w \<Rightarrow> string"
  ml_close :: "'h \<Rightarrow> 'w \<Rightarrow> 'w"
  ml_query :: "'h \<Rightarrow> string \<Rightarrow> 'w \<Rightarrow> bool \<times> 'w"
  ml_store_result :: "'h \<Rightarrow> 'w \<Rightarrow> MYSQL_RES option \<times> 'w"
  ml_field_count :: "'h \<Rightarrow> 'w \<Rightarrow> nat"
  ml_real_escape_string :: "'h \<Rightarrow> string \<Rightarrow> 'w \<Rightarrow> string"

type_synonym Row = "string \<rightharpoonup> string"

section \<open>The client\<close>

record 'h MySqlClient =
  mc_impl :: "'h option"
  mc_lastError :: string

definition MySqlClient_init :: "'h MySqlClient" where
  "MySqlClient_init = \<lparr>mc_impl = None, mc_lastError = []\<rparr>"

definition setLastError :: "string \<Rightarrow> 'h MySqlClient \<Rightarrow> 'h MySqlClient" where
  "setLastError e c = c\<lparr>mc_lastError := e\<rparr>"

definition connected :: "'h MySqlClient \<Rightarrow> bool" where
  "connected c \<longleftrightarrow> mc_impl c \<noteq> None"

definition disconnect :: "('h, 'w) mysql_lib \<Rightarrow> 'h MySqlClient \<times> 'w \<Rightarrow> 'h MySqlClient \<times> 'w" where
  "disconnect lib = (\<lambda>(c, w).
     case mc_impl c of
       None \<Rightarrow> (c, w)
     | Some h \<Rightarrow> (c\<lparr>mc_impl := None\<rparr>, ml_close lib h w))"

definition connect ::
    "('h, 'w) mysql_lib \<Rightarrow> string \<Rightarrow> int \<Rightarrow> string \<Rightarrow> string \<Rightarrow> string \<Rightarrow> int \<Rightarrow>
     'h MySqlClient \<times> 'w \<Rightarrow> bool \<times> 'h MySqlClient \<times> 'w" where
  "connect lib host port user password database connectTimeoutMs cw =
     (let (c, w) = disconnect lib cw; (handle, w) = ml_init lib w in
      case handle of
        None \<Rightarrow> (False, setLastError ''mysql_init failed'' c, w)
      | Some h \<Rightarrow>
          let timeout = (if 0 < connectTimeoutMs then word_of_int (connectTimeoutMs sdiv 1000) else 2);
              w = ml_connect_timeout lib h timeout w;
              (ok, w) = ml_real_connect lib h (c_str host) (c_str user) (c_str password) (c_str database)
                (word_of_int port) w in
          if \<not> ok
          then (False, setLastError (ml_error lib h w) c, ml_close lib h w)
          else (True, c\<lparr>mc_impl := Some h, mc_lastError := []\<rparr>, w))"

definition execute :: "('h, 'w) mysql_lib \<Rightarrow> string \<Rightarrow> 'h MySqlClient \<times> 'w \<Rightarrow> bool \<times> 'h MySqlClient \<times> 'w" where
  "execute lib sql = (\<lambda>(c, w).
     case mc_impl c of
       None \<Rightarrow> (False, setLastError ''MySQL connection is not ready'' c, w)
     | Some h \<Rightarrow> (case ml_query lib h (c_str sql) w of
         (ok, w') \<Rightarrow>
           if \<not> ok then (False, setLastError (ml_error lib h w') c, w')
           else (True, c\<lparr>mc_lastError := []\<rparr>, w')))"

definition begin_tx where "begin_tx lib = execute lib ''BEGIN''"

definition commit where "commit lib = execute lib ''COMMIT''"

definition rollback where "rollback lib = execute lib ''ROLLBACK''"

text \<open>One fetched row: later columns of the same name win, a null name or value is empty.\<close>

definition fetch_row :: "string option list \<Rightarrow> string option list \<Rightarrow> Row" where
  "fetch_row cols row = fold (\<lambda>(f, v) item. item(opt_default [] f \<mapsto> opt_default [] v)) (zip cols row) Map.empty"

definition query ::
    "('h, 'w) mysql_lib \<Rightarrow> string \<Rightarrow> 'h MySqlClient \<times> 'w \<Rightarrow> bool \<times> Row list \<times> 'h MySqlClient \<times> 'w" where
  "query lib sql = (\<lambda>(c, w).
     case mc_impl c of
       None \<Rightarrow> (False, [], setLastError ''MySQL connection is not ready'' c, w)
     | Some h \<Rightarrow> (case ml_query lib h (c_str sql) w of
         (ok, w') \<Rightarrow>
           if \<not> ok then (False, [], setLastError (ml_error lib h w') c, w')
           else (case ml_store_result lib h w' of
             (None, w'') \<Rightarrow>
               if ml_field_count lib h w'' = 0 then (True, [], c, w'')
               else (False, [], setLastError (ml_error lib h w'') c, w'')
           | (Some res, w'') \<Rightarrow>
               (True, map (fetch_row (res_fields res)) (res_rows res), c\<lparr>mc_lastError := []\<rparr>, w''))))"

definition escape :: "('h, 'w) mysql_lib \<Rightarrow> string \<Rightarrow> 'h MySqlClient \<times> 'w \<Rightarrow> string \<times> 'h MySqlClient \<times> 'w" where
  "escape lib v = (\<lambda>(c, w).
     case mc_impl c of
       None \<Rightarrow> (v, setLastError ''MySQL connection is not ready'' c, w)
     | Some h \<Rightarrow> (ml_real_escape_string lib h v w, c, w))"

text \<open>The escaping of the build without the library.\<close>

definition escape_local :: "string \<Rightarrow> string" where
  "escape_local v =
     concat (map (\<lambda>ch. if ch = CHR 0x27 then [CHR 0x5C, CHR 0x27]
                      else if ch = CHR 0x5C then [CHR 0x5C, CHR 0x5C] else [ch]) v)"

section \<open>Statements\<close>

text \<open>
  The repositories stream a statement together from constant text, numbers and escaped values that
  stand between quotes: \<open>Txt\<close> and \<open>Quoted\<close> are these parts, in the order of the code.
\<close>

datatype sql_part = Txt string | Quoted string

primrec sql_text ::
    "('h, 'w) mysql_lib \<Rightarrow> sql_part list \<Rightarrow> 'h MySqlClient \<times> 'w \<Rightarrow> string \<times> 'h MySqlClient \<times> 'w" where
  "sql_text lib [] cw = ([], cw)"
| "sql_text lib (p # ps) cw =
     (case p of
        Txt t \<Rightarrow> (case sql_text lib ps cw of (s, cw') \<Rightarrow> (t @ s, cw'))
      | Quoted v \<Rightarrow> (case escape lib v cw of (e, cw1) \<Rightarrow>
          (case sql_text lib ps cw1 of (s, cw') \<Rightarrow> ([CHR 0x27] @ e @ [CHR 0x27] @ s, cw'))))"

text \<open>
  How MySQL reads a statement: outside a literal, inside one, after a backslash inside one, after a
  quote inside one, which ends the literal unless a second quote follows. The scanner collects the
  text with every literal replaced by a question mark, and the values of the literals.
\<close>

datatype scan_mode = Outside | Inside | Escaping | Closing

definition unescape_char :: "char \<Rightarrow> char" where
  "unescape_char c =
     (if c = CHR ''0'' then CHR 0x00 else if c = CHR ''n'' then CHR 0x0A else if c = CHR ''r'' then CHR 0x0D
      else if c = CHR ''t'' then CHR 0x09 else if c = CHR ''b'' then CHR 0x08 else if c = CHR ''Z'' then CHR 0x1A
      else c)"

type_synonym scan_state = "scan_mode \<times> string \<times> string list \<times> string"

fun scan_char :: "scan_state \<Rightarrow> char \<Rightarrow> scan_state" where
  "scan_char (Outside, sk, ls, l) c =
     (if c = CHR 0x27 then (Inside, sk @ ''?'', ls, []) else (Outside, sk @ [c], ls, []))"
| "scan_char (Inside, sk, ls, l) c =
     (if c = CHR 0x27 then (Closing, sk, ls, l) else if c = CHR 0x5C then (Escaping, sk, ls, l)
      else (Inside, sk, ls, l @ [c]))"
| "scan_char (Escaping, sk, ls, l) c = (Inside, sk, ls, l @ [unescape_char c])"
| "scan_char (Closing, sk, ls, l) c =
     (if c = CHR 0x27 then (Inside, sk, ls, l @ [c]) else (Outside, sk @ [c], ls @ [l], []))"

definition sql_scan :: "string \<Rightarrow> (string \<times> string list) option" where
  "sql_scan sql =
     (case foldl scan_char (Outside, [], [], []) sql of
        (Outside, sk, ls, _) \<Rightarrow> Some (sk, ls)
      | (Closing, sk, ls, l) \<Rightarrow> Some (sk, ls @ [l])
      | _ \<Rightarrow> None)"

text \<open>The statement the code means: its parts with a question mark for every value.\<close>

definition skeleton :: "sql_part list \<Rightarrow> string" where
  "skeleton ps = concat (map (case_sum id (\<lambda>_. ''?'')) (map (\<lambda>p. case p of Txt t \<Rightarrow> Inl t | Quoted v \<Rightarrow> Inr v) ps))"

definition literals :: "sql_part list \<Rightarrow> string list" where
  "literals ps = concat (map (\<lambda>p. case p of Txt t \<Rightarrow> [] | Quoted v \<Rightarrow> [v]) ps)"

text \<open>Constant parts have no quote and every value is followed by constant text or the end.\<close>

fun parts_ok :: "bool \<Rightarrow> sql_part list \<Rightarrow> bool" where
  "parts_ok q [] = True"
| "parts_ok q (Txt t # ps) \<longleftrightarrow> t \<noteq> [] \<and> CHR 0x27 \<notin> set t \<and> parts_ok False ps"
| "parts_ok q (Quoted v # ps) \<longleftrightarrow> \<not> q \<and> parts_ok True ps"

text \<open>
  What the manual promises of \<open>mysql_real_escape_string\<close>: between quotes the text reads as the value,
  and it has no zero byte.
\<close>

definition reads_as :: "string \<Rightarrow> string \<Rightarrow> bool" where
  "reads_as e v \<longleftrightarrow> (\<forall>sk ls l. foldl scan_char (Inside, sk, ls, l) e = (Inside, sk, ls, l @ v))"

definition escape_law :: "('h, 'w) mysql_lib \<Rightarrow> bool" where
  "escape_law lib \<longleftrightarrow> (\<forall>h v w. reads_as (ml_real_escape_string lib h v w) v \<and> CHR 0x00 \<notin> set (ml_real_escape_string lib h v w))"

lemma escape_local_reads: "reads_as (escape_local v) v"
proof -
  have "foldl scan_char (Inside, sk, ls, l) (escape_local v) = (Inside, sk, ls, l @ v)" for sk ls l
    by (induction v arbitrary: l) (auto simp: escape_local_def unescape_char_def)
  then show ?thesis by (simp add: reads_as_def)
qed

lemma scan_plain_outside:
  "CHR 0x27 \<notin> set t \<Longrightarrow> foldl scan_char (Outside, sk, ls, []) t = (Outside, sk @ t, ls, [])"
  by (induction t arbitrary: sk) auto

lemma scan_plain_closing:
  "CHR 0x27 \<notin> set t \<Longrightarrow> t \<noteq> [] \<Longrightarrow> foldl scan_char (Closing, sk, ls, l) t = (Outside, sk @ t, ls @ [l], [])"
  by (cases t) (auto simp: scan_plain_outside)

lemma skeleton_simps [simp]:
  "skeleton [] = []" "skeleton (Txt t # ps) = t @ skeleton ps" "skeleton (Quoted v # ps) = ''?'' @ skeleton ps"
  by (simp_all add: skeleton_def)

lemma literals_simps [simp]:
  "literals [] = []" "literals (Txt t # ps) = literals ps" "literals (Quoted v # ps) = v # literals ps"
  by (simp_all add: literals_def)

definition finish_scan :: "scan_state \<Rightarrow> (string \<times> string list) option" where
  "finish_scan s =
     (case s of
        (Outside, sk, ls, _) \<Rightarrow> Some (sk, ls)
      | (Closing, sk, ls, l) \<Rightarrow> Some (sk, ls @ [l])
      | _ \<Rightarrow> None)"

lemma sql_scan_finish: "sql_scan sql = finish_scan (foldl scan_char (Outside, [], [], []) sql)"
  by (simp add: sql_scan_def finish_scan_def)

lemma sql_text_connected:
  "mc_impl c = Some h \<Longrightarrow> snd (sql_text lib ps (c, w)) = (c, w)"
  by (induction ps) (auto simp: escape_def split_beta split: sql_part.splits)

lemma scan_parts:
  assumes "escape_law lib" "mc_impl c = Some h"
  shows "parts_ok False ps \<Longrightarrow>
      finish_scan (foldl scan_char (Outside, sk, ls, []) (fst (sql_text lib ps (c, w)))) =
        Some (sk @ skeleton ps, ls @ literals ps)"
    and "parts_ok True ps \<Longrightarrow>
      finish_scan (foldl scan_char (Closing, sk, ls, l) (fst (sql_text lib ps (c, w)))) =
        Some (sk @ skeleton ps, ls @ [l] @ literals ps)"
proof (induction ps arbitrary: sk ls l)
  case Nil
  {
    case 1
    show ?case by (simp add: finish_scan_def)
  next
    case 2
    show ?case by (simp add: finish_scan_def)
  }
next
  case (Cons p ps)
  have e: "escape lib v (c, w) = (ml_real_escape_string lib h v w, c, w)"
    and r: "foldl scan_char (Inside, sk, ls, l) (ml_real_escape_string lib h v w) = (Inside, sk, ls, l @ v)" for v sk ls l
    using assms by (simp_all add: escape_def escape_law_def reads_as_def)
  {
    case 1
    then show ?case
      by (cases p) (simp_all add: split_beta e r scan_plain_outside Cons.IH)
  next
    case 2
    then show ?case
      by (cases p) (simp_all add: split_beta scan_plain_closing Cons.IH)
  }
qed

lemma sql_scan_text:
  assumes "escape_law lib" "connected c" "parts_ok False ps"
  shows "sql_scan (fst (sql_text lib ps (c, w))) = Some (skeleton ps, literals ps)"
  using scan_parts(1) [OF assms(1) _ assms(3), of c _ "[]" "[]" w] assms(2)
  by (auto simp: sql_scan_finish connected_def)

lemma sql_text_no_zero:
  assumes "escape_law lib" "mc_impl c = Some h"
    and "list_all (\<lambda>p. case p of Txt t \<Rightarrow> CHR 0x00 \<notin> set t | Quoted _ \<Rightarrow> True) ps"
  shows "CHR 0x00 \<notin> set (fst (sql_text lib ps (c, w)))"
  using assms(3)
  by (induction ps) (use assms(1,2) in \<open>auto simp: split_beta escape_def escape_law_def split: sql_part.splits\<close>)

end
