(* ===== verification/Protocol.thy ===== *)
theory Protocol
  imports Util
begin

unbundle bit_operations_syntax

text \<open>
  \<open>src/codec/protocol.h\<close>, \<open>src/codec/protocol.cpp\<close> and \<open>src/codec/protoCodec.cpp\<close>: the constants
  and structures of the wire protocol, the flags of a command, and the checksum. The lemmas on
  \<open>CalcCRC16\<close> show that one round of the shift register is injective and linear, from which the
  error-detection theorem follows.
\<close>

section \<open>Constants\<close>

definition kMagicNumber :: u32 where "kMagicNumber = 0xABCD1234"
definition kProtocolVersionV1 :: u16 where "kProtocolVersionV1 = 1"
definition kHeaderSize :: nat where "kHeaderSize = 44"
definition kMaxMessageSize :: u32 where "kMaxMessageSize = 64 * 1024 * 1024"

datatype PayloadFormat = Json | Protobuf

definition kFlagNone :: u16 where "kFlagNone = 0x0000"
definition kFlagRequest :: u16 where "kFlagRequest = 0x0001"
definition kFlagResponse :: u16 where "kFlagResponse = 0x0002"
definition kFlagAck :: u16 where "kFlagAck = 0x0004"
definition kFlagRetry :: u16 where "kFlagRetry = 0x0008"
definition kFlagCompressed :: u16 where "kFlagCompressed = 0x0010"
definition kFlagEncrypted :: u16 where "kFlagEncrypted = 0x0020"

text \<open>The error codes, with the value each has on the wire.\<close>

datatype ErrorCode = ErrOk | ErrInvalidPacket | ErrUnsupportedVersion | ErrChecksumMismatch
  | ErrPayloadTooLarge | ErrAuthFailed | ErrUserOffline | ErrAckTimeout | ErrServerBusy

fun error_value :: "ErrorCode \<Rightarrow> u32" where
  "error_value ErrOk = 0"
| "error_value ErrInvalidPacket = 1001"
| "error_value ErrUnsupportedVersion = 1002"
| "error_value ErrChecksumMismatch = 1003"
| "error_value ErrPayloadTooLarge = 1004"
| "error_value ErrAuthFailed = 2001"
| "error_value ErrUserOffline = 3001"
| "error_value ErrAckTimeout = 3002"
| "error_value ErrServerBusy = 5001"

record PacketHeader =
  h_magic :: u32
  h_version :: u16
  h_headerLen :: u16
  h_totalLen :: u32
  h_command :: u16
  h_flags :: u16
  h_requestId :: u32
  h_clientSeq :: u64
  h_serverSeq :: u64
  h_errorCode :: u32
  h_checksum :: u32

text \<open>A default-constructed header.\<close>

definition PacketHeader_default :: PacketHeader where
  "PacketHeader_default =
     \<lparr>h_magic = kMagicNumber, h_version = kProtocolVersionV1, h_headerLen = of_nat kHeaderSize,
      h_totalLen = of_nat kHeaderSize, h_command = 0, h_flags = kFlagNone, h_requestId = 0,
      h_clientSeq = 0, h_serverSeq = 0, h_errorCode = error_value ErrOk, h_checksum = 0\<rparr>"

text \<open>Command words. A received command is any 16-bit value, so they are constants, not an enumeration.\<close>

definition CmdLoginReq :: u16 where "CmdLoginReq = 0x0001"
definition CmdLoginResp :: u16 where "CmdLoginResp = 0x0002"
definition CmdHeartbeatReq :: u16 where "CmdHeartbeatReq = 0x0003"
definition CmdHeartbeatResp :: u16 where "CmdHeartbeatResp = 0x0004"
definition CmdP2pMsgReq :: u16 where "CmdP2pMsgReq = 0x0005"
definition CmdP2pMsgResp :: u16 where "CmdP2pMsgResp = 0x0006"
definition CmdP2pMsgNotify :: u16 where "CmdP2pMsgNotify = 0x0007"
definition CmdBroadcastMsgReq :: u16 where "CmdBroadcastMsgReq = 0x0008"
definition CmdBroadcastMsgNotify :: u16 where "CmdBroadcastMsgNotify = 0x0009"
definition CmdKickUserReq :: u16 where "CmdKickUserReq = 0x000A"
definition CmdKickUserResp :: u16 where "CmdKickUserResp = 0x000B"
definition CmdMessageAckReq :: u16 where "CmdMessageAckReq = 0x000C"
definition CmdMessageAckResp :: u16 where "CmdMessageAckResp = 0x000D"
definition CmdPullOfflineReq :: u16 where "CmdPullOfflineReq = 0x000E"
definition CmdPullOfflineResp :: u16 where "CmdPullOfflineResp = 0x000F"

lemmas Cmd_defs = CmdLoginReq_def CmdLoginResp_def CmdHeartbeatReq_def CmdHeartbeatResp_def
  CmdP2pMsgReq_def CmdP2pMsgResp_def CmdP2pMsgNotify_def CmdBroadcastMsgReq_def
  CmdBroadcastMsgNotify_def CmdKickUserReq_def CmdKickUserResp_def CmdMessageAckReq_def
  CmdMessageAckResp_def CmdPullOfflineReq_def CmdPullOfflineResp_def

lemmas kFlag_defs = kFlagNone_def kFlagRequest_def kFlagResponse_def kFlagAck_def kFlagRetry_def
  kFlagCompressed_def kFlagEncrypted_def

datatype DeliveryStatus = DeliveryCreated | DeliveryPersisted | DeliveryDelivering
  | DeliveryDelivered | DeliveryFailed | DeliveryRead

fun delivery_value :: "DeliveryStatus \<Rightarrow> u8" where
  "delivery_value DeliveryCreated = 0"
| "delivery_value DeliveryPersisted = 1"
| "delivery_value DeliveryDelivering = 2"
| "delivery_value DeliveryDelivered = 3"
| "delivery_value DeliveryFailed = 4"
| "delivery_value DeliveryRead = 5"

definition AckReceived :: u32 where "AckReceived = 0"
definition AckRead :: u32 where "AckRead = 1"

section \<open>Messages\<close>

record LoginReq =
  lreq_userId :: string
  lreq_token :: string
  lreq_deviceId :: string

record LoginResp =
  lresp_resultCode :: u32
  lresp_resultMsg :: string
  lresp_sessionId :: string

record HeartbeatResp =
  hresp_serverTime :: int

record P2PMsgReq =
  preq_fromUserId :: string
  preq_toUserId :: string
  preq_clientMsgId :: string
  preq_content :: string

record P2PMsgResp =
  presp_resultCode :: u32
  presp_resultMsg :: string
  presp_msgId :: u64
  presp_serverSeq :: u64

record P2PMsgNotify =
  n_msgId :: u64
  n_serverSeq :: u64
  n_fromUserId :: string
  n_toUserId :: string
  n_clientMsgId :: string
  n_content :: string
  n_timestamp :: int

record BroadcastMsgReq =
  breq_fromUserId :: string
  breq_content :: string

record BroadcastMsgNotify =
  bnot_fromUserId :: string
  bnot_content :: string
  bnot_timestamp :: int

record KickUserReq =
  kreq_targetUserId :: string
  kreq_reason :: string

record KickUserResp =
  kresp_resultCode :: u32
  kresp_resultMsg :: string

record MessageAckReq =
  areq_msgId :: u64
  areq_serverSeq :: u64
  areq_ackCode :: u32

record MessageAckResp =
  aresp_resultCode :: u32
  aresp_resultMsg :: string
  aresp_serverSeq :: u64

record PullOfflineReq =
  oreq_userId :: string
  oreq_lastAckedSeq :: u64
  oreq_limit :: u32

record OfflineItem =
  oi_msgId :: u64
  oi_serverSeq :: u64
  oi_fromUserId :: string
  oi_toUserId :: string
  oi_clientMsgId :: string
  oi_content :: string
  oi_timestamp :: int

record PullOfflineResp =
  oresp_resultCode :: u32
  oresp_resultMsg :: string
  oresp_nextBeginSeq :: u64
  oresp_messages :: "OfflineItem list"

section \<open>Flags of a command\<close>

definition IsResponseCommand :: "u16 \<Rightarrow> bool" where
  "IsResponseCommand command \<longleftrightarrow>
     command = CmdLoginResp \<or> command = CmdHeartbeatResp \<or> command = CmdP2pMsgResp \<or>
     command = CmdKickUserResp \<or> command = CmdMessageAckResp \<or> command = CmdPullOfflineResp"

definition GuessFlagsFromCommand :: "u16 \<Rightarrow> u16" where
  "GuessFlagsFromCommand command =
     (if command = CmdP2pMsgNotify \<or> command = CmdBroadcastMsgNotify then kFlagNone
      else if command = CmdMessageAckReq then kFlagRequest OR kFlagAck
      else if command = CmdMessageAckResp then kFlagResponse OR kFlagAck
      else if IsResponseCommand command then kFlagResponse else kFlagRequest)"

lemma GuessFlags_request_xor_response:
  "command \<noteq> CmdP2pMsgNotify \<Longrightarrow> command \<noteq> CmdBroadcastMsgNotify \<Longrightarrow>
   (GuessFlagsFromCommand command AND kFlagResponse \<noteq> 0) = IsResponseCommand command \<and>
   (GuessFlagsFromCommand command AND kFlagRequest \<noteq> 0) = (\<not> IsResponseCommand command)"
  by (auto simp: GuessFlagsFromCommand_def IsResponseCommand_def Cmd_defs kFlag_defs)

section \<open>The checksum\<close>

text \<open>One step of the shift register, eight steps for a byte, and the loop over the payload.\<close>

definition crc_bit :: "u16 \<Rightarrow> u16" where
  "crc_bit crc = (if crc AND 0x8000 \<noteq> 0 then push_bit 1 crc XOR 0x1021 else push_bit 1 crc)"

definition crc_byte :: "u16 \<Rightarrow> char \<Rightarrow> u16" where
  "crc_byte crc c = (crc_bit ^^ 8) (crc XOR push_bit 8 (ucast (byte_of_char c)))"

fun crc_loop :: "u16 \<Rightarrow> string \<Rightarrow> u16" where
  "crc_loop crc [] = crc"
| "crc_loop crc (c # cs) = crc_loop (crc_byte crc c) cs"

definition CalcCRC16 :: "string \<Rightarrow> u16" where
  "CalcCRC16 data = crc_loop 0xFFFF data"

lemma crc_loop_append [simp]: "crc_loop crc (s @ t) = crc_loop (crc_loop crc s) t"
  by (induction s arbitrary: crc) auto

lemma and_top_bit: "(x AND 0x8000 \<noteq> (0 :: u16)) = bit x 15"
proof -
  have "(0x8000 :: u16) = push_bit 15 1" by simp
  then show ?thesis by (simp add: bit_iff_and_push_bit_not_eq_0 del: push_bit_of_1)
qed

lemma crc_bit_alt: "crc_bit x = push_bit 1 x XOR (if bit x 15 then 0x1021 else 0)"
  by (simp add: crc_bit_def and_top_bit)

lemma bit_crc_bit:
  "n < 16 \<Longrightarrow> bit (crc_bit x) n \<longleftrightarrow>
   (0 < n \<and> bit x (n - 1)) \<noteq> (bit x 15 \<and> bit (0x1021 :: u16) n)"
  unfolding crc_bit_alt
  by (cases "bit x 15") (simp_all only: bit_xor_iff bit_push_bit_iff if_True if_False, auto)

lemma crc_bit_0: "bit (crc_bit x) 0 = bit x 15"
  by (simp add: bit_crc_bit)

lemma crc_bit_xor: "crc_bit (x XOR y) = crc_bit x XOR crc_bit y"
  by (rule bit_word_eqI) (auto simp: bit_crc_bit bit_xor_iff)

lemma crc_bits_xor: "(crc_bit ^^ n) (x XOR y) = (crc_bit ^^ n) x XOR (crc_bit ^^ n) y"
  by (induction n) (auto simp: crc_bit_xor)

lemma crc_bit_inj: "crc_bit x = crc_bit y \<Longrightarrow> x = y"
proof -
  assume eq: "crc_bit x = crc_bit y"
  then have top: "bit x 15 = bit y 15" by (metis crc_bit_0)
  show "x = y"
  proof (rule bit_word_eqI)
    fix n assume n: "n < LENGTH(16)"
    show "bit x n = bit y n"
    proof (cases "n = 15")
      case False
      have "bit (crc_bit x) (Suc n) = bit (crc_bit y) (Suc n)" using eq by simp
      with top n False show ?thesis by (simp add: bit_crc_bit) blast
    qed (simp add: top)
  qed
qed

lemma crc_bits_inj: "(crc_bit ^^ n) x = (crc_bit ^^ n) y \<Longrightarrow> x = y"
  by (induction n arbitrary: x y) (auto dest: crc_bit_inj)

lemma xor_cancel_right: "x XOR z = y XOR z \<Longrightarrow> x = (y :: 'a::len word)"
proof -
  assume "x XOR z = y XOR z"
  then have "(x XOR z) XOR z = (y XOR z) XOR z" by simp
  then show ?thesis by (simp add: xor.assoc)
qed

lemma xor_eq_0_imp: "x XOR y = 0 \<Longrightarrow> x = (y :: 'a::len word)"
  by (rule xor_cancel_right [of _ y]) simp

lemma xor_exchange: "p XOR q = r XOR s \<Longrightarrow> p XOR r = q XOR (s :: 'a::len word)"
  by (simp add: bit_eq_iff bit_xor_iff) blast

lemma push_byte_inj: "push_bit 8 (ucast (x :: u8)) = (push_bit 8 (ucast y) :: u16) \<Longrightarrow> x = y"
proof (rule bit_word_eqI)
  fix n assume n: "n < LENGTH(8)"
    and eq: "push_bit 8 (ucast x) = (push_bit 8 (ucast y) :: u16)"
  from eq have "bit (push_bit 8 (ucast x) :: u16) (n + 8) = bit (push_bit 8 (ucast y) :: u16) (n + 8)"
    by simp
  with n show "bit x n = bit y n" by (simp add: bit_push_bit_iff bit_ucast_iff)
qed

lemma crc_loop_inj: "crc_loop x s = crc_loop y s \<Longrightarrow> x = y"
proof (induction s arbitrary: x y)
  case (Cons c s)
  then have "crc_byte x c = crc_byte y c" by simp
  then have "x XOR push_bit 8 (ucast (byte_of_char c)) = y XOR push_bit 8 (ucast (byte_of_char c))"
    unfolding crc_byte_def by (rule crc_bits_inj)
  then show ?case by (rule xor_cancel_right)
qed simp

lemma crc_bits_low:
  "n \<le> 16 \<Longrightarrow> (\<And>i. i < n \<Longrightarrow> \<not> bit ((crc_bit ^^ n) y) i) \<Longrightarrow>
   (\<forall>i. 16 - n \<le> i \<longrightarrow> \<not> bit y i) \<and>
   (\<forall>i < 16. bit ((crc_bit ^^ n) y) i = (n \<le> i \<and> bit y (i - n)))"
proof (induction n)
  case 0
  then show ?case by (auto dest: bit_imp_le_length)
next
  case (Suc n)
  let ?w = "(crc_bit ^^ n) y"
  have top: "\<not> bit ?w 15" using Suc.prems(2) [of 0] by (simp add: crc_bit_0)
  then have shift: "bit (crc_bit ?w) i = (0 < i \<and> bit ?w (i - 1))" if "i < 16" for i
    using that by (simp add: bit_crc_bit)
  have "\<not> bit ?w i" if "i < n" for i
    using Suc.prems(2) [of "Suc i"] that Suc.prems(1) by (simp add: shift)
  then have IH: "\<forall>i. 16 - n \<le> i \<longrightarrow> \<not> bit y i"
      "\<forall>i < 16. bit ?w i = (n \<le> i \<and> bit y (i - n))"
    using Suc.IH Suc.prems(1) by auto
  have "\<not> bit y (15 - n)" using IH(2) top Suc.prems(1) by auto
  moreover have "16 - Suc n = 15 - n" by simp
  ultimately have "\<not> bit y i" if "16 - Suc n \<le> i" for i
    using IH(1) that Suc.prems(1) by (cases "i = 15 - n") auto
  moreover have "bit (crc_bit ?w) i = (Suc n \<le> i \<and> bit y (i - Suc n))" if "i < 16" for i
    using IH(2) that by (cases i) (auto simp: shift)
  ultimately show ?case by simp
qed

lemma crc_two_bytes:
  assumes "(crc_bit ^^ 8) (push_bit 8 (ucast (e :: u8))) = push_bit 8 (ucast (f :: u8))"
  shows "e = 0"
proof (rule bit_word_eqI)
  fix n assume n: "n < LENGTH(8)"
  have "\<not> bit ((crc_bit ^^ 8) (push_bit 8 (ucast e))) i" if "i < 8" for i
    unfolding assms using that by (simp add: bit_push_bit_iff)
  then have "\<forall>i. 8 \<le> i \<longrightarrow> \<not> bit (push_bit 8 (ucast e :: u16)) i"
    using crc_bits_low [of 8 "push_bit 8 (ucast e)"] by simp
  then have "\<not> bit (push_bit 8 (ucast e :: u16)) (n + 8)" by simp
  with n show "bit e n = bit (0 :: u8) n"
    by (simp add: bit_push_bit_iff bit_ucast_iff)
qed

text \<open>
  Claim C4 (CalcCRC16_detects_burst). The checksum detects every corruption confined to two
  adjacent bytes: two payloads that differ only there have different checksums, whatever
  precedes and follows the damaged bytes.
\<close>

theorem CalcCRC16_detects_burst:
  assumes "(a, b) \<noteq> (c, d)"
  shows "CalcCRC16 (xs @ a # b # ys) \<noteq> CalcCRC16 (xs @ c # d # ys)"
proof
  define B where "B x = (push_bit 8 (ucast (byte_of_char x)) :: u16)" for x
  define r where "r = crc_loop 0xFFFF xs"
  let ?G = "crc_bit ^^ 8"
  have B_xor: "B x XOR B y = push_bit 8 (ucast (byte_of_char x XOR byte_of_char y))" for x y
    unfolding B_def by (rule bit_word_eqI) (auto simp: bit_simps)
  assume "CalcCRC16 (xs @ a # b # ys) = CalcCRC16 (xs @ c # d # ys)"
  then have eq: "crc_byte (crc_byte r a) b = crc_byte (crc_byte r c) d"
    unfolding CalcCRC16_def r_def by simp (rule crc_loop_inj)
  then have "?G (r XOR B a) XOR B b = ?G (r XOR B c) XOR B d"
    unfolding crc_byte_def B_def by (rule crc_bits_inj)
  then have "(?G r XOR ?G (B a)) XOR B b = (?G r XOR ?G (B c)) XOR B d"
    by (simp only: crc_bits_xor)
  then have "?G r XOR ((?G (B a) XOR B b)) = ?G r XOR (?G (B c) XOR B d)"
    by (simp only: xor.assoc)
  then have "?G (B a) XOR B b = ?G (B c) XOR B d"
    by (simp only: xor.commute [of "?G r"]) (rule xor_cancel_right)
  then have "?G (B a) XOR ?G (B c) = B b XOR B d"
    by (rule xor_exchange)
  then have G: "?G (push_bit 8 (ucast (byte_of_char a XOR byte_of_char c))) =
      push_bit 8 (ucast (byte_of_char b XOR byte_of_char d))"
    by (simp only: crc_bits_xor [symmetric] B_xor)
  then have "byte_of_char a XOR byte_of_char c = 0" by (rule crc_two_bytes)
  then have "byte_of_char a = byte_of_char c" by (rule xor_eq_0_imp)
  then have "a = c" by simp
  with assms have "b \<noteq> d" by simp
  have "crc_byte (crc_byte r a) b = crc_byte (crc_byte r a) d"
    using eq \<open>a = c\<close> by simp
  then have "crc_byte r a XOR B b = crc_byte r a XOR B d"
    unfolding crc_byte_def B_def by (rule crc_bits_inj)
  then have "B b = B d"
    by (simp only: xor.commute [of "crc_byte r a"]) (rule xor_cancel_right)
  then have "byte_of_char b = byte_of_char d" unfolding B_def by (rule push_byte_inj)
  with \<open>b \<noteq> d\<close> show False by simp
qed

theorem CalcCRC16_detects_burst_witness:
  "(CHR ''a'', CHR ''b'') \<noteq> (CHR ''a'', CHR ''c'') \<and>
   CalcCRC16 (''x'' @ CHR ''a'' # CHR ''b'' # ''y'') \<noteq> CalcCRC16 (''x'' @ CHR ''a'' # CHR ''c'' # ''y'')"
proof -
  have h: "(CHR ''a'', CHR ''b'') \<noteq> (CHR ''a'', CHR ''c'')" by simp
  show ?thesis using h CalcCRC16_detects_burst [OF h, of "''x''" "''y''"] by blast
qed

section \<open>Payload formats\<close>

definition parsePayloadFormat :: "string \<Rightarrow> PayloadFormat" where
  "parsePayloadFormat value =
     (let lowered = ToLower value
      in if lowered = ''protobuf'' \<or> lowered = ''proto'' then Protobuf else Json)"

fun toString :: "PayloadFormat \<Rightarrow> string" where
  "toString Protobuf = ''protobuf''"
| "toString Json = ''json''"

lemma parse_toString: "parsePayloadFormat (toString f) = f"
  by (cases f) (simp_all add: parsePayloadFormat_def ToLower_def tolower_def Let_def)

end
