(* ===== verification/Repositories.thy ===== *)
theory Repositories
  imports MySqlClient Protocol
begin

text \<open>
  \<open>src/storage/sessionRepository.cpp\<close>, \<open>messageRepository.cpp\<close> and \<open>deliveryRepository.cpp\<close>: the SQL
  statements of the three tables and the reading of their rows. A statement is a value of \<open>statement\<close>,
  \<open>statement_parts\<close> streams it together as the code does. Reading a row may throw (a missing column, a
  text that is no number): the outer \<open>None\<close> of an operation is this exception. An enumeration read
  from a column is kept as its \<open>uint8_t\<close>.
\<close>

section \<open>Records\<close>

record SessionRecord =
  sr_sessionId :: string
  sr_userId :: string
  sr_deviceId :: string
  sr_serverNodeId :: string
  sr_lastAckedSeq :: u64
  sr_createdAtMs :: int
  sr_expiresAtMs :: int

definition SessionRecord_default :: SessionRecord where
  "SessionRecord_default =
     \<lparr>sr_sessionId = [], sr_userId = [], sr_deviceId = [], sr_serverNodeId = ''single-node'',
      sr_lastAckedSeq = 0, sr_createdAtMs = 0, sr_expiresAtMs = 0\<rparr>"

record MessageRecord =
  mg_messageId :: u64
  mg_clientMsgId :: string
  mg_fromUserId :: string
  mg_toUserId :: string
  mg_conversationId :: string
  mg_payloadFormat :: u32
  mg_content :: string
  mg_messageType :: string
  mg_status :: u8
  mg_createdAtMs :: int
  mg_updatedAtMs :: int

record DeliveryRecord =
  dr_messageId :: u64
  dr_receiverUserId :: string
  dr_serverSeq :: u64
  dr_status :: u8
  dr_retryCount :: u32
  dr_lastError :: string
  dr_deliveredAtMs :: int
  dr_ackedAtMs :: int
  dr_createdAtMs :: int
  dr_updatedAtMs :: int

section \<open>Rows\<close>

definition ToUint64 :: "Row \<Rightarrow> string \<Rightarrow> u64 option" where
  "ToUint64 row key =
     (case row key of None \<Rightarrow> Some 0 | Some s \<Rightarrow> if s = [] then Some 0 else stoull s)"

definition ToInt64 :: "Row \<Rightarrow> string \<Rightarrow> int option" where
  "ToInt64 row key =
     (case row key of None \<Rightarrow> Some 0 | Some s \<Rightarrow> if s = [] then Some 0 else stoll s)"

definition BuildSessionRecord :: "Row \<Rightarrow> SessionRecord option" where
  "BuildSessionRecord row = do {
     sid \<leftarrow> row ''session_id'';
     uid \<leftarrow> row ''user_id'';
     did \<leftarrow> row ''device_id'';
     nid \<leftarrow> row ''server_node_id'';
     acked \<leftarrow> ToUint64 row ''last_acked_seq'';
     created \<leftarrow> ToInt64 row ''created_at_ms'';
     expires \<leftarrow> ToInt64 row ''expires_at_ms'';
     Some \<lparr>sr_sessionId = sid, sr_userId = uid, sr_deviceId = did, sr_serverNodeId = nid,
           sr_lastAckedSeq = acked, sr_createdAtMs = created, sr_expiresAtMs = expires\<rparr>
   }"

definition BuildMessageRecord :: "Row \<Rightarrow> MessageRecord option" where
  "BuildMessageRecord row = do {
     mid \<leftarrow> ToUint64 row ''id'';
     client \<leftarrow> row ''client_msg_id'';
     from \<leftarrow> row ''from_user_id'';
     to \<leftarrow> row ''to_user_id'';
     conv \<leftarrow> row ''conversation_id'';
     fmt \<leftarrow> Option.bind (row ''payload_format'') stoull;
     body \<leftarrow> row ''content'';
     ty \<leftarrow> row ''message_type'';
     status \<leftarrow> Option.bind (row ''status'') stoull;
     created \<leftarrow> Option.bind (row ''created_at_ms'') stoll;
     updated \<leftarrow> Option.bind (row ''updated_at_ms'') stoll;
     Some \<lparr>mg_messageId = mid, mg_clientMsgId = client, mg_fromUserId = from, mg_toUserId = to,
           mg_conversationId = conv, mg_payloadFormat = ucast fmt, mg_content = body, mg_messageType = ty,
           mg_status = ucast status, mg_createdAtMs = created, mg_updatedAtMs = updated\<rparr>
   }"

definition BuildDeliveryRecord :: "Row \<Rightarrow> DeliveryRecord option" where
  "BuildDeliveryRecord row = do {
     mid \<leftarrow> ToUint64 row ''message_id'';
     receiver \<leftarrow> row ''receiver_user_id'';
     sq \<leftarrow> ToUint64 row ''server_seq'';
     status \<leftarrow> Option.bind (row ''status'') stoull;
     retry \<leftarrow> Option.bind (row ''retry_count'') stoull;
     err \<leftarrow> row ''last_error'';
     delivered \<leftarrow> ToInt64 row ''delivered_at_ms'';
     acked \<leftarrow> ToInt64 row ''acked_at_ms'';
     created \<leftarrow> ToInt64 row ''created_at_ms'';
     updated \<leftarrow> ToInt64 row ''updated_at_ms'';
     Some \<lparr>dr_messageId = mid, dr_receiverUserId = receiver, dr_serverSeq = sq, dr_status = ucast status,
           dr_retryCount = ucast retry, dr_lastError = err, dr_deliveredAtMs = delivered, dr_ackedAtMs = acked,
           dr_createdAtMs = created, dr_updatedAtMs = updated\<rparr>
   }"

section \<open>Statements\<close>

datatype statement =
    CreateSession SessionRecord
  | DeleteSession string
  | FindSession string
  | UpdateAckedBySession string u64
  | UpdateAckedByUser string u64
  | CreateMessage MessageRecord
  | FindMessage u64
  | FindBySenderClient string string
  | MaxMessageId
  | CreateDelivery DeliveryRecord
  | UpdateDelivery u64 string u8 u32 int int int
  | FindDelivery u64 string
  | ListPending string u64 u64
  | MaxServerSeq string
  | LastAckedSeq string
  | AppendAckLog u64 string u64 u32 int

abbreviation num64 :: "u64 \<Rightarrow> string" where "num64 n \<equiv> dec (unat n)"
abbreviation num32 :: "u32 \<Rightarrow> string" where "num32 n \<equiv> dec (unat n)"
abbreviation num8 :: "u8 \<Rightarrow> string" where "num8 n \<equiv> dec (unat n)"

definition delivery_columns :: string where
  "delivery_columns =
     ''message_id, receiver_user_id, server_seq, status, retry_count, last_error, '' @
     ''delivered_at_ms, acked_at_ms, created_at_ms, updated_at_ms''"

definition message_columns :: string where
  "message_columns =
     ''id, client_msg_id, from_user_id, to_user_id, conversation_id, payload_format, '' @
     ''content, message_type, status, created_at_ms, updated_at_ms''"

fun statement_parts :: "statement \<Rightarrow> sql_part list" where
  "statement_parts (CreateSession r) =
     [Txt (''INSERT INTO im_session '' @
        ''(session_id, user_id, device_id, server_node_id, last_acked_seq, created_at_ms, expires_at_ms) VALUES (''),
      Quoted (sr_sessionId r), Txt '', '', Quoted (sr_userId r), Txt '', '', Quoted (sr_deviceId r), Txt '', '',
      Quoted (sr_serverNodeId r), Txt '', '', Txt (num64 (sr_lastAckedSeq r)), Txt '', '',
      Txt (show_int (sr_createdAtMs r)), Txt '', '', Txt (show_int (sr_expiresAtMs r)), Txt '') '',
      Txt (''ON DUPLICATE KEY UPDATE '' @ ''user_id=VALUES(user_id), '' @ ''device_id=VALUES(device_id), '' @
        ''server_node_id=VALUES(server_node_id), '' @ ''last_acked_seq=VALUES(last_acked_seq), '' @
        ''created_at_ms=VALUES(created_at_ms), '' @ ''expires_at_ms=VALUES(expires_at_ms)'')]"
| "statement_parts (DeleteSession sid) =
     [Txt ''DELETE FROM im_session WHERE session_id='', Quoted sid]"
| "statement_parts (FindSession sid) =
     [Txt (''SELECT session_id, user_id, device_id, server_node_id, last_acked_seq, created_at_ms, expires_at_ms '' @
        ''FROM im_session WHERE session_id=''), Quoted sid, Txt '' LIMIT 1'']"
| "statement_parts (UpdateAckedBySession sid n) =
     [Txt ''UPDATE im_session SET last_acked_seq=GREATEST(last_acked_seq, '', Txt (num64 n),
      Txt '') WHERE session_id='', Quoted sid]"
| "statement_parts (UpdateAckedByUser uid n) =
     [Txt ''UPDATE im_session SET last_acked_seq=GREATEST(last_acked_seq, '', Txt (num64 n),
      Txt '') WHERE user_id='', Quoted uid]"
| "statement_parts (CreateMessage r) =
     [Txt (''INSERT INTO im_message '' @
        ''(id, client_msg_id, from_user_id, to_user_id, conversation_id, payload_format, content, '' @
        ''message_type, status, created_at_ms, updated_at_ms) VALUES (''),
      Txt (num64 (mg_messageId r)), Txt '', '', Quoted (mg_clientMsgId r), Txt '', '', Quoted (mg_fromUserId r),
      Txt '', '', Quoted (mg_toUserId r), Txt '', '', Quoted (mg_conversationId r), Txt '', '',
      Txt (num32 (mg_payloadFormat r)), Txt '', '', Quoted (mg_content r), Txt '', '', Quoted (mg_messageType r),
      Txt '', '', Txt (num8 (mg_status r)), Txt '', '', Txt (show_int (mg_createdAtMs r)), Txt '', '',
      Txt (show_int (mg_updatedAtMs r)), Txt '')'']"
| "statement_parts (FindMessage i) =
     [Txt (''SELECT '' @ message_columns @ '' FROM im_message WHERE id=''), Txt (num64 i), Txt '' LIMIT 1'']"
| "statement_parts (FindBySenderClient sender client) =
     [Txt (''SELECT '' @ message_columns @ '' FROM im_message WHERE from_user_id=''), Quoted sender,
      Txt '' AND client_msg_id='', Quoted client, Txt '' LIMIT 1'']"
| "statement_parts MaxMessageId = [Txt ''SELECT COALESCE(MAX(id), 0) AS max_id FROM im_message'']"
| "statement_parts (CreateDelivery r) =
     [Txt (''INSERT INTO im_message_delivery ('' @ delivery_columns @ '') VALUES (''),
      Txt (num64 (dr_messageId r)), Txt '', '', Quoted (dr_receiverUserId r), Txt '', '',
      Txt (num64 (dr_serverSeq r)), Txt '', '', Txt (num8 (dr_status r)), Txt '', '', Txt (num32 (dr_retryCount r)),
      Txt '', '', Quoted (dr_lastError r), Txt '', '', Txt (show_int (dr_deliveredAtMs r)), Txt '', '',
      Txt (show_int (dr_ackedAtMs r)), Txt '', '', Txt (show_int (dr_createdAtMs r)), Txt '', '',
      Txt (show_int (dr_updatedAtMs r)), Txt '')'']"
| "statement_parts (UpdateDelivery i receiver status retry delivered acked now) =
     [Txt ''UPDATE im_message_delivery SET '', Txt ''status='', Txt (num8 status), Txt '', '',
      Txt ''retry_count='', Txt (num32 retry), Txt '', '', Txt ''delivered_at_ms='', Txt (show_int delivered), Txt '', '',
      Txt ''acked_at_ms='', Txt (show_int acked), Txt '', '', Txt ''updated_at_ms='', Txt (show_int now), Txt '' '',
      Txt ''WHERE message_id='', Txt (num64 i), Txt '' AND receiver_user_id='', Quoted receiver]"
| "statement_parts (FindDelivery i receiver) =
     [Txt (''SELECT '' @ delivery_columns @ '' FROM im_message_delivery WHERE message_id=''), Txt (num64 i),
      Txt '' AND receiver_user_id='', Quoted receiver, Txt '' LIMIT 1'']"
| "statement_parts (ListPending receiver afterSeq limit) =
     [Txt (''SELECT '' @ delivery_columns @ '' FROM im_message_delivery WHERE receiver_user_id=''), Quoted receiver,
      Txt '' '', Txt ''AND server_seq > '', Txt (num64 afterSeq), Txt '' '', Txt ''AND status IN ('',
      Txt (num8 (delivery_value DeliveryPersisted)), Txt '', '', Txt (num8 (delivery_value DeliveryDelivering)),
      Txt '') '', Txt ''ORDER BY server_seq ASC LIMIT '', Txt (num64 limit)]"
| "statement_parts (MaxServerSeq receiver) =
     [Txt (''SELECT COALESCE(MAX(server_seq), 0) AS max_server_seq '' @
        ''FROM im_message_delivery WHERE receiver_user_id=''), Quoted receiver]"
| "statement_parts (LastAckedSeq receiver) =
     [Txt (''SELECT COALESCE(MAX(server_seq), 0) AS last_acked_seq '' @
        ''FROM im_message_delivery WHERE receiver_user_id=''), Quoted receiver, Txt '' '',
      Txt ''AND status IN ('', Txt (num8 (delivery_value DeliveryDelivered)), Txt '', '',
      Txt (num8 (delivery_value DeliveryRead)), Txt '')'']"
| "statement_parts (AppendAckLog i receiver sq code acked) =
     [Txt (''INSERT INTO im_message_ack_log '' @
        ''(message_id, receiver_user_id, server_seq, ack_code, acked_at_ms) VALUES (''),
      Txt (num64 i), Txt '', '', Quoted receiver, Txt '', '', Txt (num64 sq), Txt '', '', Txt (num32 code), Txt '', '',
      Txt (show_int acked), Txt '')'']"

section \<open>Operations\<close>

text \<open>Every writing operation is \<open>execute_statement\<close>, every reading one \<open>query_statement\<close>; both give \<open>errorMsg\<close>.\<close>

definition execute_statement ::
    "('h, 'w) mysql_lib \<Rightarrow> statement \<Rightarrow> 'h MySqlClient \<times> 'w \<Rightarrow> bool \<times> string \<times> 'h MySqlClient \<times> 'w" where
  "execute_statement lib st cw =
     (let (sql, cw) = sql_text lib (statement_parts st) cw; (ok, c, w) = execute lib sql cw in
      if \<not> ok then (False, mc_lastError c, c, w) else (True, [], c, w))"

definition query_statement ::
    "('h, 'w) mysql_lib \<Rightarrow> statement \<Rightarrow> 'h MySqlClient \<times> 'w \<Rightarrow> bool \<times> Row list \<times> string \<times> 'h MySqlClient \<times> 'w" where
  "query_statement lib st cw =
     (let (sql, cw) = sql_text lib (statement_parts st) cw; (ok, rows, c, w) = query lib sql cw in
      if \<not> ok then (False, [], mc_lastError c, c, w) else (True, rows, [], c, w))"

definition first_record ::
    "('h, 'w) mysql_lib \<Rightarrow> (Row \<Rightarrow> 'r option) \<Rightarrow> statement \<Rightarrow> 'h MySqlClient \<times> 'w \<Rightarrow>
     ('r option \<times> string \<times> 'h MySqlClient \<times> 'w) option" where
  "first_record lib build st cw =
     (let (ok, rows, err, cw) = query_statement lib st cw in
      if \<not> ok then Some (None, err, cw)
      else (case rows of
        [] \<Rightarrow> Some (None, [], cw)
      | row # _ \<Rightarrow> do { r \<leftarrow> build row; Some (Some r, [], cw) }))"

definition first_number ::
    "('h, 'w) mysql_lib \<Rightarrow> string \<Rightarrow> statement \<Rightarrow> 'h MySqlClient \<times> 'w \<Rightarrow>
     (u64 \<times> string \<times> 'h MySqlClient \<times> 'w) option" where
  "first_number lib column st cw =
     (let (ok, rows, err, cw) = query_statement lib st cw in
      if \<not> ok then Some (0, err, cw)
      else (case rows of
        [] \<Rightarrow> Some (0, [], cw)
      | row # _ \<Rightarrow> do { n \<leftarrow> ToUint64 row column; Some (n, [], cw) }))"

subsection \<open>Sessions\<close>

definition createSession where
  "createSession lib r = execute_statement lib (CreateSession r)"

definition deleteSession where
  "deleteSession lib sessionId = execute_statement lib (DeleteSession sessionId)"

definition findBySessionId where
  "findBySessionId lib sessionId = first_record lib BuildSessionRecord (FindSession sessionId)"

definition updateLastAckedSeq where
  "updateLastAckedSeq lib sessionId n = execute_statement lib (UpdateAckedBySession sessionId n)"

definition updateLastAckedSeqByUser where
  "updateLastAckedSeqByUser lib userId n = execute_statement lib (UpdateAckedByUser userId n)"

subsection \<open>Messages\<close>

definition createMessage where
  "createMessage lib r = execute_statement lib (CreateMessage r)"

definition findByMessageId where
  "findByMessageId lib i = first_record lib BuildMessageRecord (FindMessage i)"

definition findBySenderClientMsgId where
  "findBySenderClientMsgId lib sender client =
     first_record lib BuildMessageRecord (FindBySenderClient sender client)"

definition getMaxMessageId where
  "getMaxMessageId lib = first_number lib ''max_id'' MaxMessageId"

subsection \<open>Deliveries\<close>

definition createDelivery where
  "createDelivery lib r = execute_statement lib (CreateDelivery r)"

definition updateDeliveryStatus where
  "updateDeliveryStatus lib now i receiver status retry delivered acked =
     execute_statement lib (UpdateDelivery i receiver status retry delivered acked now)"

definition findByMessageAndReceiver where
  "findByMessageAndReceiver lib i receiver = first_record lib BuildDeliveryRecord (FindDelivery i receiver)"

primrec build_all :: "Row list \<Rightarrow> DeliveryRecord list option" where
  "build_all [] = Some []"
| "build_all (row # rows) = do { r \<leftarrow> BuildDeliveryRecord row; rs \<leftarrow> build_all rows; Some (r # rs) }"

definition listPendingByReceiver ::
    "('h, 'w) mysql_lib \<Rightarrow> string \<Rightarrow> u64 \<Rightarrow> u64 \<Rightarrow> 'h MySqlClient \<times> 'w \<Rightarrow>
     (DeliveryRecord list \<times> string \<times> 'h MySqlClient \<times> 'w) option" where
  "listPendingByReceiver lib receiver afterSeq limit cw =
     (let (ok, rows, err, cw) = query_statement lib (ListPending receiver afterSeq limit) cw in
      if \<not> ok then Some ([], err, cw)
      else do { rs \<leftarrow> build_all rows; Some (rs, [], cw) })"

definition getMaxServerSeq where
  "getMaxServerSeq lib receiver = first_number lib ''max_server_seq'' (MaxServerSeq receiver)"

definition getLastAckedSeq where
  "getLastAckedSeq lib receiver = first_number lib ''last_acked_seq'' (LastAckedSeq receiver)"

definition appendAckLog where
  "appendAckLog lib i receiver sq code acked = execute_statement lib (AppendAckLog i receiver sq code acked)"

section \<open>No value becomes part of a statement\<close>

text \<open>The texts of a statement in their order, and the statement with all of them empty.\<close>

fun statement_values :: "statement \<Rightarrow> string list" where
  "statement_values (CreateSession r) = [sr_sessionId r, sr_userId r, sr_deviceId r, sr_serverNodeId r]"
| "statement_values (DeleteSession sid) = [sid]"
| "statement_values (FindSession sid) = [sid]"
| "statement_values (UpdateAckedBySession sid n) = [sid]"
| "statement_values (UpdateAckedByUser uid n) = [uid]"
| "statement_values (CreateMessage r) =
     [mg_clientMsgId r, mg_fromUserId r, mg_toUserId r, mg_conversationId r, mg_content r, mg_messageType r]"
| "statement_values (FindBySenderClient sender client) = [sender, client]"
| "statement_values (CreateDelivery r) = [dr_receiverUserId r, dr_lastError r]"
| "statement_values (UpdateDelivery i receiver _ _ _ _ _) = [receiver]"
| "statement_values (FindDelivery i receiver) = [receiver]"
| "statement_values (ListPending receiver _ _) = [receiver]"
| "statement_values (MaxServerSeq receiver) = [receiver]"
| "statement_values (LastAckedSeq receiver) = [receiver]"
| "statement_values (AppendAckLog i receiver _ _ _) = [receiver]"
| "statement_values _ = []"

fun blank :: "statement \<Rightarrow> statement" where
  "blank (CreateSession r) =
     CreateSession (r\<lparr>sr_sessionId := [], sr_userId := [], sr_deviceId := [], sr_serverNodeId := []\<rparr>)"
| "blank (DeleteSession sid) = DeleteSession []"
| "blank (FindSession sid) = FindSession []"
| "blank (UpdateAckedBySession sid n) = UpdateAckedBySession [] n"
| "blank (UpdateAckedByUser uid n) = UpdateAckedByUser [] n"
| "blank (CreateMessage r) =
     CreateMessage (r\<lparr>mg_clientMsgId := [], mg_fromUserId := [], mg_toUserId := [], mg_conversationId := [],
       mg_content := [], mg_messageType := []\<rparr>)"
| "blank (FindBySenderClient sender client) = FindBySenderClient [] []"
| "blank (CreateDelivery r) = CreateDelivery (r\<lparr>dr_receiverUserId := [], dr_lastError := []\<rparr>)"
| "blank (UpdateDelivery i receiver s r d a n) = UpdateDelivery i [] s r d a n"
| "blank (FindDelivery i receiver) = FindDelivery i []"
| "blank (ListPending receiver a l) = ListPending [] a l"
| "blank (MaxServerSeq receiver) = MaxServerSeq []"
| "blank (LastAckedSeq receiver) = LastAckedSeq []"
| "blank (AppendAckLog i receiver s c a) = AppendAckLog i [] s c a"
| "blank st = st"

lemma dec_plain [simp]: "CHR 0x27 \<notin> set (dec n)" "CHR 0x00 \<notin> set (dec n)"
  using digit_chars(2) [of "CHR 0x27" n] digit_chars(2) [of "CHR 0x00" n] by auto

lemma show_int_text [simp]: "show_int i \<noteq> []" "CHR 0x27 \<notin> set (show_int i)" "CHR 0x00 \<notin> set (show_int i)"
  by (simp_all add: show_int_def)

lemma columns_text [simp]:
  "CHR 0x27 \<notin> set message_columns" "CHR 0x27 \<notin> set delivery_columns"
  "CHR 0x00 \<notin> set message_columns" "CHR 0x00 \<notin> set delivery_columns"
  by (simp_all add: message_columns_def delivery_columns_def)

lemma statement_parts_ok: "parts_ok False (statement_parts st)"
  by (cases st) simp_all

lemma statement_literals: "literals (statement_parts st) = statement_values st"
  by (cases st) simp_all

lemma statement_skeleton_blank: "skeleton (statement_parts (blank st)) = skeleton (statement_parts st)"
  by (cases st) simp_all

lemma statement_no_zero:
  "list_all (\<lambda>p. case p of Txt t \<Rightarrow> CHR 0x00 \<notin> set t | Quoted _ \<Rightarrow> True) (statement_parts st)"
  by (cases st) simp_all

text \<open>The one statement an operation sends, and what it makes of the answer.\<close>

lemma statement_sent:
  assumes "escape_law lib" "mc_impl c = Some h"
  shows "\<exists>sql. sql_scan sql = Some (skeleton (statement_parts (blank st)), statement_values st) \<and> c_str sql = sql \<and>
    execute_statement lib st (c, w) =
      (case ml_query lib h sql w of
         (True, w') \<Rightarrow> (True, [], c\<lparr>mc_lastError := []\<rparr>, w')
       | (False, w') \<Rightarrow> (False, ml_error lib h w', c\<lparr>mc_lastError := ml_error lib h w'\<rparr>, w')) \<and>
    query_statement lib st (c, w) =
      (case query lib sql (c, w) of
         (ok, rows, c', w') \<Rightarrow> if ok then (True, rows, [], c', w') else (False, [], mc_lastError c', c', w'))"
proof -
  define sql where "sql = fst (sql_text lib (statement_parts st) (c, w))"
  have built: "sql_text lib (statement_parts st) (c, w) = (sql, c, w)"
    using sql_text_connected [OF assms(2), of lib "statement_parts st" w] by (simp add: sql_def prod_eq_iff)
  have plain: "c_str sql = sql"
    unfolding sql_def by (intro c_str_id sql_text_no_zero [OF assms statement_no_zero])
  have "sql_scan sql = Some (skeleton (statement_parts (blank st)), statement_values st)"
    unfolding sql_def using assms
    by (simp add: sql_scan_text statement_parts_ok connected_def statement_literals statement_skeleton_blank)
  then show ?thesis
    using assms(2) by (intro exI [of _ sql])
      (simp add: execute_statement_def query_statement_def built execute_def setLastError_def plain split_beta
        split: bool.splits)
qed

text \<open>
  Claim C24 (sql_no_injection). With an escaping function that behaves as documented, the one statement
  that any operation of the three repositories sends over a ready connection, read by MySQL's rules for
  literals, has as its literals exactly the texts of the record, unchanged and in order, and around
  them a text that does not depend on them: whatever a client puts into an id or a message, it cannot
  change the statement. The outcome is reported with the server's error text.
\<close>

theorem sql_no_injection:
  assumes "escape_law lib" "mc_impl c = Some h"
  shows "\<exists>sql. sql_scan sql = Some (skeleton (statement_parts (blank st)), statement_values st) \<and>
    execute_statement lib st (c, w) =
      (case ml_query lib h sql w of
         (True, w') \<Rightarrow> (True, [], c\<lparr>mc_lastError := []\<rparr>, w')
       | (False, w') \<Rightarrow> (False, ml_error lib h w', c\<lparr>mc_lastError := ml_error lib h w'\<rparr>, w')) \<and>
    query_statement lib st (c, w) =
      (case query lib sql (c, w) of
         (ok, rows, c', w') \<Rightarrow> if ok then (True, rows, [], c', w') else (False, [], mc_lastError c', c', w'))"
  using statement_sent [OF assms, of st w] by blast

text \<open>An escaping function that behaves as documented: the local one, with zero bytes written as \<open>\0\<close>.\<close>

definition full_escape :: "string \<Rightarrow> string" where
  "full_escape v =
     concat (map (\<lambda>ch. if ch = CHR 0x00 then [CHR 0x5C, CHR ''0''] else escape_local [ch]) v)"

definition deaf_server :: "(unit, string list) mysql_lib" where
  "deaf_server =
     \<lparr>ml_init = (\<lambda>w. (Some (), w)), ml_connect_timeout = (\<lambda>_ _ w. w), ml_real_connect = (\<lambda>_ _ _ _ _ _ w. (True, w)),
      ml_error = (\<lambda>_ _. []), ml_close = (\<lambda>_ w. w), ml_query = (\<lambda>_ sql w. (True, w @ [sql])),
      ml_store_result = (\<lambda>_ w. (None, w)), ml_field_count = (\<lambda>_ _. 0),
      ml_real_escape_string = (\<lambda>_ v _. full_escape v)\<rparr>"

lemma full_escape_reads: "reads_as (full_escape v) v" "CHR 0x00 \<notin> set (full_escape v)"
proof -
  have "foldl scan_char (Inside, sk, ls, l) (full_escape v) = (Inside, sk, ls, l @ v)" for sk ls l
    by (induction v arbitrary: l) (auto simp: full_escape_def escape_local_def unescape_char_def)
  then show "reads_as (full_escape v) v" by (simp add: reads_as_def)
  show "CHR 0x00 \<notin> set (full_escape v)" by (auto simp: full_escape_def escape_local_def)
qed

lemma deaf_server_escapes: "escape_law deaf_server"
  by (simp add: escape_law_def deaf_server_def full_escape_reads)

theorem sql_no_injection_witness:
  "\<exists>sql. sql_scan sql = Some (''DELETE FROM im_session WHERE session_id=?'', [[CHR 0x27] @ '' OR 1=1'']) \<and>
     execute_statement deaf_server (DeleteSession ([CHR 0x27] @ '' OR 1=1'')) (\<lparr>mc_impl = Some (), mc_lastError = []\<rparr>, []) =
       (True, [], \<lparr>mc_impl = Some (), mc_lastError = []\<rparr>, [sql])"
  using sql_no_injection [OF deaf_server_escapes, of "\<lparr>mc_impl = Some (), mc_lastError = []\<rparr>" "()"
      "DeleteSession ([CHR 0x27] @ '' OR 1=1'')" "[]"]
  by (auto simp: deaf_server_def)

end
