(* ===== verification/Serializer.thy ===== *)
theory Serializer
  imports Protocol "HOL-Library.Monad_Syntax"
begin

text \<open>
  \<open>src/codec/messageSerializer.cpp\<close>: the JSON text of every message. The JSON library (nlohmann/json)
  is not part of the sources: it is the argument \<open>lib\<close>, a record of the operations the code calls, and
  \<open>json_laws\<close> states what its documentation promises of them. \<open>None\<close> is an exception of the library;
  \<open>Deserialize\<close> catches every exception and returns \<open>false\<close>, which is \<open>None\<close> here too, and its message
  argument is the value the out-parameter has before the call (fields the text may omit keep it).
\<close>

section \<open>The library's interface\<close>

text \<open>
  \<open>'j\<close> are the library's values and \<open>'t\<close> the texts it reads and writes. \<open>jl_obj\<close> is the object that
  assignments \<open>j["k"] = v\<close> to distinct keys build, \<open>jl_at\<close> is \<open>operator[]\<close>, \<open>jl_items\<close> the range of a
  loop over a value.
\<close>

record ('j, 't) json_lib =
  jl_obj :: "(string \<times> 'j) list \<Rightarrow> 'j"
  jl_arr :: "'j list \<Rightarrow> 'j"
  jl_str :: "string \<Rightarrow> 'j"
  jl_num :: "int \<Rightarrow> 'j"
  jl_bool :: "bool \<Rightarrow> 'j"
  jl_is_object :: "'j \<Rightarrow> bool"
  jl_contains :: "'j \<Rightarrow> string \<Rightarrow> bool"
  jl_at :: "'j \<Rightarrow> string \<Rightarrow> 'j option"
  jl_items :: "'j \<Rightarrow> 'j list"
  jl_get_str :: "'j \<Rightarrow> string option"
  jl_get_u32 :: "'j \<Rightarrow> u32 option"
  jl_get_u64 :: "'j \<Rightarrow> u64 option"
  jl_get_i64 :: "'j \<Rightarrow> int option"
  jl_get_bool :: "'j \<Rightarrow> bool option"
  jl_dump :: "'j \<Rightarrow> 't option"
  jl_parse :: "'t \<Rightarrow> 'j option"

text \<open>The documented behaviour the serialiser relies on.\<close>

definition json_laws :: "('j, 't) json_lib \<Rightarrow> bool" where
  "json_laws lib \<longleftrightarrow>
     (\<forall>j t. jl_dump lib j = Some t \<longrightarrow> jl_parse lib t = Some j) \<and>
     (\<forall>kvs. jl_is_object lib (jl_obj lib kvs)) \<and>
     (\<forall>kvs k. jl_contains lib (jl_obj lib kvs) k \<longleftrightarrow> map_of kvs k \<noteq> None) \<and>
     (\<forall>kvs k v. map_of kvs k = Some v \<longrightarrow> jl_at lib (jl_obj lib kvs) k = Some v) \<and>
     (\<forall>xs. jl_items lib (jl_arr lib xs) = xs) \<and>
     (\<forall>s. jl_get_str lib (jl_str lib s) = Some s) \<and>
     (\<forall>x. jl_get_u32 lib (jl_num lib (uint x)) = Some x) \<and>
     (\<forall>x. jl_get_u64 lib (jl_num lib (uint x)) = Some x) \<and>
     (\<forall>i. jl_get_i64 lib (jl_num lib i) = Some i) \<and>
     (\<forall>b. jl_get_bool lib (jl_bool lib b) = Some b)"

text \<open>\<open>j["k"].get<T>()\<close>, and \<open>j.value("k", d)\<close>, which throws when \<open>j\<close> is not an object.\<close>

definition get_field :: "('j, 't) json_lib \<Rightarrow> ('j \<Rightarrow> 'a option) \<Rightarrow> 'j \<Rightarrow> string \<Rightarrow> 'a option" where
  "get_field lib get j k = Option.bind (jl_at lib j k) get"

definition value_field :: "('j, 't) json_lib \<Rightarrow> ('j \<Rightarrow> 'a option) \<Rightarrow> 'j \<Rightarrow> string \<Rightarrow> 'a \<Rightarrow> 'a option" where
  "value_field lib get j k d =
     (if \<not> jl_is_object lib j then None
      else if jl_contains lib j k then get_field lib get j k else Some d)"

text \<open>\<open>if (j.contains("k")) x = j["k"].get<T>();\<close> with \<open>x\<close> as it was before.\<close>

definition contains_field :: "('j, 't) json_lib \<Rightarrow> ('j \<Rightarrow> 'a option) \<Rightarrow> 'j \<Rightarrow> string \<Rightarrow> 'a \<Rightarrow> 'a option" where
  "contains_field lib get j k old =
     (if jl_contains lib j k then get_field lib get j k else Some old)"

lemma json_fields:
  assumes "json_laws lib"
  shows "jl_dump lib j = Some t \<Longrightarrow> jl_parse lib t = Some j"
    and "map_of kvs k = Some v \<Longrightarrow> get_field lib get (jl_obj lib kvs) k = get v"
    and "map_of kvs k = Some v \<Longrightarrow> value_field lib get (jl_obj lib kvs) k d = get v"
    and "map_of kvs k = Some v \<Longrightarrow> contains_field lib get (jl_obj lib kvs) k d = get v"
    and "jl_get_str lib (jl_str lib s) = Some s" "jl_get_u32 lib (jl_num lib (uint x)) = Some x"
    and "jl_get_u64 lib (jl_num lib (uint y)) = Some y" "jl_get_i64 lib (jl_num lib i) = Some i"
    and "jl_get_bool lib (jl_bool lib b) = Some b"
    and "jl_items lib (jl_arr lib xs) = xs" "map_of kvs k = Some v \<Longrightarrow> jl_contains lib (jl_obj lib kvs) k"
    and "map_of kvs k = Some v \<Longrightarrow> jl_at lib (jl_obj lib kvs) k = Some v"
  using assms
  by (auto simp: json_laws_def get_field_def value_field_def contains_field_def)

section \<open>Messages\<close>

text \<open>The request without fields: a constant text, and every text is accepted.\<close>

definition Serialize_HeartbeatReq :: string where
  "Serialize_HeartbeatReq = ''{}''"

definition Deserialize_HeartbeatReq :: "string \<Rightarrow> bool" where
  "Deserialize_HeartbeatReq data = True"

definition Serialize_LoginReq :: "('j, 't) json_lib \<Rightarrow> LoginReq \<Rightarrow> 't option" where
  "Serialize_LoginReq lib msg =
     jl_dump lib (jl_obj lib
       [(''user_id'', jl_str lib (lreq_userId msg)),
        (''token'', jl_str lib (lreq_token msg)),
        (''device_id'', jl_str lib (lreq_deviceId msg))])"

definition Deserialize_LoginReq :: "('j, 't) json_lib \<Rightarrow> 't \<Rightarrow> LoginReq \<Rightarrow> LoginReq option" where
  "Deserialize_LoginReq lib data msg =
     do {
       j \<leftarrow> jl_parse lib data;
       userId \<leftarrow> get_field lib (jl_get_str lib) j ''user_id'';
       token \<leftarrow> get_field lib (jl_get_str lib) j ''token'';
       deviceId \<leftarrow> contains_field lib (jl_get_str lib) j ''device_id'' (lreq_deviceId msg);
       Some \<lparr>lreq_userId = userId, lreq_token = token, lreq_deviceId = deviceId\<rparr>
     }"

definition Serialize_LoginResp :: "('j, 't) json_lib \<Rightarrow> LoginResp \<Rightarrow> 't option" where
  "Serialize_LoginResp lib msg =
     jl_dump lib (jl_obj lib
       [(''result_code'', jl_num lib (uint (lresp_resultCode msg))),
        (''result_msg'', jl_str lib (lresp_resultMsg msg)),
        (''session_id'', jl_str lib (lresp_sessionId msg))])"

definition Deserialize_LoginResp :: "('j, 't) json_lib \<Rightarrow> 't \<Rightarrow> LoginResp \<Rightarrow> LoginResp option" where
  "Deserialize_LoginResp lib data msg =
     do {
       j \<leftarrow> jl_parse lib data;
       resultCode \<leftarrow> get_field lib (jl_get_u32 lib) j ''result_code'';
       resultMsg \<leftarrow> get_field lib (jl_get_str lib) j ''result_msg'';
       sessionId \<leftarrow> contains_field lib (jl_get_str lib) j ''session_id'' (lresp_sessionId msg);
       Some \<lparr>lresp_resultCode = resultCode, lresp_resultMsg = resultMsg, lresp_sessionId = sessionId\<rparr>
     }"

definition Serialize_HeartbeatResp :: "('j, 't) json_lib \<Rightarrow> HeartbeatResp \<Rightarrow> 't option" where
  "Serialize_HeartbeatResp lib msg =
     jl_dump lib (jl_obj lib
       [(''server_time'', jl_num lib (hresp_serverTime msg))])"

definition Deserialize_HeartbeatResp :: "('j, 't) json_lib \<Rightarrow> 't \<Rightarrow> HeartbeatResp option" where
  "Deserialize_HeartbeatResp lib data =
     do {
       j \<leftarrow> jl_parse lib data;
       serverTime \<leftarrow> get_field lib (jl_get_i64 lib) j ''server_time'';
       Some \<lparr>hresp_serverTime = serverTime\<rparr>
     }"

definition Serialize_P2PMsgReq :: "('j, 't) json_lib \<Rightarrow> P2PMsgReq \<Rightarrow> 't option" where
  "Serialize_P2PMsgReq lib msg =
     jl_dump lib (jl_obj lib
       [(''from_user_id'', jl_str lib (preq_fromUserId msg)),
        (''to_user_id'', jl_str lib (preq_toUserId msg)),
        (''client_msg_id'', jl_str lib (preq_clientMsgId msg)),
        (''content'', jl_str lib (preq_content msg))])"

definition Deserialize_P2PMsgReq :: "('j, 't) json_lib \<Rightarrow> 't \<Rightarrow> P2PMsgReq option" where
  "Deserialize_P2PMsgReq lib data =
     do {
       j \<leftarrow> jl_parse lib data;
       fromUserId \<leftarrow> get_field lib (jl_get_str lib) j ''from_user_id'';
       toUserId \<leftarrow> get_field lib (jl_get_str lib) j ''to_user_id'';
       clientMsgId \<leftarrow> value_field lib (jl_get_str lib) j ''client_msg_id'' [];
       body \<leftarrow> get_field lib (jl_get_str lib) j ''content'';
       Some \<lparr>preq_fromUserId = fromUserId, preq_toUserId = toUserId, preq_clientMsgId = clientMsgId, preq_content = body\<rparr>
     }"

definition Serialize_P2PMsgResp :: "('j, 't) json_lib \<Rightarrow> P2PMsgResp \<Rightarrow> 't option" where
  "Serialize_P2PMsgResp lib msg =
     jl_dump lib (jl_obj lib
       [(''result_code'', jl_num lib (uint (presp_resultCode msg))),
        (''result_msg'', jl_str lib (presp_resultMsg msg)),
        (''msg_id'', jl_num lib (uint (presp_msgId msg))),
        (''server_seq'', jl_num lib (uint (presp_serverSeq msg)))])"

definition Deserialize_P2PMsgResp :: "('j, 't) json_lib \<Rightarrow> 't \<Rightarrow> P2PMsgResp option" where
  "Deserialize_P2PMsgResp lib data =
     do {
       j \<leftarrow> jl_parse lib data;
       resultCode \<leftarrow> get_field lib (jl_get_u32 lib) j ''result_code'';
       resultMsg \<leftarrow> get_field lib (jl_get_str lib) j ''result_msg'';
       msgId \<leftarrow> get_field lib (jl_get_u64 lib) j ''msg_id'';
       serverSeq \<leftarrow> value_field lib (jl_get_u64 lib) j ''server_seq'' 0;
       Some \<lparr>presp_resultCode = resultCode, presp_resultMsg = resultMsg, presp_msgId = msgId, presp_serverSeq = serverSeq\<rparr>
     }"

definition Serialize_P2PMsgNotify :: "('j, 't) json_lib \<Rightarrow> P2PMsgNotify \<Rightarrow> 't option" where
  "Serialize_P2PMsgNotify lib msg =
     jl_dump lib (jl_obj lib
       [(''msg_id'', jl_num lib (uint (n_msgId msg))),
        (''server_seq'', jl_num lib (uint (n_serverSeq msg))),
        (''from_user_id'', jl_str lib (n_fromUserId msg)),
        (''to_user_id'', jl_str lib (n_toUserId msg)),
        (''client_msg_id'', jl_str lib (n_clientMsgId msg)),
        (''content'', jl_str lib (n_content msg)),
        (''timestamp'', jl_num lib (n_timestamp msg))])"

definition Deserialize_P2PMsgNotify :: "('j, 't) json_lib \<Rightarrow> 't \<Rightarrow> P2PMsgNotify option" where
  "Deserialize_P2PMsgNotify lib data =
     do {
       j \<leftarrow> jl_parse lib data;
       msgId \<leftarrow> get_field lib (jl_get_u64 lib) j ''msg_id'';
       serverSeq \<leftarrow> get_field lib (jl_get_u64 lib) j ''server_seq'';
       fromUserId \<leftarrow> get_field lib (jl_get_str lib) j ''from_user_id'';
       toUserId \<leftarrow> get_field lib (jl_get_str lib) j ''to_user_id'';
       clientMsgId \<leftarrow> value_field lib (jl_get_str lib) j ''client_msg_id'' [];
       body \<leftarrow> get_field lib (jl_get_str lib) j ''content'';
       timestamp \<leftarrow> get_field lib (jl_get_i64 lib) j ''timestamp'';
       Some \<lparr>n_msgId = msgId, n_serverSeq = serverSeq, n_fromUserId = fromUserId, n_toUserId = toUserId, n_clientMsgId = clientMsgId, n_content = body, n_timestamp = timestamp\<rparr>
     }"

definition Serialize_BroadcastMsgReq :: "('j, 't) json_lib \<Rightarrow> BroadcastMsgReq \<Rightarrow> 't option" where
  "Serialize_BroadcastMsgReq lib msg =
     jl_dump lib (jl_obj lib
       [(''from_user_id'', jl_str lib (breq_fromUserId msg)),
        (''content'', jl_str lib (breq_content msg))])"

definition Deserialize_BroadcastMsgReq :: "('j, 't) json_lib \<Rightarrow> 't \<Rightarrow> BroadcastMsgReq option" where
  "Deserialize_BroadcastMsgReq lib data =
     do {
       j \<leftarrow> jl_parse lib data;
       fromUserId \<leftarrow> get_field lib (jl_get_str lib) j ''from_user_id'';
       body \<leftarrow> get_field lib (jl_get_str lib) j ''content'';
       Some \<lparr>breq_fromUserId = fromUserId, breq_content = body\<rparr>
     }"

definition Serialize_BroadcastMsgNotify :: "('j, 't) json_lib \<Rightarrow> BroadcastMsgNotify \<Rightarrow> 't option" where
  "Serialize_BroadcastMsgNotify lib msg =
     jl_dump lib (jl_obj lib
       [(''from_user_id'', jl_str lib (bnot_fromUserId msg)),
        (''content'', jl_str lib (bnot_content msg)),
        (''timestamp'', jl_num lib (bnot_timestamp msg))])"

definition Deserialize_BroadcastMsgNotify :: "('j, 't) json_lib \<Rightarrow> 't \<Rightarrow> BroadcastMsgNotify option" where
  "Deserialize_BroadcastMsgNotify lib data =
     do {
       j \<leftarrow> jl_parse lib data;
       fromUserId \<leftarrow> get_field lib (jl_get_str lib) j ''from_user_id'';
       body \<leftarrow> get_field lib (jl_get_str lib) j ''content'';
       timestamp \<leftarrow> get_field lib (jl_get_i64 lib) j ''timestamp'';
       Some \<lparr>bnot_fromUserId = fromUserId, bnot_content = body, bnot_timestamp = timestamp\<rparr>
     }"

definition Serialize_KickUserReq :: "('j, 't) json_lib \<Rightarrow> KickUserReq \<Rightarrow> 't option" where
  "Serialize_KickUserReq lib msg =
     jl_dump lib (jl_obj lib
       [(''target_user_id'', jl_str lib (kreq_targetUserId msg)),
        (''reason'', jl_str lib (kreq_reason msg))])"

definition Deserialize_KickUserReq :: "('j, 't) json_lib \<Rightarrow> 't \<Rightarrow> KickUserReq option" where
  "Deserialize_KickUserReq lib data =
     do {
       j \<leftarrow> jl_parse lib data;
       targetUserId \<leftarrow> get_field lib (jl_get_str lib) j ''target_user_id'';
       reason \<leftarrow> get_field lib (jl_get_str lib) j ''reason'';
       Some \<lparr>kreq_targetUserId = targetUserId, kreq_reason = reason\<rparr>
     }"

definition Serialize_KickUserResp :: "('j, 't) json_lib \<Rightarrow> KickUserResp \<Rightarrow> 't option" where
  "Serialize_KickUserResp lib msg =
     jl_dump lib (jl_obj lib
       [(''result_code'', jl_num lib (uint (kresp_resultCode msg))),
        (''result_msg'', jl_str lib (kresp_resultMsg msg))])"

definition Deserialize_KickUserResp :: "('j, 't) json_lib \<Rightarrow> 't \<Rightarrow> KickUserResp option" where
  "Deserialize_KickUserResp lib data =
     do {
       j \<leftarrow> jl_parse lib data;
       resultCode \<leftarrow> get_field lib (jl_get_u32 lib) j ''result_code'';
       resultMsg \<leftarrow> get_field lib (jl_get_str lib) j ''result_msg'';
       Some \<lparr>kresp_resultCode = resultCode, kresp_resultMsg = resultMsg\<rparr>
     }"

definition Serialize_MessageAckReq :: "('j, 't) json_lib \<Rightarrow> MessageAckReq \<Rightarrow> 't option" where
  "Serialize_MessageAckReq lib msg =
     jl_dump lib (jl_obj lib
       [(''msg_id'', jl_num lib (uint (areq_msgId msg))),
        (''server_seq'', jl_num lib (uint (areq_serverSeq msg))),
        (''ack_code'', jl_num lib (uint (areq_ackCode msg)))])"

definition Deserialize_MessageAckReq :: "('j, 't) json_lib \<Rightarrow> 't \<Rightarrow> MessageAckReq option" where
  "Deserialize_MessageAckReq lib data =
     do {
       j \<leftarrow> jl_parse lib data;
       msgId \<leftarrow> get_field lib (jl_get_u64 lib) j ''msg_id'';
       serverSeq \<leftarrow> get_field lib (jl_get_u64 lib) j ''server_seq'';
       ackCode \<leftarrow> value_field lib (jl_get_u32 lib) j ''ack_code'' AckReceived;
       Some \<lparr>areq_msgId = msgId, areq_serverSeq = serverSeq, areq_ackCode = ackCode\<rparr>
     }"

definition Serialize_MessageAckResp :: "('j, 't) json_lib \<Rightarrow> MessageAckResp \<Rightarrow> 't option" where
  "Serialize_MessageAckResp lib msg =
     jl_dump lib (jl_obj lib
       [(''result_code'', jl_num lib (uint (aresp_resultCode msg))),
        (''result_msg'', jl_str lib (aresp_resultMsg msg)),
        (''server_seq'', jl_num lib (uint (aresp_serverSeq msg)))])"

definition Deserialize_MessageAckResp :: "('j, 't) json_lib \<Rightarrow> 't \<Rightarrow> MessageAckResp option" where
  "Deserialize_MessageAckResp lib data =
     do {
       j \<leftarrow> jl_parse lib data;
       resultCode \<leftarrow> get_field lib (jl_get_u32 lib) j ''result_code'';
       resultMsg \<leftarrow> get_field lib (jl_get_str lib) j ''result_msg'';
       serverSeq \<leftarrow> value_field lib (jl_get_u64 lib) j ''server_seq'' 0;
       Some \<lparr>aresp_resultCode = resultCode, aresp_resultMsg = resultMsg, aresp_serverSeq = serverSeq\<rparr>
     }"

definition Serialize_PullOfflineReq :: "('j, 't) json_lib \<Rightarrow> PullOfflineReq \<Rightarrow> 't option" where
  "Serialize_PullOfflineReq lib msg =
     jl_dump lib (jl_obj lib
       [(''user_id'', jl_str lib (oreq_userId msg)),
        (''last_acked_seq'', jl_num lib (uint (oreq_lastAckedSeq msg))),
        (''limit'', jl_num lib (uint (oreq_limit msg)))])"

definition Deserialize_PullOfflineReq :: "('j, 't) json_lib \<Rightarrow> 't \<Rightarrow> PullOfflineReq option" where
  "Deserialize_PullOfflineReq lib data =
     do {
       j \<leftarrow> jl_parse lib data;
       userId \<leftarrow> get_field lib (jl_get_str lib) j ''user_id'';
       lastAckedSeq \<leftarrow> value_field lib (jl_get_u64 lib) j ''last_acked_seq'' 0;
       limit \<leftarrow> value_field lib (jl_get_u32 lib) j ''limit'' 100;
       Some \<lparr>oreq_userId = userId, oreq_lastAckedSeq = lastAckedSeq, oreq_limit = limit\<rparr>
     }"

definition offline_json :: "('j, 't) json_lib \<Rightarrow> OfflineItem \<Rightarrow> 'j" where
  "offline_json lib item =
     jl_obj lib
       [(''msg_id'', jl_num lib (uint (oi_msgId item))),
        (''server_seq'', jl_num lib (uint (oi_serverSeq item))),
        (''from_user_id'', jl_str lib (oi_fromUserId item)),
        (''to_user_id'', jl_str lib (oi_toUserId item)),
        (''client_msg_id'', jl_str lib (oi_clientMsgId item)),
        (''content'', jl_str lib (oi_content item)),
        (''timestamp'', jl_num lib (oi_timestamp item))]"

definition Serialize_PullOfflineResp :: "('j, 't) json_lib \<Rightarrow> PullOfflineResp \<Rightarrow> 't option" where
  "Serialize_PullOfflineResp lib msg =
     jl_dump lib (jl_obj lib
       [(''result_code'', jl_num lib (uint (oresp_resultCode msg))),
        (''result_msg'', jl_str lib (oresp_resultMsg msg)),
        (''next_begin_seq'', jl_num lib (uint (oresp_nextBeginSeq msg))),
        (''messages'', jl_arr lib (map (offline_json lib) (oresp_messages msg)))])"

definition offline_of_json :: "('j, 't) json_lib \<Rightarrow> 'j \<Rightarrow> OfflineItem option" where
  "offline_of_json lib j =
     do {
       msgId \<leftarrow> get_field lib (jl_get_u64 lib) j ''msg_id'';
       serverSeq \<leftarrow> get_field lib (jl_get_u64 lib) j ''server_seq'';
       fromUserId \<leftarrow> get_field lib (jl_get_str lib) j ''from_user_id'';
       toUserId \<leftarrow> get_field lib (jl_get_str lib) j ''to_user_id'';
       clientMsgId \<leftarrow> value_field lib (jl_get_str lib) j ''client_msg_id'' [];
       body \<leftarrow> get_field lib (jl_get_str lib) j ''content'';
       timestamp \<leftarrow> get_field lib (jl_get_i64 lib) j ''timestamp'';
       Some \<lparr>oi_msgId = msgId, oi_serverSeq = serverSeq, oi_fromUserId = fromUserId, oi_toUserId = toUserId,
             oi_clientMsgId = clientMsgId, oi_content = body, oi_timestamp = timestamp\<rparr>
     }"

text \<open>The loop over the items; an item that throws ends it.\<close>

fun offline_items :: "('j, 't) json_lib \<Rightarrow> 'j list \<Rightarrow> OfflineItem list option" where
  "offline_items lib [] = Some []"
| "offline_items lib (j # js) =
     do { item \<leftarrow> offline_of_json lib j; items \<leftarrow> offline_items lib js; Some (item # items) }"

definition Deserialize_PullOfflineResp :: "('j, 't) json_lib \<Rightarrow> 't \<Rightarrow> PullOfflineResp option" where
  "Deserialize_PullOfflineResp lib data =
     do {
       j \<leftarrow> jl_parse lib data;
       resultCode \<leftarrow> get_field lib (jl_get_u32 lib) j ''result_code'';
       resultMsg \<leftarrow> get_field lib (jl_get_str lib) j ''result_msg'';
       nextBeginSeq \<leftarrow> value_field lib (jl_get_u64 lib) j ''next_begin_seq'' 0;
       messages \<leftarrow> (if jl_contains lib j ''messages''
                    then Option.bind (jl_at lib j ''messages'') (\<lambda>ms. offline_items lib (jl_items lib ms))
                    else Some []);
       Some \<lparr>oresp_resultCode = resultCode, oresp_resultMsg = resultMsg, oresp_nextBeginSeq = nextBeginSeq,
             oresp_messages = messages\<rparr>
     }"

section \<open>Round trips\<close>

lemma offline_item_roundtrip: "json_laws lib \<Longrightarrow> offline_of_json lib (offline_json lib item) = Some item"
  by (simp add: offline_of_json_def offline_json_def json_fields)

lemma offline_items_roundtrip:
  "json_laws lib \<Longrightarrow> offline_items lib (map (offline_json lib) items) = Some items"
  by (induction items) (simp_all add: offline_item_roundtrip)

lemma LoginReq_roundtrip:
  "json_laws lib \<Longrightarrow> Serialize_LoginReq lib msg = Some t \<Longrightarrow> Deserialize_LoginReq lib t old = Some msg"
  by (simp add: Serialize_LoginReq_def Deserialize_LoginReq_def json_fields)

lemma LoginResp_roundtrip:
  "json_laws lib \<Longrightarrow> Serialize_LoginResp lib msg = Some t \<Longrightarrow> Deserialize_LoginResp lib t old = Some msg"
  by (simp add: Serialize_LoginResp_def Deserialize_LoginResp_def json_fields)

lemma HeartbeatResp_roundtrip:
  "json_laws lib \<Longrightarrow> Serialize_HeartbeatResp lib msg = Some t \<Longrightarrow> Deserialize_HeartbeatResp lib t = Some msg"
  by (simp add: Serialize_HeartbeatResp_def Deserialize_HeartbeatResp_def json_fields)

lemma P2PMsgReq_roundtrip:
  "json_laws lib \<Longrightarrow> Serialize_P2PMsgReq lib msg = Some t \<Longrightarrow> Deserialize_P2PMsgReq lib t = Some msg"
  by (simp add: Serialize_P2PMsgReq_def Deserialize_P2PMsgReq_def json_fields)

lemma P2PMsgResp_roundtrip:
  "json_laws lib \<Longrightarrow> Serialize_P2PMsgResp lib msg = Some t \<Longrightarrow> Deserialize_P2PMsgResp lib t = Some msg"
  by (simp add: Serialize_P2PMsgResp_def Deserialize_P2PMsgResp_def json_fields)

lemma P2PMsgNotify_roundtrip:
  "json_laws lib \<Longrightarrow> Serialize_P2PMsgNotify lib msg = Some t \<Longrightarrow> Deserialize_P2PMsgNotify lib t = Some msg"
  by (simp add: Serialize_P2PMsgNotify_def Deserialize_P2PMsgNotify_def json_fields)

lemma BroadcastMsgReq_roundtrip:
  "json_laws lib \<Longrightarrow> Serialize_BroadcastMsgReq lib msg = Some t \<Longrightarrow> Deserialize_BroadcastMsgReq lib t = Some msg"
  by (simp add: Serialize_BroadcastMsgReq_def Deserialize_BroadcastMsgReq_def json_fields)

lemma BroadcastMsgNotify_roundtrip:
  "json_laws lib \<Longrightarrow> Serialize_BroadcastMsgNotify lib msg = Some t \<Longrightarrow> Deserialize_BroadcastMsgNotify lib t = Some msg"
  by (simp add: Serialize_BroadcastMsgNotify_def Deserialize_BroadcastMsgNotify_def json_fields)

lemma KickUserReq_roundtrip:
  "json_laws lib \<Longrightarrow> Serialize_KickUserReq lib msg = Some t \<Longrightarrow> Deserialize_KickUserReq lib t = Some msg"
  by (simp add: Serialize_KickUserReq_def Deserialize_KickUserReq_def json_fields)

lemma KickUserResp_roundtrip:
  "json_laws lib \<Longrightarrow> Serialize_KickUserResp lib msg = Some t \<Longrightarrow> Deserialize_KickUserResp lib t = Some msg"
  by (simp add: Serialize_KickUserResp_def Deserialize_KickUserResp_def json_fields)

lemma MessageAckReq_roundtrip:
  "json_laws lib \<Longrightarrow> Serialize_MessageAckReq lib msg = Some t \<Longrightarrow> Deserialize_MessageAckReq lib t = Some msg"
  by (simp add: Serialize_MessageAckReq_def Deserialize_MessageAckReq_def json_fields)

lemma MessageAckResp_roundtrip:
  "json_laws lib \<Longrightarrow> Serialize_MessageAckResp lib msg = Some t \<Longrightarrow> Deserialize_MessageAckResp lib t = Some msg"
  by (simp add: Serialize_MessageAckResp_def Deserialize_MessageAckResp_def json_fields)

lemma PullOfflineReq_roundtrip:
  "json_laws lib \<Longrightarrow> Serialize_PullOfflineReq lib msg = Some t \<Longrightarrow> Deserialize_PullOfflineReq lib t = Some msg"
  by (simp add: Serialize_PullOfflineReq_def Deserialize_PullOfflineReq_def json_fields)

lemma PullOfflineResp_roundtrip:
  "json_laws lib \<Longrightarrow> Serialize_PullOfflineResp lib msg = Some t \<Longrightarrow> Deserialize_PullOfflineResp lib t = Some msg"
  by (simp add: Serialize_PullOfflineResp_def Deserialize_PullOfflineResp_def json_fields
      offline_items_roundtrip)

lemmas roundtrips = LoginReq_roundtrip LoginResp_roundtrip HeartbeatResp_roundtrip P2PMsgReq_roundtrip P2PMsgResp_roundtrip P2PMsgNotify_roundtrip BroadcastMsgReq_roundtrip BroadcastMsgNotify_roundtrip KickUserReq_roundtrip KickUserResp_roundtrip MessageAckReq_roundtrip MessageAckResp_roundtrip PullOfflineReq_roundtrip PullOfflineResp_roundtrip

text \<open>
  Claim C16 (serializer_roundtrip). With a JSON library that behaves as documented, every message the
  serialiser writes is read back by the matching \<open>Deserialize\<close> as the same message, field by field,
  whatever the out-parameter held before: the keys and types the two sides use agree for all fourteen
  message types.
\<close>

theorem serializer_roundtrip:
  assumes "json_laws lib"
  shows "(\<forall>m t old. Serialize_LoginReq lib m = Some t \<longrightarrow> Deserialize_LoginReq lib t old = Some m) \<and>
    (\<forall>m t old. Serialize_LoginResp lib m = Some t \<longrightarrow> Deserialize_LoginResp lib t old = Some m) \<and>
    (\<forall>m t. Serialize_HeartbeatResp lib m = Some t \<longrightarrow> Deserialize_HeartbeatResp lib t = Some m) \<and>
    (\<forall>m t. Serialize_P2PMsgReq lib m = Some t \<longrightarrow> Deserialize_P2PMsgReq lib t = Some m) \<and>
    (\<forall>m t. Serialize_P2PMsgResp lib m = Some t \<longrightarrow> Deserialize_P2PMsgResp lib t = Some m) \<and>
    (\<forall>m t. Serialize_P2PMsgNotify lib m = Some t \<longrightarrow> Deserialize_P2PMsgNotify lib t = Some m) \<and>
    (\<forall>m t. Serialize_BroadcastMsgReq lib m = Some t \<longrightarrow> Deserialize_BroadcastMsgReq lib t = Some m) \<and>
    (\<forall>m t. Serialize_BroadcastMsgNotify lib m = Some t \<longrightarrow> Deserialize_BroadcastMsgNotify lib t = Some m) \<and>
    (\<forall>m t. Serialize_KickUserReq lib m = Some t \<longrightarrow> Deserialize_KickUserReq lib t = Some m) \<and>
    (\<forall>m t. Serialize_KickUserResp lib m = Some t \<longrightarrow> Deserialize_KickUserResp lib t = Some m) \<and>
    (\<forall>m t. Serialize_MessageAckReq lib m = Some t \<longrightarrow> Deserialize_MessageAckReq lib t = Some m) \<and>
    (\<forall>m t. Serialize_MessageAckResp lib m = Some t \<longrightarrow> Deserialize_MessageAckResp lib t = Some m) \<and>
    (\<forall>m t. Serialize_PullOfflineReq lib m = Some t \<longrightarrow> Deserialize_PullOfflineReq lib t = Some m) \<and>
    (\<forall>m t. Serialize_PullOfflineResp lib m = Some t \<longrightarrow> Deserialize_PullOfflineResp lib t = Some m)"
  using roundtrips [OF assms] by blast

text \<open>A concrete library for which the laws hold: JSON values as a datatype, texts being the values.\<close>

datatype jvalue = JStr string | JNum int | JBool bool | JArr "jvalue list" | JObj "(string \<times> jvalue) list"

definition tree_lib :: "(jvalue, jvalue) json_lib" where
  "tree_lib =
     \<lparr>jl_obj = JObj, jl_arr = JArr, jl_str = JStr, jl_num = JNum, jl_bool = JBool,
      jl_is_object = (\<lambda>j. case j of JObj _ \<Rightarrow> True | _ \<Rightarrow> False),
      jl_contains = (\<lambda>j k. case j of JObj kvs \<Rightarrow> map_of kvs k \<noteq> None | _ \<Rightarrow> False),
      jl_at = (\<lambda>j k. case j of JObj kvs \<Rightarrow> map_of kvs k | _ \<Rightarrow> None),
      jl_items = (\<lambda>j. case j of JArr xs \<Rightarrow> xs | _ \<Rightarrow> []),
      jl_get_str = (\<lambda>j. case j of JStr s \<Rightarrow> Some s | _ \<Rightarrow> None),
      jl_get_u32 = (\<lambda>j. case j of JNum i \<Rightarrow> Some (of_int i) | _ \<Rightarrow> None),
      jl_get_u64 = (\<lambda>j. case j of JNum i \<Rightarrow> Some (of_int i) | _ \<Rightarrow> None),
      jl_get_i64 = (\<lambda>j. case j of JNum i \<Rightarrow> Some i | _ \<Rightarrow> None),
      jl_get_bool = (\<lambda>j. case j of JBool b \<Rightarrow> Some b | _ \<Rightarrow> None),
      jl_dump = Some, jl_parse = Some\<rparr>"

lemma tree_lib_laws: "json_laws tree_lib"
  by (simp add: json_laws_def tree_lib_def)

theorem serializer_roundtrip_witness:
  "json_laws tree_lib \<and>
   Deserialize_MessageAckReq tree_lib
     (the (Serialize_MessageAckReq tree_lib \<lparr>areq_msgId = 5, areq_serverSeq = 3, areq_ackCode = 1\<rparr>)) =
   Some \<lparr>areq_msgId = 5, areq_serverSeq = 3, areq_ackCode = 1\<rparr>"
proof -
  obtain t where t: "Serialize_MessageAckReq tree_lib \<lparr>areq_msgId = 5, areq_serverSeq = 3, areq_ackCode = 1\<rparr> = Some t"
    by (simp add: Serialize_MessageAckReq_def tree_lib_def)
  with serializer_roundtrip [OF tree_lib_laws] tree_lib_laws show ?thesis by simp
qed

end
