(* ===== verification/AuthService.thy ===== *)
theory AuthService
  imports RedisClient Repositories Serializer "HOL-Library.AList"
begin

text \<open>
  \<open>src/service/authService.cpp\<close>: logins and sessions. \<open>m_connToUser\<close> and \<open>m_userToContext\<close> share their
  \<open>UserContext\<close> objects through pointers, and \<open>bindSessionToNode\<close> writes through one of them: the
  objects are a heap and the tables hold addresses. The JSON, Redis and MySQL libraries are arguments
  (\<open>auth_env\<close>); the two clients and the world they act on are passed along (\<open>backend\<close>). An operation is
  \<open>None\<close> where the code throws or hands a null context to hiredis. The clock readings and the random
  number of an operation are its arguments.
\<close>

section \<open>State\<close>

record UserContext =
  uc_userId :: string
  uc_sessionId :: string
  uc_deviceId :: string
  uc_nodeId :: string
  uc_loginTime :: ms
  uc_authenticated :: bool

definition UserContext_default :: UserContext where
  "UserContext_default =
     \<lparr>uc_userId = [], uc_sessionId = [], uc_deviceId = [], uc_nodeId = [], uc_loginTime = 0, uc_authenticated = False\<rparr>"

record AuthService =
  as_heap :: "UserContext list"
  as_connToUser :: "(string \<times> nat) list"
  as_userToContext :: "string \<rightharpoonup> nat"
  as_hasRedisClient :: bool
  as_hasSessionRepository :: bool
  as_nodeId :: string
  as_sessionExpire :: int
  as_useRedis :: bool

definition AuthService_init :: AuthService where
  "AuthService_init =
     \<lparr>as_heap = [], as_connToUser = [], as_userToContext = Map.empty, as_hasRedisClient = False,
      as_hasSessionRepository = False, as_nodeId = ''single-node'', as_sessionExpire = 86400, as_useRedis = False\<rparr>"

record ('h, 'w, 'j) auth_env =
  ae_json :: "('j, string) json_lib"
  ae_redis :: "'w hiredis"
  ae_mysql :: "('h, 'w) mysql_lib"

record ('h, 'w) backend =
  be_redis :: RedisClient
  be_mysql :: "'h MySqlClient"
  be_world :: 'w

text \<open>A call to one of the two clients.\<close>

definition redis_call ::
    "(RedisClient \<times> 'w \<Rightarrow> ('a \<times> RedisClient \<times> 'w) option) \<Rightarrow> ('h, 'w) backend \<Rightarrow> ('a \<times> ('h, 'w) backend) option" where
  "redis_call f b = do {
     (a, c, w) \<leftarrow> f (be_redis b, be_world b); Some (a, b\<lparr>be_redis := c, be_world := w\<rparr>) }"

definition mysql_call ::
    "('h MySqlClient \<times> 'w \<Rightarrow> ('a \<times> string \<times> 'h MySqlClient \<times> 'w) option) \<Rightarrow> ('h, 'w) backend \<Rightarrow>
     ('a \<times> ('h, 'w) backend) option" where
  "mysql_call f b = do {
     (a, err, c, w) \<leftarrow> f (be_mysql b, be_world b); Some (a, b\<lparr>be_mysql := c, be_world := w\<rparr>) }"

section \<open>Configuration\<close>

definition setRedisClient :: "RedisClient option \<Rightarrow> AuthService \<Rightarrow> AuthService" where
  "setRedisClient client s =
     s\<lparr>as_hasRedisClient := (client \<noteq> None),
       as_useRedis := (case client of None \<Rightarrow> False | Some c \<Rightarrow> isConnected c)\<rparr>"

definition setSessionRepository :: "bool \<Rightarrow> AuthService \<Rightarrow> AuthService" where
  "setSessionRepository repo s = s\<lparr>as_hasSessionRepository := repo\<rparr>"

definition setNodeId :: "string \<Rightarrow> AuthService \<Rightarrow> AuthService" where
  "setNodeId n s = s\<lparr>as_nodeId := n\<rparr>"

definition setSessionExpire :: "int \<Rightarrow> AuthService \<Rightarrow> AuthService" where
  "setSessionExpire n s = s\<lparr>as_sessionExpire := n\<rparr>"

section \<open>Sessions\<close>

definition validateToken :: "string \<Rightarrow> string \<Rightarrow> bool" where
  "validateToken userId token \<longleftrightarrow> \<not> (userId = [] \<or> token = []) \<and> token = ''valid_token_'' @ userId"

definition generateSessionId :: "u64 \<Rightarrow> ms \<Rightarrow> string" where
  "generateSessionId randNum timestamp = hex (unat (word_of_int timestamp :: u64)) @ ''-'' @ hex (unat randNum)"

definition serializeSession :: "('j, string) json_lib \<Rightarrow> UserContext \<Rightarrow> string option" where
  "serializeSession lib ctx =
     jl_dump lib (jl_obj lib
       [(''userId'', jl_str lib (uc_userId ctx)), (''sessionId'', jl_str lib (uc_sessionId ctx)),
        (''deviceId'', jl_str lib (uc_deviceId ctx)), (''nodeId'', jl_str lib (uc_nodeId ctx)),
        (''loginTime'', jl_num lib (uc_loginTime ctx)), (''authenticated'', jl_bool lib (uc_authenticated ctx))])"

definition deserializeSession :: "('j, string) json_lib \<Rightarrow> string \<Rightarrow> UserContext option" where
  "deserializeSession lib data = do {
     j \<leftarrow> jl_parse lib data;
     userId \<leftarrow> value_field lib (jl_get_str lib) j ''userId'' [];
     sessionId \<leftarrow> value_field lib (jl_get_str lib) j ''sessionId'' [];
     deviceId \<leftarrow> value_field lib (jl_get_str lib) j ''deviceId'' [];
     nodeId \<leftarrow> value_field lib (jl_get_str lib) j ''nodeId'' [];
     loginTime \<leftarrow> value_field lib (jl_get_i64 lib) j ''loginTime'' 0;
     auth \<leftarrow> value_field lib (jl_get_bool lib) j ''authenticated'' False;
     Some \<lparr>uc_userId = userId, uc_sessionId = sessionId, uc_deviceId = deviceId, uc_nodeId = nodeId,
           uc_loginTime = loginTime, uc_authenticated = auth\<rparr>
   }"

definition session_key :: "string \<Rightarrow> string" where
  "session_key sessionId = ''session:'' @ sessionId"

definition user_key :: "string \<Rightarrow> string" where
  "user_key userId = ''user:session:'' @ userId"

text \<open>What \<open>bindSessionToNode\<close>, \<open>getSessionNode\<close> and \<open>validateSession\<close> read from Redis.\<close>

definition redis_session ::
    "('h, 'w, 'j) auth_env \<Rightarrow> string \<Rightarrow> ('h, 'w) backend \<Rightarrow> (UserContext option \<times> ('h, 'w) backend) option" where
  "redis_session env sessionId b = do {
     (data, b) \<leftarrow> redis_call (get (ae_redis env) (session_key sessionId)) b;
     Some (if data = [] then None else deserializeSession (ae_json env) data, b)
   }"

definition find_session :: "string \<Rightarrow> (UserContext \<Rightarrow> bool) \<Rightarrow> AuthService \<Rightarrow> nat option" where
  "find_session sessionId P s =
     map_option snd (find (\<lambda>(_, a). uc_sessionId (as_heap s ! a) = sessionId \<and> P (as_heap s ! a)) (as_connToUser s))"

definition bindSessionToNode ::
    "('h, 'w, 'j) auth_env \<Rightarrow> string \<Rightarrow> string \<Rightarrow> AuthService \<times> ('h, 'w) backend \<Rightarrow>
     (bool \<times> AuthService \<times> ('h, 'w) backend) option" where
  "bindSessionToNode env sessionId nodeId = (\<lambda>(s, b). do {
     (stored, b) \<leftarrow> (if as_useRedis s \<and> as_hasRedisClient s then redis_session env sessionId b else Some (None, b));
     case stored of
       Some ctx \<Rightarrow> do {
         data \<leftarrow> serializeSession (ae_json env) (ctx\<lparr>uc_nodeId := nodeId\<rparr>);
         (ok, b) \<leftarrow> redis_call (setex (ae_redis env) (session_key sessionId) data (as_sessionExpire s)) b;
         Some (ok, s, b) }
     | None \<Rightarrow> (case find_session sessionId (\<lambda>_. True) s of
         Some a \<Rightarrow> Some (True, s\<lparr>as_heap := (as_heap s)[a := (as_heap s ! a)\<lparr>uc_nodeId := nodeId\<rparr>]\<rparr>, b)
       | None \<Rightarrow> Some (False, s, b))
   })"

definition getSessionNode ::
    "('h, 'w, 'j) auth_env \<Rightarrow> string \<Rightarrow> AuthService \<times> ('h, 'w) backend \<Rightarrow> (string option \<times> ('h, 'w) backend) option" where
  "getSessionNode env sessionId = (\<lambda>(s, b). do {
     (stored, b) \<leftarrow> (if as_useRedis s \<and> as_hasRedisClient s then redis_session env sessionId b else Some (None, b));
     let local = map_option (\<lambda>a. uc_nodeId (as_heap s ! a)) (find_session sessionId (\<lambda>ctx. uc_nodeId ctx \<noteq> []) s);
     Some (case stored of
        Some ctx \<Rightarrow> (if uc_nodeId ctx \<noteq> [] then Some (uc_nodeId ctx) else local)
      | None \<Rightarrow> local, b)
   })"

section \<open>Login and logout\<close>

text \<open>The callback's arguments are the first component of the result.\<close>

definition login ::
    "('h, 'w, 'j) auth_env \<Rightarrow> u64 \<Rightarrow> ms \<Rightarrow> ms \<Rightarrow> conn_ref \<Rightarrow> string \<Rightarrow> string \<Rightarrow> string \<Rightarrow>
     AuthService \<times> ('h, 'w) backend \<Rightarrow> ((bool \<times> string \<times> string) \<times> AuthService \<times> ('h, 'w) backend) option" where
  "login env randNum t1 t2 conn userId token deviceId = (\<lambda>(s, b).
     if \<not> validateToken userId token then Some ((False, [], ''Invalid token''), s, b)
     else do {
       let ctx = \<lparr>uc_userId = userId, uc_sessionId = generateSessionId randNum t1, uc_deviceId = deviceId,
                  uc_nodeId = as_nodeId s, uc_loginTime = t2, uc_authenticated = True\<rparr>;
       let a = length (as_heap s);
       let s = s\<lparr>as_heap := as_heap s @ [ctx], as_connToUser := AList.update (connId conn) a (as_connToUser s),
                 as_userToContext := (as_userToContext s)(userId \<mapsto> a)\<rparr>;
       (_, b) \<leftarrow> (if as_hasSessionRepository s
         then mysql_call (Some \<circ> createSession (ae_mysql env) (SessionRecord_default
                \<lparr>sr_sessionId := uc_sessionId ctx, sr_userId := uc_userId ctx, sr_deviceId := uc_deviceId ctx,
                 sr_createdAtMs := uc_loginTime ctx, sr_expiresAtMs := uc_loginTime ctx + as_sessionExpire s * 1000\<rparr>)) b
         else Some (True, b));
       (_, b) \<leftarrow> (if as_useRedis s \<and> as_hasRedisClient s
         then do {
           data \<leftarrow> serializeSession (ae_json env) ctx;
           (_, b) \<leftarrow> redis_call (setex (ae_redis env) (session_key (uc_sessionId ctx)) data (as_sessionExpire s)) b;
           redis_call (setex (ae_redis env) (user_key userId) (uc_sessionId ctx) (as_sessionExpire s)) b }
         else Some (True, b));
       (_, s, b) \<leftarrow> bindSessionToNode env (uc_sessionId ctx) (uc_nodeId ctx) (s, b);
       Some ((True, uc_sessionId ctx, []), s, b)
     })"

definition logout ::
    "('h, 'w, 'j) auth_env \<Rightarrow> conn_ref \<Rightarrow> AuthService \<times> ('h, 'w) backend \<Rightarrow> (AuthService \<times> ('h, 'w) backend) option" where
  "logout env conn = (\<lambda>(s, b).
     case map_of (as_connToUser s) (connId conn) of
       None \<Rightarrow> Some (s, b)
     | Some a \<Rightarrow> do {
         let userId = uc_userId (as_heap s ! a);
         let sessionId = uc_sessionId (as_heap s ! a);
         (_, b) \<leftarrow> (if as_useRedis s \<and> as_hasRedisClient s
           then do {
             (_, b) \<leftarrow> redis_call (del (ae_redis env) (session_key sessionId)) b;
             redis_call (del (ae_redis env) (user_key userId)) b }
           else Some (True, b));
         (_, b) \<leftarrow> (if as_hasSessionRepository s
           then mysql_call (Some \<circ> deleteSession (ae_mysql env) sessionId) b
           else Some (True, b));
         Some (s\<lparr>as_userToContext := (as_userToContext s)(userId := None),
                 as_connToUser := AList.delete (connId conn) (as_connToUser s)\<rparr>, b)
       })"

section \<open>Queries\<close>

definition isAuthenticated :: "conn_ref \<Rightarrow> AuthService \<Rightarrow> bool" where
  "isAuthenticated conn s =
     (case map_of (as_connToUser s) (connId conn) of None \<Rightarrow> False | Some a \<Rightarrow> uc_authenticated (as_heap s ! a))"

definition getUserContext :: "conn_ref \<Rightarrow> AuthService \<Rightarrow> nat option" where
  "getUserContext conn s = map_of (as_connToUser s) (connId conn)"

definition getUserById :: "string \<Rightarrow> AuthService \<Rightarrow> nat option" where
  "getUserById userId s = as_userToContext s userId"

text \<open>\<open>outUserId\<close> when the call returns \<open>true\<close>.\<close>

definition validateSession ::
    "('h, 'w, 'j) auth_env \<Rightarrow> string \<Rightarrow> AuthService \<times> ('h, 'w) backend \<Rightarrow> (string option \<times> ('h, 'w) backend) option" where
  "validateSession env sessionId = (\<lambda>(s, b). do {
     (found, b) \<leftarrow> (if as_hasSessionRepository s
        then mysql_call (findBySessionId (ae_mysql env) sessionId) b else Some (None, b));
     case found of
       Some r \<Rightarrow> Some (Some (sr_userId r), b)
     | None \<Rightarrow>
         if as_useRedis s \<and> as_hasRedisClient s
         then do { (stored, b) \<leftarrow> redis_session env sessionId b; Some (map_option uc_userId stored, b) }
         else Some (map_option (\<lambda>a. uc_userId (as_heap s ! a)) (find_session sessionId (\<lambda>_. True) s), b)
   })"

section \<open>Who owns a connection\<close>

datatype auth_op =
    Login u64 ms ms conn_ref string string string
  | Logout conn_ref
  | BindSession string string
  | Validate string
  | UseNode string

fun auth_step ::
    "('h, 'w, 'j) auth_env \<Rightarrow> (AuthService \<times> ('h, 'w) backend) option \<Rightarrow> auth_op \<Rightarrow>
     (AuthService \<times> ('h, 'w) backend) option" where
  "auth_step env None _ = None"
| "auth_step env (Some sb) (Login r t1 t2 conn u tok d) = map_option snd (login env r t1 t2 conn u tok d sb)"
| "auth_step env (Some sb) (Logout conn) = logout env conn sb"
| "auth_step env (Some sb) (BindSession sid n) = map_option snd (bindSessionToNode env sid n sb)"
| "auth_step env (Some (s, b)) (Validate sid) = map_option (\<lambda>(_, b'). (s, b')) (validateSession env sid (s, b))"
| "auth_step env (Some (s, b)) (UseNode n) = Some (setNodeId n s, b)"

text \<open>The specification: the user of the last accepted login on a descriptor with no logout after it.\<close>

fun owner_step :: "(string \<rightharpoonup> string) \<Rightarrow> auth_op \<Rightarrow> string \<rightharpoonup> string" where
  "owner_step f (Login r t1 t2 conn u tok d) =
     (if u \<noteq> [] \<and> tok = ''valid_token_'' @ u then f(connId conn \<mapsto> u) else f)"
| "owner_step f (Logout conn) = f(connId conn := None)"
| "owner_step f _ = f"

fun entry_ok :: "UserContext list \<Rightarrow> nat option \<Rightarrow> string option \<Rightarrow> bool" where
  "entry_ok h None u \<longleftrightarrow> u = None"
| "entry_ok h (Some a) u \<longleftrightarrow> a < length h \<and> uc_authenticated (h ! a) \<and> u = Some (uc_userId (h ! a))"

definition auth_inv :: "(string \<rightharpoonup> string) \<Rightarrow> AuthService \<Rightarrow> bool" where
  "auth_inv f s \<longleftrightarrow> (\<forall>c. entry_ok (as_heap s) (map_of (as_connToUser s) c) (f c))"

lemma entry_ok_append: "entry_ok h x u \<Longrightarrow> entry_ok (h @ ctxs) x u"
  by (cases x) (auto simp: nth_append)

text \<open>Binding a session changes at most the node of one context.\<close>

definition same_but_nodes :: "AuthService \<Rightarrow> AuthService \<Rightarrow> bool" where
  "same_but_nodes s s' \<longleftrightarrow>
     s' = s\<lparr>as_heap := as_heap s'\<rparr> \<and>
     map (\<lambda>ctx. ctx\<lparr>uc_nodeId := []\<rparr>) (as_heap s') = map (\<lambda>ctx. ctx\<lparr>uc_nodeId := []\<rparr>) (as_heap s)"

lemma same_but_nodes_refl: "same_but_nodes s s"
  by (simp add: same_but_nodes_def)

lemma bind_same_but_nodes:
  assumes "bindSessionToNode env sid n (s, b) = Some (r, s', b')"
  shows "same_but_nodes s s'"
proof -
  have "map (\<lambda>ctx. ctx\<lparr>uc_nodeId := []\<rparr>) ((as_heap s)[a := (as_heap s ! a)\<lparr>uc_nodeId := n\<rparr>]) =
      map (\<lambda>ctx. ctx\<lparr>uc_nodeId := []\<rparr>) (as_heap s)" for a
    by (cases "a < length (as_heap s)") (auto intro!: nth_equalityI simp: nth_list_update)
  with assms show ?thesis
    by (auto simp: bindSessionToNode_def same_but_nodes_def bind_eq_Some_conv split: option.splits if_splits)
qed

lemma same_but_nodes_at:
  assumes "same_but_nodes s s'"
  shows "length (as_heap s') = length (as_heap s)" "as_connToUser s' = as_connToUser s"
    "as_userToContext s' = as_userToContext s"
    and "a < length (as_heap s) \<Longrightarrow> uc_userId (as_heap s' ! a) = uc_userId (as_heap s ! a) \<and>
      uc_sessionId (as_heap s' ! a) = uc_sessionId (as_heap s ! a) \<and>
      uc_authenticated (as_heap s' ! a) = uc_authenticated (as_heap s ! a)"
proof -
  have heaps: "map (\<lambda>ctx. ctx\<lparr>uc_nodeId := []\<rparr>) (as_heap s') = map (\<lambda>ctx. ctx\<lparr>uc_nodeId := []\<rparr>) (as_heap s)"
    and rest: "s' = s\<lparr>as_heap := as_heap s'\<rparr>"
    using assms by (simp_all add: same_but_nodes_def)
  from map_eq_imp_length_eq [OF heaps] show len: "length (as_heap s') = length (as_heap s)" .
  show "as_connToUser s' = as_connToUser s" "as_userToContext s' = as_userToContext s"
    by (subst rest, simp)+
  assume "a < length (as_heap s)"
  with len have "(as_heap s' ! a)\<lparr>uc_nodeId := []\<rparr> = (as_heap s ! a)\<lparr>uc_nodeId := []\<rparr>"
    using arg_cong [OF heaps, of "\<lambda>xs. xs ! a"] by simp
  then show "uc_userId (as_heap s' ! a) = uc_userId (as_heap s ! a) \<and>
      uc_sessionId (as_heap s' ! a) = uc_sessionId (as_heap s ! a) \<and>
      uc_authenticated (as_heap s' ! a) = uc_authenticated (as_heap s ! a)"
    by (cases "as_heap s' ! a", cases "as_heap s ! a") simp
qed

lemma auth_inv_same_but_nodes:
  assumes "auth_inv f s" "same_but_nodes s s'"
  shows "auth_inv f s'"
proof -
  note same = same_but_nodes_at [OF assms(2)]
  have "entry_ok (as_heap s) x u \<Longrightarrow> entry_ok (as_heap s') x u" for x u
    using same(1,4) by (cases x) auto
  with assms(1) same(2) show ?thesis by (simp add: auth_inv_def)
qed

lemma auth_inv_login:
  assumes "auth_inv f s" "uc_authenticated ctx"
  shows "auth_inv (f(c \<mapsto> uc_userId ctx))
    (s\<lparr>as_heap := as_heap s @ [ctx], as_connToUser := AList.update c (length (as_heap s)) (as_connToUser s),
      as_userToContext := u\<rparr>)"
  using assms by (simp add: auth_inv_def update_conv' entry_ok_append)

lemma auth_inv_logout:
  "auth_inv f s \<Longrightarrow> auth_inv (f(c := None)) (s\<lparr>as_userToContext := u, as_connToUser := AList.delete c (as_connToUser s)\<rparr>)"
  by (simp add: auth_inv_def delete_conv')

lemma auth_inv_step:
  assumes "auth_inv f s" "auth_step env (Some (s, b)) a = Some (s', b')"
  shows "auth_inv (owner_step f a) s'"
proof (cases a)
  case (Login r t1 t2 conn u tok d)
  show ?thesis
  proof (cases "validateToken u tok")
    case True
    let ?ctx = "\<lparr>uc_userId = u, uc_sessionId = generateSessionId r t1, uc_deviceId = d,
                  uc_nodeId = as_nodeId s, uc_loginTime = t2, uc_authenticated = True\<rparr>"
    let ?s = "s\<lparr>as_heap := as_heap s @ [?ctx], as_connToUser := AList.update (connId conn) (length (as_heap s)) (as_connToUser s),
        as_userToContext := (as_userToContext s)(u \<mapsto> length (as_heap s))\<rparr>"
    from assms(2) True have "same_but_nodes ?s s'"
      by (auto simp: Login login_def Let_def bind_eq_Some_conv intro: bind_same_but_nodes)
    moreover have "auth_inv (f(connId conn \<mapsto> u)) ?s"
      using auth_inv_login [OF assms(1), of ?ctx] by simp
    moreover have "owner_step f a = f(connId conn \<mapsto> u)" using True by (simp add: Login validateToken_def)
    ultimately show ?thesis by (simp add: auth_inv_same_but_nodes)
  next
    case False
    with assms show ?thesis by (auto simp: Login login_def validateToken_def)
  qed
next
  case (Logout conn)
  show ?thesis
  proof (cases "map_of (as_connToUser s) (connId conn)")
    case None
    moreover have "f (connId conn) = None"
      using assms(1) [unfolded auth_inv_def, rule_format, of "connId conn"] None by simp
    ultimately show ?thesis using assms by (simp add: Logout logout_def fun_upd_idem)
  next
    case (Some x)
    with assms show ?thesis
      by (auto simp: Logout logout_def Let_def bind_eq_Some_conv auth_inv_logout)
  qed
next
  case (BindSession sid n)
  with assms show ?thesis by (auto intro: auth_inv_same_but_nodes bind_same_but_nodes)
next
  case (Validate sid)
  with assms show ?thesis by auto
next
  case (UseNode n)
  with assms show ?thesis by (auto simp: setNodeId_def auth_inv_def)
qed

text \<open>The service beside its specification.\<close>

fun auth_system ::
    "('h, 'w, 'j) auth_env \<Rightarrow> (AuthService \<times> ('h, 'w) backend) option \<times> (string \<rightharpoonup> string) \<Rightarrow> auth_op \<Rightarrow>
     (AuthService \<times> ('h, 'w) backend) option \<times> (string \<rightharpoonup> string)" where
  "auth_system env (x, f) a = (auth_step env x a, owner_step f a)"

fun auth_system_inv :: "(AuthService \<times> ('h, 'w) backend) option \<times> (string \<rightharpoonup> string) \<Rightarrow> bool" where
  "auth_system_inv (None, f) = True"
| "auth_system_inv (Some (s, b), f) = auth_inv f s"

fun auth_system_init :: "(AuthService \<times> ('h, 'w) backend) option \<times> (string \<rightharpoonup> string) \<Rightarrow> bool" where
  "auth_system_init (None, f) = False"
| "auth_system_init (Some (s, b), f) \<longleftrightarrow> as_connToUser s = [] \<and> f = Map.empty"

lemma auth_system_start: "auth_system_init p \<Longrightarrow> auth_system_inv p"
  by (cases p rule: auth_system_init.cases) (auto simp: auth_inv_def)

lemma auth_system_keeps: "auth_system_inv p \<Longrightarrow> auth_system_inv (auth_system env p a)"
proof (cases p)
  case (Pair x f)
  assume inv: "auth_system_inv p"
  show ?thesis
  proof (cases "auth_step env x a")
    case (Some y)
    then obtain s b s' b' where "x = Some (s, b)" "y = (s', b')" by (cases x; cases y) auto
    with Some inv auth_inv_step [of f s env b a s' b'] show ?thesis by (simp add: Pair)
  qed (simp add: Pair)
qed

interpretation auth: invariant_system auth_system_init "auth_system env" auth_system_inv for env
  by unfold_locales (fact auth_system_start, fact auth_system_keeps)

lemma run_auth_system: "run (auth_system env) (x, f) ops = (run (auth_step env) x ops, run owner_step f ops)"
  by (induction ops arbitrary: x f) auto

lemma auth_reached:
  assumes "as_connToUser s0 = []" "run (auth_step env) (Some (s0, b0)) ops = Some (s, b)"
  shows "auth_inv (run owner_step Map.empty ops) s"
  using auth.inv_reached [of "(Some (s0, b0), Map.empty)" env ops] assms by (simp add: run_auth_system)

text \<open>
  Claim C22 (auth_owner). After any history of logins, logouts, bindings, validations and node changes
  that completes, whatever Redis, MySQL and the JSON library do, a connection is authenticated exactly
  when the last accepted login on its descriptor was not followed by a logout there, and then its
  context carries the user of that login. A login is accepted only with a non-empty user and this
  user's token.
\<close>

theorem auth_owner:
  assumes "as_connToUser s0 = []" "run (auth_step env) (Some (s0, b0)) ops = Some (s, b)"
  shows "isAuthenticated conn s = (run owner_step Map.empty ops (connId conn) \<noteq> None) \<and>
    map_option (\<lambda>a. uc_userId (as_heap s ! a)) (getUserContext conn s) = run owner_step Map.empty ops (connId conn)"
proof -
  from auth_reached [OF assms]
  have "entry_ok (as_heap s) (map_of (as_connToUser s) (connId conn)) (run owner_step Map.empty ops (connId conn))"
    by (simp add: auth_inv_def)
  then show ?thesis
    by (cases "map_of (as_connToUser s) (connId conn)") (auto simp: isAuthenticated_def getUserContext_def)
qed

text \<open>
  When a user is logged in on two connections, the logout of
  either one removes the user from the table by user id, although the other connection stays
  authenticated as this user: \<open>getUserById\<close> then finds nobody.
\<close>

theorem logout_forgets_other_login:
  assumes "as_connToUser s0 = []" "run (auth_step env) (Some (s0, b0)) ops = Some (s, b)"
    and "run owner_step Map.empty ops (connId c1) = Some u" "run owner_step Map.empty ops (connId c2) = Some u"
    and "connId c1 \<noteq> connId c2" "logout env c1 (s, b) = Some (s', b')"
  shows "getUserById u s' = None \<and> isAuthenticated c2 s' \<and> \<not> isAuthenticated c1 s'"
proof -
  from auth_reached [OF assms(1,2)]
  have e: "entry_ok (as_heap s) (map_of (as_connToUser s) (connId c)) (run owner_step Map.empty ops (connId c))" for c
    by (simp add: auth_inv_def)
  from e [of c1] assms(3) obtain a1 where a1: "map_of (as_connToUser s) (connId c1) = Some a1" "uc_userId (as_heap s ! a1) = u"
    by (cases "map_of (as_connToUser s) (connId c1)") auto
  from e [of c2] assms(4) obtain a2 where "map_of (as_connToUser s) (connId c2) = Some a2" "uc_authenticated (as_heap s ! a2)"
    by (cases "map_of (as_connToUser s) (connId c2)") auto
  with a1 assms(5,6) show ?thesis
    by (auto simp: logout_def Let_def bind_eq_Some_conv getUserById_def isAuthenticated_def delete_conv')
qed

section \<open>A session is valid on every node\<close>

lemma session_roundtrip:
  "json_laws lib \<Longrightarrow> serializeSession lib ctx = Some t \<Longrightarrow> deserializeSession lib t = Some ctx"
  by (simp add: serializeSession_def deserializeSession_def json_fields)

lemma sessionId_plain: "CHR 0x00 \<notin> set (generateSessionId r t)"
  using digit_chars(1) [of "CHR 0x00"] by (auto simp: generateSessionId_def)

lemma session_key_c_str: "CHR 0x00 \<notin> set sid \<Longrightarrow> c_str (session_key sid) = session_key sid"
  by (intro c_str_id) (simp add: session_key_def)

lemma user_key_other: "c_str (user_key u) \<noteq> session_key sid"
proof -
  have "c_str (user_key u) = ''user:session:'' @ c_str u"
    unfolding user_key_def by (intro c_str_append) simp
  then show ?thesis by (simp add: session_key_def)
qed

lemma redis_call_works:
  "f (be_redis b, be_world b) = Some (a, be_redis b, w) \<Longrightarrow> redis_call f b = Some (a, b\<lparr>be_world := w\<rparr>)"
  by (simp add: redis_call_def)

lemma redis_session_found:
  assumes "redis_laws (ae_redis env) db" "json_laws (ae_json env)" "isConnected (be_redis b)"
    and "CHR 0x00 \<notin> set sid" "db (be_world b) (session_key sid) = Some data" "data \<noteq> []"
    and "serializeSession (ae_json env) ctx = Some data"
  shows "\<exists>w. redis_session env sid b = Some (Some ctx, b\<lparr>be_world := w\<rparr>) \<and> db w = db (be_world b)"
proof -
  from get_works [OF assms(1,3), of "session_key sid" "be_world b"] assms(4,5)
  obtain w where "get (ae_redis env) (session_key sid) (be_redis b, be_world b) = Some (data, be_redis b, w)"
    "db w = db (be_world b)"
    by (auto simp: session_key_c_str)
  then show ?thesis
    using assms(6) session_roundtrip [OF assms(2,7)]
    by (auto simp: redis_session_def dest!: redis_call_works)
qed

lemma redis_store:
  assumes "redis_laws (ae_redis env) db" "isConnected (be_redis b)" "0 < n"
  shows "\<exists>w. redis_call (setex (ae_redis env) k v n) b = Some (True, b\<lparr>be_world := w\<rparr>) \<and>
    db w = (db (be_world b))(c_str k \<mapsto> c_str v)"
  using setex_works [OF assms, of k v "be_world b"] by (auto dest!: redis_call_works)

text \<open>
  Claim C23 (session_valid_everywhere). With JSON and Redis libraries that work as documented and a
  session whose JSON text can be written, a login with the right token succeeds and its session id is
  accepted, as this user's and bound to the node of the login, by every node that shares the Redis.
\<close>

theorem session_valid_everywhere:
  assumes "json_laws (ae_json env)" "redis_laws (ae_redis env) db"
    and "validateToken u tok" "isConnected (be_redis b)" "as_useRedis s" "as_hasRedisClient s"
    and "\<not> as_hasSessionRepository s" "0 < as_sessionExpire s"
    and "serializeSession (ae_json env) \<lparr>uc_userId = u, uc_sessionId = generateSessionId r t1, uc_deviceId = d,
           uc_nodeId = as_nodeId s, uc_loginTime = t2, uc_authenticated = True\<rparr> = Some data"
    and "data \<noteq> []" "CHR 0x00 \<notin> set data" "as_nodeId s \<noteq> []"
    and "as_useRedis s2" "as_hasRedisClient s2" "\<not> as_hasSessionRepository s2" "isConnected (be_redis b2)"
  shows "\<exists>s' b' b3 b4. login env r t1 t2 conn u tok d (s, b) = Some ((True, generateSessionId r t1, []), s', b') \<and>
    validateSession env (generateSessionId r t1) (s2, b2\<lparr>be_world := be_world b'\<rparr>) = Some (Some u, b3) \<and>
    getSessionNode env (generateSessionId r t1) (s2, b2\<lparr>be_world := be_world b'\<rparr>) = Some (Some (as_nodeId s), b4)"
proof -
  define ctx where "ctx = \<lparr>uc_userId = u, uc_sessionId = generateSessionId r t1, uc_deviceId = d,
           uc_nodeId = as_nodeId s, uc_loginTime = t2, uc_authenticated = True\<rparr>"
  have data: "serializeSession (ae_json env) ctx = Some data" using assms(9) by (simp add: ctx_def)
  have same: "ctx\<lparr>uc_nodeId := as_nodeId s\<rparr> = ctx" by (simp add: ctx_def)
  let ?sid = "generateSessionId r t1"
  note plain = sessionId_plain [of r t1]
  note key = session_key_c_str [OF plain]
  obtain w1 where w1: "redis_call (setex (ae_redis env) (session_key ?sid) data (as_sessionExpire s)) b = Some (True, b\<lparr>be_world := w1\<rparr>)"
    "db w1 = (db (be_world b))(session_key ?sid \<mapsto> data)"
    using redis_store [OF assms(2,4,8), of "session_key ?sid" data] by (auto simp: key c_str_id [OF assms(11)])
  obtain w2 where w2: "redis_call (setex (ae_redis env) (user_key u) ?sid (as_sessionExpire s)) (b\<lparr>be_world := w1\<rparr>) =
      Some (True, b\<lparr>be_world := w2\<rparr>)" "db w2 (session_key ?sid) = Some data"
    using redis_store [OF assms(2), of "b\<lparr>be_world := w1\<rparr>" "as_sessionExpire s" "user_key u" ?sid] assms(4,8) w1(2)
    by (auto simp: user_key_other [symmetric])
  obtain w3 where w3: "redis_session env ?sid (b\<lparr>be_world := w2\<rparr>) = Some (Some ctx, b\<lparr>be_world := w3\<rparr>)" "db w3 = db w2"
    using redis_session_found [OF assms(2,1) _ plain _ assms(10) data, of "b\<lparr>be_world := w2\<rparr>"] assms(4) w2(2) by auto
  obtain w4 where w4: "redis_call (setex (ae_redis env) (session_key ?sid) data (as_sessionExpire s)) (b\<lparr>be_world := w3\<rparr>) =
      Some (True, b\<lparr>be_world := w4\<rparr>)" "db w4 (session_key ?sid) = Some data"
    using redis_store [OF assms(2), of "b\<lparr>be_world := w3\<rparr>" "as_sessionExpire s" "session_key ?sid" data] assms(4,8)
    by (auto simp: key c_str_id [OF assms(11)])
  have "\<exists>s'. login env r t1 t2 conn u tok d (s, b) = Some ((True, ?sid, []), s', b\<lparr>be_world := w4\<rparr>)"
    using assms(3,5-7) w1(1) w2(1) w3(1) w4(1) data
    by (simp add: login_def Let_def bindSessionToNode_def ctx_def [symmetric] same) (simp add: ctx_def)
  moreover obtain w5 where "redis_session env ?sid (b2\<lparr>be_world := w4\<rparr>) = Some (Some ctx, b2\<lparr>be_world := w5\<rparr>)"
    using redis_session_found [OF assms(2,1) _ plain _ assms(10) data, of "b2\<lparr>be_world := w4\<rparr>"] assms(16) w4(2) by auto
  then have "validateSession env ?sid (s2, b2\<lparr>be_world := w4\<rparr>) = Some (Some u, b2\<lparr>be_world := w5\<rparr>)"
    "getSessionNode env ?sid (s2, b2\<lparr>be_world := w4\<rparr>) = Some (Some (as_nodeId s), b2\<lparr>be_world := w5\<rparr>)"
    using assms(12-15) by (simp_all add: validateSession_def getSessionNode_def ctx_def)
  ultimately show ?thesis by auto
qed

section \<open>Witnesses\<close>

text \<open>A JSON library that can write one document only, and a server for each client.\<close>

definition one_document :: "jvalue \<Rightarrow> (jvalue, string) json_lib" where
  "one_document doc =
     \<lparr>jl_obj = JObj, jl_arr = JArr, jl_str = JStr, jl_num = JNum, jl_bool = JBool,
      jl_is_object = jl_is_object tree_lib, jl_contains = jl_contains tree_lib, jl_at = jl_at tree_lib,
      jl_items = jl_items tree_lib, jl_get_str = jl_get_str tree_lib, jl_get_u32 = jl_get_u32 tree_lib,
      jl_get_u64 = jl_get_u64 tree_lib, jl_get_i64 = jl_get_i64 tree_lib, jl_get_bool = jl_get_bool tree_lib,
      jl_dump = (\<lambda>j. if j = doc then Some ''doc'' else None),
      jl_parse = (\<lambda>t. if t = ''doc'' then Some doc else None)\<rparr>"

lemma one_document_laws: "json_laws (one_document doc)"
  using tree_lib_laws by (simp add: json_laws_def one_document_def tree_lib_def)

definition no_mysql :: "(unit, string \<rightharpoonup> string) mysql_lib" where
  "no_mysql =
     \<lparr>ml_init = (\<lambda>w. (None, w)), ml_connect_timeout = (\<lambda>_ _ w. w), ml_real_connect = (\<lambda>_ _ _ _ _ _ w. (False, w)),
      ml_error = (\<lambda>_ _. []), ml_close = (\<lambda>_ w. w), ml_query = (\<lambda>_ _ w. (False, w)),
      ml_store_result = (\<lambda>_ w. (None, w)), ml_field_count = (\<lambda>_ _. 0), ml_real_escape_string = (\<lambda>_ v _. v)\<rparr>"

definition bob_document :: jvalue where
  "bob_document = JObj
     [(''userId'', JStr ''bob''), (''sessionId'', JStr (generateSessionId 7 1000)), (''deviceId'', JStr ''phone''),
      (''nodeId'', JStr ''single-node''), (''loginTime'', JNum 1000), (''authenticated'', JBool True)]"

definition small_env :: "(unit, string \<rightharpoonup> string, jvalue) auth_env" where
  "small_env = \<lparr>ae_json = one_document bob_document, ae_redis = table_server, ae_mysql = no_mysql\<rparr>"

definition fresh_backend :: "(unit, string \<rightharpoonup> string) backend" where
  "fresh_backend = \<lparr>be_redis = good_client, be_mysql = MySqlClient_init, be_world = Map.empty\<rparr>"

definition conn_a :: conn_ref where "conn_a = \<lparr>conn_object = 1, conn_fd = 1\<rparr>"
definition conn_b :: conn_ref where "conn_b = \<lparr>conn_object = 2, conn_fd = 2\<rparr>"

definition bob_twice :: "auth_op list" where
  "bob_twice = [Login 7 1000 1000 conn_a ''bob'' ''valid_token_bob'' ''phone'',
                Login 8 2000 2000 conn_b ''bob'' ''valid_token_bob'' ''laptop'']"

lemma conn_ids [simp]: "connId conn_a \<noteq> connId conn_b" "connId conn_b \<noteq> connId conn_a"
  by (simp_all add: connId_def conn_a_def conn_b_def)

lemma login_local:
  assumes "\<not> as_useRedis s" "\<not> as_hasSessionRepository s"
  shows "\<exists>x s'. login env r t1 t2 conn u tok d (s, b) = Some (x, s', b) \<and> \<not> as_useRedis s' \<and> \<not> as_hasSessionRepository s'"
  using assms by (auto simp: login_def Let_def bindSessionToNode_def split: option.splits)

lemma bob_twice_runs:
  "\<exists>s b. run (auth_step small_env) (Some (AuthService_init, fresh_backend)) bob_twice = Some (s, b) \<and>
     \<not> as_useRedis s \<and> \<not> as_hasSessionRepository s"
proof -
  have "\<not> as_useRedis AuthService_init" "\<not> as_hasSessionRepository AuthService_init"
    by (simp_all add: AuthService_init_def)
  from login_local [OF this] obtain x s1 where s1: "login small_env 7 1000 1000 conn_a ''bob'' ''valid_token_bob'' ''phone''
      (AuthService_init, fresh_backend) = Some (x, s1, fresh_backend)" "\<not> as_useRedis s1" "\<not> as_hasSessionRepository s1"
    by metis
  from login_local [OF s1(2,3)] obtain y s2 where "login small_env 8 2000 2000 conn_b ''bob'' ''valid_token_bob'' ''laptop''
      (s1, fresh_backend) = Some (y, s2, fresh_backend)" "\<not> as_useRedis s2" "\<not> as_hasSessionRepository s2"
    by metis
  with s1(1) show ?thesis by (simp add: bob_twice_def)
qed

lemma bob_twice_owner:
  "run owner_step Map.empty bob_twice = [connId conn_a \<mapsto> ''bob'', connId conn_b \<mapsto> ''bob'']"
  by (simp add: bob_twice_def)

theorem auth_owner_witness:
  "\<exists>s b. run (auth_step small_env) (Some (AuthService_init, fresh_backend)) bob_twice = Some (s, b) \<and>
     isAuthenticated conn_a s"
  using bob_twice_runs auth_owner [of AuthService_init small_env fresh_backend bob_twice _ _ conn_a]
  by (auto simp: AuthService_init_def bob_twice_owner)

theorem logout_forgets_other_login_witness:
  "\<exists>s b s' b'. run (auth_step small_env) (Some (AuthService_init, fresh_backend)) bob_twice = Some (s, b) \<and>
     logout small_env conn_a (s, b) = Some (s', b') \<and> getUserById ''bob'' s' = None \<and> isAuthenticated conn_b s'"
proof -
  obtain s b where s: "run (auth_step small_env) (Some (AuthService_init, fresh_backend)) bob_twice = Some (s, b)"
    and "\<not> as_useRedis s" "\<not> as_hasSessionRepository s"
    using bob_twice_runs by blast
  then obtain s' b' where l: "logout small_env conn_a (s, b) = Some (s', b')"
    by (cases "map_of (as_connToUser s) (connId conn_a)") (auto simp: logout_def)
  have e: "as_connToUser AuthService_init = []" by (simp add: AuthService_init_def)
  have "run owner_step Map.empty bob_twice (connId conn_a) = Some ''bob''"
    "run owner_step Map.empty bob_twice (connId conn_b) = Some ''bob''"
    by (simp_all add: bob_twice_owner)
  from logout_forgets_other_login [OF e s this conn_ids(1) l] s l show ?thesis by auto
qed

theorem session_valid_everywhere_witness:
  "\<exists>s' b' b3. login small_env 7 1000 1000 conn_a ''bob'' ''valid_token_bob'' ''phone''
       (setRedisClient (Some good_client) AuthService_init, fresh_backend) =
     Some ((True, generateSessionId 7 1000, []), s', b') \<and>
   validateSession small_env (generateSessionId 7 1000)
     (setRedisClient (Some good_client) AuthService_init, fresh_backend\<lparr>be_world := be_world b'\<rparr>) = Some (Some ''bob'', b3)"
proof -
  let ?s = "setRedisClient (Some good_client) AuthService_init"
  have s: "as_useRedis ?s" "as_hasRedisClient ?s" "\<not> as_hasSessionRepository ?s" "0 < as_sessionExpire ?s"
    "as_nodeId ?s = ''single-node''" "isConnected (be_redis fresh_backend)"
    by (simp_all add: setRedisClient_def AuthService_init_def good_client_connected fresh_backend_def)
  have env: "json_laws (ae_json small_env)" "redis_laws (ae_redis small_env) (\<lambda>m. m)"
    by (simp_all add: small_env_def one_document_laws table_server_laws)
  have data: "serializeSession (ae_json small_env) \<lparr>uc_userId = ''bob'', uc_sessionId = generateSessionId 7 1000,
      uc_deviceId = ''phone'', uc_nodeId = as_nodeId ?s, uc_loginTime = 1000, uc_authenticated = True\<rparr> = Some ''doc''"
    by (simp add: s serializeSession_def small_env_def one_document_def bob_document_def)
  show ?thesis
    using session_valid_everywhere [OF env _ s(6) s(1-4) data _ _ _ s(1-3) s(6), of "''valid_token_bob''" conn_a]
    by (simp add: validateToken_def s(5)) blast
qed

end
