(* ===== verification/RoutingService.thy ===== *)
theory RoutingService
  imports RedisClient
begin

text \<open>
  \<open>src/service/routingService.cpp\<close>: which node serves a user. Every node keeps the routes it has bound
  or looked up in \<open>m_localRoutes\<close> and shares its own bindings through Redis. The client object
  \<open>m_redisClient\<close> points to is passed along with the world it talks to.
\<close>

record RoutingService =
  rs_hasRedisClient :: bool
  rs_nodeId :: string
  rs_routeTtlSeconds :: int
  rs_localRoutes :: "string \<rightharpoonup> string"

definition RoutingService_init :: RoutingService where
  "RoutingService_init =
     \<lparr>rs_hasRedisClient = False, rs_nodeId = ''single-node'', rs_routeTtlSeconds = 30, rs_localRoutes = Map.empty\<rparr>"

definition setRedisClient :: "bool \<Rightarrow> RoutingService \<Rightarrow> RoutingService" where
  "setRedisClient client r = r\<lparr>rs_hasRedisClient := client\<rparr>"

definition setNodeId :: "string \<Rightarrow> RoutingService \<Rightarrow> RoutingService" where
  "setNodeId n r = r\<lparr>rs_nodeId := n\<rparr>"

definition setRouteTtlSeconds :: "int \<Rightarrow> RoutingService \<Rightarrow> RoutingService" where
  "setRouteTtlSeconds n r = r\<lparr>rs_routeTtlSeconds := n\<rparr>"

definition makeRouteKey :: "string \<Rightarrow> string" where
  "makeRouteKey userId = ''route:'' @ userId"

definition bindUserRoute ::
    "'w hiredis \<Rightarrow> string \<Rightarrow> string \<Rightarrow> RoutingService \<Rightarrow> RedisClient \<times> 'w \<Rightarrow>
     (bool \<times> RoutingService \<times> RedisClient \<times> 'w) option" where
  "bindUserRoute lib userId nodeId r = (\<lambda>(c, w).
     let r' = r\<lparr>rs_localRoutes := (rs_localRoutes r)(userId \<mapsto> nodeId)\<rparr> in
     if rs_hasRedisClient r \<and> isConnected c
     then do { (ok, cw) \<leftarrow> setex lib (makeRouteKey userId) nodeId (rs_routeTtlSeconds r) (c, w); Some (ok, r', cw) }
     else Some (True, r', c, w))"

definition unbindUserRoute ::
    "'w hiredis \<Rightarrow> string \<Rightarrow> RoutingService \<Rightarrow> RedisClient \<times> 'w \<Rightarrow>
     (bool \<times> RoutingService \<times> RedisClient \<times> 'w) option" where
  "unbindUserRoute lib userId r = (\<lambda>(c, w).
     let r' = r\<lparr>rs_localRoutes := (rs_localRoutes r)(userId := None)\<rparr> in
     if rs_hasRedisClient r \<and> isConnected c
     then do { (ok, cw) \<leftarrow> del lib (makeRouteKey userId) (c, w); Some (ok, r', cw) }
     else Some (True, r', c, w))"

definition lookupUserRoute ::
    "'w hiredis \<Rightarrow> string \<Rightarrow> RoutingService \<Rightarrow> RedisClient \<times> 'w \<Rightarrow>
     (string option \<times> RoutingService \<times> RedisClient \<times> 'w) option" where
  "lookupUserRoute lib userId r = (\<lambda>(c, w).
     case rs_localRoutes r userId of
       Some node \<Rightarrow> Some (Some node, r, c, w)
     | None \<Rightarrow>
         if rs_hasRedisClient r \<and> isConnected c
         then do {
           (route, cw) \<leftarrow> get lib (makeRouteKey userId) (c, w);
           if route \<noteq> []
           then Some (Some route, r\<lparr>rs_localRoutes := (rs_localRoutes r)(userId \<mapsto> route)\<rparr>, cw)
           else Some (None, r, cw)
         }
         else Some (None, r, c, w))"

section \<open>Routes between nodes\<close>

lemma makeRouteKey_c_str: "c_str (makeRouteKey u) = ''route:'' @ c_str u"
  by (simp add: makeRouteKey_def c_str_append [of "''route:''", simplified])

text \<open>
  With a working Redis, a route one node binds is what a look-up on
  any other node, which has nothing cached for the user, returns and caches. Redis gets the key and
  the value as C strings: the look-up of every user id that agrees up to its first zero byte finds this
  route, also when it is another user's id.
\<close>

theorem route_found_elsewhere:
  assumes "redis_laws lib db" "isConnected ca" "isConnected cb"
    and "rs_hasRedisClient a" "rs_hasRedisClient b" "0 < rs_routeTtlSeconds a"
    and "rs_localRoutes b u' = None" "c_str u' = c_str u" "c_str node \<noteq> []"
  shows "\<exists>a' w1 b' w2. bindUserRoute lib u node a (ca, w) = Some (True, a', ca, w1) \<and>
    lookupUserRoute lib u' b (cb, w1) = Some (Some (c_str node), b', cb, w2) \<and>
    rs_localRoutes b' u' = Some (c_str node)"
proof -
  from setex_works [OF assms(1,2,6), of "makeRouteKey u" node w]
  obtain w1 where w1: "setex lib (makeRouteKey u) node (rs_routeTtlSeconds a) (ca, w) = Some (True, ca, w1)"
    "db w1 = (db w)(c_str (makeRouteKey u) \<mapsto> c_str node)" by blast
  from get_works [OF assms(1,3), of "makeRouteKey u'" w1] w1(2)
  obtain w2 where "get lib (makeRouteKey u') (cb, w1) = Some (c_str node, cb, w2)"
    by (auto simp: makeRouteKey_c_str assms(8))
  with w1(1) assms show ?thesis
    by (simp add: bindUserRoute_def lookupUserRoute_def)
qed

definition node_with_redis :: RoutingService where
  "node_with_redis = setRedisClient True RoutingService_init"

theorem route_found_elsewhere_witness:
  "\<exists>a' w1 b' w2. bindUserRoute table_server ''bob'' ''n1'' node_with_redis (good_client, Map.empty) =
       Some (True, a', good_client, w1) \<and>
     lookupUserRoute table_server [CHR ''b'', CHR ''o'', CHR ''b'', CHR 0x00, CHR ''x''] node_with_redis (good_client, w1) =
       Some (Some ''n1'', b', good_client, w2)"
proof -
  have r: "rs_hasRedisClient node_with_redis" "0 < rs_routeTtlSeconds node_with_redis" "rs_localRoutes node_with_redis k = None" for k
    by (simp_all add: node_with_redis_def setRedisClient_def RoutingService_init_def)
  have s: "c_str [CHR ''b'', CHR ''o'', CHR ''b'', CHR 0x00, CHR ''x''] = c_str ''bob''" "c_str ''n1'' = ''n1''"
    by (simp_all add: c_str_def)
  show ?thesis
    using route_found_elsewhere [OF table_server_laws good_client_connected good_client_connected r(1) r(1) r(2) r(3) s(1), of "''n1''" Map.empty]
    by (auto simp: s(2))
qed

text \<open>What can happen on one node between two look-ups that is not about the user's own route.\<close>

datatype 'w route_op =
    Bind string string
  | Unbind string
  | Lookup string
  | Elsewhere 'w

fun route_step ::
    "'w hiredis \<Rightarrow> (RoutingService \<times> RedisClient \<times> 'w) option \<Rightarrow> 'w route_op \<Rightarrow>
     (RoutingService \<times> RedisClient \<times> 'w) option" where
  "route_step lib None _ = None"
| "route_step lib (Some (r, cw)) (Bind u n) = map_option snd (bindUserRoute lib u n r cw)"
| "route_step lib (Some (r, cw)) (Unbind u) = map_option snd (unbindUserRoute lib u r cw)"
| "route_step lib (Some (r, cw)) (Lookup u) = map_option snd (lookupUserRoute lib u r cw)"
| "route_step lib (Some (r, c, w)) (Elsewhere w') = Some (r, c, w')"

fun rebinds :: "string \<Rightarrow> 'w route_op \<Rightarrow> bool" where
  "rebinds u (Bind u' _) = (u = u')"
| "rebinds u (Unbind u') = (u = u')"
| "rebinds u _ = False"

definition cached :: "string \<Rightarrow> string \<Rightarrow> (RoutingService \<times> RedisClient \<times> 'w) option \<Rightarrow> bool" where
  "cached u node s \<longleftrightarrow> (case s of None \<Rightarrow> True | Some (r, _) \<Rightarrow> rs_localRoutes r u = Some node)"

lemma cached_step: "cached u node s \<Longrightarrow> \<not> rebinds u a \<Longrightarrow> cached u node (route_step lib s a)"
  by (cases a; cases s)
    (auto simp: cached_def bindUserRoute_def unbindUserRoute_def lookupUserRoute_def bind_eq_Some_conv Let_def
      split: option.splits if_splits prod.splits)

text \<open>
  A route a node has once seen is what every later look-up there
  returns, until this node itself binds or unbinds the user: no change in Redis, such as the user's
  new binding on another node, the removal of the route or the end of its time to live, has any
  effect. Here \<open>Elsewhere w\<close> replaces the whole world between two operations.
\<close>

theorem cached_route_sticks:
  assumes "lookupUserRoute lib u r (c, w) = Some (Some node, s0)"
    and "list_all (Not \<circ> rebinds u) ops"
    and "run (route_step lib) (Some s0) ops = Some (r', c', w')"
  shows "lookupUserRoute lib u r' (c', w') = Some (Some node, r', c', w')"
proof -
  have "cached u node (Some s0)"
    using assms(1) by (auto simp: cached_def lookupUserRoute_def bind_eq_Some_conv split: option.splits if_splits)
  then have "cached u node (run (route_step lib) s ops)" if "cached u node s" for s
    using that assms(2) by (induction ops arbitrary: s) (auto intro: cached_step)
  from this [of "Some s0"] \<open>cached u node (Some s0)\<close> assms(3)
  show ?thesis by (simp add: cached_def lookupUserRoute_def)
qed

theorem cached_route_sticks_witness:
  "lookupUserRoute table_server ''bob''
     (node_with_redis\<lparr>rs_localRoutes := [''bob'' \<mapsto> ''n1'']\<rparr>) (good_client, [''route:bob'' \<mapsto> ''n2'']) =
   Some (Some ''n1'', node_with_redis\<lparr>rs_localRoutes := [''bob'' \<mapsto> ''n1'']\<rparr>, good_client, [''route:bob'' \<mapsto> ''n2''])"
proof (rule cached_route_sticks)
  let ?r = "node_with_redis\<lparr>rs_localRoutes := [''bob'' \<mapsto> ''n1'']\<rparr>"
  show "lookupUserRoute table_server ''bob'' node_with_redis (good_client, [''route:bob'' \<mapsto> ''n1'']) =
      Some (Some ''n1'', ?r, good_client, [''route:bob'' \<mapsto> ''n1''])"
    by (simp add: lookupUserRoute_def node_with_redis_def setRedisClient_def RoutingService_init_def isConnected_def
        good_client_def get_def string_op_def executeCommand_def table_server_def makeRouteKey_def c_str_def
        checkReply_def)
  show "list_all (Not \<circ> rebinds ''bob'') [Elsewhere [''route:bob'' \<mapsto> ''n2'']]" by simp
  show "run (route_step table_server) (Some (?r, good_client, [''route:bob'' \<mapsto> ''n1'']))
      [Elsewhere [''route:bob'' \<mapsto> ''n2'']] = Some (?r, good_client, [''route:bob'' \<mapsto> ''n2''])"
    by simp
qed

end
