(* ===== verification/Buffer.thy ===== *)
theory Buffer
  imports Prelude
begin

text \<open>
  \<open>src/codec/buffer.h\<close> and \<open>src/codec/buffer.cpp\<close>: the growable input/output buffer. The record
  has the class's fields; every operation that asserts returns \<open>None\<close> where the assertion fails,
  so that a theorem that an operation returns \<open>Some\<close> is a theorem that no assertion fires. The
  abstract value of a buffer is its readable bytes, \<open>content\<close>; the locale \<open>byte_queue\<close> is the
  FIFO contract the codec and the connections rely on, and its interpretation at the end
  discharges it for the class.
\<close>

section \<open>The class\<close>

definition kCheapPrepend :: nat where "kCheapPrepend = 8"
definition kInitialSize :: nat where "kInitialSize = 1024"

record Buffer =
  m_buffer :: string
  m_readerIndex :: nat
  m_writerIndex :: nat

definition Buffer_init :: Buffer where
  "Buffer_init = \<lparr>m_buffer = replicate (kCheapPrepend + kInitialSize) (CHR 0x00),
                  m_readerIndex = kCheapPrepend, m_writerIndex = kCheapPrepend\<rparr>"

definition readableBytes :: "Buffer \<Rightarrow> nat" where
  "readableBytes b = m_writerIndex b - m_readerIndex b"

definition writableBytes :: "Buffer \<Rightarrow> nat" where
  "writableBytes b = length (m_buffer b) - m_writerIndex b"

definition prependableBytes :: "Buffer \<Rightarrow> nat" where
  "prependableBytes b = m_readerIndex b"

text \<open>\<open>peek n\<close> is the \<open>n\<close> bytes at \<open>peek()\<close>: a pointer is only ever read through a length.\<close>

definition peek :: "nat \<Rightarrow> Buffer \<Rightarrow> string" where
  "peek n b = substr (m_readerIndex b) n (m_buffer b)"

definition retrieveAll :: "Buffer \<Rightarrow> Buffer" where
  "retrieveAll b = b\<lparr>m_readerIndex := kCheapPrepend, m_writerIndex := kCheapPrepend\<rparr>"

definition retrieve :: "nat \<Rightarrow> Buffer \<Rightarrow> Buffer option" where
  "retrieve len b =
     (if \<not> len \<le> readableBytes b then None
      else if len < readableBytes b then Some (b\<lparr>m_readerIndex := m_readerIndex b + len\<rparr>)
      else Some (retrieveAll b))"

definition retrieveAsString :: "nat \<Rightarrow> Buffer \<Rightarrow> (string \<times> Buffer) option" where
  "retrieveAsString len b =
     (if \<not> len \<le> readableBytes b then None
      else let result = peek len b
           in case retrieve len b of None \<Rightarrow> None | Some b' \<Rightarrow> Some (result, b'))"

definition retrieveAllAsString :: "Buffer \<Rightarrow> (string \<times> Buffer) option" where
  "retrieveAllAsString b = retrieveAsString (readableBytes b) b"

text \<open>
  \<open>makeSpace\<close>: grow the vector when the free space before and after the content does not
  suffice, otherwise move the content to the front (\<open>std::copy\<close> to a smaller address).
\<close>

definition resize :: "nat \<Rightarrow> string \<Rightarrow> string" where
  "resize n v = take n v @ replicate (n - length v) (CHR 0x00)"

definition makeSpace :: "nat \<Rightarrow> Buffer \<Rightarrow> Buffer option" where
  "makeSpace len b =
     (if writableBytes b + prependableBytes b < len + kCheapPrepend
      then Some (b\<lparr>m_buffer := resize (m_writerIndex b + len) (m_buffer b)\<rparr>)
      else let readable = readableBytes b;
               b' = b\<lparr>m_buffer := write_at kCheapPrepend
                        (substr (m_readerIndex b) readable (m_buffer b)) (m_buffer b),
                      m_readerIndex := kCheapPrepend,
                      m_writerIndex := kCheapPrepend + readable\<rparr>
           in if readable = readableBytes b' then Some b' else None)"

definition ensureWritableBytes :: "nat \<Rightarrow> Buffer \<Rightarrow> Buffer option" where
  "ensureWritableBytes len b =
     (case (if writableBytes b < len then makeSpace len b else Some b) of
        None \<Rightarrow> None
      | Some b' \<Rightarrow> if writableBytes b' \<ge> len then Some b' else None)"

definition hasWritten :: "nat \<Rightarrow> Buffer \<Rightarrow> Buffer option" where
  "hasWritten len b =
     (if len \<le> writableBytes b then Some (b\<lparr>m_writerIndex := m_writerIndex b + len\<rparr>) else None)"

definition append :: "string \<Rightarrow> Buffer \<Rightarrow> Buffer option" where
  "append data b =
     (case ensureWritableBytes (length data) b of
        None \<Rightarrow> None
      | Some b1 \<Rightarrow>
          hasWritten (length data)
            (b1\<lparr>m_buffer := write_at (m_writerIndex b1) data (m_buffer b1)\<rparr>))"

text \<open>
  \<open>readFd\<close>: \<open>readv\<close> fills the writable space and then a 65536-byte array on the stack. The system
  call is the environment's: it fails with an \<open>errno\<close>, or delivers bytes, at most as many as the
  two areas hold. The result is the call's return value, the error number and the buffer.
\<close>

datatype errno = EAGAIN | EINTR | EPIPE | ECONNRESET | EOTHER

datatype readv_result = ReadErr errno | ReadOk string

definition kExtraBuf :: nat where "kExtraBuf = 65536"

definition readFd :: "readv_result \<Rightarrow> Buffer \<Rightarrow> (int \<times> errno option \<times> Buffer) option" where
  "readFd r b =
     (case r of
        ReadErr e \<Rightarrow> Some (-1, Some e, b)
      | ReadOk data \<Rightarrow>
          let writable = writableBytes b; n = length data;
              b1 = b\<lparr>m_buffer := write_at (m_writerIndex b) (take writable data) (m_buffer b)\<rparr>
          in if n \<le> writable
             then Some (int n, None, b1\<lparr>m_writerIndex := m_writerIndex b1 + n\<rparr>)
             else case append (drop writable data)
                         (b1\<lparr>m_writerIndex := length (m_buffer b1)\<rparr>) of
                    None \<Rightarrow> None
                  | Some b2 \<Rightarrow> Some (int n, None, b2))"

section \<open>Invariant and abstract content\<close>

definition buffer_inv :: "Buffer \<Rightarrow> bool" where
  "buffer_inv b \<longleftrightarrow> kCheapPrepend \<le> m_readerIndex b \<and> m_readerIndex b \<le> m_writerIndex b \<and>
     m_writerIndex b \<le> length (m_buffer b)"

definition content :: "Buffer \<Rightarrow> string" where
  "content b = substr (m_readerIndex b) (readableBytes b) (m_buffer b)"

named_theorems buffer_simps "definitions of the buffer's accessors"

lemma content_alt: "content b = drop (m_readerIndex b) (take (m_writerIndex b) (m_buffer b))"
  by (simp add: content_def readableBytes_def substr_def drop_take)

lemmas [buffer_simps] = readableBytes_def writableBytes_def prependableBytes_def content_alt
  substr_def write_at_def buffer_inv_def

lemma buffer_inv_init [simp, intro]: "buffer_inv Buffer_init"
  by (simp add: Buffer_init_def buffer_inv_def kInitialSize_def)

lemma content_init [simp]: "content Buffer_init = []"
  by (simp add: Buffer_init_def buffer_simps)

lemma readableBytes_content: "buffer_inv b \<Longrightarrow> readableBytes b = length (content b)"
  by (auto simp: buffer_simps)

lemma peek_content: "buffer_inv b \<Longrightarrow> n \<le> readableBytes b \<Longrightarrow> peek n b = take n (content b)"
  by (simp add: peek_def content_def substr_def)

lemma retrieveAll_spec: "buffer_inv b \<Longrightarrow> buffer_inv (retrieveAll b) \<and> content (retrieveAll b) = []"
  by (auto simp: retrieveAll_def buffer_simps)

lemma retrieve_spec:
  assumes "buffer_inv b" "len \<le> length (content b)"
  shows "\<exists>b'. retrieve len b = Some b' \<and> buffer_inv b' \<and> content b' = drop len (content b)"
proof (cases "len < readableBytes b")
  case True
  have "content (b\<lparr>m_readerIndex := m_readerIndex b + len\<rparr>) = drop len (content b)"
    by (simp add: content_def readableBytes_def substr_def drop_take add.commute)
  with True assms show ?thesis
    by (simp add: retrieve_def) (simp add: buffer_inv_def readableBytes_def)
next
  case False
  with assms retrieveAll_spec [of b] show ?thesis
    by (auto simp: retrieve_def readableBytes_content)
qed

lemma retrieve_None: "buffer_inv b \<Longrightarrow> retrieve len b = None \<longleftrightarrow> length (content b) < len"
  by (auto simp: retrieve_def readableBytes_content)

lemma makeSpace_spec:
  assumes "buffer_inv b"
  shows "\<exists>b'. makeSpace len b = Some b' \<and> buffer_inv b' \<and> content b' = content b \<and>
    len \<le> writableBytes b'"
proof (cases "writableBytes b + prependableBytes b < len + kCheapPrepend")
  case True
  with assms have "length (m_buffer b) \<le> m_writerIndex b + len"
    by (auto simp: buffer_simps)
  with True assms show ?thesis
    by (auto simp: makeSpace_def resize_def buffer_simps)
next
  case False
  with assms show ?thesis
    by (auto simp: makeSpace_def buffer_simps Let_def min_def drop_take)
qed

lemma ensureWritableBytes_spec:
  assumes "buffer_inv b"
  shows "\<exists>b'. ensureWritableBytes len b = Some b' \<and> buffer_inv b' \<and> content b' = content b \<and>
    len \<le> writableBytes b'"
  using makeSpace_spec [OF assms, of len] assms
  by (auto simp: ensureWritableBytes_def)

text \<open>Writing behind the content and advancing the writer appends.\<close>

lemma write_hasWritten:
  assumes "buffer_inv b" "length data \<le> writableBytes b"
  shows "\<exists>b'. hasWritten (length data)
      (b\<lparr>m_buffer := write_at (m_writerIndex b) data (m_buffer b)\<rparr>) = Some b' \<and>
    buffer_inv b' \<and> content b' = content b @ data"
  using assms by (auto simp: hasWritten_def buffer_simps)

lemma append_spec:
  assumes "buffer_inv b"
  shows "\<exists>b'. append data b = Some b' \<and> buffer_inv b' \<and> content b' = content b @ data"
proof -
  obtain b1 where b1: "ensureWritableBytes (length data) b = Some b1" "buffer_inv b1"
      "content b1 = content b" "length data \<le> writableBytes b1"
    using ensureWritableBytes_spec [OF assms, of "length data"] by auto
  show ?thesis
    using write_hasWritten [OF b1(2,4)] b1 by (simp add: append_def)
qed

lemma retrieveAsString_spec:
  assumes "buffer_inv b" "len \<le> length (content b)"
  shows "\<exists>b'. retrieveAsString len b = Some (take len (content b), b') \<and> buffer_inv b' \<and>
    content b' = drop len (content b)"
proof -
  obtain b' where b': "retrieve len b = Some b'" "buffer_inv b'" "content b' = drop len (content b)"
    using retrieve_spec [OF assms] by auto
  then show ?thesis
    using assms by (simp add: retrieveAsString_def readableBytes_content peek_content)
qed

lemma readFd_spec:
  assumes "buffer_inv b"
  shows "\<exists>b'. readFd (ReadOk data) b = Some (int (length data), None, b') \<and> buffer_inv b' \<and>
    content b' = content b @ data"
proof (cases "length data \<le> writableBytes b")
  case True
  then have "take (writableBytes b) data = data" by simp
  with write_hasWritten [OF assms True] True show ?thesis
    by (auto simp: readFd_def hasWritten_def Let_def writableBytes_def split: if_splits)
next
  case False
  let ?w = "writableBytes b"
  define b1 where
    "b1 = b\<lparr>m_buffer := write_at (m_writerIndex b) (take ?w data) (m_buffer b)\<rparr>"
  define b2 where "b2 = b1\<lparr>m_writerIndex := length (m_buffer b1)\<rparr>"
  have len: "length (take ?w data) = ?w" using False by simp
  then have "m_writerIndex b + ?w = length (m_buffer b)" "length (m_buffer b1) = length (m_buffer b)"
    using assms by (simp_all add: b1_def buffer_inv_def writableBytes_def)
  then have "hasWritten (length (take ?w data)) b1 = Some b2"
    using len assms by (simp add: hasWritten_def b2_def b1_def buffer_inv_def writableBytes_def)
  then have b2: "buffer_inv b2" "content b2 = content b @ take ?w data"
    using write_hasWritten [OF assms, of "take ?w data"] len unfolding b1_def by auto
  obtain b3 where "append (drop ?w data) b2 = Some b3" "buffer_inv b3"
      "content b3 = content b2 @ drop ?w data"
    using append_spec [OF b2(1)] by blast
  with False b2 show ?thesis
    by (simp add: readFd_def Let_def b1_def [symmetric] b2_def [symmetric])
qed

section \<open>The FIFO contract\<close>

text \<open>
  What a client of the buffer relies on: a partial \<open>put\<close> that never fails under the invariant, a
  \<open>get\<close> that fails exactly when fewer bytes are there, and a \<open>reset\<close>. Inside the locale: any
  history of puts and gets that asks for no more than is there runs without a failed assertion
  and delivers a prefix of what was put, in order, the rest staying in the queue.
\<close>

datatype queue_op = Put string | Get nat

primrec run_queue :: "(string \<Rightarrow> 'q \<Rightarrow> 'q option) \<Rightarrow> (nat \<Rightarrow> 'q \<Rightarrow> (string \<times> 'q) option) \<Rightarrow>
    queue_op list \<Rightarrow> 'q \<Rightarrow> (string \<times> 'q) option" where
  "run_queue put get [] q = Some ([], q)"
| "run_queue put get (a # as) q =
     (case a of
        Put s \<Rightarrow> (case put s q of None \<Rightarrow> None | Some q' \<Rightarrow> run_queue put get as q')
      | Get n \<Rightarrow> (case get n q of None \<Rightarrow> None
          | Some (s, q') \<Rightarrow>
              (case run_queue put get as q' of None \<Rightarrow> None | Some (t, r) \<Rightarrow> Some (s @ t, r))))"

fun puts :: "queue_op list \<Rightarrow> string" where
  "puts [] = []"
| "puts (Put s # as) = s @ puts as"
| "puts (Get n # as) = puts as"

text \<open>A history is served when no \<open>Get\<close> asks for more than is there.\<close>

fun served :: "nat \<Rightarrow> queue_op list \<Rightarrow> bool" where
  "served n [] = True"
| "served n (Put s # as) = served (n + length s) as"
| "served n (Get k # as) = (k \<le> n \<and> served (n - k) as)"

locale byte_queue =
  fixes qinv :: "'q \<Rightarrow> bool"
    and elems :: "'q \<Rightarrow> string"
    and put :: "string \<Rightarrow> 'q \<Rightarrow> 'q option"
    and get :: "nat \<Rightarrow> 'q \<Rightarrow> (string \<times> 'q) option"
    and reset :: "'q \<Rightarrow> 'q"
  assumes put_ok: "qinv q \<Longrightarrow> \<exists>q'. put s q = Some q' \<and> qinv q' \<and> elems q' = elems q @ s"
    and get_ok: "qinv q \<Longrightarrow> n \<le> length (elems q) \<Longrightarrow>
      \<exists>q'. get n q = Some (take n (elems q), q') \<and> qinv q' \<and> elems q' = drop n (elems q)"
    and get_short: "qinv q \<Longrightarrow> length (elems q) < n \<Longrightarrow> get n q = None"
    and reset_ok: "qinv q \<Longrightarrow> qinv (reset q) \<and> elems (reset q) = []"
begin

lemma fifo:
  "qinv q \<Longrightarrow> served (length (elems q)) as \<Longrightarrow>
   \<exists>out q'. run_queue put get as q = Some (out, q') \<and> qinv q' \<and> out @ elems q' = elems q @ puts as"
proof (induction as arbitrary: q)
  case Nil
  then show ?case by simp
next
  case (Cons a as)
  show ?case
  proof (cases a)
    case (Put s)
    obtain q1 where q1: "put s q = Some q1" "qinv q1" "elems q1 = elems q @ s"
      using put_ok [OF Cons.prems(1)] by blast
    with Cons.IH [of q1] Cons.prems(2) Put show ?thesis by auto
  next
    case (Get n)
    with Cons.prems have n: "n \<le> length (elems q)" by simp
    obtain q1 where q1: "get n q = Some (take n (elems q), q1)" "qinv q1" "elems q1 = drop n (elems q)"
      using get_ok [OF Cons.prems(1) n] by blast
    with Cons.IH [of q1] Cons.prems(2) Get obtain out q' where
      "run_queue put get as q1 = Some (out, q')" "qinv q'" "out @ elems q' = elems q1 @ puts as"
      by auto
    with q1 Get show ?thesis
      by (auto simp: append_take_drop_id simp flip: append_assoc)
        (metis append_assoc append_take_drop_id)
  qed
qed

end

interpretation buf: byte_queue buffer_inv content append retrieveAsString retrieveAll
proof unfold_locales
  fix q :: Buffer and s :: string and n :: nat
  assume inv: "buffer_inv q"
  show "\<exists>q'. append s q = Some q' \<and> buffer_inv q' \<and> content q' = content q @ s"
    using inv by (rule append_spec)
  show "\<exists>q'. retrieveAsString n q = Some (take n (content q), q') \<and> buffer_inv q' \<and>
      content q' = drop n (content q)" if "n \<le> length (content q)"
    using inv that by (rule retrieveAsString_spec)
  show "retrieveAsString n q = None" if "length (content q) < n"
    using inv that by (simp add: retrieveAsString_def readableBytes_content)
  show "buffer_inv (retrieveAll q) \<and> content (retrieveAll q) = []"
    using inv by (rule retrieveAll_spec)
qed

text \<open>
  Claim C5 (buffer_fifo). Over any history of appends and retrievals in which no retrieval asks
  for more than is readable, no assertion of the buffer fires, and what was retrieved followed by
  what is still readable is what was appended, in order, through every growth and compaction of
  the vector.
\<close>

theorem buffer_fifo:
  assumes "served 0 as"
  shows "\<exists>out b. run_queue append retrieveAsString as Buffer_init = Some (out, b) \<and>
    buffer_inv b \<and> out @ content b = puts as"
  using buf.fifo [of Buffer_init as] assms by simp

theorem buffer_fifo_witness:
  "served 0 [Put ''ab'', Get 1, Put ''c'', Get 2] \<and>
   (\<exists>out b. run_queue append retrieveAsString [Put ''ab'', Get 1, Put ''c'', Get 2] Buffer_init =
      Some (out, b) \<and> buffer_inv b \<and> out @ content b = ''abc'')"
proof -
  have h: "served 0 [Put ''ab'', Get 1, Put ''c'', Get 2]" by simp
  show ?thesis using h buffer_fifo [OF h] by simp
qed

text \<open>
  Whatever \<open>readv\<close> delivers, even more than the writable space, is
  appended to the readable bytes in order, and the call returns its length; an error leaves the
  buffer as it was.
\<close>

theorem readFd_appends:
  assumes "buffer_inv b"
  shows "(\<exists>b'. readFd (ReadOk data) b = Some (int (length data), None, b') \<and> buffer_inv b' \<and>
      content b' = content b @ data) \<and>
    readFd (ReadErr e) b = Some (-1, Some e, b)"
  using readFd_spec [OF assms] by (simp add: readFd_def)

theorem readFd_appends_witness:
  "buffer_inv Buffer_init \<and>
   (\<exists>b'. readFd (ReadOk ''hi'') Buffer_init = Some (2, None, b') \<and> buffer_inv b' \<and>
      content b' = ''hi'') \<and> readFd (ReadErr EAGAIN) Buffer_init = Some (-1, Some EAGAIN, Buffer_init)"
  using readFd_appends [OF buffer_inv_init, of "''hi''" EAGAIN] by simp

end
