(* ===== verification/Codec.thy ===== *)
theory Codec
  imports Protocol Buffer "HOL-Library.Monad_Syntax"
begin

text \<open>
  \<open>src/codec/codec.cpp\<close>: framing. \<open>pack\<close> writes a 44-byte header in network order and the payload
  behind it; \<open>onMessage\<close> is the two-state parser that cuts a byte stream back into packets. The
  callbacks the class invokes are the events the parser emits, in order; an assertion of the buffer
  that fires makes the result \<open>None\<close>, and the theorems show that none does.
\<close>

section \<open>The header on the wire\<close>

definition kMagicFieldOffset :: nat where "kMagicFieldOffset = 0"
definition kVersionFieldOffset :: nat where "kVersionFieldOffset = 4"
definition kHeaderLenFieldOffset :: nat where "kHeaderLenFieldOffset = 6"
definition kTotalLenFieldOffset :: nat where "kTotalLenFieldOffset = 8"
definition kCommandFieldOffset :: nat where "kCommandFieldOffset = 12"
definition kFlagsFieldOffset :: nat where "kFlagsFieldOffset = 14"
definition kRequestIdFieldOffset :: nat where "kRequestIdFieldOffset = 16"
definition kClientSeqFieldOffset :: nat where "kClientSeqFieldOffset = 20"
definition kServerSeqFieldOffset :: nat where "kServerSeqFieldOffset = 28"
definition kErrorCodeFieldOffset :: nat where "kErrorCodeFieldOffset = 36"
definition kChecksumFieldOffset :: nat where "kChecksumFieldOffset = 40"

lemmas offset_defs = kMagicFieldOffset_def kVersionFieldOffset_def kHeaderLenFieldOffset_def
  kTotalLenFieldOffset_def kCommandFieldOffset_def kFlagsFieldOffset_def kRequestIdFieldOffset_def
  kClientSeqFieldOffset_def kServerSeqFieldOffset_def kErrorCodeFieldOffset_def
  kChecksumFieldOffset_def

definition WriteHeader :: "nat \<Rightarrow> PacketHeader \<Rightarrow> string \<Rightarrow> string" where
  "WriteHeader out header m0 =
    (let m1 = write_at (out + kMagicFieldOffset) (mem32 (HostToNetwork32 (h_magic header))) m0;
         m2 = write_at (out + kVersionFieldOffset) (mem16 (HostToNetwork16 (h_version header))) m1;
         m3 = write_at (out + kHeaderLenFieldOffset) (mem16 (HostToNetwork16 (h_headerLen header))) m2;
         m4 = write_at (out + kTotalLenFieldOffset) (mem32 (HostToNetwork32 (h_totalLen header))) m3;
         m5 = write_at (out + kCommandFieldOffset) (mem16 (HostToNetwork16 (h_command header))) m4;
         m6 = write_at (out + kFlagsFieldOffset) (mem16 (HostToNetwork16 (h_flags header))) m5;
         m7 = write_at (out + kRequestIdFieldOffset) (mem32 (HostToNetwork32 (h_requestId header))) m6;
         m8 = write_at (out + kClientSeqFieldOffset) (mem64 (HostToNetwork64 (h_clientSeq header))) m7;
         m9 = write_at (out + kServerSeqFieldOffset) (mem64 (HostToNetwork64 (h_serverSeq header))) m8;
         m10 = write_at (out + kErrorCodeFieldOffset) (mem32 (HostToNetwork32 (h_errorCode header))) m9
     in write_at (out + kChecksumFieldOffset) (mem32 (HostToNetwork32 (h_checksum header))) m10)"

definition ReadHeader :: "string \<Rightarrow> PacketHeader" where
  "ReadHeader data =
     \<lparr>h_magic = NetworkToHost32 (load32 (substr kMagicFieldOffset 4 data)),
      h_version = NetworkToHost16 (load16 (substr kVersionFieldOffset 2 data)),
      h_headerLen = NetworkToHost16 (load16 (substr kHeaderLenFieldOffset 2 data)),
      h_totalLen = NetworkToHost32 (load32 (substr kTotalLenFieldOffset 4 data)),
      h_command = NetworkToHost16 (load16 (substr kCommandFieldOffset 2 data)),
      h_flags = NetworkToHost16 (load16 (substr kFlagsFieldOffset 2 data)),
      h_requestId = NetworkToHost32 (load32 (substr kRequestIdFieldOffset 4 data)),
      h_clientSeq = NetworkToHost64 (load64 (substr kClientSeqFieldOffset 8 data)),
      h_serverSeq = NetworkToHost64 (load64 (substr kServerSeqFieldOffset 8 data)),
      h_errorCode = NetworkToHost32 (load32 (substr kErrorCodeFieldOffset 4 data)),
      h_checksum = NetworkToHost32 (load32 (substr kChecksumFieldOffset 4 data))\<rparr>"

text \<open>The wire format as a specification: the fields one after the other, big-endian.\<close>

definition header_bytes :: "PacketHeader \<Rightarrow> string" where
  "header_bytes h =
     be_bytes 4 (unat (h_magic h)) @ be_bytes 2 (unat (h_version h)) @
     be_bytes 2 (unat (h_headerLen h)) @ be_bytes 4 (unat (h_totalLen h)) @
     be_bytes 2 (unat (h_command h)) @ be_bytes 2 (unat (h_flags h)) @
     be_bytes 4 (unat (h_requestId h)) @ be_bytes 8 (unat (h_clientSeq h)) @
     be_bytes 8 (unat (h_serverSeq h)) @ be_bytes 4 (unat (h_errorCode h)) @
     be_bytes 4 (unat (h_checksum h))"

lemma length_header_bytes [simp]: "length (header_bytes h) = kHeaderSize"
  by (simp add: header_bytes_def kHeaderSize_def)

lemma write_at_seq:
  "off = out + length bs \<Longrightarrow> off + length cs \<le> length s \<Longrightarrow>
   write_at off cs (write_at out bs s) = write_at out (bs @ cs) s"
  by (simp add: write_at_write_at)

lemma WriteHeader_eq:
  "out + kHeaderSize \<le> length m \<Longrightarrow> WriteHeader out h m = write_at out (header_bytes h) m"
  by (simp add: WriteHeader_def header_bytes_def offset_defs net_order kHeaderSize_def write_at_seq Let_def)

lemma ReadHeader_header_bytes: "ReadHeader (header_bytes h @ rest) = h"
  by (simp add: ReadHeader_def header_bytes_def offset_defs substr_def NetworkToHost16_load
      NetworkToHost32_load NetworkToHost64_load)

section \<open>Packing\<close>

text \<open>The header \<open>pack\<close> sends: the caller's, with the framing fields overwritten.\<close>

definition packed_header :: "PacketHeader \<Rightarrow> string \<Rightarrow> PacketHeader" where
  "packed_header rawHeader message =
     rawHeader\<lparr>h_magic := kMagicNumber, h_version := kProtocolVersionV1,
       h_headerLen := of_nat kHeaderSize,
       h_totalLen := of_nat kHeaderSize + of_nat (length message),
       h_checksum := ucast (CalcCRC16 message)\<rparr>"

definition pack :: "Buffer \<Rightarrow> PacketHeader \<Rightarrow> string \<Rightarrow> Buffer option" where
  "pack buffer rawHeader message =
     do {
       let header = packed_header rawHeader message;
       b1 \<leftarrow> ensureWritableBytes kHeaderSize buffer;
       let b2 = b1\<lparr>m_buffer := WriteHeader (m_writerIndex b1) header (m_buffer b1)\<rparr>;
       b3 \<leftarrow> hasWritten kHeaderSize b2;
       append message b3
     }"

definition pack_command :: "Buffer \<Rightarrow> u16 \<Rightarrow> u32 \<Rightarrow> string \<Rightarrow> Buffer option" where
  "pack_command buffer command seqId message =
     pack buffer
       (PacketHeader_default\<lparr>h_command := command, h_flags := GuessFlagsFromCommand command,
          h_requestId := seqId, h_clientSeq := ucast seqId,
          h_totalLen := of_nat kHeaderSize + of_nat (length message),
          h_checksum := ucast (CalcCRC16 message)\<rparr>) message"

definition packet_bytes :: "PacketHeader \<Rightarrow> string \<Rightarrow> string" where
  "packet_bytes h m = header_bytes (packed_header h m) @ m"

lemma pack_spec:
  assumes "buffer_inv b"
  shows "\<exists>b'. pack b h m = Some b' \<and> buffer_inv b' \<and> content b' = content b @ packet_bytes h m"
proof -
  let ?h = "packed_header h m"
  obtain b1 where b1: "ensureWritableBytes kHeaderSize b = Some b1" "buffer_inv b1"
      "content b1 = content b" "kHeaderSize \<le> writableBytes b1"
    using ensureWritableBytes_spec [OF assms] by blast
  have fits: "m_writerIndex b1 + kHeaderSize \<le> length (m_buffer b1)"
    using b1(2,4) by (auto simp: buffer_inv_def writableBytes_def)
  obtain b3 where b3: "hasWritten kHeaderSize
        (b1\<lparr>m_buffer := write_at (m_writerIndex b1) (header_bytes ?h) (m_buffer b1)\<rparr>) = Some b3"
      "buffer_inv b3" "content b3 = content b1 @ header_bytes ?h"
    using write_hasWritten [OF b1(2), of "header_bytes ?h"] b1(4) by auto
  show ?thesis
    using append_spec [OF b3(2), of m] b1 b3
    by (auto simp: pack_def WriteHeader_eq [OF fits] packet_bytes_def)
qed

section \<open>The parser\<close>

datatype ParseState = kExpectHeader | kExpectPayload

record DecodedPacket =
  p_header :: PacketHeader
  p_payload :: string

text \<open>The parser's fields; a callback that was never set is not invoked.\<close>

record Codec =
  c_state :: ParseState
  c_expectedLength :: u32
  c_currentHeader :: PacketHeader
  c_hasMessageCallback :: bool
  c_hasPacketCallback :: bool
  c_hasErrorCallback :: bool

definition Codec_init :: "bool \<Rightarrow> bool \<Rightarrow> bool \<Rightarrow> Codec" where
  "Codec_init msg pkt err =
     \<lparr>c_state = kExpectHeader, c_expectedLength = of_nat kHeaderSize,
      c_currentHeader = PacketHeader_default, c_hasMessageCallback = msg,
      c_hasPacketCallback = pkt, c_hasErrorCallback = err\<rparr>"

text \<open>
  The callbacks, with the connection they are called with (a null pointer from \<open>parseHeader\<close>).
\<close>

datatype 'c codec_event =
    OnError "'c option" ErrorCode
  | OnPacket 'c DecodedPacket
  | OnMessage 'c u16 u32 string

definition error_event :: "Codec \<Rightarrow> 'c option \<Rightarrow> ErrorCode \<Rightarrow> 'c codec_event list" where
  "error_event c conn e = (if c_hasErrorCallback c then [OnError conn e] else [])"

definition expect_header :: "Codec \<Rightarrow> Codec" where
  "expect_header c = c\<lparr>c_state := kExpectHeader, c_expectedLength := of_nat kHeaderSize\<rparr>"

definition parseHeader :: "Codec \<Rightarrow> Buffer \<Rightarrow> bool \<times> Codec \<times> Buffer \<times> 'c codec_event list" where
  "parseHeader c buffer =
     (let h = ReadHeader (peek kHeaderSize buffer);
          c1 = c\<lparr>c_currentHeader := h\<rparr>
      in if h_magic h \<noteq> kMagicNumber
         then (False, expect_header c1, retrieveAll buffer, error_event c None ErrInvalidPacket)
         else if h_version h \<noteq> kProtocolVersionV1
         then (False, expect_header c1, retrieveAll buffer, error_event c None ErrUnsupportedVersion)
         else if h_headerLen h \<noteq> of_nat kHeaderSize \<or> h_totalLen h < of_nat kHeaderSize \<or>
                 h_totalLen h > kMaxMessageSize
         then (False, expect_header c1, retrieveAll buffer, error_event c None ErrPayloadTooLarge)
         else (True, c1\<lparr>c_expectedLength := h_totalLen h, c_state := kExpectPayload\<rparr>, buffer, []))"

definition parsePayload ::
    "'c \<Rightarrow> Codec \<Rightarrow> Buffer \<Rightarrow> (bool \<times> Codec \<times> Buffer \<times> 'c codec_event list) option" where
  "parsePayload conn c buffer =
     (let h = c_currentHeader c;
          payloadLen = h_totalLen h - ucast (h_headerLen h);
          payload = substr (unat (h_headerLen h)) (unat payloadLen)
                      (peek (unat (h_headerLen h) + unat payloadLen) buffer);
          calcChecksum = (ucast (CalcCRC16 payload) :: u32)
      in case retrieve (unat (c_expectedLength c)) buffer of
           None \<Rightarrow> None
         | Some b' \<Rightarrow>
             if h_checksum h \<noteq> calcChecksum
             then Some (False, expect_header c, b', error_event c (Some conn) ErrChecksumMismatch)
             else Some (True, expect_header c, b',
                    (if c_hasPacketCallback c then [OnPacket conn \<lparr>p_header = h, p_payload = payload\<rparr>] else []) @
                    (if c_hasMessageCallback c then [OnMessage conn (h_command h) (h_requestId h) payload] else [])))"

text \<open>
  One turn of the \<open>while (true)\<close> of \<open>onMessage\<close>; the Boolean says whether the loop goes on.
\<close>

definition onMessage_payload ::
    "'c \<Rightarrow> Codec \<Rightarrow> Buffer \<Rightarrow> (bool \<times> Codec \<times> Buffer \<times> 'c codec_event list) option" where
  "onMessage_payload conn c buffer =
     (if readableBytes buffer < unat (c_expectedLength c) then Some (False, c, buffer, [])
      else parsePayload conn c buffer)"

definition onMessage_turn ::
    "'c \<Rightarrow> Codec \<Rightarrow> Buffer \<Rightarrow> (bool \<times> Codec \<times> Buffer \<times> 'c codec_event list) option" where
  "onMessage_turn conn c buffer =
     (if c_state c = kExpectHeader
      then if readableBytes buffer < kHeaderSize then Some (False, c, buffer, [])
           else case parseHeader c buffer of
                  (ok, c1, b1, ev) \<Rightarrow>
                    if \<not> ok then Some (False, c1, b1, ev) else onMessage_payload conn c1 b1
      else onMessage_payload conn c buffer)"

lemma retrieve_readable:
  "retrieve len b = Some b' \<Longrightarrow> readableBytes b' + len = readableBytes b"
  by (auto simp: retrieve_def retrieveAll_def readableBytes_def split: if_splits)

lemma parseHeader_True:
  "parseHeader c b = (True, c1, b1, ev) \<Longrightarrow>
   b1 = b \<and> c_state c1 = kExpectPayload \<and> kHeaderSize \<le> unat (c_expectedLength c1)"
  by (auto simp: parseHeader_def Let_def kHeaderSize_def word_less_nat_alt not_less split: if_splits)

lemma onMessage_payload_True:
  "onMessage_payload conn c b = Some (True, c', b', ev) \<Longrightarrow>
   c_state c' = kExpectHeader \<and> readableBytes b' + unat (c_expectedLength c) = readableBytes b"
  by (auto simp: onMessage_payload_def parsePayload_def Let_def expect_header_def
      dest: retrieve_readable split: if_splits option.splits)

lemma onMessage_turn_decreases:
  assumes "onMessage_turn conn c b = Some (True, c', b', ev)"
  shows "2 * readableBytes b' + (if c_state c' = kExpectPayload then 1 else 0) <
         2 * readableBytes b + (if c_state c = kExpectPayload then 1 else (0 :: nat))"
  using assms
  by (cases "c_state c")
    (auto simp: onMessage_turn_def kHeaderSize_def split: if_splits prod.splits
      dest!: parseHeader_True onMessage_payload_True)

function onMessage ::
    "'c \<Rightarrow> Codec \<Rightarrow> Buffer \<Rightarrow> (Codec \<times> Buffer \<times> 'c codec_event list) option" where
  "onMessage conn c buffer =
     (case onMessage_turn conn c buffer of
        None \<Rightarrow> None
      | Some (goes_on, c', b', ev) \<Rightarrow>
          if goes_on
          then case onMessage conn c' b' of None \<Rightarrow> None | Some (c'', b'', ev') \<Rightarrow> Some (c'', b'', ev @ ev')
          else Some (c', b', ev))"
  by pat_completeness auto
termination
  by (relation "measure (\<lambda>(conn, c, b). 2 * readableBytes b + (if c_state c = kExpectPayload then 1 else 0))")
    (use onMessage_turn_decreases in \<open>auto dest!: onMessage_turn_decreases\<close>)

declare onMessage.simps [simp del]

section \<open>What one turn does\<close>

text \<open>A packet small enough for the receiver, and the events its arrival causes.\<close>

definition packet_ok :: "string \<Rightarrow> bool" where
  "packet_ok m \<longleftrightarrow> kHeaderSize + length m \<le> unat kMaxMessageSize"

definition packet_events :: "Codec \<Rightarrow> 'c \<Rightarrow> PacketHeader \<Rightarrow> string \<Rightarrow> 'c codec_event list" where
  "packet_events c conn h m =
     (if c_hasPacketCallback c then [OnPacket conn \<lparr>p_header = h, p_payload = m\<rparr>] else []) @
     (if c_hasMessageCallback c then [OnMessage conn (h_command h) (h_requestId h) m] else [])"

text \<open>The parser waiting for the payload of the packet with header \<open>h\<close>.\<close>

definition waiting :: "PacketHeader \<Rightarrow> Codec \<Rightarrow> Codec" where
  "waiting h c = c\<lparr>c_state := kExpectPayload, c_expectedLength := h_totalLen h, c_currentHeader := h\<rparr>"

lemma unat_totalLen:
  assumes "packet_ok m"
  shows "unat (h_totalLen (packed_header h m)) = kHeaderSize + length m"
proof -
  have "kHeaderSize + length m < 2 ^ 32"
    using assms by (simp add: packet_ok_def kMaxMessageSize_def)
  then have "unat (of_nat (kHeaderSize + length m) :: u32) = kHeaderSize + length m"
    by (simp only: unat_of_nat) simp
  then show ?thesis by (simp add: packed_header_def)
qed

lemma length_packet_bytes [simp]: "length (packet_bytes h m) = kHeaderSize + length m"
  by (simp add: packet_bytes_def)

lemma parseHeader_packed:
  assumes "buffer_inv b" "content b = header_bytes (packed_header h m) @ rest" "packet_ok m"
  shows "parseHeader c b = (True, waiting (packed_header h m) c, b, [])"
proof -
  let ?h = "packed_header h m"
  have "kHeaderSize \<le> readableBytes b"
    using assms(1,2) by (simp add: readableBytes_content)
  then have "peek kHeaderSize b = header_bytes ?h"
    using assms(1,2) by (simp add: peek_content)
  then have "ReadHeader (peek kHeaderSize b) = ?h"
    using ReadHeader_header_bytes [of ?h "[]"] by simp
  moreover have "\<not> h_totalLen ?h < of_nat kHeaderSize" "\<not> kMaxMessageSize < h_totalLen ?h"
    using assms(3) unat_totalLen [OF assms(3), of h]
    by (simp_all add: word_less_nat_alt packet_ok_def kHeaderSize_def)
  moreover have "h_magic ?h = kMagicNumber" "h_version ?h = kProtocolVersionV1"
      "h_headerLen ?h = of_nat kHeaderSize"
    by (simp_all add: packed_header_def)
  ultimately show ?thesis
    by (simp add: parseHeader_def Let_def waiting_def)
qed

text \<open>
  A parser that waits for the payload of the header it holds takes the next bytes of whatever
  buffer it is given: the 44 bytes it skips are not looked at again.
\<close>

lemma payload_packed:
  assumes b: "buffer_inv b" "content b = skipped @ m @ rest" "length skipped = kHeaderSize"
    and m: "packet_ok m"
  shows "\<exists>b'. onMessage_payload conn (waiting (packed_header h m) c) b =
      Some (True, expect_header (waiting (packed_header h m) c), b',
        packet_events c conn (packed_header h m) m) \<and>
    buffer_inv b' \<and> content b' = rest"
proof -
  let ?h = "packed_header h m"
  have len: "unat (h_totalLen ?h) = kHeaderSize + length m" by (rule unat_totalLen [OF m])
  have hl: "unat (h_headerLen ?h) = kHeaderSize" by (simp add: packed_header_def kHeaderSize_def)
  have "length m < 2 ^ 32"
    using m by (simp add: packet_ok_def kMaxMessageSize_def kHeaderSize_def)
  then have pl: "unat (h_totalLen ?h - ucast (h_headerLen ?h)) = length m"
    by (simp add: packed_header_def kHeaderSize_def unat_of_nat)
  have size: "kHeaderSize + length m \<le> length (content b)" using b by simp
  then have payload: "substr kHeaderSize (length m) (peek (kHeaderSize + length m) b) = m"
    using b by (simp add: peek_content readableBytes_content substr_def)
  obtain b' where "retrieve (kHeaderSize + length m) b = Some b'" "buffer_inv b'" "content b' = rest"
    using retrieve_spec [OF b(1) size] b(2,3) by auto
  moreover have "h_checksum ?h = ucast (CalcCRC16 m)" by (simp add: packed_header_def)
  moreover have "\<not> readableBytes b < kHeaderSize + length m"
    using size b(1) by (simp add: readableBytes_content)
  ultimately show ?thesis
    by (simp add: onMessage_payload_def parsePayload_def waiting_def len hl pl payload
        packet_events_def Let_def)
qed

text \<open>Waiting does not change the callbacks.\<close>

lemma packet_events_waiting [simp]:
  "packet_events (waiting h c) conn = packet_events c conn"
  "packet_events (expect_header c) conn = packet_events c conn"
  by (simp_all add: packet_events_def waiting_def expect_header_def fun_eq_iff)

lemma c_state_simps [simp]:
  "c_state (waiting h c) = kExpectPayload" "c_state (expect_header c) = kExpectHeader"
  "c_expectedLength (waiting h c) = h_totalLen h"
  by (simp_all add: waiting_def expect_header_def)

lemma turn_whole_packet:
  assumes "c_state c = kExpectHeader" "buffer_inv b" "content b = packet_bytes h m @ rest" "packet_ok m"
  shows "\<exists>b'. onMessage_turn conn c b =
      Some (True, expect_header (waiting (packed_header h m) c), b',
        packet_events c conn (packed_header h m) m) \<and>
    buffer_inv b' \<and> content b' = rest"
proof -
  have "parseHeader c b = (True, waiting (packed_header h m) c, b, [] :: 'a codec_event list)"
    by (rule parseHeader_packed) (use assms in \<open>simp_all add: packet_bytes_def\<close>)
  moreover have "\<not> readableBytes b < kHeaderSize"
    using assms by (simp add: readableBytes_content)
  ultimately have "onMessage_turn conn c b = onMessage_payload conn (waiting (packed_header h m) c) b"
    using assms(1) by (simp add: onMessage_turn_def)
  then show ?thesis
    using payload_packed [OF assms(2) _ _ assms(4), of "header_bytes (packed_header h m)" rest conn h c] assms(3)
    by (simp add: packet_bytes_def)
qed

section \<open>Streams\<close>

text \<open>
  A connection's input as the event loop sees it: each element is what was read from the socket
  before one call of \<open>onMessage\<close>.
\<close>

fun feed :: "'c \<Rightarrow> Codec \<Rightarrow> Buffer \<Rightarrow> string list \<Rightarrow> (Codec \<times> Buffer \<times> 'c codec_event list) option" where
  "feed conn c b [] = Some (c, b, [])"
| "feed conn c b (chunk # chunks) =
     do {
       (_, _, b1) \<leftarrow> readFd (ReadOk chunk) b;
       (c2, b2, ev) \<leftarrow> onMessage conn c b1;
       (c3, b3, ev') \<leftarrow> feed conn c2 b2 chunks;
       Some (c3, b3, ev @ ev')
     }"

definition stream :: "(PacketHeader \<times> string) list \<Rightarrow> string" where
  "stream ps = concat (map (\<lambda>(h, m). packet_bytes h m) ps)"

definition stream_events ::
    "Codec \<Rightarrow> 'c \<Rightarrow> (PacketHeader \<times> string) list \<Rightarrow> 'c codec_event list" where
  "stream_events c conn ps = concat (map (\<lambda>(h, m). packet_events c conn (packed_header h m) m) ps)"

text \<open>
  The parser agrees with the stream: it is between packets, or it has read the header of the next
  packet, whose bytes are still in the buffer.
\<close>

definition in_sync :: "Codec \<Rightarrow> string \<Rightarrow> (PacketHeader \<times> string) list \<Rightarrow> bool" where
  "in_sync c bs ps \<longleftrightarrow>
     c_state c = kExpectHeader \<or>
     (\<exists>h m ps'. ps = (h, m) # ps' \<and> kHeaderSize \<le> length bs \<and> c = waiting (packed_header h m) c)"

definition callbacks :: "Codec \<Rightarrow> bool \<times> bool \<times> bool" where
  "callbacks c = (c_hasMessageCallback c, c_hasPacketCallback c, c_hasErrorCallback c)"

lemma callbacks_simps [simp]:
  "callbacks (waiting h c) = callbacks c" "callbacks (expect_header c) = callbacks c"
  by (simp_all add: callbacks_def waiting_def expect_header_def)

lemma packet_events_callbacks:
  "callbacks c = callbacks d \<Longrightarrow> packet_events c conn = packet_events d conn"
  by (simp add: callbacks_def packet_events_def fun_eq_iff)


lemma stream_events_callbacks:
  "callbacks c = callbacks d \<Longrightarrow> stream_events c conn ps = stream_events d conn ps"
  by (simp add: stream_events_def packet_events_callbacks [of c d])

lemma onMessage_goes_on:
  "onMessage_turn conn c b = Some (True, c', b', ev) \<Longrightarrow> onMessage conn c' b' = Some (c2, b2, ev2) \<Longrightarrow>
   onMessage conn c b = Some (c2, b2, ev @ ev2)"
  by (subst onMessage.simps) simp

lemma onMessage_stops:
  "onMessage_turn conn c b = Some (False, c', b', ev) \<Longrightarrow> onMessage conn c b = Some (c', b', ev)"
  by (subst onMessage.simps) simp

text \<open>The first packet of the stream is not complete: the parser stops, at most having read its header.\<close>

lemma turn_partial_packet:
  assumes "in_sync c (content b) ((h, m) # ps)" "buffer_inv b"
    and pre: "content b @ later = packet_bytes h m @ stream ps"
    and short: "length (content b) < kHeaderSize + length m" and m: "packet_ok m"
  shows "\<exists>c'. onMessage_turn conn c b = Some (False, c', b, []) \<and>
    in_sync c' (content b) ((h, m) # ps) \<and> callbacks c' = callbacks c"
proof (cases "c_state c = kExpectHeader")
  case True
  show ?thesis
  proof (cases "length (content b) < kHeaderSize")
    case short': True
    with True assms(1,2) show ?thesis
      by (simp add: onMessage_turn_def readableBytes_content)
  next
    case False
    have "take (length (content b)) (packet_bytes h m @ stream ps) = content b"
      using pre by (metis append_eq_conv_conj)
    with short have "content b = take (length (content b)) (header_bytes (packed_header h m) @ m)"
      by (simp add: packet_bytes_def)
    with False have "content b = header_bytes (packed_header h m) @ take (length (content b) - kHeaderSize) m"
      by simp
    then have "parseHeader c b = (True, waiting (packed_header h m) c, b, [] :: 'a codec_event list)"
      by (rule parseHeader_packed [OF assms(2) _ m])
    moreover have "waiting (packed_header h m) c = waiting (packed_header h m) (waiting (packed_header h m) c)"
      by (simp add: waiting_def)
    ultimately show ?thesis
      using True False short assms(2) unat_totalLen [OF m, of h]
      by (auto simp: onMessage_turn_def onMessage_payload_def readableBytes_content in_sync_def)
  qed
next
  case False
  with assms(1) have c: "c = waiting (packed_header h m) c" by (auto simp: in_sync_def)
  then have "unat (c_expectedLength c) = kHeaderSize + length m"
    using unat_totalLen [OF m, of h] by (metis c_state_simps(3))
  with False short assms(1,2) show ?thesis
    by (simp add: onMessage_turn_def onMessage_payload_def readableBytes_content)
qed

lemma turn_full_packet:
  assumes "in_sync c (content b) ((h, m) # ps)" "buffer_inv b"
    and pre: "content b = packet_bytes h m @ rest" and m: "packet_ok m"
  shows "\<exists>c' b'. onMessage_turn conn c b =
      Some (True, c', b', packet_events c conn (packed_header h m) m) \<and>
    c_state c' = kExpectHeader \<and> callbacks c' = callbacks c \<and> buffer_inv b' \<and> content b' = rest"
proof (cases "c_state c = kExpectHeader")
  case True
  then show ?thesis
    using turn_whole_packet [OF True assms(2) pre m, of conn] by auto
next
  case False
  with assms(1) have c: "c = waiting (packed_header h m) c" by (auto simp: in_sync_def)
  have "content b = header_bytes (packed_header h m) @ m @ rest"
    using pre by (simp add: packet_bytes_def)
  from payload_packed [OF assms(2) this length_header_bytes m, of conn h c]
  obtain b' where "onMessage_payload conn c b =
      Some (True, expect_header c, b', packet_events c conn (packed_header h m) m)"
      "buffer_inv b'" "content b' = rest"
    by (auto simp only: c [symmetric])
  with False show ?thesis
    by (simp add: onMessage_turn_def)
qed

lemma buffered_packet:
  assumes "xs @ later = packet_bytes h m @ ys" "kHeaderSize + length m \<le> length xs"
  obtains rest where "xs = packet_bytes h m @ rest" "rest @ later = ys"
proof
  have "take (kHeaderSize + length m) xs = packet_bytes h m"
    using assms(2) arg_cong [OF assms(1), of "take (kHeaderSize + length m)"] by simp
  then show xs: "xs = packet_bytes h m @ drop (kHeaderSize + length m) xs"
    by (metis append_take_drop_id)
  show "drop (kHeaderSize + length m) xs @ later = ys"
    using assms(1) by (subst (asm) xs) simp
qed

text \<open>A complete packet at the front is delivered, and the call goes on as one on the rest.\<close>

lemma onMessage_full_packet:
  assumes "in_sync c (content b) ((h, m) # ps)" "buffer_inv b" "content b = packet_bytes h m @ rest" "packet_ok m"
  obtains c1 b1 where "in_sync c1 (content b1) ps" "callbacks c1 = callbacks c" "buffer_inv b1" "content b1 = rest"
    "\<And>c' b' ds. onMessage conn c1 b1 = Some (c', b', stream_events c1 conn ds) \<Longrightarrow>
       onMessage conn c b = Some (c', b', stream_events c conn ((h, m) # ds))"
proof -
  obtain c1 b1 where t: "onMessage_turn conn c b =
        Some (True, c1, b1, packet_events c conn (packed_header h m) m)"
      "c_state c1 = kExpectHeader" "callbacks c1 = callbacks c" "buffer_inv b1" "content b1 = rest"
    using turn_full_packet [OF assms, of conn] by blast
  have "onMessage conn c b = Some (c', b', stream_events c conn ((h, m) # ds))"
    if "onMessage conn c1 b1 = Some (c', b', stream_events c1 conn ds)" for c' b' ds
    using onMessage_goes_on [OF t(1) that] stream_events_callbacks [OF t(3), of conn ds]
    by (simp add: stream_events_def)
  moreover have "in_sync c1 (content b1) ps" using t(2) by (simp add: in_sync_def)
  ultimately show thesis using t(3-5) by (intro that [of c1 b1])
qed

text \<open>One call of \<open>onMessage\<close> delivers exactly the packets that are complete.\<close>

lemma onMessage_in_sync:
  assumes "in_sync c (content b) ps" "buffer_inv b" "content b @ later = stream ps"
    "list_all (\<lambda>(h, m). packet_ok m) ps"
  shows "\<exists>c' b' ds ps'. onMessage conn c b = Some (c', b', stream_events c conn ds) \<and>
    ps = ds @ ps' \<and> in_sync c' (content b') ps' \<and> callbacks c' = callbacks c \<and> buffer_inv b' \<and>
    content b' @ later = stream ps' \<and>
    (\<forall>h m qs. ps' = (h, m) # qs \<longrightarrow> length (content b') < kHeaderSize + length m)"
  using assms
proof (induction ps arbitrary: c b)
  case Nil
  then have "content b = []" "c_state c = kExpectHeader"
    by (auto simp: stream_def in_sync_def)
  then have "onMessage_turn conn c b = Some (False, c, b, [])"
    using Nil.prems(2) by (simp add: onMessage_turn_def readableBytes_content kHeaderSize_def)
  from onMessage_stops [OF this] Nil show ?case
    by (auto simp: stream_events_def)
next
  case (Cons p ps)
  obtain h m where p: "p = (h, m)" by (cases p)
  from Cons.prems p have m: "packet_ok m" and oks: "list_all (\<lambda>(h, m). packet_ok m) ps" by auto
  have eq: "content b @ later = packet_bytes h m @ stream ps"
    using Cons.prems(3) p by (simp add: stream_def)
  show ?case
  proof (cases "length (content b) < kHeaderSize + length m")
    case True
    obtain c' where c': "onMessage_turn conn c b = Some (False, c', b, [])"
        "in_sync c' (content b) ((h, m) # ps)" "callbacks c' = callbacks c"
      using turn_partial_packet [OF Cons.prems(1) [unfolded p] Cons.prems(2) eq True m, of conn] by blast
    from onMessage_stops [OF c'(1)] have "onMessage conn c b = Some (c', b, stream_events c conn [])"
      by (simp add: stream_events_def)
    with c'(2,3) Cons.prems(2,3) p True show ?thesis
      by (intro exI [of _ c'] exI [of _ b] exI [of _ "[]"] exI [of _ "p # ps"]) auto
  next
    case False
    with eq obtain rest where rest: "content b = packet_bytes h m @ rest" "rest @ later = stream ps"
      by (auto elim: buffered_packet)
    from Cons.prems(1) [unfolded p] Cons.prems(2) rest(1) m
    obtain c1 b1 where t: "in_sync c1 (content b1) ps" "callbacks c1 = callbacks c" "buffer_inv b1" "content b1 = rest"
      and goes_on: "\<And>c' b' ds. onMessage conn c1 b1 = Some (c', b', stream_events c1 conn ds) \<Longrightarrow>
        onMessage conn c b = Some (c', b', stream_events c conn ((h, m) # ds))"
      by (rule onMessage_full_packet [where conn = conn]) (rule that)
    from Cons.IH [OF t(1,3) _ oks] t(4) rest(2)
    obtain c' b' ds ps' where r: "onMessage conn c1 b1 = Some (c', b', stream_events c1 conn ds)"
        "ps = ds @ ps'" "in_sync c' (content b') ps'" "callbacks c' = callbacks c1" "buffer_inv b'"
        "content b' @ later = stream ps'"
        "\<forall>h m qs. ps' = (h, m) # qs \<longrightarrow> length (content b') < kHeaderSize + length m"
      by auto
    from goes_on [OF r(1)] r t(2) p show ?thesis
      by (intro exI [of _ c'] exI [of _ b'] exI [of _ "p # ds"] exI [of _ ps']) auto
  qed
qed

lemma feed_in_sync:
  assumes "in_sync c (content b) ps" "buffer_inv b" "content b @ concat chunks = stream ps"
    "list_all (\<lambda>(h, m). packet_ok m) ps" "chunks \<noteq> []"
  shows "\<exists>c' b'. feed conn c b chunks = Some (c', b', stream_events c conn ps) \<and>
    buffer_inv b' \<and> content b' = [] \<and> c_state c' = kExpectHeader"
  using assms
proof (induction chunks arbitrary: c b ps)
  case Nil
  then show ?case by simp
next
  case (Cons chunk chunks)
  obtain b1 where b1: "readFd (ReadOk chunk) b = Some (int (length chunk), None, b1)" "buffer_inv b1"
      "content b1 = content b @ chunk"
    using readFd_spec [OF Cons.prems(2)] by blast
  have "in_sync c (content b1) ps"
    using Cons.prems(1) b1(3) by (auto simp: in_sync_def)
  from onMessage_in_sync [OF this b1(2) _ Cons.prems(4), of "concat chunks" conn] b1(3) Cons.prems(3)
  obtain c2 b2 ds ps' where r: "onMessage conn c b1 = Some (c2, b2, stream_events c conn ds)"
      "ps = ds @ ps'" "in_sync c2 (content b2) ps'" "callbacks c2 = callbacks c" "buffer_inv b2"
      "content b2 @ concat chunks = stream ps'"
      "\<forall>h m qs. ps' = (h, m) # qs \<longrightarrow> length (content b2) < kHeaderSize + length m"
    by auto
  have ev: "stream_events c2 conn ps' = stream_events c conn ps'"
    using r(4) by (rule stream_events_callbacks)
  have ev_app: "stream_events c conn ds @ stream_events c conn ps' = stream_events c conn ps"
    using r(2) by (simp add: stream_events_def)
  show ?case
  proof (cases "chunks = []")
    case True
    with r(6) have all: "content b2 = stream ps'" by simp
    have "ps' = []"
    proof (cases ps')
      case (Cons q qs)
      obtain h m where "q = (h, m)" by (cases q)
      with r(7) Cons all show ?thesis by (auto simp: stream_def)
    qed
    with True r b1 all ev_app show ?thesis
      by (auto simp: stream_def stream_events_def in_sync_def)
  next
    case False
    have "list_all (\<lambda>(h, m). packet_ok m) ps'" using Cons.prems(4) r(2) by simp
    from Cons.IH [OF r(3,5,6) this False] obtain c3 b3 where
      "feed conn c2 b2 chunks = Some (c3, b3, stream_events c2 conn ps')" "buffer_inv b3"
      "content b3 = []" "c_state c3 = kExpectHeader"
      by blast
    with b1 r ev ev_app show ?thesis by simp
  qed
qed

section \<open>Properties\<close>

text \<open>
  Claim C1 (pack_onMessage_stream). However TCP cuts a stream of packed messages into reads
  (several messages glued together, one message spread over many reads), a fresh parser fed with
  the pieces delivers exactly the messages that were packed, each once and in order, with the
  headers that were sent; no assertion of the buffer fires, nothing is left in the buffer and the
  parser waits for a header again.
\<close>

theorem pack_onMessage_stream:
  assumes "concat chunks = stream ps" and "chunks \<noteq> []" and "list_all (\<lambda>(h, m). packet_ok m) ps"
  shows "\<exists>c b. feed conn (Codec_init msg pkt err) Buffer_init chunks =
      Some (c, b, stream_events (Codec_init msg pkt err) conn ps) \<and>
    buffer_inv b \<and> content b = [] \<and> c_state c = kExpectHeader"
  using feed_in_sync [of "Codec_init msg pkt err" Buffer_init ps chunks conn] assms
  by (simp add: in_sync_def Codec_init_def)

definition hello :: "(PacketHeader \<times> string) list" where
  "hello = [(PacketHeader_default\<lparr>h_command := CmdP2pMsgReq, h_requestId := 7\<rparr>, ''hi''),
            (PacketHeader_default\<lparr>h_command := CmdHeartbeatReq\<rparr>, [])]"

lemma hello_ok: "list_all (\<lambda>(h, m). packet_ok m) hello"
  by (simp add: hello_def packet_ok_def kHeaderSize_def kMaxMessageSize_def)

theorem pack_onMessage_stream_witness:
  "[take 50 (stream hello), drop 50 (stream hello)] \<noteq> [] \<and>
   (\<exists>c b. feed (3 :: nat) (Codec_init False True False) Buffer_init
        [take 50 (stream hello), drop 50 (stream hello)] =
      Some (c, b, stream_events (Codec_init False True False) 3 hello) \<and>
    buffer_inv b \<and> content b = [] \<and> c_state c = kExpectHeader)"
proof -
  have h: "concat [take 50 (stream hello), drop 50 (stream hello)] = stream hello"
      "[take 50 (stream hello), drop 50 (stream hello)] \<noteq> []"
    by simp_all
  show ?thesis
    using h(2) pack_onMessage_stream [OF h hello_ok, where conn = "3 :: nat" and msg = False
      and pkt = True and err = False]
    by (rule conjI)
qed

text \<open>
  \<open>pack\<close> never fires an assertion of the buffer, keeps what the
  buffer holds and appends exactly one packet to it: the header with the magic number, version,
  lengths and checksum it computes and the caller's other fields, each in network byte order, then
  the payload; the receiver's \<open>ReadHeader\<close> reads the same header back, whatever follows it.
\<close>

theorem pack_appends_packet:
  assumes "buffer_inv b"
  shows "\<exists>b'. pack b h m = Some b' \<and> buffer_inv b' \<and>
    content b' = content b @ header_bytes (packed_header h m) @ m \<and>
    ReadHeader (drop (length (content b)) (content b') @ later) = packed_header h m"
  using pack_spec [OF assms, of h m] ReadHeader_header_bytes [of "packed_header h m" "m @ later"]
  by (auto simp: packet_bytes_def)

theorem pack_appends_packet_witness:
  "buffer_inv Buffer_init \<and>
   (\<exists>b'. pack Buffer_init PacketHeader_default ''hi'' = Some b' \<and> buffer_inv b' \<and>
      content b' = header_bytes (packed_header PacketHeader_default ''hi'') @ ''hi'' \<and>
      ReadHeader (content b') = packed_header PacketHeader_default ''hi'')"
  using pack_appends_packet [OF buffer_inv_init, of PacketHeader_default "''hi''" "[]"] by auto

text \<open>The branches of \<open>parseHeader\<close>, on the bytes of the buffer.\<close>

definition header_error :: "PacketHeader \<Rightarrow> ErrorCode option" where
  "header_error h =
     (if h_magic h \<noteq> kMagicNumber then Some ErrInvalidPacket
      else if h_version h \<noteq> kProtocolVersionV1 then Some ErrUnsupportedVersion
      else if h_headerLen h \<noteq> 44 \<or> unat (h_totalLen h) < 44 \<or> 67108864 < unat (h_totalLen h)
      then Some ErrPayloadTooLarge else None)"

text \<open>
  Claim C2 (onMessage_rejects_header). A header that is not one of this protocol (wrong magic
  number, wrong version, or lengths outside 44 bytes to 64 MB, in this order of precedence) makes
  the parser report the matching error with no connection, throw away everything that is
  buffered, deliver nothing, and wait for a header.
\<close>

theorem onMessage_rejects_header:
  assumes "buffer_inv b" "c_state c = kExpectHeader" "content b = header_bytes h @ rest"
    and "header_error h = Some e"
  shows "\<exists>c' b'. onMessage conn c b =
      Some (c', b', if c_hasErrorCallback c then [OnError None e] else []) \<and>
    buffer_inv b' \<and> content b' = [] \<and> c_state c' = kExpectHeader"
proof -
  have "kHeaderSize \<le> readableBytes b"
    using assms(1,3) by (simp add: readableBytes_content)
  moreover from this have "ReadHeader (peek kHeaderSize b) = h"
    using assms(1,3) ReadHeader_header_bytes [of h "[]"] by (simp add: peek_content)
  moreover have "unat (of_nat kHeaderSize :: u32) = 44" "unat kMaxMessageSize = 67108864"
    by (simp_all add: kHeaderSize_def kMaxMessageSize_def)
  ultimately have "onMessage_turn conn c b =
      Some (False, expect_header (c\<lparr>c_currentHeader := h\<rparr>), retrieveAll b, error_event c None e)"
    using assms(2,4)
    by (auto simp: onMessage_turn_def parseHeader_def header_error_def Let_def word_less_nat_alt
        kHeaderSize_def split: if_splits)
  from onMessage_stops [OF this] show ?thesis
    using retrieveAll_spec [OF assms(1)] by (auto simp: error_event_def)
qed

theorem onMessage_rejects_header_witness:
  "header_error (PacketHeader_default\<lparr>h_version := 2\<rparr>) = Some ErrUnsupportedVersion \<and>
   (\<exists>c' b'. onMessage (0 :: nat) (Codec_init False True True)
        (the (append (header_bytes (PacketHeader_default\<lparr>h_version := 2\<rparr>)) Buffer_init)) =
      Some (c', b', [OnError None ErrUnsupportedVersion]) \<and>
    buffer_inv b' \<and> content b' = [] \<and> c_state c' = kExpectHeader)"
proof -
  let ?h = "PacketHeader_default\<lparr>h_version := 2\<rparr>"
  have e: "header_error ?h = Some ErrUnsupportedVersion"
    by (simp add: header_error_def PacketHeader_default_def kProtocolVersionV1_def)
  obtain b where b: "append (header_bytes ?h) Buffer_init = Some b" "buffer_inv b"
      "content b = header_bytes ?h @ []"
    using append_spec [OF buffer_inv_init] by force
  show ?thesis
    using e onMessage_rejects_header [OF b(2) _ b(3) e, of "Codec_init False True True" "0 :: nat"] b(1)
    by (simp add: Codec_init_def)
qed

text \<open>
  Claim C3 (onMessage_checksum_mismatch). A packet with an acceptable header whose payload does
  not have the announced checksum is reported with its connection and dropped, exactly its bytes,
  and nothing is delivered. The parser then waits for a header but the loop has stopped: packets
  that are complete behind the bad one stay in the buffer until more input arrives.
\<close>

theorem onMessage_checksum_mismatch:
  assumes "buffer_inv b" "c_state c = kExpectHeader" "content b = header_bytes h @ p @ rest"
    and "header_error h = None" "unat (h_totalLen h) = kHeaderSize + length p"
    and "h_checksum h \<noteq> ucast (CalcCRC16 p)"
  shows "\<exists>c' b'. onMessage conn c b =
      Some (c', b', if c_hasErrorCallback c then [OnError (Some conn) ErrChecksumMismatch] else []) \<and>
    buffer_inv b' \<and> content b' = rest \<and> c_state c' = kExpectHeader"
proof -
  have hdr: "parseHeader c b = (True, waiting h c, b, [] :: 'a codec_event list)"
  proof -
    have "kHeaderSize \<le> readableBytes b"
      using assms(1,3) by (simp add: readableBytes_content)
    then have "ReadHeader (peek kHeaderSize b) = h"
      using assms(1,3) ReadHeader_header_bytes [of h "[]"] by (simp add: peek_content)
    then show ?thesis using assms(4)
      by (auto simp: parseHeader_def header_error_def Let_def word_less_nat_alt kHeaderSize_def
          kMaxMessageSize_def waiting_def split: if_splits)
  qed
  have hl: "unat (h_headerLen h) = kHeaderSize" "h_headerLen h = 44"
    using assms(4) by (auto simp: header_error_def kHeaderSize_def split: if_splits)
  have pl: "unat (h_totalLen h - ucast (h_headerLen h)) = length p"
    using assms(5) hl by (simp add: unat_sub_if' kHeaderSize_def)
  have size: "kHeaderSize + length p \<le> length (content b)" using assms(3) by simp
  then have payload: "substr kHeaderSize (length p) (peek (kHeaderSize + length p) b) = p"
    using assms(1,3) by (simp add: peek_content readableBytes_content substr_def)
  obtain b' where b': "retrieve (kHeaderSize + length p) b = Some b'" "buffer_inv b'" "content b' = rest"
    using retrieve_spec [OF assms(1) size] assms(3) by auto
  have "onMessage_turn conn c b =
      Some (False, expect_header (waiting h c), b', error_event c (Some conn) ErrChecksumMismatch)"
    using hdr size assms(1,2,6) b'
    by (simp add: onMessage_turn_def onMessage_payload_def parsePayload_def readableBytes_content
        assms(5) hl(1) pl payload Let_def error_event_def) (simp add: waiting_def payload hl(1) pl assms(5) b')
  from onMessage_stops [OF this] b' show ?thesis by (auto simp: error_event_def)
qed

text \<open>A packet whose checksum field was damaged, with a good packet behind it.\<close>

definition damaged :: "PacketHeader" where
  "damaged = (packed_header PacketHeader_default ''hi'')\<lparr>h_checksum := 65536\<rparr>"

lemma damaged_facts:
  "header_error damaged = None" "unat (h_totalLen damaged) = kHeaderSize + length ''hi''"
  "h_checksum damaged \<noteq> ucast (CalcCRC16 ''hi'')"
proof -
  show "header_error damaged = None" "unat (h_totalLen damaged) = kHeaderSize + length ''hi''"
    by (simp_all add: damaged_def packed_header_def header_error_def kHeaderSize_def)
  have "unat (ucast (CalcCRC16 ''hi'') :: u32) < 65536"
    using unsigned_less [of "CalcCRC16 ''hi''", where ?'a = nat]
    by (simp add: unsigned_ucast_eq take_bit_eq_mod)
  then show "h_checksum damaged \<noteq> ucast (CalcCRC16 ''hi'')"
    by (auto simp: damaged_def dest: sym)
qed

theorem onMessage_checksum_mismatch_witness:
  "h_checksum damaged \<noteq> ucast (CalcCRC16 ''hi'') \<and>
   (\<exists>c' b'. onMessage (0 :: nat) (Codec_init False True True)
        (the (append (header_bytes damaged @ ''hi'' @ packet_bytes PacketHeader_default ''yo'') Buffer_init)) =
      Some (c', b', [OnError (Some 0) ErrChecksumMismatch]) \<and>
    buffer_inv b' \<and> content b' = packet_bytes PacketHeader_default ''yo'' \<and>
    c_state c' = kExpectHeader)"
proof -
  obtain b where b: "append (header_bytes damaged @ ''hi'' @ packet_bytes PacketHeader_default ''yo'')
        Buffer_init = Some b" "buffer_inv b"
      "content b = header_bytes damaged @ ''hi'' @ packet_bytes PacketHeader_default ''yo''"
    using append_spec [OF buffer_inv_init] by force
  show ?thesis
    using damaged_facts(3) b(1)
      onMessage_checksum_mismatch [OF b(2) _ b(3) damaged_facts, of "Codec_init False True True" "0 :: nat"]
    by (simp add: Codec_init_def)
qed

text \<open>
  The parser keeps the header it has read between calls, so
  one \<open>Codec\<close> that serves several connections, as in \<open>server.cpp\<close> and \<open>server_full.cpp\<close>, confuses
  them: connection \<open>a\<close> sends a header and not yet its payload, then connection \<open>b\<close> sends a complete
  packet with a payload that satisfies the length and checksum of the first; the parser delivers,
  as a packet of \<open>b\<close>, the header of \<open>a\<close> with the payload of \<open>b\<close>, and the header \<open>b\<close> sent is lost.
\<close>

theorem onMessage_shared_parser:
  assumes "c_state c = kExpectHeader" "packet_ok m" "m \<noteq> []"
    and "buffer_inv ba" "content ba = header_bytes (packed_header ha m)"
    and "buffer_inv bb" "content bb = packet_bytes hb m"
  shows "\<exists>c1 c2 bb'. onMessage a c ba = Some (c1, ba, []) \<and>
    onMessage b c1 bb = Some (c2, bb', packet_events c b (packed_header ha m) m) \<and> content bb' = []"
proof -
  let ?w = "waiting (packed_header ha m) c"
  have "parseHeader c ba = (True, ?w, ba, [] :: 'a codec_event list)"
    by (rule parseHeader_packed) (use assms in simp_all)
  with assms have "onMessage_turn a c ba = Some (False, ?w, ba, [])"
    by (simp add: onMessage_turn_def onMessage_payload_def readableBytes_content unat_totalLen)
  note first = onMessage_stops [OF this]
  have "content bb = header_bytes (packed_header hb m) @ m @ []"
    using assms(7) by (simp add: packet_bytes_def)
  from payload_packed [OF assms(6) this length_header_bytes assms(2), of b ha c]
  obtain bb' where bb': "onMessage_turn b ?w bb = Some (True, expect_header ?w, bb',
        packet_events c b (packed_header ha m) m)" "buffer_inv bb'" "content bb' = []"
    by (auto simp: onMessage_turn_def)
  have "onMessage_turn b (expect_header ?w) bb' = Some (False, expect_header ?w, bb', [])"
    using bb'(2,3) by (simp add: onMessage_turn_def readableBytes_content kHeaderSize_def)
  from onMessage_goes_on [OF bb'(1) onMessage_stops [OF this]] first bb'(3) show ?thesis by auto
qed

theorem onMessage_shared_parser_witness:
  "\<exists>c1 c2 bb'. onMessage (1 :: nat) (Codec_init False True False)
      (the (append (header_bytes (packed_header (PacketHeader_default\<lparr>h_command := CmdP2pMsgReq\<rparr>) ''hi''))
        Buffer_init)) = Some (c1, the (append (header_bytes
          (packed_header (PacketHeader_default\<lparr>h_command := CmdP2pMsgReq\<rparr>) ''hi'')) Buffer_init), []) \<and>
    onMessage 2 c1 (the (append (packet_bytes (PacketHeader_default\<lparr>h_command := CmdLoginReq\<rparr>) ''hi'')
        Buffer_init)) =
      Some (c2, bb', packet_events (Codec_init False True False) 2
        (packed_header (PacketHeader_default\<lparr>h_command := CmdP2pMsgReq\<rparr>) ''hi'') ''hi'') \<and>
    content bb' = []"
proof -
  let ?ha = "PacketHeader_default\<lparr>h_command := CmdP2pMsgReq\<rparr>"
  let ?hb = "PacketHeader_default\<lparr>h_command := CmdLoginReq\<rparr>"
  obtain ba where ba: "append (header_bytes (packed_header ?ha ''hi'')) Buffer_init = Some ba"
      "buffer_inv ba" "content ba = header_bytes (packed_header ?ha ''hi'')"
    using append_spec [OF buffer_inv_init] by force
  obtain bb where bb: "append (packet_bytes ?hb ''hi'') Buffer_init = Some bb"
      "buffer_inv bb" "content bb = packet_bytes ?hb ''hi''"
    using append_spec [OF buffer_inv_init] by force
  show ?thesis
    using onMessage_shared_parser [OF _ _ _ ba(2,3) bb(2,3), of "Codec_init False True False" "1 :: nat" 2] ba(1) bb(1)
    by (simp add: Codec_init_def packet_ok_def kHeaderSize_def kMaxMessageSize_def)
qed

end
