(* ===== verification/MessageStore.thy ===== *)
theory MessageStore
  imports Protocol
begin

text \<open>
  \<open>src/storage/messageStore.h\<close> and the in-memory half of \<open>src/storage/messageStore.cpp\<close>: the
  structures a store exchanges with the message service, the interface \<open>IMessageStore\<close> as a record
  of its operations, and \<open>InMemoryMessageStore\<close>. The operations hold the store's mutex, so a
  history is a list of operations. The invariant indexes by the number of operations because the
  message ids and sequence numbers are 64-bit counters.
\<close>

section \<open>Structures\<close>

record CreateMessageRequest =
  cr_fromUserId :: string
  cr_toUserId :: string
  cr_clientMsgId :: string
  cr_content :: string
  cr_timestamp :: ms

record StoredMessage =
  sm_notify :: P2PMsgNotify
  sm_status :: DeliveryStatus
  sm_receiverId :: string
  sm_createdAt :: ms
  sm_lastDeliverAt :: ms
  sm_ackedAt :: ms
  sm_retryCount :: u32

abbreviation seq_of :: "StoredMessage \<Rightarrow> u64" where
  "seq_of m \<equiv> n_serverSeq (sm_notify m)"

abbreviation id_of :: "StoredMessage \<Rightarrow> u64" where
  "id_of m \<equiv> n_msgId (sm_notify m)"

text \<open>
  The virtual functions of \<open>IMessageStore\<close> over a store state \<open>'s\<close>. \<open>Inl e\<close> is \<open>false\<close> with
  \<open>errorMsg = e\<close>; the other out-parameters are results. \<open>st_load\<close> returns the messages, the next
  begin sequence and the error message (empty when there is none).
\<close>

record 's IMessageStore =
  st_save :: "CreateMessageRequest \<Rightarrow> 's \<Rightarrow> (string + StoredMessage \<times> bool) \<times> 's"
  st_attempt :: "string \<Rightarrow> u64 \<Rightarrow> DeliveryStatus \<Rightarrow> ms \<Rightarrow> u32 \<Rightarrow> 's \<Rightarrow> (string + unit) \<times> 's"
  st_ack :: "string \<Rightarrow> u64 \<Rightarrow> u64 \<Rightarrow> u32 \<Rightarrow> ms \<Rightarrow> 's \<Rightarrow> (string + unit) \<times> u64 \<times> 's"
  st_load :: "string \<Rightarrow> u64 \<Rightarrow> nat \<Rightarrow> 's \<Rightarrow> (StoredMessage list \<times> u64 \<times> string) \<times> 's"
  st_last :: "string \<Rightarrow> 's \<Rightarrow> u64 \<times> 's"

section \<open>The in-memory store\<close>

record InMemoryMessageStore =
  im_nextMsgId :: u64
  im_nextServerSeqByUser :: "string \<rightharpoonup> u64"
  im_lastAckedSeqByUser :: "string \<rightharpoonup> u64"
  im_clientMsgDedupIndex :: "string \<rightharpoonup> u64"
  im_messages :: "u64 \<rightharpoonup> StoredMessage"
  im_pendingMsgIdsByUser :: "string \<rightharpoonup> u64 list"

definition InMemoryMessageStore_init :: InMemoryMessageStore where
  "InMemoryMessageStore_init =
     \<lparr>im_nextMsgId = 1, im_nextServerSeqByUser = Map.empty, im_lastAckedSeqByUser = Map.empty,
      im_clientMsgDedupIndex = Map.empty, im_messages = Map.empty,
      im_pendingMsgIdsByUser = Map.empty\<rparr>"

definition makeDedupKey :: "string \<Rightarrow> string \<Rightarrow> string" where
  "makeDedupKey fromUserId clientMsgId =
     (if clientMsgId = [] then [] else fromUserId @ ''#'' @ clientMsgId)"

text \<open>The message the index already holds for the key, if there is one.\<close>

definition find_duplicate :: "string \<Rightarrow> InMemoryMessageStore \<Rightarrow> StoredMessage option" where
  "find_duplicate dedupKey s =
     (if dedupKey = [] then None
      else case im_clientMsgDedupIndex s dedupKey of
             None \<Rightarrow> None
           | Some i \<Rightarrow> im_messages s i)"

definition saveMessageAndDelivery ::
    "CreateMessageRequest \<Rightarrow> InMemoryMessageStore \<Rightarrow>
     (string + StoredMessage \<times> bool) \<times> InMemoryMessageStore" where
  "saveMessageAndDelivery request s =
     (let dedupKey = makeDedupKey (cr_fromUserId request) (cr_clientMsgId request) in
      case find_duplicate dedupKey s of
        Some m \<Rightarrow> (Inr (m, True), s)
      | None \<Rightarrow>
          let to = cr_toUserId request;
              msgId = im_nextMsgId s;
              serverSeq = opt_default 0 (im_nextServerSeqByUser s to) + 1;
              message =
                \<lparr>sm_notify =
                   \<lparr>n_msgId = msgId, n_serverSeq = serverSeq, n_fromUserId = cr_fromUserId request,
                    n_toUserId = to, n_clientMsgId = cr_clientMsgId request,
                    n_content = cr_content request, n_timestamp = cr_timestamp request\<rparr>,
                 sm_status = DeliveryPersisted, sm_receiverId = to,
                 sm_createdAt = cr_timestamp request, sm_lastDeliverAt = 0, sm_ackedAt = 0,
                 sm_retryCount = 0\<rparr>
          in (Inr (message, False),
              s\<lparr>im_nextMsgId := msgId + 1,
                im_nextServerSeqByUser := (im_nextServerSeqByUser s)(to \<mapsto> serverSeq),
                im_messages := (im_messages s)(msgId \<mapsto> message),
                im_pendingMsgIdsByUser := (im_pendingMsgIdsByUser s)
                  (to \<mapsto> opt_default [] (im_pendingMsgIdsByUser s to) @ [msgId]),
                im_clientMsgDedupIndex :=
                  (if dedupKey \<noteq> [] then (im_clientMsgDedupIndex s)(dedupKey \<mapsto> msgId)
                   else im_clientMsgDedupIndex s)\<rparr>))"

definition markDeliveryAttempt ::
    "string \<Rightarrow> u64 \<Rightarrow> DeliveryStatus \<Rightarrow> ms \<Rightarrow> u32 \<Rightarrow> InMemoryMessageStore \<Rightarrow>
     (string + unit) \<times> InMemoryMessageStore" where
  "markDeliveryAttempt receiverId msgId status deliverAt retryCount s =
     (case im_messages s msgId of
        None \<Rightarrow> (Inl ''message not found'', s)
      | Some m \<Rightarrow>
          if sm_receiverId m \<noteq> receiverId then (Inl ''receiver mismatch'', s)
          else (Inr (),
                s\<lparr>im_messages := (im_messages s)(msgId \<mapsto>
                    m\<lparr>sm_status := status, sm_lastDeliverAt := deliverAt, sm_retryCount := retryCount\<rparr>)\<rparr>))"

text \<open>\<open>m_lastAckedSeqByUser[receiverId]\<close> creates the entry with value 0 when it is absent.\<close>

definition touch_lastAcked :: "string \<Rightarrow> InMemoryMessageStore \<Rightarrow> u64 \<times> InMemoryMessageStore" where
  "touch_lastAcked receiverId s =
     (let v = opt_default 0 (im_lastAckedSeqByUser s receiverId)
      in (v, s\<lparr>im_lastAckedSeqByUser := (im_lastAckedSeqByUser s)(receiverId \<mapsto> v)\<rparr>))"

definition markAcked ::
    "string \<Rightarrow> u64 \<Rightarrow> u64 \<Rightarrow> u32 \<Rightarrow> ms \<Rightarrow> InMemoryMessageStore \<Rightarrow>
     (string + unit) \<times> u64 \<times> InMemoryMessageStore" where
  "markAcked receiverId msgId serverSeq ackCode ackedAt s =
     (case im_messages s msgId of
        None \<Rightarrow> (Inl ''message not found'', touch_lastAcked receiverId s)
      | Some m \<Rightarrow>
          if sm_receiverId m \<noteq> receiverId then (Inl ''ack user mismatch'', touch_lastAcked receiverId s)
          else if seq_of m \<noteq> serverSeq then (Inl ''server_seq mismatch'', touch_lastAcked receiverId s)
          else
            let last = max (opt_default 0 (im_lastAckedSeqByUser s receiverId)) serverSeq
            in (Inr (), last,
                s\<lparr>im_messages := (im_messages s)(msgId \<mapsto>
                    m\<lparr>sm_ackedAt := ackedAt,
                      sm_status := (if ackCode = AckRead then DeliveryRead else DeliveryDelivered)\<rparr>),
                  im_lastAckedSeqByUser := (im_lastAckedSeqByUser s)(receiverId \<mapsto> last),
                  im_pendingMsgIdsByUser := (im_pendingMsgIdsByUser s)
                    (receiverId \<mapsto> filter (\<lambda>i. i \<noteq> msgId)
                      (opt_default [] (im_pendingMsgIdsByUser s receiverId)))\<rparr>))"

text \<open>The loop of \<open>loadPendingMessages\<close> with its \<open>continue\<close>s and \<open>break\<close>.\<close>

fun load_loop ::
    "(u64 \<rightharpoonup> StoredMessage) \<Rightarrow> u64 \<Rightarrow> nat \<Rightarrow> u64 list \<Rightarrow> StoredMessage list \<Rightarrow> u64 \<Rightarrow>
     StoredMessage list \<times> u64" where
  "load_loop messages afterServerSeq limit [] result nextBeginSeq = (result, nextBeginSeq)"
| "load_loop messages afterServerSeq limit (msgId # ids) result nextBeginSeq =
     (case messages msgId of
        None \<Rightarrow> load_loop messages afterServerSeq limit ids result nextBeginSeq
      | Some message \<Rightarrow>
          if seq_of message \<le> afterServerSeq \<or> sm_status message = DeliveryDelivered \<or>
             sm_status message = DeliveryRead \<or> sm_status message = DeliveryFailed
          then load_loop messages afterServerSeq limit ids result nextBeginSeq
          else
            let result' = result @ [message]; next' = max nextBeginSeq (seq_of message)
            in if limit \<le> length result' then (result', next')
               else load_loop messages afterServerSeq limit ids result' next')"

definition loadPendingMessages ::
    "string \<Rightarrow> u64 \<Rightarrow> nat \<Rightarrow> InMemoryMessageStore \<Rightarrow>
     (StoredMessage list \<times> u64 \<times> string) \<times> InMemoryMessageStore" where
  "loadPendingMessages receiverId afterServerSeq limit s =
     (case im_pendingMsgIdsByUser s receiverId of
        None \<Rightarrow> (([], afterServerSeq, []), s)
      | Some ids \<Rightarrow>
          let (result, nx) = load_loop (im_messages s) afterServerSeq limit ids [] afterServerSeq
          in ((result, (if result \<noteq> [] then nx + 1 else nx), []), s))"

definition getLastAckedSeq :: "string \<Rightarrow> InMemoryMessageStore \<Rightarrow> u64 \<times> InMemoryMessageStore" where
  "getLastAckedSeq receiverId s = (opt_default 0 (im_lastAckedSeqByUser s receiverId), s)"

definition memory_store :: "InMemoryMessageStore IMessageStore" where
  "memory_store =
     \<lparr>st_save = saveMessageAndDelivery, st_attempt = markDeliveryAttempt, st_ack = markAcked,
      st_load = loadPendingMessages, st_last = getLastAckedSeq\<rparr>"

text \<open>The operations as steps of a history.\<close>

datatype store_op =
    Save CreateMessageRequest
  | Attempt string u64 DeliveryStatus ms u32
  | Ack string u64 u64 u32 ms

fun store_step :: "InMemoryMessageStore \<Rightarrow> store_op \<Rightarrow> InMemoryMessageStore" where
  "store_step s (Save r) = snd (saveMessageAndDelivery r s)"
| "store_step s (Attempt u i st t rc) = snd (markDeliveryAttempt u i st t rc s)"
| "store_step s (Ack u i q code t) = snd (snd (markAcked u i q code t s))"

section \<open>The invariant\<close>

text \<open>
  What never changes in a stored message, and the value-initialised views of the maps.
\<close>

definition noted :: "InMemoryMessageStore \<Rightarrow> u64 \<rightharpoonup> P2PMsgNotify \<times> string" where
  "noted s i = map_option (\<lambda>m. (sm_notify m, sm_receiverId m)) (im_messages s i)"

definition cur_seq :: "InMemoryMessageStore \<Rightarrow> string \<Rightarrow> u64" where
  "cur_seq s u = opt_default 0 (im_nextServerSeqByUser s u)"

definition last_acked :: "InMemoryMessageStore \<Rightarrow> string \<Rightarrow> u64" where
  "last_acked s u = opt_default 0 (im_lastAckedSeqByUser s u)"

definition pending :: "InMemoryMessageStore \<Rightarrow> string \<Rightarrow> u64 list" where
  "pending s u = opt_default [] (im_pendingMsgIdsByUser s u)"

abbreviation key_of :: "P2PMsgNotify \<Rightarrow> string" where
  "key_of nt \<equiv> makeDedupKey (n_fromUserId nt) (n_clientMsgId nt)"

definition seq_at :: "InMemoryMessageStore \<Rightarrow> u64 \<Rightarrow> u64" where
  "seq_at s i = (case noted s i of None \<Rightarrow> 0 | Some (nt, _) \<Rightarrow> n_serverSeq nt)"

definition notes_ok :: "InMemoryMessageStore \<Rightarrow> bool" where
  "notes_ok s \<longleftrightarrow>
     (\<forall>i nt r. noted s i = Some (nt, r) \<longrightarrow>
        n_msgId nt = i \<and> i < im_nextMsgId s \<and> n_toUserId nt = r \<and>
        0 < n_serverSeq nt \<and> n_serverSeq nt \<le> cur_seq s r)"

definition seqs_unique :: "InMemoryMessageStore \<Rightarrow> bool" where
  "seqs_unique s \<longleftrightarrow>
     (\<forall>i j a b r. noted s i = Some (a, r) \<longrightarrow> noted s j = Some (b, r) \<longrightarrow>
        n_serverSeq a = n_serverSeq b \<longrightarrow> i = j)"

definition seqs_gapfree :: "InMemoryMessageStore \<Rightarrow> bool" where
  "seqs_gapfree s \<longleftrightarrow>
     (\<forall>u k. 0 < k \<longrightarrow> k \<le> cur_seq s u \<longrightarrow> (\<exists>i nt. noted s i = Some (nt, u) \<and> n_serverSeq nt = k))"

definition dedup_ok :: "InMemoryMessageStore \<Rightarrow> bool" where
  "dedup_ok s \<longleftrightarrow>
     (\<forall>k i. im_clientMsgDedupIndex s k = Some i \<longleftrightarrow>
        k \<noteq> [] \<and> (\<exists>nt r. noted s i = Some (nt, r) \<and> key_of nt = k))"

definition pending_ok :: "InMemoryMessageStore \<Rightarrow> bool" where
  "pending_ok s \<longleftrightarrow>
     (\<forall>u. sorted_wrt (<) (map (seq_at s) (pending s u)) \<and>
        (\<forall>i \<in> set (pending s u). \<exists>nt. noted s i = Some (nt, u)))"

definition acks_ok :: "InMemoryMessageStore \<Rightarrow> bool" where
  "acks_ok s \<longleftrightarrow>
     (\<forall>u. last_acked s u \<le> cur_seq s u) \<and>
     (\<forall>i nt r. noted s i = Some (nt, r) \<longrightarrow> i \<notin> set (pending s r) \<longrightarrow> n_serverSeq nt \<le> last_acked s r)"

definition counters_ok :: "nat \<Rightarrow> InMemoryMessageStore \<Rightarrow> bool" where
  "counters_ok n s \<longleftrightarrow>
     0 < im_nextMsgId s \<and> unat (im_nextMsgId s) \<le> Suc n \<and> (\<forall>u. unat (cur_seq s u) \<le> n)"

definition store_inv :: "nat \<Rightarrow> InMemoryMessageStore \<Rightarrow> bool" where
  "store_inv n s \<longleftrightarrow>
     counters_ok n s \<and> notes_ok s \<and> seqs_unique s \<and> seqs_gapfree s \<and> dedup_ok s \<and>
     pending_ok s \<and> acks_ok s"

definition store_bound :: nat where "store_bound = 2 ^ 64 - 2"

lemmas store_inv_parts = counters_ok_def notes_ok_def seqs_unique_def seqs_gapfree_def dedup_ok_def
  pending_ok_def acks_ok_def

lemma store_inv_init: "store_inv 0 InMemoryMessageStore_init"
  by (simp add: store_inv_def store_inv_parts InMemoryMessageStore_init_def noted_def cur_seq_def
      last_acked_def pending_def) (use word_gt_0 in auto)

lemma store_inv_mono: "store_inv n s \<Longrightarrow> store_inv (Suc n) s"
  by (auto simp: store_inv_def counters_ok_def intro: le_SucI)

text \<open>The invariant depends on these views only.\<close>

lemma store_inv_cong:
  assumes "im_nextMsgId s' = im_nextMsgId s" "im_clientMsgDedupIndex s' = im_clientMsgDedupIndex s"
    "noted s' = noted s" "cur_seq s' = cur_seq s"
    "last_acked s' = last_acked s" "pending s' = pending s"
  shows "store_inv n s' \<longleftrightarrow> store_inv n s"
proof -
  have "seq_at s' = seq_at s" by (simp add: seq_at_def assms fun_eq_iff)
  then show ?thesis by (simp add: store_inv_def store_inv_parts assms)
qed

section \<open>Every operation keeps the invariant\<close>

lemma note_update:
  "im_messages s i = Some m \<Longrightarrow> sm_notify m' = sm_notify m \<Longrightarrow> sm_receiverId m' = sm_receiverId m \<Longrightarrow>
   noted (s\<lparr>im_messages := (im_messages s)(i \<mapsto> m')\<rparr>) = noted s"
  by (auto simp: noted_def fun_eq_iff)

lemma store_inv_attempt:
  assumes "store_inv n s"
  shows "store_inv n (snd (markDeliveryAttempt u i st t rc s))"
proof -
  let ?s' = "snd (markDeliveryAttempt u i st t rc s)"
  have "noted ?s' = noted s"
    by (auto simp: markDeliveryAttempt_def note_update split: option.splits)
  moreover have "im_nextMsgId ?s' = im_nextMsgId s"
      "im_clientMsgDedupIndex ?s' = im_clientMsgDedupIndex s"
      "cur_seq ?s' = cur_seq s" "last_acked ?s' = last_acked s" "pending ?s' = pending s"
    by (auto simp: markDeliveryAttempt_def cur_seq_def last_acked_def pending_def fun_eq_iff
        split: option.splits)
  ultimately show ?thesis using assms store_inv_cong [of ?s' s n] by simp
qed

lemma store_inv_touch: "store_inv n s \<Longrightarrow> store_inv n (snd (touch_lastAcked u s))"
  by (subst store_inv_cong [of _ s])
    (auto simp: touch_lastAcked_def Let_def noted_def cur_seq_def last_acked_def pending_def fun_eq_iff)

lemma acked_views:
  assumes "im_messages s i = Some m" "sm_receiverId m = u" "seq_of m = q"
    and s': "s' = snd (snd (markAcked u i q code t s))"
  shows "noted s' = noted s" "im_nextMsgId s' = im_nextMsgId s"
    "im_clientMsgDedupIndex s' = im_clientMsgDedupIndex s" "cur_seq s' = cur_seq s"
    "last_acked s' = (last_acked s)(u := max (last_acked s u) q)"
    "pending s' = (pending s)(u := filter (\<lambda>j. j \<noteq> i) (pending s u))"
  using assms
  by (auto simp: markAcked_def Let_def noted_def cur_seq_def last_acked_def pending_def fun_eq_iff)

lemma sorted_wrt_map_filter:
  "sorted_wrt (<) (map f xs) \<Longrightarrow> sorted_wrt (<) (map f (filter P xs))"
  by (induction xs) auto

lemma store_inv_ack:
  assumes inv: "store_inv n s"
  shows "store_inv n (snd (snd (markAcked u i q code t s)))"
proof (cases "\<exists>m. im_messages s i = Some m \<and> sm_receiverId m = u \<and> seq_of m = q")
  case False
  then show ?thesis
    using store_inv_touch [OF inv] by (auto simp: markAcked_def split: option.splits)
next
  case True
  then obtain m where m: "im_messages s i = Some m" "sm_receiverId m = u" "seq_of m = q" by blast
  define s' where "s' = snd (snd (markAcked u i q code t s))"
  note v = acked_views [OF m s'_def]
  have seq: "seq_at s' = seq_at s" by (simp add: seq_at_def v fun_eq_iff)
  have mq: "noted s i = Some (sm_notify m, u)" using m by (simp add: noted_def)
  from inv have parts: "counters_ok n s" "notes_ok s" "seqs_unique s" "seqs_gapfree s" "dedup_ok s"
      "pending_ok s" "acks_ok s"
    by (auto simp: store_inv_def)
  have "q \<le> cur_seq s u" using parts(2) mq m(3) by (auto simp: notes_ok_def)
  then have "last_acked s' w \<le> cur_seq s' w" for w
    using parts(7) by (simp add: acks_ok_def v)
  moreover have "n_serverSeq nt \<le> last_acked s' r" if "noted s j = Some (nt, r)" "j \<notin> set (pending s' r)" for j nt r
  proof (cases "r = u \<and> j = i")
    case True
    with that mq m(3) show ?thesis by (simp add: v)
  next
    case False
    with that(2) have "j \<notin> set (pending s r)" by (auto simp: v split: if_splits)
    with that(1) parts(7) have "n_serverSeq nt \<le> last_acked s r" by (simp add: acks_ok_def)
    then show ?thesis by (auto simp: v le_max_iff_disj)
  qed
  ultimately have "acks_ok s'" by (simp add: acks_ok_def v(1))
  moreover have "pending_ok s'"
    using parts(6) by (auto simp: pending_ok_def v seq sorted_wrt_map_filter)
  moreover have "counters_ok n s'" "notes_ok s'" "seqs_unique s'" "seqs_gapfree s'" "dedup_ok s'"
    using parts by (auto simp: counters_ok_def notes_ok_def seqs_unique_def seqs_gapfree_def dedup_ok_def v)
  ultimately show ?thesis by (simp add: store_inv_def s'_def)
qed

text \<open>The branch that creates a message.\<close>

definition new_message :: "CreateMessageRequest \<Rightarrow> InMemoryMessageStore \<Rightarrow> StoredMessage" where
  "new_message r s =
     \<lparr>sm_notify =
        \<lparr>n_msgId = im_nextMsgId s, n_serverSeq = cur_seq s (cr_toUserId r) + 1,
         n_fromUserId = cr_fromUserId r, n_toUserId = cr_toUserId r,
         n_clientMsgId = cr_clientMsgId r, n_content = cr_content r, n_timestamp = cr_timestamp r\<rparr>,
      sm_status = DeliveryPersisted, sm_receiverId = cr_toUserId r, sm_createdAt = cr_timestamp r,
      sm_lastDeliverAt = 0, sm_ackedAt = 0, sm_retryCount = 0\<rparr>"

abbreviation key_req :: "CreateMessageRequest \<Rightarrow> string" where
  "key_req r \<equiv> makeDedupKey (cr_fromUserId r) (cr_clientMsgId r)"

lemma save_duplicate:
  "find_duplicate (key_req r) s = Some m \<Longrightarrow> saveMessageAndDelivery r s = (Inr (m, True), s)"
  by (simp add: saveMessageAndDelivery_def)

lemma saved_views:
  assumes new: "find_duplicate (key_req r) s = None" and s': "s' = snd (saveMessageAndDelivery r s)"
  defines "m \<equiv> new_message r s"
  shows "fst (saveMessageAndDelivery r s) = Inr (m, False)"
    "im_messages s' = (im_messages s)(im_nextMsgId s \<mapsto> m)"
    "noted s' = (noted s)(im_nextMsgId s \<mapsto> (sm_notify m, cr_toUserId r))"
    "im_nextMsgId s' = im_nextMsgId s + 1"
    "im_clientMsgDedupIndex s' = (if key_req r = [] then im_clientMsgDedupIndex s
       else (im_clientMsgDedupIndex s)(key_req r \<mapsto> im_nextMsgId s))"
    "cur_seq s' = (cur_seq s)(cr_toUserId r := cur_seq s (cr_toUserId r) + 1)"
    "last_acked s' = last_acked s"
    "pending s' = (pending s)(cr_toUserId r := pending s (cr_toUserId r) @ [im_nextMsgId s])"
  using new unfolding s' m_def
  by (auto simp: saveMessageAndDelivery_def new_message_def Let_def noted_def cur_seq_def
      last_acked_def pending_def fun_eq_iff)

lemma no_duplicate:
  assumes "dedup_ok s" "find_duplicate k s = None" "k \<noteq> []" "noted s i = Some (nt, r)"
  shows "key_of nt \<noteq> k"
proof
  assume "key_of nt = k"
  with assms have "im_clientMsgDedupIndex s k = Some i" by (auto simp: dedup_ok_def)
  with assms show False by (auto simp: find_duplicate_def noted_def)
qed

text \<open>What the new entry keeps of each part of the invariant: there is room for the counters, the
  sequence numbers stay gap free, the pending lists stay sorted.\<close>

lemma counters_room:
  assumes "counters_ok n s" "n < store_bound"
  shows "Suc (unat (im_nextMsgId s)) < 2 ^ 64" "Suc (unat (cur_seq s w)) < 2 ^ 64"
proof -
  have "unat (im_nextMsgId s) \<le> Suc n" "unat (cur_seq s w) \<le> n"
    using assms(1) by (auto simp: counters_ok_def)
  with assms(2) show "Suc (unat (im_nextMsgId s)) < 2 ^ 64" "Suc (unat (cur_seq s w)) < 2 ^ 64"
    by (simp_all add: store_bound_def)
qed

lemma seqs_gapfree_enter:
  assumes "seqs_gapfree s" "noted s i0 = None" "Suc (unat (cur_seq s u)) < 2 ^ 64"
    and noted: "noted s' = (noted s)(i0 \<mapsto> (nt0, u))" and nt0: "n_serverSeq nt0 = cur_seq s u + 1"
    and cur: "cur_seq s' = (cur_seq s)(u := cur_seq s u + 1)"
  shows "seqs_gapfree s'"
  unfolding seqs_gapfree_def
proof (intro allI impI)
  fix w k
  assume k: "0 < k" "k \<le> cur_seq s' w"
  show "\<exists>i nt. noted s' i = Some (nt, w) \<and> n_serverSeq nt = k"
  proof (cases "w = u \<and> k = cur_seq s u + 1")
    case True
    then show ?thesis by (auto simp: noted nt0)
  next
    case False
    with k have "k \<le> cur_seq s w"
      by (auto simp: cur le_Suc_u64 [OF assms(3)] split: if_splits)
    with assms(1) k(1) obtain i nt where "noted s i = Some (nt, w)" "n_serverSeq nt = k"
      unfolding seqs_gapfree_def by blast
    moreover from this assms(2) have "i \<noteq> i0" by auto
    ultimately show ?thesis by (auto simp: noted)
  qed
qed

lemma pending_ok_enter:
  assumes "pending_ok s" "noted s i0 = None"
    and below: "\<And>i nt. noted s i = Some (nt, u) \<Longrightarrow> n_serverSeq nt < n_serverSeq nt0"
    and noted: "noted s' = (noted s)(i0 \<mapsto> (nt0, u))"
    and pend: "pending s' = (pending s)(u := pending s u @ [i0])"
  shows "pending_ok s'"
proof -
  have seq: "seq_at s' i = (if i = i0 then n_serverSeq nt0 else seq_at s i)" for i
    by (simp add: seq_at_def noted)
  have i0: "i0 \<notin> set (pending s w)" for w using assms(1,2) by (force simp: pending_ok_def)
  then have same: "map (seq_at s') (pending s w) = map (seq_at s) (pending s w)" for w
    by (auto simp: seq)
  have "seq_at s i < n_serverSeq nt0" if "i \<in> set (pending s u)" for i
    using that assms(1) below by (force simp: pending_ok_def seq_at_def)
  then show ?thesis
    using assms(1) i0 by (auto simp: pending_ok_def noted pend same seq sorted_wrt_append)
qed

lemma store_inv_save_new:
  assumes inv: "store_inv n s" and n: "n < store_bound"
    and new: "find_duplicate (key_req r) s = None"
  shows "store_inv (Suc n) (snd (saveMessageAndDelivery r s))"
proof -
  define s' where "s' = snd (saveMessageAndDelivery r s)"
  define i0 where "i0 = im_nextMsgId s"
  define u where "u = cr_toUserId r"
  define m where "m = new_message r s"
  have mf: "n_msgId (sm_notify m) = i0" "seq_of m = cur_seq s u + 1" "n_toUserId (sm_notify m) = u"
      "key_of (sm_notify m) = key_req r"
    by (simp_all add: m_def new_message_def i0_def u_def)
  note v = saved_views [OF new s'_def, folded i0_def u_def m_def]
  from inv have parts: "counters_ok n s" "notes_ok s" "seqs_unique s" "seqs_gapfree s" "dedup_ok s"
      "pending_ok s" "acks_ok s"
    by (auto simp: store_inv_def)
  note c = counters_room [OF parts(1) n, folded i0_def]
  note lt = less_Suc_u64 [OF c(1)] less_Suc_u64 [OF c(2)] le_Suc_u64 [OF c(2)]
  have fresh: "noted s i0 = None"
    using parts(2) by (cases "noted s i0") (fastforce simp: notes_ok_def i0_def)+
  have below: "n_serverSeq nt < seq_of m" if "noted s i = Some (nt, u)" for i nt
    using parts(2) that by (auto simp: notes_ok_def lt mf)
  have "counters_ok (Suc n) s'"
    using parts(1) lt(1) [of 0] unat_Suc_u64 [OF c(1)] unat_Suc_u64 [OF c(2)]
    by (auto simp: counters_ok_def v i0_def intro: le_SucI)
  moreover have "notes_ok s'"
    using parts(2) by (auto simp: notes_ok_def v mf lt less_imp_le simp flip: i0_def)
  moreover have "seqs_unique s'"
    using parts(3) below by (fastforce simp: seqs_unique_def v mf)
  moreover have "seqs_gapfree s'"
    by (rule seqs_gapfree_enter [OF parts(4) fresh c(2) v(3) mf(2) v(6)])
  moreover have "dedup_ok s'"
    using parts(5) fresh no_duplicate [OF parts(5) new] by (auto simp: dedup_ok_def v mf)
  moreover have "pending_ok s'"
    by (rule pending_ok_enter [OF parts(6) fresh below v(3) v(8)])
  moreover have "acks_ok s'"
    using parts(7) by (auto simp: acks_ok_def v lt)
  ultimately show ?thesis by (simp add: store_inv_def s'_def)
qed

lemma store_inv_step:
  assumes inv: "store_inv n s" and n: "n < store_bound"
  shows "store_inv (Suc n) (store_step s a)"
proof (cases a)
  case (Save r)
  then show ?thesis
    using store_inv_mono [OF inv] store_inv_save_new [OF inv n]
    by (cases "find_duplicate (key_req r) s") (simp_all add: save_duplicate)
qed (simp_all add: store_inv_mono [OF store_inv_attempt [OF inv]] store_inv_mono [OF store_inv_ack [OF inv]])

interpretation mem: bounded_system "\<lambda>s. s = InMemoryMessageStore_init" store_step store_inv store_bound
  by unfold_locales (simp_all add: store_inv_init store_inv_step)

section \<open>What a history never takes back\<close>

lemma next_not_noted: "store_inv n s \<Longrightarrow> noted s (im_nextMsgId s) = None"
  by (rule ccontr) (fastforce simp: store_inv_def notes_ok_def)

text \<open>A stored message keeps its content; an acknowledged one never becomes pending again.\<close>

lemma store_step_keeps:
  assumes "store_inv n s" "noted s i = Some x"
  shows "noted (store_step s a) i = Some x"
    and "i \<notin> set (pending s u) \<Longrightarrow> i \<notin> set (pending (store_step s a) u)"
    and "last_acked s u \<le> last_acked (store_step s a) u"
proof -
  have "i \<noteq> im_nextMsgId s" using next_not_noted [OF assms(1)] assms(2) by auto
  then have *: "noted (store_step s a) i = Some x \<and>
      (i \<notin> set (pending s u) \<longrightarrow> i \<notin> set (pending (store_step s a) u)) \<and>
      last_acked s u \<le> last_acked (store_step s a) u"
  proof (cases a)
    case (Save r)
    with \<open>i \<noteq> im_nextMsgId s\<close> assms(2) show ?thesis
      by (cases "find_duplicate (key_req r) s")
        (simp_all add: save_duplicate saved_views [OF _ refl])
  next
    case (Attempt w j st t rc)
    with assms(2) show ?thesis
      by (auto simp: markDeliveryAttempt_def noted_def pending_def last_acked_def split: option.splits)
  next
    case (Ack w j q cd t)
    with assms(2) show ?thesis
      by (auto simp: markAcked_def touch_lastAcked_def noted_def pending_def last_acked_def Let_def
          split: option.splits)
  qed
  then show "noted (store_step s a) i = Some x"
    "i \<notin> set (pending s u) \<Longrightarrow> i \<notin> set (pending (store_step s a) u)"
    "last_acked s u \<le> last_acked (store_step s a) u"
    by blast+
qed

lemma store_run_keeps:
  assumes "store_inv n s" "n + length as \<le> store_bound" "noted s i = Some x"
  shows "noted (run store_step s as) i = Some x"
    and "i \<notin> set (pending s u) \<Longrightarrow> i \<notin> set (pending (run store_step s as) u)"
    and "last_acked s u \<le> last_acked (run store_step s as) u"
proof -
  have "noted (run store_step s as) i = Some x \<and>
    (i \<notin> set (pending s u) \<longrightarrow> i \<notin> set (pending (run store_step s as) u)) \<and>
    last_acked s u \<le> last_acked (run store_step s as) u"
    using assms
  proof (induction as arbitrary: n s)
    case (Cons a as)
    note keep = store_step_keeps [OF Cons.prems(1,3), where a = a]
    have "store_inv (Suc n) (store_step s a)"
      using Cons.prems by (intro store_inv_step) simp_all
    from Cons.IH [OF this _ keep(1)] Cons.prems(2) keep(2,3) [where u = u] show ?case
      by (auto intro: order_trans)
  qed simp
  then show "noted (run store_step s as) i = Some x"
    "i \<notin> set (pending s u) \<Longrightarrow> i \<notin> set (pending (run store_step s as) u)"
    "last_acked s u \<le> last_acked (run store_step s as) u"
    by blast+
qed

section \<open>Loading the pending messages\<close>

text \<open>The reference: filter the pending messages, take as many as the limit allows, at least one.\<close>

definition deliverable :: "u64 \<Rightarrow> StoredMessage \<Rightarrow> bool" where
  "deliverable a m \<longleftrightarrow>
     a < seq_of m \<and> sm_status m \<noteq> DeliveryDelivered \<and> sm_status m \<noteq> DeliveryRead \<and>
     sm_status m \<noteq> DeliveryFailed"

definition eligible :: "(u64 \<rightharpoonup> StoredMessage) \<Rightarrow> u64 \<Rightarrow> u64 list \<Rightarrow> StoredMessage list" where
  "eligible ms a ids = filter (deliverable a) (List.map_filter ms ids)"

lemma load_loop_eq:
  assumes "length res < max 1 limit"
  shows "load_loop ms a limit ids res nx =
    (let new = take (max 1 limit - length res) (eligible ms a ids)
     in (res @ new, foldl max nx (map seq_of new)))"
  using assms
proof (induction ids arbitrary: res nx)
  case Nil
  then show ?case by (simp add: eligible_def map_filter_simps)
next
  case (Cons i ids)
  have skip: "eligible ms a (i # ids) = eligible ms a ids" "load_loop ms a limit (i # ids) res nx =
      load_loop ms a limit ids res nx" if "\<nexists>m. ms i = Some m \<and> deliverable a m"
    using that by (auto simp: eligible_def deliverable_def map_filter_simps not_less split: option.splits)
  show ?case
  proof (cases "\<exists>m. ms i = Some m \<and> deliverable a m")
    case False
    with skip Cons show ?thesis by simp
  next
    case True
    then obtain m where m: "ms i = Some m" "deliverable a m" by blast
    have el: "eligible ms a (i # ids) = m # eligible ms a ids"
      using m by (simp add: eligible_def map_filter_simps)
    have step: "load_loop ms a limit (i # ids) res nx =
        (if limit \<le> Suc (length res) then (res @ [m], max nx (seq_of m))
         else load_loop ms a limit ids (res @ [m]) (max nx (seq_of m)))"
      using m by (auto simp: deliverable_def Let_def)
    show ?thesis
    proof (cases "limit \<le> Suc (length res)")
      case True
      with Cons.prems have "max 1 limit - length res = 1" by linarith
      with True show ?thesis by (simp add: step el Let_def del: load_loop.simps)
    next
      case False
      then have k: "limit - length res = Suc (limit - Suc (length res))" by linarith
      from False have "length (res @ [m]) < max 1 limit" by simp
      from Cons.IH [OF this] False show ?thesis by (simp add: step el k Let_def del: load_loop.simps)
    qed
  qed
qed

text \<open>On a state that satisfies the invariant.\<close>

definition page :: "string \<Rightarrow> u64 \<Rightarrow> nat \<Rightarrow> InMemoryMessageStore \<Rightarrow> StoredMessage list" where
  "page u a limit s = take (max 1 limit) (eligible (im_messages s) a (pending s u))"

lemma foldl_max_sorted:
  "sorted_wrt (<) xs \<Longrightarrow> \<forall>x \<in> set xs. a < x \<Longrightarrow> foldl max a xs = (if xs = [] then a else last xs)"
  for a :: "'a::linorder"
proof (induction xs arbitrary: a)
  case (Cons x xs)
  then show ?case using Cons.IH [of x] by (auto simp: max_def)
qed simp

lemma set_map_filter: "set (List.map_filter f xs) = {y. \<exists>x \<in> set xs. f x = Some y}"
  by (induction xs) (auto split: option.splits)

lemma in_eligible:
  "m \<in> set (eligible ms a ids) \<longleftrightarrow> (\<exists>i \<in> set ids. ms i = Some m) \<and> deliverable a m"
  by (auto simp: eligible_def set_map_filter)

lemma eligible_sorted:
  assumes "sorted_wrt (<) (map (seq_at s) ids)"
  shows "sorted_wrt (<) (map seq_of (eligible (im_messages s) a ids))"
  using assms
proof (induction ids)
  case (Cons i ids)
  have "seq_at s j = seq_of m" if "im_messages s j = Some m" for j m
    using that by (simp add: seq_at_def noted_def)
  with Cons show ?case
    by (fastforce simp: eligible_def map_filter_simps set_map_filter split: option.splits)
qed (simp add: eligible_def map_filter_simps)

lemma loadPendingMessages_page:
  assumes "store_inv n s"
  shows "loadPendingMessages u a limit s =
    ((page u a limit s, if page u a limit s = [] then a else seq_of (last (page u a limit s)) + 1, []), s)"
    and "sorted_wrt (<) (map seq_of (page u a limit s))"
proof -
  let ?el = "eligible (im_messages s) a (pending s u)"
  have "sorted_wrt (<) (map (seq_at s) (pending s u))"
    using assms by (auto simp: store_inv_def pending_ok_def)
  from eligible_sorted [OF this]
  show sorted: "sorted_wrt (<) (map seq_of (page u a limit s))"
    unfolding page_def take_map [symmetric] by (rule sorted_wrt_take)
  have "\<forall>m \<in> set ?el. a < seq_of m" by (simp add: in_eligible deliverable_def)
  then have above: "\<forall>x \<in> set (map seq_of (page u a limit s)). a < x"
    by (auto simp: page_def dest: in_set_takeD)
  show "loadPendingMessages u a limit s =
    ((page u a limit s, if page u a limit s = [] then a else seq_of (last (page u a limit s)) + 1, []), s)"
  proof (cases "im_pendingMsgIdsByUser s u")
    case None
    then show ?thesis
      by (simp add: loadPendingMessages_def page_def pending_def eligible_def map_filter_simps)
  next
    case (Some ids)
    then have "load_loop (im_messages s) a limit ids [] a =
        (page u a limit s, foldl max a (map seq_of (page u a limit s)))"
      by (simp add: load_loop_eq page_def pending_def Let_def)
    with Some foldl_max_sorted [OF sorted above] show ?thesis
      by (auto simp: loadPendingMessages_def last_map)
  qed
qed

section \<open>Properties\<close>

text \<open>
  Claim C6 (store_numbering). After any history of at most \<open>2 ^ 64 - 2\<close> operations, the messages
  stored for a user carry exactly the sequence numbers from 1 to the user's counter, each once,
  whatever the interleaving with messages for other users, retries and acknowledgements.
\<close>

theorem store_numbering:
  assumes "length ops \<le> store_bound"
  shows "bij_betw (seq_at (run store_step InMemoryMessageStore_init ops))
    {i. \<exists>m. im_messages (run store_step InMemoryMessageStore_init ops) i = Some m \<and> sm_receiverId m = u}
    {k. 0 < k \<and> k \<le> cur_seq (run store_step InMemoryMessageStore_init ops) u}"
proof -
  define s where "s = run store_step InMemoryMessageStore_init ops"
  have inv: "store_inv (length ops) s"
    unfolding s_def using assms by (intro mem.inv_bounded) simp_all
  have set_eq: "(\<exists>m. im_messages s i = Some m \<and> sm_receiverId m = u) \<longleftrightarrow> (\<exists>nt. noted s i = Some (nt, u))" for i
    by (auto simp: noted_def)
  have "bij_betw (seq_at s) {i. \<exists>nt. noted s i = Some (nt, u)} {k. 0 < k \<and> k \<le> cur_seq s u}"
  proof (rule bij_betwI')
    show "seq_at s i = seq_at s j \<longleftrightarrow> i = j"
      if "i \<in> {i. \<exists>nt. noted s i = Some (nt, u)}" "j \<in> {i. \<exists>nt. noted s i = Some (nt, u)}" for i j
      using that inv by (auto simp: store_inv_def seqs_unique_def seq_at_def)
    show "seq_at s i \<in> {k. 0 < k \<and> k \<le> cur_seq s u}" if "i \<in> {i. \<exists>nt. noted s i = Some (nt, u)}" for i
      using that inv by (auto simp: store_inv_def notes_ok_def seq_at_def)
    show "\<exists>i \<in> {i. \<exists>nt. noted s i = Some (nt, u)}. k = seq_at s i" if "k \<in> {k. 0 < k \<and> k \<le> cur_seq s u}" for k
      using that inv unfolding store_inv_def seqs_gapfree_def by (fastforce simp: seq_at_def)
  qed
  then show ?thesis unfolding set_eq [symmetric] by (simp add: s_def)
qed

text \<open>Two requests of the same client for one receiver, and a retry of the first.\<close>

definition req_a :: CreateMessageRequest where
  "req_a = \<lparr>cr_fromUserId = ''ann'', cr_toUserId = ''bob'', cr_clientMsgId = ''c1'',
            cr_content = ''hi'', cr_timestamp = 10\<rparr>"

definition req_b :: CreateMessageRequest where
  "req_b = req_a\<lparr>cr_clientMsgId := ''c2'', cr_content := ''yo'', cr_timestamp := 20\<rparr>"

theorem store_numbering_witness:
  "bij_betw (seq_at (run store_step InMemoryMessageStore_init [Save req_a, Save req_b]))
    {i. \<exists>m. im_messages (run store_step InMemoryMessageStore_init [Save req_a, Save req_b]) i = Some m \<and>
       sm_receiverId m = ''bob''}
    {k. 0 < k \<and> k \<le> cur_seq (run store_step InMemoryMessageStore_init [Save req_a, Save req_b]) ''bob''}"
  by (rule store_numbering) (simp add: store_bound_def)

text \<open>
  Claim C7 (save_idempotent). Saving is idempotent per sender and non-empty client message id: once
  a request has been saved, at any later time a request of the same sender with the same client id
  is answered with the message stored first (same id, same sequence number, same content), flagged
  as a duplicate, and changes nothing.
\<close>

theorem save_idempotent:
  assumes "saveMessageAndDelivery r (run store_step InMemoryMessageStore_init ops) = (Inr (m, d), s1)"
    and "Suc (length ops) + length later \<le> store_bound"
    and "cr_fromUserId r' = cr_fromUserId r" "cr_clientMsgId r' = cr_clientMsgId r" "cr_clientMsgId r \<noteq> []"
  shows "\<exists>m'. saveMessageAndDelivery r' (run store_step s1 later) = (Inr (m', True), run store_step s1 later) \<and>
    sm_notify m' = sm_notify m"
proof -
  define s0 where "s0 = run store_step InMemoryMessageStore_init ops"
  have inv0: "store_inv (length ops) s0"
    unfolding s0_def using assms(2) by (intro mem.inv_bounded) simp_all
  have s1: "s1 = store_step s0 (Save r)" and m: "fst (saveMessageAndDelivery r s0) = Inr (m, d)"
    using assms(1) by (simp_all add: s0_def)
  have inv1: "store_inv (Suc (length ops)) s1"
    unfolding s1 using assms(2) by (intro store_inv_step [OF inv0]) simp
  have key: "key_req r' = key_req r" "key_req r \<noteq> []" using assms(3-5) by (simp_all add: makeDedupKey_def)
  obtain i rc where i: "noted s1 i = Some (sm_notify m, rc)" "key_of (sm_notify m) = key_req r"
  proof (cases "find_duplicate (key_req r) s0")
    case None
    with m that [of "im_nextMsgId s0" "cr_toUserId r"] s1 show ?thesis
      by (simp add: saved_views [OF None refl]) (auto simp: new_message_def)
  next
    case (Some x)
    with m s1 have x: "x = m" "s1 = s0" by (simp_all add: save_duplicate)
    with Some key(2) obtain j where j: "im_clientMsgDedupIndex s0 (key_req r) = Some j" "im_messages s0 j = Some m"
      by (auto simp: find_duplicate_def split: option.splits)
    with inv0 obtain nt r0 where "noted s0 j = Some (nt, r0)" "key_of nt = key_req r"
      by (auto simp: store_inv_def dedup_ok_def)
    with j(2) that [of j "sm_receiverId m"] x show ?thesis by (auto simp: noted_def)
  qed
  have inv2: "store_inv (Suc (length ops) + length later) (run store_step s1 later)"
    by (rule mem.inv_within [OF inv1 assms(2)])
  have "noted (run store_step s1 later) i = Some (sm_notify m, rc)"
    by (rule store_run_keeps(1) [OF inv1 assms(2) i(1)])
  moreover from this inv2 i(2) key(2) have "im_clientMsgDedupIndex (run store_step s1 later) (key_req r) = Some i"
    unfolding store_inv_def dedup_ok_def by blast
  ultimately show ?thesis
    using key by (auto simp: noted_def find_duplicate_def intro!: save_duplicate)
qed

theorem save_idempotent_witness:
  "cr_clientMsgId req_a \<noteq> [] \<and>
   (\<exists>m'. saveMessageAndDelivery (req_a\<lparr>cr_timestamp := 99\<rparr>)
        (run store_step (snd (saveMessageAndDelivery req_a InMemoryMessageStore_init)) [Save req_b]) =
      (Inr (m', True),
       run store_step (snd (saveMessageAndDelivery req_a InMemoryMessageStore_init)) [Save req_b]) \<and>
    sm_notify m' = sm_notify (new_message req_a InMemoryMessageStore_init))"
proof -
  have f: "saveMessageAndDelivery req_a (run store_step InMemoryMessageStore_init []) =
      (Inr (new_message req_a InMemoryMessageStore_init, False),
       snd (saveMessageAndDelivery req_a InMemoryMessageStore_init))"
    using saved_views(1) [OF _ refl, of req_a InMemoryMessageStore_init]
    by (simp add: prod_eq_iff find_duplicate_def InMemoryMessageStore_init_def)
  have ne: "cr_clientMsgId req_a \<noteq> []" by (simp add: req_a_def)
  show ?thesis
    using ne save_idempotent [OF f, of "[Save req_b]" "req_a\<lparr>cr_timestamp := 99\<rparr>"]
    by (simp add: store_bound_def)
qed



text \<open>
  Claim C9 (acked_never_pending). Once an acknowledgement has been accepted, no later load returns
  that message again, whatever happens in between (retries that set its status back included), and
  the acknowledged number of the receiver is at least its sequence number for ever.
\<close>

theorem acked_never_pending:
  assumes "markAcked u i q code t (run store_step InMemoryMessageStore_init ops) = (Inr (), lst, s1)"
    and "Suc (length ops) + length later \<le> store_bound"
  shows "(\<forall>m \<in> set (fst (fst (loadPendingMessages u a limit (run store_step s1 later)))). id_of m \<noteq> i) \<and>
    q \<le> fst (getLastAckedSeq u (run store_step s1 later))"
proof -
  define s0 where "s0 = run store_step InMemoryMessageStore_init ops"
  have inv0: "store_inv (length ops) s0"
    unfolding s0_def using assms(2) by (intro mem.inv_bounded) simp_all
  have s1: "s1 = snd (snd (markAcked u i q code t s0))" using assms(1) by (simp add: s0_def)
  then have "s1 = store_step s0 (Ack u i q code t)" by simp
  then have inv1: "store_inv (Suc (length ops)) s1"
    using assms(2) store_inv_step [OF inv0, of "Ack u i q code t"] by simp
  obtain m where m: "im_messages s0 i = Some m" "sm_receiverId m = u" "seq_of m = q"
    using assms(1) by (auto simp: markAcked_def s0_def [symmetric] split: option.splits if_splits)
  note v = acked_views [OF m s1]
  have n: "noted s1 i = Some (sm_notify m, u)" using m by (simp add: v noted_def)
  have "i \<notin> set (pending s1 u)" by (simp add: v)
  note keep = store_run_keeps [OF inv1 assms(2) n]
  let ?s = "run store_step s1 later"
  from keep(2) [OF \<open>i \<notin> set (pending s1 u)\<close>] have np: "i \<notin> set (pending ?s u)" .
  have inv2: "store_inv (Suc (length ops) + length later) ?s"
    by (rule mem.inv_within [OF inv1 assms(2)])
  have none: "\<forall>m \<in> set (fst (fst (loadPendingMessages u a limit ?s))). id_of m \<noteq> i"
  proof
    fix x assume "x \<in> set (fst (fst (loadPendingMessages u a limit ?s)))"
    then have "x \<in> set (page u a limit ?s)" by (simp add: loadPendingMessages_page [OF inv2])
    then obtain j where j: "j \<in> set (pending ?s u)" "im_messages ?s j = Some x"
      by (auto simp: page_def in_eligible dest!: in_set_takeD)
    then have "noted ?s j = Some (sm_notify x, sm_receiverId x)" by (simp add: noted_def)
    with inv2 have "id_of x = j" by (auto simp: store_inv_def notes_ok_def)
    with np j(1) show "id_of x \<noteq> i" by auto
  qed
  have "q \<le> last_acked s1 u" by (simp add: v)
  with keep(3) [of u] none show ?thesis
    by (auto simp: getLastAckedSeq_def last_acked_def)
qed

definition two_saved :: InMemoryMessageStore where
  "two_saved = run store_step InMemoryMessageStore_init [Save req_a, Save req_b]"

lemmas two_saved_eval = two_saved_def saveMessageAndDelivery_def find_duplicate_def makeDedupKey_def
  InMemoryMessageStore_init_def req_a_def req_b_def Let_def

theorem acked_never_pending_witness:
  "fst (markAcked ''bob'' 1 1 0 50 two_saved) = Inr () \<and>
   list_all (\<lambda>m. id_of m \<noteq> 1) (fst (fst (loadPendingMessages ''bob'' 0 10 (run store_step
      (snd (snd (markAcked ''bob'' 1 1 0 50 two_saved))) [Attempt ''bob'' 1 DeliveryDelivering 60 2])))) \<and>
   1 \<le> fst (getLastAckedSeq ''bob'' (run store_step
      (snd (snd (markAcked ''bob'' 1 1 0 50 two_saved))) [Attempt ''bob'' 1 DeliveryDelivering 60 2]))"
proof -
  have f: "fst (markAcked ''bob'' 1 1 0 50 two_saved) = Inr ()"
    by (simp add: markAcked_def two_saved_eval)
  then have "markAcked ''bob'' 1 1 0 50 (run store_step InMemoryMessageStore_init [Save req_a, Save req_b]) =
      (Inr (), fst (snd (markAcked ''bob'' 1 1 0 50 two_saved)), snd (snd (markAcked ''bob'' 1 1 0 50 two_saved)))"
    by (simp add: prod_eq_iff two_saved_def)
  from f acked_never_pending [OF this, of "[Attempt ''bob'' 1 DeliveryDelivering 60 2]"] show ?thesis
    by (simp add: store_bound_def list_all_iff)
qed

text \<open>
  \<open>nextBeginSeq\<close> is one more than the last number of the page while
  the load that starts there returns only larger numbers: a message that carries exactly this
  number is on neither page, so a client that continues at \<open>nextBeginSeq\<close>, which \<open>protocol.h\<close> calls
  the start of the next pull, never sees it.
\<close>

theorem load_next_page_skips:
  assumes "length ops \<le> store_bound"
    and "loadPendingMessages u a limit (run store_step InMemoryMessageStore_init ops) = ((ms, nx, err), s)"
    and "ms \<noteq> []" "seq_of m = nx" "nx \<noteq> 0"
  shows "m \<notin> set ms \<and> m \<notin> set (fst (fst (loadPendingMessages u nx limit' s)))"
proof -
  have inv: "store_inv (length ops) (run store_step InMemoryMessageStore_init ops)"
    using assms by (intro mem.inv_bounded) simp_all
  note l = loadPendingMessages_page [OF inv]
  from assms(2,3) l(1) [of u a limit] have ms: "ms = page u a limit s" "nx = seq_of (last ms) + 1"
      "s = run store_step InMemoryMessageStore_init ops"
    by auto
  have "m \<notin> set ms"
  proof
    assume "m \<in> set ms"
    then have "seq_of m \<le> seq_of (last ms)"
      using sorted_wrt_last [OF l(2) [of u a limit]] ms by simp
    with assms(4,5) ms(2) wrapped_u64 show False by auto
  qed
  moreover have "m \<notin> set (page u nx limit' s)"
    using assms(4) by (auto simp: page_def in_eligible deliverable_def dest!: in_set_takeD)
  ultimately show ?thesis using l(1) [of u nx limit'] ms(3) by simp
qed

theorem load_next_page_skips_witness:
  "fst (snd (fst (loadPendingMessages ''bob'' 0 1 two_saved))) = 2 \<and>
   seq_of (the (im_messages two_saved 2)) = 2 \<and>
   the (im_messages two_saved 2) \<notin> set (fst (fst (loadPendingMessages ''bob'' 0 1 two_saved))) \<and>
   the (im_messages two_saved 2) \<notin> set (fst (fst (loadPendingMessages ''bob'' 2 100 two_saved)))"
proof -
  let ?l = "loadPendingMessages ''bob'' 0 1 two_saved"
  have f: "fst (snd (fst ?l)) = 2" "fst (fst ?l) \<noteq> []" "snd ?l = two_saved"
      "seq_of (the (im_messages two_saved 2)) = 2"
    by (simp_all add: loadPendingMessages_def two_saved_eval)
  then have l: "loadPendingMessages ''bob'' 0 1 (run store_step InMemoryMessageStore_init [Save req_a, Save req_b]) =
      ((fst (fst ?l), 2, snd (snd (fst ?l))), two_saved)"
    by (simp add: prod_eq_iff two_saved_def)
  show ?thesis
    using f load_next_page_skips [OF _ l f(2), of "the (im_messages two_saved 2)" 100]
    by (simp add: store_bound_def)
qed

section \<open>The contract of a message store\<close>

text \<open>
  What the message service relies on, for any \<open>IMessageStore\<close>: an invariant every operation keeps, a
  save that returns a message addressed to the requested receiver when it is not a duplicate, loads
  that return this receiver's messages in order, and an acknowledged number that is never below an
  accepted acknowledgement. The invariant is indexed by the operations done, at most \<open>bound\<close> of them.
\<close>

locale message_store =
  fixes ops :: "'s IMessageStore"
    and inv :: "nat \<Rightarrow> 's \<Rightarrow> bool"
    and bound :: nat
  assumes save_inv: "inv n s \<Longrightarrow> n < bound \<Longrightarrow> inv (Suc n) (snd (st_save ops r s))"
    and save_new: "inv n s \<Longrightarrow> fst (st_save ops r s) = Inr (m, False) \<Longrightarrow>
      sm_receiverId m = cr_toUserId r \<and> n_toUserId (sm_notify m) = cr_toUserId r \<and>
      n_fromUserId (sm_notify m) = cr_fromUserId r \<and> n_content (sm_notify m) = cr_content r \<and>
      sm_status m = DeliveryPersisted \<and> sm_retryCount m = 0"
    and attempt_inv: "inv n s \<Longrightarrow> n < bound \<Longrightarrow> inv (Suc n) (snd (st_attempt ops u i st t rc s))"
    and ack_inv: "inv n s \<Longrightarrow> n < bound \<Longrightarrow> inv (Suc n) (snd (snd (st_ack ops u i q code t s)))"
    and ack_last: "inv n s \<Longrightarrow> st_ack ops u i q code t s = (Inr (), lst, s') \<Longrightarrow>
      q \<le> lst \<and> fst (st_last ops u s') = lst"
    and load_keeps: "inv n s \<Longrightarrow> snd (st_load ops u a limit s) = s"
    and load_sorted: "inv n s \<Longrightarrow> sorted_wrt (<) (map seq_of (fst (fst (st_load ops u a limit s))))"
    and load_mine: "inv n s \<Longrightarrow> m \<in> set (fst (fst (st_load ops u a limit s))) \<Longrightarrow>
      sm_receiverId m = u \<and> n_toUserId (sm_notify m) = u \<and> deliverable a m"
    and load_limit: "inv n s \<Longrightarrow> length (fst (fst (st_load ops u a limit s))) \<le> max 1 limit"
    and last_keeps: "inv n s \<Longrightarrow> snd (st_last ops u s) = s"

interpretation memory: message_store memory_store store_inv store_bound
proof
  fix n s
  assume inv: "store_inv n s"
  note l = loadPendingMessages_page [OF inv]
  show "store_inv (Suc n) (snd (st_save memory_store r s))" if "n < store_bound" for r
    using store_inv_step [OF inv that, of "Save r"] by (simp add: memory_store_def)
  show "sm_receiverId m = cr_toUserId r \<and> n_toUserId (sm_notify m) = cr_toUserId r \<and>
      n_fromUserId (sm_notify m) = cr_fromUserId r \<and> n_content (sm_notify m) = cr_content r \<and>
      sm_status m = DeliveryPersisted \<and> sm_retryCount m = 0"
    if "fst (st_save memory_store r s) = Inr (m, False)" for r m
    using that saved_views(1) [OF _ refl, of r s]
    by (cases "find_duplicate (key_req r) s")
      (auto simp: memory_store_def save_duplicate new_message_def)
  show "store_inv (Suc n) (snd (st_attempt memory_store u i st t rc s))" if "n < store_bound" for u i st t rc
    using store_inv_step [OF inv that, of "Attempt u i st t rc"] by (simp add: memory_store_def)
  show "store_inv (Suc n) (snd (snd (st_ack memory_store u i q code t s)))" if "n < store_bound" for u i q code t
    using store_inv_step [OF inv that, of "Ack u i q code t"] by (simp add: memory_store_def)
  show "q \<le> lst \<and> fst (st_last memory_store u s') = lst"
    if "st_ack memory_store u i q code t s = (Inr (), lst, s')" for u i q code t lst s'
    using that
    by (auto simp: memory_store_def markAcked_def getLastAckedSeq_def Let_def split: option.splits if_splits)
  show "snd (st_load memory_store u a limit s) = s" for u a limit
    by (simp add: memory_store_def l)
  show "sorted_wrt (<) (map seq_of (fst (fst (st_load memory_store u a limit s))))" for u a limit
    using l(2) by (simp add: memory_store_def l(1))
  show "length (fst (fst (st_load memory_store u a limit s))) \<le> max 1 limit" for u a limit
    by (simp add: memory_store_def l(1) page_def)
  show "snd (st_last memory_store u s) = s" for u
    by (simp add: memory_store_def getLastAckedSeq_def)
  fix u a limit m
  assume "m \<in> set (fst (fst (st_load memory_store u a limit s)))"
  then obtain i where i: "i \<in> set (pending s u)" "im_messages s i = Some m" "deliverable a m"
    by (auto simp: memory_store_def l(1) page_def in_eligible dest!: in_set_takeD)
  then have "\<exists>nt. noted s i = Some (nt, u)"
    using inv unfolding store_inv_def pending_ok_def by blast
  with i have "noted s i = Some (sm_notify m, u)" "sm_receiverId m = u" by (auto simp: noted_def)
  with inv i show "sm_receiverId m = u \<and> n_toUserId (sm_notify m) = u \<and> deliverable a m"
    by (auto simp: store_inv_def notes_ok_def)
qed

end
