(* ===== verification/MessageService.thy ===== *)
theory MessageService
  imports Codec MessageStore "HOL-Library.AList" "HOL-Library.Sublist"
begin

text \<open>
  \<open>src/service/messageService.cpp\<close>: reliable delivery over an \<open>IMessageStore\<close>. The service is modelled
  over any store (a record of operations); the lemmas on delivery are proved once in the locale
  \<open>message_store\<close> and reach the in-memory store through its interpretation. What the service reads
  from outside (the clock, whether a connection is alive) is an environment indexed by a tick that
  every reading advances, so that two readings in one call may differ as they can when other
  threads run; what it does to the outside is a log of effects.
\<close>

section \<open>Environment and effects\<close>

record 'c env =
  e_clock :: "nat \<Rightarrow> ms"
  e_connected :: "nat \<Rightarrow> 'c \<Rightarrow> bool"
  e_serializeNotify :: "P2PMsgNotify \<Rightarrow> string"
  e_serializeBroadcast :: "BroadcastMsgNotify \<Rightarrow> string"

datatype 'c effect =
    Sent 'c string
  | IncCounter string
  | Observe string ms
  | SessionAcked string u64

record 'c world =
  w_tick :: nat
  w_log :: "'c effect list"

definition GetTimestamp :: "'c env \<Rightarrow> 'c world \<Rightarrow> ms \<times> 'c world" where
  "GetTimestamp env w = (e_clock env (w_tick w), w\<lparr>w_tick := Suc (w_tick w)\<rparr>)"

definition connected :: "'c env \<Rightarrow> 'c \<Rightarrow> 'c world \<Rightarrow> bool \<times> 'c world" where
  "connected env conn w = (e_connected env (w_tick w) conn, w\<lparr>w_tick := Suc (w_tick w)\<rparr>)"

definition emit :: "'c effect \<Rightarrow> 'c world \<Rightarrow> 'c world" where
  "emit e w = w\<lparr>w_log := w_log w @ [e]\<rparr>"

text \<open>\<open>Buffer buffer; Codec::pack(&buffer, header, message)\<close>: the bytes \<open>conn->send(&buffer)\<close> sends.\<close>

definition packed_bytes :: "PacketHeader \<Rightarrow> string \<Rightarrow> string" where
  "packed_bytes header message =
     (case pack Buffer_init header message of None \<Rightarrow> [] | Some b \<Rightarrow> content b)"

lemma packed_bytes_eq [simp]: "packed_bytes h m = packet_bytes h m"
  using pack_spec [OF buffer_inv_init, of h m] by (auto simp: packed_bytes_def)

section \<open>The service\<close>

record 'c MessageService =
  ms_hasStore :: bool
  ms_hasSessionRepository :: bool
  ms_userToConn :: "(string \<times> 'c) list"
  ms_retryRunning :: bool
  ms_retryIntervalMs :: int
  ms_ackTimeoutMs :: int
  ms_retryBackoffMs :: int
  ms_maxRetryCount :: u32
  ms_retryBatchSize :: nat
  ms_p2pNotifyEncoder :: "(P2PMsgNotify \<Rightarrow> string) option"
  ms_broadcastNotifyEncoder :: "(BroadcastMsgNotify \<Rightarrow> string) option"

definition MessageService_init :: "'c MessageService" where
  "MessageService_init =
     \<lparr>ms_hasStore = False, ms_hasSessionRepository = False, ms_userToConn = [],
      ms_retryRunning = False, ms_retryIntervalMs = 5000, ms_ackTimeoutMs = 15000,
      ms_retryBackoffMs = 3000, ms_maxRetryCount = 5, ms_retryBatchSize = 200,
      ms_p2pNotifyEncoder = None, ms_broadcastNotifyEncoder = None\<rparr>"

definition setMessageStore :: "bool \<Rightarrow> 'c MessageService \<Rightarrow> 'c MessageService" where
  "setMessageStore messageStore svc = svc\<lparr>ms_hasStore := messageStore\<rparr>"

definition setSessionRepository :: "bool \<Rightarrow> 'c MessageService \<Rightarrow> 'c MessageService" where
  "setSessionRepository sessionRepository svc = svc\<lparr>ms_hasSessionRepository := sessionRepository\<rparr>"

definition setP2PNotifyEncoder :: "(P2PMsgNotify \<Rightarrow> string) \<Rightarrow> 'c MessageService \<Rightarrow> 'c MessageService" where
  "setP2PNotifyEncoder encoder svc = svc\<lparr>ms_p2pNotifyEncoder := Some encoder\<rparr>"

definition setBroadcastNotifyEncoder :: "(BroadcastMsgNotify \<Rightarrow> string) \<Rightarrow> 'c MessageService \<Rightarrow> 'c MessageService" where
  "setBroadcastNotifyEncoder encoder svc = svc\<lparr>ms_broadcastNotifyEncoder := Some encoder\<rparr>"

definition setRetryConfig :: "int \<Rightarrow> nat \<Rightarrow> 'c MessageService \<Rightarrow> 'c MessageService" where
  "setRetryConfig retryIntervalMs retryBatchSize svc =
     svc\<lparr>ms_retryIntervalMs := retryIntervalMs, ms_retryBatchSize := retryBatchSize\<rparr>"

definition setRetryPolicy :: "int \<Rightarrow> int \<Rightarrow> u32 \<Rightarrow> 'c MessageService \<Rightarrow> 'c MessageService" where
  "setRetryPolicy ackTimeoutMs retryBackoffMs maxRetryCount svc =
     svc\<lparr>ms_ackTimeoutMs := ackTimeoutMs, ms_retryBackoffMs := retryBackoffMs,
       ms_maxRetryCount := maxRetryCount\<rparr>"

definition ShouldRetryMessage :: "StoredMessage \<Rightarrow> ms \<Rightarrow> int \<Rightarrow> int \<Rightarrow> bool" where
  "ShouldRetryMessage message nowMs ackTimeoutMs retryBackoffMs =
     (if sm_status message = DeliveryPersisted then True
      else if sm_status message \<noteq> DeliveryDelivering then False
      else
        let lastDeliverAt = (if sm_lastDeliverAt message > 0 then sm_lastDeliverAt message
                             else sm_createdAt message);
            nextRetryDelay = ackTimeoutMs +
              int (unat (if sm_retryCount message > 0 then sm_retryCount message - 1 else 0)) * retryBackoffMs
        in nowMs - lastDeliverAt \<ge> nextRetryDelay)"

definition registerConnection :: "string \<Rightarrow> 'c \<Rightarrow> 'c MessageService \<Rightarrow> 'c MessageService" where
  "registerConnection userId conn svc =
     svc\<lparr>ms_userToConn := AList.update userId conn (ms_userToConn svc)\<rparr>"

definition unregisterConnection :: "string \<Rightarrow> 'c MessageService \<Rightarrow> 'c MessageService" where
  "unregisterConnection userId svc = svc\<lparr>ms_userToConn := AList.delete userId (ms_userToConn svc)\<rparr>"

text \<open>
  \<open>deliverLocked\<close>: the error message (empty on success), the message as the call leaves it, the store
  and the world.
\<close>

definition notify_header :: "StoredMessage \<Rightarrow> PacketHeader" where
  "notify_header message =
     PacketHeader_default\<lparr>h_command := CmdP2pMsgNotify,
       h_flags := (if sm_retryCount message > 0 then kFlagNone OR kFlagRetry else kFlagNone),
       h_requestId := 0, h_clientSeq := id_of message, h_serverSeq := seq_of message\<rparr>"

definition encode_notify :: "'c env \<Rightarrow> 'c MessageService \<Rightarrow> P2PMsgNotify \<Rightarrow> string" where
  "encode_notify env svc notify =
     (case ms_p2pNotifyEncoder svc of Some enc \<Rightarrow> enc notify | None \<Rightarrow> e_serializeNotify env notify)"

definition deliverLocked ::
    "'c env \<Rightarrow> 's IMessageStore \<Rightarrow> 'c MessageService \<Rightarrow> 'c \<Rightarrow> StoredMessage \<Rightarrow> 's \<Rightarrow> 'c world \<Rightarrow>
     string \<times> StoredMessage \<times> 's \<times> 'c world" where
  "deliverLocked env ops svc conn message s w =
     (let (up, w1) = connected env conn w in
      if \<not> up then (''connection is offline'', message, s, w1)
      else
        let w2 = emit (Sent conn (packed_bytes (notify_header message)
                   (encode_notify env svc (sm_notify message)))) w1;
            w3 = (if sm_retryCount message > 0 then emit (IncCounter ''im_message_retry_total'') w2 else w2);
            (t1, w4) = GetTimestamp env w3;
            w5 = emit (Observe ''im_message_latency_ms'' (t1 - sm_createdAt message)) w4;
            (t2, w6) = GetTimestamp env w5;
            message' = message\<lparr>sm_status := DeliveryDelivering, sm_lastDeliverAt := t2,
                         sm_retryCount := sm_retryCount message + 1\<rparr>
        in if ms_hasStore svc
           then case st_attempt ops (sm_receiverId message') (id_of message') (sm_status message')
                       (sm_lastDeliverAt message') (sm_retryCount message') s of
                  (Inl e, s') \<Rightarrow> (e, message', s', w6)
                | (Inr _, s') \<Rightarrow> ([], message', s', w6)
           else ([], message', s, w6))"

text \<open>
  \<open>sendReliableP2PMessage\<close>: the result, the out-parameters (\<open>None\<close> while they are unassigned), the
  result message, the store and the world.
\<close>

definition sendReliableP2PMessage ::
    "'c env \<Rightarrow> 's IMessageStore \<Rightarrow> 'c MessageService \<Rightarrow> string \<Rightarrow> string \<Rightarrow> string \<Rightarrow> string \<Rightarrow>
     's \<Rightarrow> 'c world \<Rightarrow> bool \<times> (u64 \<times> u64) option \<times> string \<times> 's \<times> 'c world" where
  "sendReliableP2PMessage env ops svc fromUserId toUserId clientMsgId body s w =
     (if \<not> ms_hasStore svc then (False, None, ''message store is not configured'', s, w)
      else
        let (t, w1) = GetTimestamp env w;
            request = \<lparr>cr_fromUserId = fromUserId, cr_toUserId = toUserId,
                       cr_clientMsgId = clientMsgId, cr_content = body, cr_timestamp = t\<rparr>
        in case st_save ops request s of
             (Inl e, s1) \<Rightarrow> (False, None, e, s1, w1)
           | (Inr (stored, duplicate), s1) \<Rightarrow>
               let out = Some (id_of stored, seq_of stored);
                   offline = (if duplicate then ''duplicate request still pending offline''
                              else ''persisted and queued offline'')
               in case map_of (ms_userToConn svc) toUserId of
                    None \<Rightarrow> (True, out, offline, s1, w1)
                  | Some conn \<Rightarrow>
                      let (up, w2) = connected env conn w1 in
                      if up
                      then case deliverLocked env ops svc conn stored s1 w2 of
                             (err, _, s2, w3) \<Rightarrow>
                               if err = []
                               then (True, out, (if duplicate then ''duplicate request redelivered''
                                                 else ''persisted and delivered''), s2, w3)
                               else (False, out, err, s2, w3)
                      else (True, out, offline, s1, w2))"

text \<open>\<open>sendP2PMessage\<close> truncates the message id to 32 bits.\<close>

definition sendP2PMessage ::
    "'c env \<Rightarrow> 's IMessageStore \<Rightarrow> 'c MessageService \<Rightarrow> string \<Rightarrow> string \<Rightarrow> string \<Rightarrow>
     's \<Rightarrow> 'c world \<Rightarrow> bool \<times> u32 \<times> string \<times> 's \<times> 'c world" where
  "sendP2PMessage env ops svc fromUserId toUserId body s w =
     (case sendReliableP2PMessage env ops svc fromUserId toUserId [] body s w of
        (ok, out, msg, s', w') \<Rightarrow>
          (ok, (case out of None \<Rightarrow> 0 | Some (reliableMsgId, _) \<Rightarrow> ucast reliableMsgId), msg, s', w'))"

definition processAck ::
    "'c env \<Rightarrow> 's IMessageStore \<Rightarrow> 'c MessageService \<Rightarrow> string \<Rightarrow> u64 \<Rightarrow> u64 \<Rightarrow> u32 \<Rightarrow>
     's \<Rightarrow> 'c world \<Rightarrow> (string + unit) \<times> u64 \<times> 's \<times> 'c world" where
  "processAck env ops svc userId msgId serverSeq ackCode s w =
     (if \<not> ms_hasStore svc then (Inl ''message store is not configured'', 0, s, w)
      else
        let (t, w1) = GetTimestamp env w in
        case st_ack ops userId msgId serverSeq ackCode t s of
          (Inl e, lst, s1) \<Rightarrow> (Inl e, lst, s1, w1)
        | (Inr _, lst, s1) \<Rightarrow>
            (Inr (), lst, s1, if ms_hasSessionRepository svc then emit (SessionAcked userId lst) w1 else w1))"

definition offline_item :: "StoredMessage \<Rightarrow> OfflineItem" where
  "offline_item message =
     \<lparr>oi_msgId = id_of message, oi_serverSeq = seq_of message,
      oi_fromUserId = n_fromUserId (sm_notify message), oi_toUserId = n_toUserId (sm_notify message),
      oi_clientMsgId = n_clientMsgId (sm_notify message), oi_content = n_content (sm_notify message),
      oi_timestamp = n_timestamp (sm_notify message)\<rparr>"

definition pullOfflineMessages ::
    "'s IMessageStore \<Rightarrow> 'c MessageService \<Rightarrow> string \<Rightarrow> u64 \<Rightarrow> nat \<Rightarrow> 's \<Rightarrow>
     (OfflineItem list \<times> u64) \<times> 's" where
  "pullOfflineMessages ops svc userId lastAckedSeq limit s =
     (if \<not> ms_hasStore svc then (([], lastAckedSeq), s)
      else case st_load ops userId lastAckedSeq limit s of
             ((storedMessages, nextBeginSeq, errorMsg), s1) \<Rightarrow>
               if errorMsg \<noteq> [] then (([], nextBeginSeq), s1)
               else ((map offline_item storedMessages, nextBeginSeq), s1))"

text \<open>The loop of \<open>deliverPendingMessages\<close>.\<close>

fun deliver_loop ::
    "'c env \<Rightarrow> 's IMessageStore \<Rightarrow> 'c MessageService \<Rightarrow> 'c \<Rightarrow> ms \<Rightarrow> StoredMessage list \<Rightarrow>
     's \<Rightarrow> 'c world \<Rightarrow> 's \<times> 'c world" where
  "deliver_loop env ops svc conn nowMs [] s w = (s, w)"
| "deliver_loop env ops svc conn nowMs (message # rest) s w =
     (if ms_maxRetryCount svc \<le> sm_retryCount message
      then deliver_loop env ops svc conn nowMs rest
             (snd (st_attempt ops (sm_receiverId message) (id_of message) DeliveryFailed
                     (sm_lastDeliverAt message) (sm_retryCount message) s)) w
      else if \<not> ShouldRetryMessage message nowMs (ms_ackTimeoutMs svc) (ms_retryBackoffMs svc)
      then deliver_loop env ops svc conn nowMs rest s w
      else
        let w1 = (if sm_status message = DeliveryDelivering
                  then emit (IncCounter ''im_message_ack_timeout_total'') w else w)
        in case deliverLocked env ops svc conn message s w1 of
             (_, _, s2, w2) \<Rightarrow> deliver_loop env ops svc conn nowMs rest s2 w2)"

definition deliverPendingMessages ::
    "'c env \<Rightarrow> 's IMessageStore \<Rightarrow> 'c MessageService \<Rightarrow> string \<Rightarrow> 's \<Rightarrow> 'c world \<Rightarrow> 's \<times> 'c world" where
  "deliverPendingMessages env ops svc userId s w =
     (if \<not> ms_hasStore svc then (s, w)
      else case map_of (ms_userToConn svc) userId of
             None \<Rightarrow> (s, w)
           | Some conn \<Rightarrow>
               let (up, w1) = connected env conn w in
               if \<not> up then (s, w1)
               else
                 let (lst, s1) = st_last ops userId s;
                     ((pendingMessages, _, errorMsg), s2) = st_load ops userId lst (ms_retryBatchSize svc) s1
                 in if errorMsg \<noteq> [] then (s2, w1)
                    else let (nowMs, w2) = GetTimestamp env w1
                         in deliver_loop env ops svc conn nowMs pendingMessages s2 w2)"

definition broadcastMessage ::
    "'c env \<Rightarrow> 'c MessageService \<Rightarrow> string \<Rightarrow> string \<Rightarrow> 'c world \<Rightarrow> 'c world" where
  "broadcastMessage env svc fromUserId body w =
     (let (t1, w1) = GetTimestamp env w;
          notify = \<lparr>bnot_fromUserId = fromUserId, bnot_content = body, bnot_timestamp = t1\<rparr>;
          notifyMsg = (case ms_broadcastNotifyEncoder svc of
                         Some enc \<Rightarrow> enc notify | None \<Rightarrow> e_serializeBroadcast env notify);
          (t2, w2) = GetTimestamp env w1;
          header = PacketHeader_default\<lparr>h_command := CmdBroadcastMsgNotify, h_flags := kFlagNone,
                     h_requestId := 0, h_clientSeq := of_int t2\<rparr>
      in fold (\<lambda>(_, conn) w'. case connected env conn w' of
                 (up, w'') \<Rightarrow> if up then emit (Sent conn (packed_bytes header notifyMsg)) w'' else w'')
              (ms_userToConn svc) w2)"

text \<open>
  The retry thread: \<open>start\<close> and \<open>stop\<close> flip the flag (\<open>True\<close> says that a thread is created or
  joined), and one turn of its loop collects the users online and delivers to each.
\<close>

definition start :: "'c MessageService \<Rightarrow> bool \<times> 'c MessageService" where
  "start svc = (\<not> ms_retryRunning svc, svc\<lparr>ms_retryRunning := True\<rparr>)"

definition stop :: "'c MessageService \<Rightarrow> bool \<times> 'c MessageService" where
  "stop svc = (ms_retryRunning svc, svc\<lparr>ms_retryRunning := False\<rparr>)"

fun online_users :: "'c env \<Rightarrow> (string \<times> 'c) list \<Rightarrow> 'c world \<Rightarrow> string list \<times> 'c world" where
  "online_users env [] w = ([], w)"
| "online_users env ((u, conn) # rest) w =
     (let (up, w1) = connected env conn w; (us, w2) = online_users env rest w1
      in (if up then u # us else us, w2))"

definition retry_turn ::
    "'c env \<Rightarrow> 's IMessageStore \<Rightarrow> 'c MessageService \<Rightarrow> 's \<Rightarrow> 'c world \<Rightarrow> 's \<times> 'c world" where
  "retry_turn env ops svc s w =
     (if \<not> ms_retryRunning svc then (s, w)
      else let (us, w1) = online_users env (ms_userToConn svc) w
           in fold (\<lambda>u (s', w'). deliverPendingMessages env ops svc u s' w') us (s, w1))"

section \<open>What a delivery sends\<close>

fun sends :: "'c effect list \<Rightarrow> ('c \<times> string) list" where
  "sends [] = []"
| "sends (Sent c b # es) = (c, b) # sends es"
| "sends (_ # es) = sends es"

lemma sends_append [simp]: "sends (xs @ ys) = sends xs @ sends ys"
  by (induction xs rule: sends.induct) auto

lemma world_simps [simp]:
  "w_log (emit e w) = w_log w @ [e]"
  "w_log (snd (GetTimestamp env w)) = w_log w" "w_log (snd (connected env c w)) = w_log w"
  by (simp_all add: emit_def GetTimestamp_def connected_def)

text \<open>The packet of a delivery attempt.\<close>

definition notify_packet :: "'c env \<Rightarrow> 'c MessageService \<Rightarrow> StoredMessage \<Rightarrow> string" where
  "notify_packet env svc m = packet_bytes (notify_header m) (encode_notify env svc (sm_notify m))"

definition attempt_store ::
    "'s IMessageStore \<Rightarrow> StoredMessage \<Rightarrow> ms \<Rightarrow> 's \<Rightarrow> (string + unit) \<times> 's" where
  "attempt_store ops m t s =
     st_attempt ops (sm_receiverId m) (id_of m) DeliveryDelivering t (sm_retryCount m + 1) s"

lemma deliverLocked_cases:
  assumes "ms_hasStore svc"
  obtains (offline) "e_connected env (w_tick w) conn = False"
      "deliverLocked env ops svc conn m s w = (''connection is offline'', m, s, snd (connected env conn w))"
  | (online) t m' w' where "e_connected env (w_tick w) conn"
      "deliverLocked env ops svc conn m s w =
         ((case fst (attempt_store ops m t s) of Inl e \<Rightarrow> e | Inr _ \<Rightarrow> []), m', snd (attempt_store ops m t s), w')"
      "sends (w_log w') = sends (w_log w) @ [(conn, notify_packet env svc m)]"
proof (cases "e_connected env (w_tick w) conn")
  case False
  then show ?thesis by (intro offline) (simp_all add: deliverLocked_def connected_def)
next
  case True
  let ?d = "deliverLocked env ops svc conn m s w"
  from True assms show ?thesis
    by (intro online [of "e_clock env (Suc (Suc (w_tick w)))" "fst (snd ?d)" "snd (snd (snd ?d))"])
      (auto simp: deliverLocked_def connected_def GetTimestamp_def emit_def attempt_store_def
        notify_packet_def Let_def split: prod.splits sum.splits)
qed

lemma deliverLocked_store:
  "\<exists>t. fst (snd (snd (deliverLocked env ops svc conn m s w))) \<in> {s, snd (attempt_store ops m t s)}"
  by (rule exI [of _ "e_clock env (Suc (Suc (w_tick w)))"])
    (auto simp: deliverLocked_def connected_def GetTimestamp_def emit_def attempt_store_def Let_def
      split: prod.splits sum.splits)

text \<open>One turn of the loop either sends nothing or sends the notification of its message, and then
  only when the message has retries left and its waiting time is over.\<close>

lemma deliver_loop_turn:
  assumes "ms_hasStore svc"
  obtains
    (silent) s1 w1 where
      "deliver_loop env ops svc conn now (m # ms) s w = deliver_loop env ops svc conn now ms s1 w1"
      "sends (w_log w1) = sends (w_log w)"
  | (sent) s1 w1 where
      "deliver_loop env ops svc conn now (m # ms) s w = deliver_loop env ops svc conn now ms s1 w1"
      "sends (w_log w1) = sends (w_log w) @ [(conn, notify_packet env svc m)]"
      "sm_retryCount m < ms_maxRetryCount svc"
      "ShouldRetryMessage m now (ms_ackTimeoutMs svc) (ms_retryBackoffMs svc)"
proof -
  consider "ms_maxRetryCount svc \<le> sm_retryCount m"
    | "sm_retryCount m < ms_maxRetryCount svc"
      "\<not> ShouldRetryMessage m now (ms_ackTimeoutMs svc) (ms_retryBackoffMs svc)"
    | (due) "sm_retryCount m < ms_maxRetryCount svc"
      "ShouldRetryMessage m now (ms_ackTimeoutMs svc) (ms_retryBackoffMs svc)"
    by fastforce
  then show ?thesis
  proof cases
    case 1
    then show ?thesis by (intro silent [OF _ refl]) simp
  next
    case 2
    then show ?thesis by (intro silent [of s w]) auto
  next
    case due
    define w0 where "w0 = (if sm_status m = DeliveryDelivering
        then emit (IncCounter ''im_message_ack_timeout_total'') w else w)"
    have w0: "sends (w_log w0) = sends (w_log w)" by (simp add: w0_def)
    have eq: "deliver_loop env ops svc conn now (m # ms) s w =
        (case deliverLocked env ops svc conn m s w0 of (_, _, s2, w2) \<Rightarrow> deliver_loop env ops svc conn now ms s2 w2)"
      using due by (auto simp: w0_def Let_def)
    from assms show ?thesis
    proof (cases rule: deliverLocked_cases [of svc env w0 conn ops m s])
      case offline
      show ?thesis by (rule silent [OF eq [unfolded offline(2) prod.case]]) (simp add: w0)
    next
      case (online t m' w'')
      show ?thesis
        by (rule sent [OF eq [unfolded online(2) prod.case] _ due]) (simp add: w0 online(3))
    qed
  qed
qed

lemma deliver_loop_sends:
  assumes "ms_hasStore svc" "deliver_loop env ops svc conn now ms s w = (s', w')"
  shows "\<exists>ds. subseq ds ms \<and>
    sends (w_log w') = sends (w_log w) @ map (\<lambda>m. (conn, notify_packet env svc m)) ds \<and>
    (\<forall>m \<in> set ds. sm_retryCount m < ms_maxRetryCount svc \<and>
       ShouldRetryMessage m now (ms_ackTimeoutMs svc) (ms_retryBackoffMs svc))"
  using assms(2)
proof (induction ms arbitrary: s w)
  case Nil
  then show ?case by simp
next
  case (Cons m ms)
  from assms(1) show ?case
  proof (cases rule: deliver_loop_turn [of svc env ops conn now m ms s w])
    case (silent s1 w1)
    with Cons.IH [of s1 w1] Cons.prems show ?thesis by auto
  next
    case (sent s1 w1)
    with Cons.IH [of s1 w1] Cons.prems obtain ds where "subseq ds ms"
      "sends (w_log w') = sends (w_log w1) @ map (\<lambda>m. (conn, notify_packet env svc m)) ds"
      "\<forall>m \<in> set ds. sm_retryCount m < ms_maxRetryCount svc \<and>
         ShouldRetryMessage m now (ms_ackTimeoutMs svc) (ms_retryBackoffMs svc)"
      by auto
    with sent show ?thesis by (intro exI [of _ "m # ds"]) auto
  qed
qed

lemma subseq_sorted: "subseq ds ms \<Longrightarrow> sorted_wrt (<) (map f ms) \<Longrightarrow> sorted_wrt (<) (map f ds)"
  by (induction rule: list_emb.induct) (auto dest: list_emb_set)

context message_store
begin

lemma deliver_loop_inv:
  assumes "inv n s" "n + length ms \<le> bound"
  shows "\<exists>n' \<le> n + length ms. inv n' (fst (deliver_loop env ops svc conn now ms s w))"
  using assms
proof (induction ms arbitrary: n s w)
  case Nil
  then show ?case by auto
next
  case (Cons m ms)
  have more: "\<exists>n' \<le> n + length (m # ms). inv n' (fst (deliver_loop env ops svc conn now ms s1 w1))"
    if k: "inv k s1" "k \<le> Suc n" for k s1 w1
  proof -
    obtain n' where "n' \<le> k + length ms" "inv n' (fst (deliver_loop env ops svc conn now ms s1 w1))"
      using Cons.IH [OF k(1), of w1] k(2) Cons.prems(2) by auto
    with k(2) show ?thesis by (intro exI [of _ n']) auto
  qed
  have n: "n < bound" using Cons.prems(2) by simp
  have att: "inv (Suc n) (snd (st_attempt ops u i st t rc s))" for u i st t rc
    by (rule attempt_inv [OF Cons.prems(1) n])
  have del: "\<exists>k \<le> Suc n. inv k (fst (snd (snd (deliverLocked env ops svc conn m s w1))))" for w1
  proof -
    obtain t where "fst (snd (snd (deliverLocked env ops svc conn m s w1))) = s \<or>
        fst (snd (snd (deliverLocked env ops svc conn m s w1))) = snd (attempt_store ops m t s)"
      using deliverLocked_store [of env ops svc conn m s w1] by blast
    then show ?thesis
      using Cons.prems(1) att by (auto simp: attempt_store_def intro: exI [of _ n] exI [of _ "Suc n"])
  qed
  let ?w = "if sm_status m = DeliveryDelivering then emit (IncCounter ''im_message_ack_timeout_total'') w else w"
  consider "ms_maxRetryCount svc \<le> sm_retryCount m"
    | "\<not> ms_maxRetryCount svc \<le> sm_retryCount m"
      "\<not> ShouldRetryMessage m now (ms_ackTimeoutMs svc) (ms_retryBackoffMs svc)"
    | "\<not> ms_maxRetryCount svc \<le> sm_retryCount m"
      "ShouldRetryMessage m now (ms_ackTimeoutMs svc) (ms_retryBackoffMs svc)"
    by blast
  then show ?case
  proof cases
    case 1
    then show ?thesis using more [OF att] by simp
  next
    case 2
    then show ?thesis using more [OF Cons.prems(1)] by simp
  next
    case 3
    obtain k where "k \<le> Suc n" "inv k (fst (snd (snd (deliverLocked env ops svc conn m s ?w))))"
      using del by blast
    with 3 more show ?thesis by (auto simp: Let_def split: prod.splits)
  qed
qed

text \<open>
  The packets one call of \<open>deliverPendingMessages\<close> sends.
\<close>

lemma deliverPending_sends:
  assumes inv: "inv n s" and d: "deliverPendingMessages env ops svc u s w = (s', w')"
  shows "\<exists>conn ds. sends (w_log w') = sends (w_log w) @ map (\<lambda>m. (conn, notify_packet env svc m)) ds \<and>
    (ds \<noteq> [] \<longrightarrow> map_of (ms_userToConn svc) u = Some conn) \<and>
    sorted_wrt (<) (map seq_of ds) \<and> length ds \<le> max 1 (ms_retryBatchSize svc) \<and>
    (\<forall>m \<in> set ds. sm_receiverId m = u \<and> n_toUserId (sm_notify m) = u \<and>
       deliverable (fst (st_last ops u s)) m \<and> sm_retryCount m < ms_maxRetryCount svc)"
proof (cases "ms_hasStore svc \<and> (\<exists>conn. map_of (ms_userToConn svc) u = Some conn \<and>
    e_connected env (w_tick w) conn \<and>
    snd (snd (fst (st_load ops u (fst (st_last ops u s)) (ms_retryBatchSize svc) s))) = [])")
  case False
  then have "sends (w_log w') = sends (w_log w)"
    using d last_keeps [OF inv, of u]
    by (auto simp: deliverPendingMessages_def connected_def Let_def split: if_splits option.splits prod.splits)
  then show ?thesis by (intro exI [of _ undefined] exI [of _ "[]"]) simp
next
  case True
  then obtain conn where conn: "ms_hasStore svc" "map_of (ms_userToConn svc) u = Some conn"
      "e_connected env (w_tick w) conn"
      "snd (snd (fst (st_load ops u (fst (st_last ops u s)) (ms_retryBatchSize svc) s))) = []"
    by blast
  let ?l = "fst (fst (st_load ops u (fst (st_last ops u s)) (ms_retryBatchSize svc) s))"
  define w1 where "w1 = snd (connected env conn w)"
  define w2 where "w2 = snd (GetTimestamp env w1)"
  have "deliver_loop env ops svc conn (fst (GetTimestamp env w1)) ?l s w2 = (s', w')"
    using d conn last_keeps [OF inv, of u] load_keeps [OF inv, of u "fst (st_last ops u s)" "ms_retryBatchSize svc"]
    by (auto simp: deliverPendingMessages_def connected_def w1_def w2_def GetTimestamp_def Let_def
        split: prod.splits)
  from deliver_loop_sends [OF conn(1) this] obtain ds where ds: "subseq ds ?l"
      "sends (w_log w') = sends (w_log w2) @ map (\<lambda>m. (conn, notify_packet env svc m)) ds"
      "\<forall>m \<in> set ds. sm_retryCount m < ms_maxRetryCount svc \<and>
         ShouldRetryMessage m (fst (GetTimestamp env w1)) (ms_ackTimeoutMs svc) (ms_retryBackoffMs svc)"
    by blast
  have "length ds \<le> length ?l" using ds(1) by (rule list_emb_length)
  then have len: "length ds \<le> max 1 (ms_retryBatchSize svc)"
    using load_limit [OF inv, of u "fst (st_last ops u s)" "ms_retryBatchSize svc"] by simp
  have "set ds \<subseteq> set ?l" using ds(1) by (auto dest: list_emb_set)
  then have "\<forall>m \<in> set ds. sm_receiverId m = u \<and> n_toUserId (sm_notify m) = u \<and>
      deliverable (fst (st_last ops u s)) m"
    using load_mine [OF inv] by blast
  moreover have "sorted_wrt (<) (map seq_of ds)"
    using subseq_sorted [OF ds(1)] load_sorted [OF inv] by blast
  ultimately show ?thesis
    using ds(2,3) len conn(2)
    by (intro exI [of _ conn] exI [of _ ds]) (simp add: w1_def w2_def)
qed

end

section \<open>What deliveries keep of a store\<close>

text \<open>
  A view of a store's state that delivery attempts, loads and queries leave as it is: deliveries and
  turns of the retry thread leave it as it is.
\<close>

locale store_view =
  fixes ops :: "'s IMessageStore" and view :: "'s \<Rightarrow> 'v"
  assumes attempt_view: "view (snd (st_attempt ops u i st t rc s)) = view s"
    and load_view: "view (snd (st_load ops u a limit s)) = view s"
    and last_view: "view (snd (st_last ops u s)) = view s"
begin

lemma deliverLocked_view: "view (fst (snd (snd (deliverLocked env ops svc conn m s w)))) = view s"
  using deliverLocked_store [of env ops svc conn m s w] attempt_view by (auto simp: attempt_store_def)

lemma deliver_loop_view: "view (fst (deliver_loop env ops svc conn now ms s w)) = view s"
proof (induction ms arbitrary: s w)
  case (Cons m ms)
  then show ?case
    using deliverLocked_view [of env svc conn m s] by (auto simp: Let_def attempt_view split: prod.splits) (metis fst_conv snd_conv)+
qed simp

lemma deliverPending_view: "view (fst (deliverPendingMessages env ops svc u s w)) = view s"
proof -
  have "view (snd (st_load ops u a limit (snd (st_last ops u s)))) = view s" for a limit
    by (simp add: load_view last_view)
  then show ?thesis
    by (simp add: deliverPendingMessages_def Let_def split_def deliver_loop_view load_view last_view
        split: option.splits)
qed

lemma retry_turn_view: "view (fst (retry_turn env ops svc s w)) = view s"
proof -
  have "view (fst (fold (\<lambda>u (s', w'). deliverPendingMessages env ops svc u s' w') us (s, w))) = view s" for us s w
  proof (induction us arbitrary: s w)
    case (Cons u us)
    then show ?case
      using deliverPending_view [of env svc u s w] by (cases "deliverPendingMessages env ops svc u s w") simp
  qed simp
  then show ?thesis by (simp add: retry_turn_def split_def Let_def)
qed

end

lemma noted_attempt [simp]: "noted (snd (markDeliveryAttempt u i st t rc s)) = noted s"
  by (auto simp: markDeliveryAttempt_def note_update split: option.splits)

lemma noted_ack [simp]: "noted (snd (snd (markAcked u i q code t s))) = noted s"
proof (cases "\<exists>m. im_messages s i = Some m \<and> sm_receiverId m = u \<and> seq_of m = q")
  case True
  then show ?thesis using acked_views(1) by blast
next
  case False
  then show ?thesis by (auto simp: markAcked_def touch_lastAcked_def noted_def Let_def fun_eq_iff split: option.splits)
qed

interpretation memory_notes: store_view memory_store noted
  by unfold_locales
    (simp_all add: memory_store_def getLastAckedSeq_def loadPendingMessages_def split: option.splits prod.splits)

section \<open>Properties\<close>

text \<open>The states of the in-memory store that a history reaches.\<close>

abbreviation stored :: "store_op list \<Rightarrow> InMemoryMessageStore" where
  "stored ops \<equiv> run store_step InMemoryMessageStore_init ops"

lemma stored_inv: "length ops \<le> store_bound \<Longrightarrow> store_inv (length ops) (stored ops)"
  by (rule mem.inv_bounded) simp_all

lemma memory_store_simps [simp]:
  "st_save memory_store = saveMessageAndDelivery" "st_attempt memory_store = markDeliveryAttempt"
  "st_ack memory_store = markAcked" "st_load memory_store = loadPendingMessages"
  "st_last memory_store = getLastAckedSeq"
  by (simp_all add: memory_store_def)


text \<open>An environment in which every connection is alive and the clock stands still.\<close>

definition calm :: "nat env" where
  "calm = \<lparr>e_clock = (\<lambda>_. 1000), e_connected = (\<lambda>_ _. True), e_serializeNotify = n_content,
           e_serializeBroadcast = bnot_content\<rparr>"

definition one_user :: "nat MessageService" where
  "one_user = MessageService_init\<lparr>ms_hasStore := True, ms_userToConn := [(''bob'', 7)]\<rparr>"

definition quiet :: "nat world" where
  "quiet = \<lparr>w_tick = 0, w_log = []\<rparr>"


text \<open>
  Claim C12 (ack_cumulative). An accepted acknowledgement is cumulative for redelivery: at any later
  time \<open>deliverPendingMessages\<close> sends this user nothing with a sequence number up to the acknowledged
  one. The acknowledged message is never sent again, and neither are earlier messages of the user
  that were not acknowledged, although the store still lists them as pending.
\<close>

theorem ack_cumulative:
  assumes "processAck env memory_store svc u i q code (stored ops) w = (Inr (), lst, s1, w1)"
    and "Suc (length ops) + length later \<le> store_bound"
    and "deliverPendingMessages env' memory_store svc' u (run store_step s1 later) w2 = (s', w')"
  shows "\<exists>conn ds. sends (w_log w') = sends (w_log w2) @ map (\<lambda>m. (conn, notify_packet env' svc' m)) ds \<and>
    (\<forall>m \<in> set ds. q < seq_of m)"
proof -
  let ?t = "fst (GetTimestamp env w)"
  have ack: "markAcked u i q code ?t (stored ops) = (Inr (), lst, s1)"
    using assms(1) by (auto simp: processAck_def Let_def split: if_splits prod.splits sum.splits)
  have len: "length ops \<le> store_bound" "length ops < store_bound" using assms(2) by simp_all
  have inv1: "store_inv (Suc (length ops)) s1"
    using store_inv_step [OF stored_inv [OF len(1)] len(2), of "Ack u i q code ?t"] ack by simp
  obtain m where m: "im_messages (stored ops) i = Some m" "sm_receiverId m = u" "seq_of m = q"
    using ack by (auto simp: markAcked_def split: option.splits if_splits)
  have "s1 = snd (snd (markAcked u i q code ?t (stored ops)))" by (simp add: ack)
  note v = acked_views [OF m this]
  have "noted s1 i = Some (sm_notify m, u)" using m by (simp add: v noted_def)
  from store_run_keeps(3) [OF inv1 assms(2) this, of u]
  have "q \<le> last_acked (run store_step s1 later) u" by (simp add: v)
  moreover have "store_inv (Suc (length ops) + length later) (run store_step s1 later)"
    by (rule mem.inv_within [OF inv1 assms(2)])
  from memory.deliverPending_sends [OF this assms(3)]
  obtain conn ds where "sends (w_log w') = sends (w_log w2) @ map (\<lambda>m. (conn, notify_packet env' svc' m)) ds"
    "\<forall>m \<in> set ds. deliverable (last_acked (run store_step s1 later) u) m"
    by (auto simp: getLastAckedSeq_def last_acked_def)
  ultimately show ?thesis by (fastforce simp: deliverable_def)
qed

text \<open>The second of two messages is acknowledged; the first is pending and stays undelivered.\<close>

theorem ack_cumulative_witness:
  "pending (fst (snd (snd (processAck calm memory_store one_user ''bob'' 2 2 0 (stored [Save req_a, Save req_b]) quiet))))
     ''bob'' = [1] \<and>
   (\<exists>conn ds. sends (w_log (snd (deliverPendingMessages calm memory_store one_user ''bob''
       (fst (snd (snd (processAck calm memory_store one_user ''bob'' 2 2 0 (stored [Save req_a, Save req_b]) quiet))))
       quiet))) = map (\<lambda>m. (conn, notify_packet calm one_user m)) ds \<and> list_all (\<lambda>m. 2 < seq_of m) ds)"
proof -
  let ?p = "processAck calm memory_store one_user ''bob'' 2 2 0 (stored [Save req_a, Save req_b]) quiet"
  have p: "fst ?p = Inr ()" "pending (fst (snd (snd ?p))) ''bob'' = [1]"
    by (simp_all add: processAck_def markAcked_def two_saved_eval one_user_def GetTimestamp_def
        MessageService_init_def pending_def)
  then have eq: "?p = (Inr (), fst (snd ?p), fst (snd (snd ?p)), snd (snd (snd ?p)))" by (simp add: prod_eq_iff)
  show ?thesis
    using p(2) ack_cumulative [OF eq, of "[]", OF _ surjective_pairing, of calm one_user quiet]
    by (simp add: store_bound_def quiet_def list_all_iff)
qed

text \<open>Sending a message whose client id is new: it is saved, and delivered when its receiver is there.\<close>

definition p2p_request :: "'c env \<Rightarrow> string \<Rightarrow> string \<Rightarrow> string \<Rightarrow> string \<Rightarrow> 'c world \<Rightarrow> CreateMessageRequest" where
  "p2p_request env from to client body w =
     \<lparr>cr_fromUserId = from, cr_toUserId = to, cr_clientMsgId = client, cr_content = body, cr_timestamp = fst (GetTimestamp env w)\<rparr>"

lemma new_message_fields:
  assumes "m = new_message (p2p_request env from to client body w) s"
  shows "id_of m = im_nextMsgId s" "sm_receiverId m = to" "n_fromUserId (sm_notify m) = from"
    "n_content (sm_notify m) = body" "sm_status m = DeliveryPersisted" "sm_retryCount m = 0"
  by (simp_all add: assms new_message_def p2p_request_def)

lemma send_new_eq:
  assumes "ms_hasStore svc" "find_duplicate (makeDedupKey from client) s = None"
    and "m = new_message (p2p_request env from to client body w) s"
    and "s1 = snd (saveMessageAndDelivery (p2p_request env from to client body w) s)" "w1 = snd (GetTimestamp env w)"
  shows "sendReliableP2PMessage env memory_store svc from to client body s w =
     (case map_of (ms_userToConn svc) to of
        None \<Rightarrow> (True, Some (id_of m, seq_of m), ''persisted and queued offline'', s1, w1)
      | Some conn \<Rightarrow>
          if e_connected env (w_tick w1) conn
          then case deliverLocked env memory_store svc conn m s1 (snd (connected env conn w1)) of
                 (err, _, s2, w3) \<Rightarrow>
                   if err = [] then (True, Some (id_of m, seq_of m), ''persisted and delivered'', s2, w3)
                   else (False, Some (id_of m, seq_of m), err, s2, w3)
          else (True, Some (id_of m, seq_of m), ''persisted and queued offline'', s1, snd (connected env conn w1)))"
proof -
  have "find_duplicate (key_req (p2p_request env from to client body w)) s = None" using assms(2) by (simp add: p2p_request_def)
  from saved_views(1) [OF this assms(4)] assms(3,4)
  have "saveMessageAndDelivery (p2p_request env from to client body w) s = (Inr (m, False), s1)" by (simp add: prod_eq_iff)
  with assms(1,5) show ?thesis
    by (simp add: sendReliableP2PMessage_def p2p_request_def split_beta Let_def connected_def split: option.splits)
qed

lemma saved_new:
  assumes "length ops < store_bound" "find_duplicate (makeDedupKey from client) (stored ops) = None"
    and "m = new_message (p2p_request env from to client body w) (stored ops)"
    and "s1 = snd (saveMessageAndDelivery (p2p_request env from to client body w) (stored ops))"
  shows "im_messages (stored ops) (id_of m) = None" "im_messages s1 (id_of m) = Some m" "id_of m \<in> set (pending s1 to)"
proof -
  have "find_duplicate (key_req (p2p_request env from to client body w)) (stored ops) = None" using assms(2) by (simp add: p2p_request_def)
  note v = saved_views [OF this assms(4), folded assms(3)]
  show "im_messages (stored ops) (id_of m) = None"
    using next_not_noted [OF stored_inv] assms(1) new_message_fields(1) [OF assms(3)] by (simp add: noted_def)
  show "im_messages s1 (id_of m) = Some m" "id_of m \<in> set (pending s1 to)"
    using v new_message_fields(1) [OF assms(3)] by (simp_all add: p2p_request_def)
qed

text \<open>
  Claim C10 (send_reliable_outcomes). A new reliable message is stored under a fresh id, and listed as
  pending for its receiver, before anything is sent, whatever the state of the receiver's connection:
  either no packet leaves and the message stays \<open>Persisted\<close> (the call succeeds when the receiver is
  offline, and fails with \<open>connection is offline\<close> when the connection dies between the two checks), or
  exactly one packet, the notification without the retry flag, goes to the receiver's connection and
  the message is \<open>Delivering\<close> with one attempt counted.
\<close>

theorem send_reliable_outcomes:
  assumes "length ops < store_bound" "ms_hasStore svc"
    and "find_duplicate (makeDedupKey from client) (stored ops) = None"
    and "sendReliableP2PMessage env memory_store svc from to client body (stored ops) w = (ok, out, info, s', w')"
  shows "\<exists>m. out = Some (id_of m, seq_of m) \<and> im_messages (stored ops) (id_of m) = None \<and>
    im_messages s' (id_of m) = Some m \<and> id_of m \<in> set (pending s' to) \<and>
    sm_receiverId m = to \<and> n_fromUserId (sm_notify m) = from \<and> n_content (sm_notify m) = body \<and>
    (sends (w_log w') = sends (w_log w) \<and> sm_status m = DeliveryPersisted \<and>
       (ok \<and> info = ''persisted and queued offline'' \<or> \<not> ok \<and> info = ''connection is offline'') \<or>
     (\<exists>conn. map_of (ms_userToConn svc) to = Some conn \<and>
       sends (w_log w') = sends (w_log w) @ [(conn, notify_packet env svc (m\<lparr>sm_retryCount := 0\<rparr>))] \<and>
       sm_status m = DeliveryDelivering \<and> sm_retryCount m = 1 \<and> ok \<and> info = ''persisted and delivered''))"
proof -
  define m where "m = new_message (p2p_request env from to client body w) (stored ops)"
  define s1 where "s1 = snd (saveMessageAndDelivery (p2p_request env from to client body w) (stored ops))"
  define w1 where "w1 = snd (GetTimestamp env w)"
  note mf = new_message_fields [OF m_def] and sm = saved_new [OF assms(1,3) m_def s1_def]
  note send = send_new_eq [OF assms(2,3) m_def s1_def w1_def, unfolded assms(4)]
  have off: ?thesis if "(ok, out, info, s', w') = (True, Some (id_of m, seq_of m), ''persisted and queued offline'', s1, w2)"
    "sends (w_log w2) = sends (w_log w)" for w2
    using that sm mf by (intro exI [of _ m]) simp
  show ?thesis
  proof (cases "map_of (ms_userToConn svc) to")
    case None
    with send show ?thesis by (intro off [of w1]) (simp_all add: w1_def)
  next
    case (Some conn)
    show ?thesis
    proof (cases "e_connected env (w_tick w1) conn")
      case False
      with Some send show ?thesis by (intro off [of "snd (connected env conn w1)"]) (simp_all add: w1_def)
    next
      case True
      note goes = send [unfolded Some option.case if_P [OF True]]
      from assms(2) show ?thesis
      proof (cases rule: deliverLocked_cases [of svc env "snd (connected env conn w1)" conn memory_store m s1])
        case offline
        with goes sm mf show ?thesis by (intro exI [of _ m]) (simp add: w1_def)
      next
        case (online t m' w3)
        let ?m = "m\<lparr>sm_status := DeliveryDelivering, sm_lastDeliverAt := t, sm_retryCount := 1\<rparr>"
        have att: "attempt_store memory_store m t s1 = (Inr (), s1\<lparr>im_messages := (im_messages s1)(id_of m \<mapsto> ?m)\<rparr>)"
          using sm mf by (simp add: attempt_store_def markDeliveryAttempt_def)
        have "notify_packet env svc (?m\<lparr>sm_retryCount := 0\<rparr>) = notify_packet env svc m"
          using mf by (simp add: notify_packet_def notify_header_def)
        with online goes Some sm mf att show ?thesis by (intro exI [of _ ?m]) (simp add: w1_def pending_def)
      qed
    qed
  qed
qed

theorem send_reliable_outcomes_witness:
  "ms_hasStore one_user \<and>
   (\<exists>m. fst (snd (sendReliableP2PMessage calm memory_store one_user ''ann'' ''bob'' ''c1'' ''hi'' (stored []) quiet)) =
      Some (id_of m, seq_of m) \<and> sm_receiverId m = ''bob'' \<and> n_content (sm_notify m) = ''hi'')"
proof -
  have h: "length [] < store_bound" "ms_hasStore one_user"
      "find_duplicate (makeDedupKey ''ann'' ''c1'') (stored []) = None"
    by (simp_all add: store_bound_def one_user_def find_duplicate_def InMemoryMessageStore_init_def)
  obtain ok out info s' w' where r: "sendReliableP2PMessage calm memory_store one_user ''ann'' ''bob'' ''c1'' ''hi''
      (stored []) quiet = (ok, out, info, s', w')"
    by (metis surj_pair)
  from send_reliable_outcomes [OF h r] h(2) show ?thesis unfolding r by auto
qed

text \<open>
  A repeated request whose receiver is online sends the stored message
  again and sets its status back to \<open>Delivering\<close> with one more attempt, whatever the status was: also
  when the receiver had acknowledged it.
\<close>

theorem duplicate_resends:
  assumes "ms_hasStore svc" "map_of (ms_userToConn svc) to = Some conn"
    and "find_duplicate (makeDedupKey from client) s = Some m" "im_messages s (id_of m) = Some m"
    and "\<And>k. e_connected env k conn"
    and "sendReliableP2PMessage env memory_store svc from to client body s w = (ok, out, info, s', w')"
  shows "ok \<and> info = ''duplicate request redelivered'' \<and> out = Some (id_of m, seq_of m) \<and>
    sends (w_log w') = sends (w_log w) @ [(conn, notify_packet env svc m)] \<and>
    (\<exists>t. im_messages s' (id_of m) = Some (m\<lparr>sm_status := DeliveryDelivering, sm_lastDeliverAt := t,
       sm_retryCount := sm_retryCount m + 1\<rparr>))"
proof -
  let ?r = "\<lparr>cr_fromUserId = from, cr_toUserId = to, cr_clientMsgId = client,
      cr_content = body, cr_timestamp = fst (GetTimestamp env w)\<rparr>"
  let ?w1 = "snd (GetTimestamp env w)"
  have dup: "saveMessageAndDelivery ?r s = (Inr (m, True), s)"
    by (rule save_duplicate) (simp add: assms(3))
  have send: "(ok, out, info, s', w') =
     (case deliverLocked env memory_store svc conn m s (snd (connected env conn ?w1)) of
        (err, _, s2, w3) \<Rightarrow>
          if err = [] then (True, Some (id_of m, seq_of m), ''duplicate request redelivered'', s2, w3)
          else (False, Some (id_of m, seq_of m), err, s2, w3))"
    using assms(1,2,5,6) dup
    by (simp add: sendReliableP2PMessage_def connected_def split_beta Let_def split: if_splits)
  from assms(1) show ?thesis
  proof (cases rule: deliverLocked_cases [of svc env "snd (connected env conn ?w1)" conn memory_store m s])
    case offline
    with assms(5) show ?thesis by simp
  next
    case (online t m' w3)
    have "attempt_store memory_store m t s = (Inr (), s\<lparr>im_messages := (im_messages s)(id_of m \<mapsto>
        m\<lparr>sm_status := DeliveryDelivering, sm_lastDeliverAt := t, sm_retryCount := sm_retryCount m + 1\<rparr>)\<rparr>)"
      using assms(4) by (simp add: attempt_store_def markDeliveryAttempt_def)
    with online send show ?thesis by (auto intro: exI [of _ t])
  qed
qed

text \<open>Bob has acknowledged the message; a repeat of the request delivers it to him again.\<close>

definition acked_once :: InMemoryMessageStore where
  "acked_once = snd (snd (markAcked ''bob'' 1 1 AckRead 50 (stored [Save req_a])))"

theorem duplicate_resends_witness:
  "sm_status (the (im_messages acked_once 1)) = DeliveryRead \<and>
   (\<exists>s' w' t. sendReliableP2PMessage calm memory_store one_user ''ann'' ''bob'' ''c1'' ''hi'' acked_once quiet =
      (True, Some (1, 1), ''duplicate request redelivered'', s', w') \<and>
    sends (w_log w') = [(7, notify_packet calm one_user (the (im_messages acked_once 1)))] \<and>
    sm_status (the (im_messages s' 1)) = DeliveryDelivering)"
proof -
  let ?m = "the (im_messages acked_once 1)"
  have e: "sm_status ?m = DeliveryRead" "id_of ?m = 1" "seq_of ?m = 1" "im_messages acked_once 1 = Some ?m"
      "find_duplicate (makeDedupKey ''ann'' ''c1'') acked_once = Some ?m"
    by (simp_all add: acked_once_def markAcked_def two_saved_eval)
  have h: "ms_hasStore one_user" "map_of (ms_userToConn one_user) ''bob'' = Some 7" "\<And>k. e_connected calm k 7"
    by (simp_all add: one_user_def calm_def)
  have i: "im_messages acked_once (id_of ?m) = Some ?m" using e(2,4) by simp
  obtain ok out info s' w' where r: "sendReliableP2PMessage calm memory_store one_user ''ann'' ''bob'' ''c1'' ''hi''
      acked_once quiet = (ok, out, info, s', w')"
    by (metis surj_pair)
  from duplicate_resends [OF h(1,2) e(5) i h(3) r] e show ?thesis
    unfolding r by (auto simp: quiet_def)
qed

text \<open>
  A broadcast sends the same packet once to every registered
  connection that is alive and to no other.
\<close>

theorem broadcast_reaches_online:
  assumes "\<And>k c. e_connected env k c = alive c"
  shows "\<exists>pkt. sends (w_log (broadcastMessage env svc from body w)) =
    sends (w_log w) @ map (\<lambda>(_, c). (c, pkt)) (filter (alive \<circ> snd) (ms_userToConn svc))"
proof -
  have loop: "sends (w_log (fold (\<lambda>(_, conn) w'. case connected env conn w' of
          (up, w'') \<Rightarrow> if up then emit (Sent conn p) w'' else w'') cs w)) =
      sends (w_log w) @ map (\<lambda>(_, c). (c, p)) (filter (alive \<circ> snd) cs)" for p cs w
    by (induction cs arbitrary: w) (auto simp: connected_def assms)
  show ?thesis
    unfolding broadcastMessage_def Let_def split_beta
    by (subst loop [unfolded split_beta]) (auto simp: split_beta)
qed

theorem broadcast_reaches_online_witness:
  "\<exists>pkt. sends (w_log (broadcastMessage calm one_user ''ann'' ''hey'' quiet)) = [(7, pkt)]"
proof -
  have "e_connected calm k c = (\<lambda>_. True) c" for k c by (simp add: calm_def)
  from broadcast_reaches_online [OF this, of one_user "''ann''" "''hey''" quiet] show ?thesis
    by (simp add: one_user_def MessageService_init_def quiet_def)
qed

end
