(* ===== verification/CircuitBreaker.thy ===== *)
theory CircuitBreaker
  imports Util
begin

text \<open>
  \<open>src/infra/circuitBreaker.cpp\<close>: the three-state breaker around the Redis and MySQL calls. The
  clock reading of an operation is its argument; the operations hold the mutex, so a history is a
  list of operations. \<open>m_consecutiveFailures\<close> is a 32-bit counter.
\<close>

datatype State = Closed | Open | HalfOpen

record CircuitBreaker =
  cb_enabled :: bool
  cb_failureThreshold :: u32
  cb_halfOpenAfterMs :: int
  cb_state :: State
  cb_consecutiveFailures :: u32
  cb_openedAtMs :: ms

definition CircuitBreaker_init :: "bool \<Rightarrow> u32 \<Rightarrow> int \<Rightarrow> CircuitBreaker" where
  "CircuitBreaker_init enabled failureThreshold halfOpenAfterMs =
     \<lparr>cb_enabled = enabled, cb_failureThreshold = failureThreshold,
      cb_halfOpenAfterMs = halfOpenAfterMs, cb_state = Closed, cb_consecutiveFailures = 0,
      cb_openedAtMs = 0\<rparr>"

definition allowRequest :: "ms \<Rightarrow> CircuitBreaker \<Rightarrow> bool \<times> CircuitBreaker" where
  "allowRequest nowMs c =
     (if \<not> cb_enabled c then (True, c)
      else if cb_state c = Closed then (True, c)
      else if cb_state c = Open \<and> nowMs - cb_openedAtMs c \<ge> cb_halfOpenAfterMs c
      then (True, c\<lparr>cb_state := HalfOpen\<rparr>)
      else (cb_state c = HalfOpen, c))"

definition recordSuccess :: "CircuitBreaker \<Rightarrow> CircuitBreaker" where
  "recordSuccess c = c\<lparr>cb_consecutiveFailures := 0, cb_state := Closed, cb_openedAtMs := 0\<rparr>"

definition recordFailure :: "ms \<Rightarrow> CircuitBreaker \<Rightarrow> CircuitBreaker" where
  "recordFailure nowMs c =
     (if \<not> cb_enabled c then c
      else
        let c1 = c\<lparr>cb_consecutiveFailures := cb_consecutiveFailures c + 1\<rparr>
        in if cb_failureThreshold c1 \<le> cb_consecutiveFailures c1
           then c1\<lparr>cb_state := Open, cb_openedAtMs := nowMs\<rparr> else c1)"

definition configure :: "bool \<Rightarrow> u32 \<Rightarrow> int \<Rightarrow> CircuitBreaker \<Rightarrow> CircuitBreaker" where
  "configure enabled failureThreshold halfOpenAfterMs c =
     c\<lparr>cb_enabled := enabled, cb_failureThreshold := failureThreshold,
       cb_halfOpenAfterMs := halfOpenAfterMs, cb_state := Closed, cb_consecutiveFailures := 0,
       cb_openedAtMs := 0\<rparr>"

definition isOpen :: "CircuitBreaker \<Rightarrow> bool" where
  "isOpen c = (cb_state c = Open)"

datatype breaker_op = Allow ms | Success | Failure ms | Configure bool u32 int

fun breaker_step :: "CircuitBreaker \<Rightarrow> breaker_op \<Rightarrow> CircuitBreaker" where
  "breaker_step c (Allow t) = snd (allowRequest t c)"
| "breaker_step c Success = recordSuccess c"
| "breaker_step c (Failure t) = recordFailure t c"
| "breaker_step c (Configure e th h) = configure e th h c"

section \<open>Invariant\<close>

text \<open>A breaker that is not closed is enabled and has counted its threshold of failures.\<close>

definition breaker_inv :: "nat \<Rightarrow> CircuitBreaker \<Rightarrow> bool" where
  "breaker_inv n c \<longleftrightarrow>
     unat (cb_consecutiveFailures c) \<le> n \<and>
     (cb_state c \<noteq> Closed \<longrightarrow> cb_enabled c \<and> cb_failureThreshold c \<le> cb_consecutiveFailures c)"

definition breaker_bound :: nat where "breaker_bound = 2 ^ 32 - 1"

lemma unat_Suc_u32: "Suc (unat x) < 2 ^ 32 \<Longrightarrow> unat (x + 1 :: u32) = Suc (unat x)"
  by (simp add: unat_word_ariths)

lemma breaker_inv_step:
  assumes inv: "breaker_inv n c" and n: "n < breaker_bound"
  shows "breaker_inv (Suc n) (breaker_step c a)"
proof (cases a)
  case (Failure t)
  have "unat (cb_consecutiveFailures c + 1) = Suc (unat (cb_consecutiveFailures c))"
    using inv n by (intro unat_Suc_u32) (simp add: breaker_inv_def breaker_bound_def)
  then have "cb_consecutiveFailures c \<le> cb_consecutiveFailures c + 1"
    by (simp add: word_le_nat_alt)
  with Failure inv \<open>unat (cb_consecutiveFailures c + 1) = _\<close> show ?thesis
    by (auto simp: breaker_inv_def recordFailure_def Let_def intro: order_trans)
qed (use inv in \<open>auto simp: breaker_inv_def allowRequest_def recordSuccess_def configure_def intro: le_SucI\<close>)

interpretation brk: bounded_system "\<lambda>c. \<exists>e th h. c = CircuitBreaker_init e th h" breaker_step
  breaker_inv breaker_bound
proof
  show "breaker_inv 0 c" if "\<exists>e th h. c = CircuitBreaker_init e th h" for c
    using that by (auto simp: breaker_inv_def CircuitBreaker_init_def)
qed (rule breaker_inv_step)

section \<open>Properties\<close>

lemma failures_count:
  assumes "cb_enabled c" "unat (cb_consecutiveFailures c) + length ts < 2 ^ 32"
  shows "cb_enabled (fold recordFailure ts c) \<and>
    cb_failureThreshold (fold recordFailure ts c) = cb_failureThreshold c \<and>
    cb_halfOpenAfterMs (fold recordFailure ts c) = cb_halfOpenAfterMs c \<and>
    unat (cb_consecutiveFailures (fold recordFailure ts c)) = unat (cb_consecutiveFailures c) + length ts"
  using assms
proof (induction ts arbitrary: c)
  case (Cons t ts)
  have "unat (cb_consecutiveFailures c + 1) = Suc (unat (cb_consecutiveFailures c))"
    using Cons.prems(2) by (intro unat_Suc_u32) simp
  then have f: "unat (cb_consecutiveFailures (recordFailure t c)) = Suc (unat (cb_consecutiveFailures c))"
      "cb_enabled (recordFailure t c)" "cb_failureThreshold (recordFailure t c) = cb_failureThreshold c"
      "cb_halfOpenAfterMs (recordFailure t c) = cb_halfOpenAfterMs c"
    using Cons.prems(1) by (simp_all add: recordFailure_def Let_def)
  with Cons.IH [of "recordFailure t c"] Cons.prems(2) show ?case by simp
qed simp

text \<open>
  On an enabled breaker, consecutive failures that bring the count to the
  threshold open it, dated at the last failure; requests are then refused until the half-open delay
  has passed, and the first request after it is let through and makes the breaker half-open.
\<close>

theorem breaker_trips:
  assumes "cb_enabled c" "unat (cb_consecutiveFailures c) + length ts < 2 ^ 32" "ts \<noteq> []"
    and "unat (cb_failureThreshold c) \<le> unat (cb_consecutiveFailures c) + length ts"
    and "tripped = fold recordFailure ts c"
  shows "isOpen tripped \<and> cb_openedAtMs tripped = last ts \<and>
    allowRequest now tripped =
      (if now < last ts + cb_halfOpenAfterMs c then (False, tripped)
       else (True, tripped\<lparr>cb_state := HalfOpen\<rparr>))"
proof -
  obtain us t where ts: "ts = us @ [t]" using assms(3) by (cases ts rule: rev_cases) auto
  let ?d = "fold recordFailure us c"
  have "unat (cb_consecutiveFailures c) + length us < 2 ^ 32" using assms(2) ts by simp
  note d = failures_count [OF assms(1) this]
  note e = failures_count [OF assms(1,2)]
  have tr: "tripped = recordFailure t ?d" using assms(5) ts by simp
  have "cb_failureThreshold ?d \<le> cb_consecutiveFailures (fold recordFailure ts c)"
    using d e assms(4) by (simp add: word_le_nat_alt)
  moreover have "cb_consecutiveFailures (fold recordFailure ts c) = cb_consecutiveFailures ?d + 1"
    using ts d by (simp add: recordFailure_def Let_def)
  ultimately have "cb_failureThreshold ?d \<le> cb_consecutiveFailures ?d + 1" by simp
  with d tr have "cb_state tripped = Open" "cb_openedAtMs tripped = t" "cb_enabled tripped"
      "cb_halfOpenAfterMs tripped = cb_halfOpenAfterMs c"
    by (simp_all add: recordFailure_def Let_def)
  with ts show ?thesis by (auto simp: isOpen_def allowRequest_def)
qed

theorem breaker_trips_witness:
  "isOpen (fold recordFailure [10, 20] (CircuitBreaker_init True 2 5000)) \<and>
   fst (allowRequest 5019 (fold recordFailure [10, 20] (CircuitBreaker_init True 2 5000))) = False \<and>
   fst (allowRequest 5020 (fold recordFailure [10, 20] (CircuitBreaker_init True 2 5000))) = True"
  using breaker_trips [of "CircuitBreaker_init True 2 5000" "[10, 20]" _ 5019]
    breaker_trips [of "CircuitBreaker_init True 2 5000" "[10, 20]" _ 5020]
  by (simp add: CircuitBreaker_init_def)

text \<open>
  After any history of fewer than \<open>2 ^ 32 - 1\<close> operations, a failure
  recorded while the breaker is half-open opens it again at once, dated at that failure, and a
  success closes it.
\<close>

theorem breaker_reopens:
  assumes "length ops < breaker_bound"
    and "c = run breaker_step (CircuitBreaker_init e th h) ops" "cb_state c = HalfOpen"
  shows "isOpen (recordFailure t c) \<and> cb_openedAtMs (recordFailure t c) = t \<and>
    cb_state (recordSuccess c) = Closed \<and> fst (allowRequest t' (recordSuccess c))"
proof -
  have inv: "breaker_inv (length ops) c"
    using brk.inv_bounded [of "CircuitBreaker_init e th h" ops] assms(1,2) by auto
  then have "unat (cb_consecutiveFailures c + 1) = Suc (unat (cb_consecutiveFailures c))"
    using assms(1) by (intro unat_Suc_u32) (simp add: breaker_inv_def breaker_bound_def)
  then have "cb_consecutiveFailures c \<le> cb_consecutiveFailures c + 1" by (simp add: word_le_nat_alt)
  with inv assms(3) have "cb_failureThreshold c \<le> cb_consecutiveFailures c + 1" "cb_enabled c"
    by (auto simp: breaker_inv_def intro: order_trans)
  then show ?thesis
    by (simp add: isOpen_def recordFailure_def recordSuccess_def allowRequest_def Let_def)
qed

theorem breaker_reopens_witness:
  "cb_state (run breaker_step (CircuitBreaker_init True 1 100) [Failure 5, Allow 105]) = HalfOpen \<and>
   isOpen (recordFailure 110 (run breaker_step (CircuitBreaker_init True 1 100) [Failure 5, Allow 105]))"
proof -
  have h: "cb_state (run breaker_step (CircuitBreaker_init True 1 100) [Failure 5, Allow 105]) = HalfOpen"
    by (simp add: CircuitBreaker_init_def recordFailure_def allowRequest_def Let_def)
  show ?thesis
    using h breaker_reopens [OF _ refl h, of 110] by (simp add: breaker_bound_def)
qed

end
