(* ===== verification/RateLimiter.thy ===== *)
theory RateLimiter
  imports Complex_Main Util
begin

text \<open>
  \<open>src/infra/rateLimiter.cpp\<close>: the token bucket. The \<open>double\<close>s are rational numbers: the rounding of
  IEEE arithmetic is not modelled (time stamps in milliseconds are exact in a \<open>double\<close>). The clock
  reading of an operation is its argument.
\<close>

record TokenBucketRateLimiter =
  rl_rate :: rat
  rl_burst :: rat
  rl_tokens :: rat
  rl_lastRefillMs :: rat

definition TokenBucketRateLimiter_init :: "ms \<Rightarrow> rat \<Rightarrow> rat \<Rightarrow> TokenBucketRateLimiter" where
  "TokenBucketRateLimiter_init now rate burst =
     \<lparr>rl_rate = rate, rl_burst = max 1 burst, rl_tokens = max 1 burst, rl_lastRefillMs = of_int now\<rparr>"

definition refill :: "ms \<Rightarrow> TokenBucketRateLimiter \<Rightarrow> TokenBucketRateLimiter" where
  "refill now l =
     (let nowMs = of_int now; deltaMs = nowMs - rl_lastRefillMs l in
      if deltaMs \<le> 0 \<or> rl_rate l \<le> 0 then l\<lparr>rl_lastRefillMs := nowMs\<rparr>
      else
        let refillTokens = deltaMs * (rl_rate l / 1000)
        in l\<lparr>rl_tokens := min (rl_burst l) (rl_tokens l + refillTokens), rl_lastRefillMs := nowMs\<rparr>)"

definition allow :: "ms \<Rightarrow> rat \<Rightarrow> TokenBucketRateLimiter \<Rightarrow> bool \<times> TokenBucketRateLimiter" where
  "allow now tokens l =
     (let l1 = refill now l in
      if rl_tokens l1 < tokens then (False, l1)
      else (True, l1\<lparr>rl_tokens := rl_tokens l1 - tokens\<rparr>))"

definition reset :: "ms \<Rightarrow> rat \<Rightarrow> rat \<Rightarrow> TokenBucketRateLimiter \<Rightarrow> TokenBucketRateLimiter" where
  "reset now rate burst l =
     l\<lparr>rl_rate := rate, rl_burst := max 1 burst, rl_tokens := max 1 burst, rl_lastRefillMs := of_int now\<rparr>"

section \<open>The bucket's invariant\<close>

definition bucket_inv :: "TokenBucketRateLimiter \<Rightarrow> bool" where
  "bucket_inv l \<longleftrightarrow> 0 \<le> rl_tokens l \<and> rl_tokens l \<le> rl_burst l \<and> 1 \<le> rl_burst l"

datatype limiter_op = AllowOp ms rat | ResetOp ms rat rat

text \<open>Requests for a negative number of tokens do not occur; the default is one.\<close>

fun limiter_step :: "TokenBucketRateLimiter \<Rightarrow> limiter_op \<Rightarrow> TokenBucketRateLimiter" where
  "limiter_step l (AllowOp t k) = snd (allow t (max 0 k) l)"
| "limiter_step l (ResetOp t r b) = reset t r b l"

lemma bucket_inv_init: "bucket_inv (TokenBucketRateLimiter_init now rate burst)"
  by (simp add: bucket_inv_def TokenBucketRateLimiter_init_def)

lemma bucket_inv_refill: "bucket_inv l \<Longrightarrow> bucket_inv (refill now l)"
  by (auto simp: bucket_inv_def refill_def Let_def min_def)

lemma bucket_inv_allow: "bucket_inv l \<Longrightarrow> 0 \<le> k \<Longrightarrow> bucket_inv (snd (allow now k l))"
  using bucket_inv_refill [of l now] by (auto simp: allow_def bucket_inv_def Let_def)

lemma bucket_inv_reset: "bucket_inv (reset now rate burst l)"
  by (simp add: bucket_inv_def reset_def)

interpretation bucket: invariant_system bucket_inv limiter_step bucket_inv
proof
  show "bucket_inv (limiter_step l a)" if "bucket_inv l" for l a
    using that by (cases a) (simp_all add: bucket_inv_allow bucket_inv_reset)
qed

section \<open>Properties\<close>

text \<open>The tokens granted to a sequence of requests (time, tokens), and the bucket after it.\<close>

fun grants :: "(ms \<times> rat) list \<Rightarrow> TokenBucketRateLimiter \<Rightarrow> rat \<times> TokenBucketRateLimiter" where
  "grants [] l = (0, l)"
| "grants ((t, k) # rs) l =
     (let (ok, l1) = allow t k l; (g, l2) = grants rs l1 in ((if ok then k else 0) + g, l2))"

lemma refill_credit:
  assumes "rl_lastRefillMs l \<le> of_int now"
  shows "rl_tokens (refill now l) \<le> rl_tokens l + max 0 (rl_rate l) * (of_int now - rl_lastRefillMs l) / 1000"
    and "rl_lastRefillMs (refill now l) = of_int now" "rl_rate (refill now l) = rl_rate l"
  using assms by (auto simp: refill_def Let_def max_def min_def mult.commute)

lemma grants_credit:
  assumes "sorted_wrt (\<le>) (map fst rs)" "\<forall>(t, k) \<in> set rs. rl_lastRefillMs l \<le> of_int t"
  shows "fst (grants rs l) + rl_tokens (snd (grants rs l)) \<le>
    rl_tokens l + max 0 (rl_rate l) * (rl_lastRefillMs (snd (grants rs l)) - rl_lastRefillMs l) / 1000 \<and>
    rl_lastRefillMs (snd (grants rs l)) = (if rs = [] then rl_lastRefillMs l else of_int (fst (last rs)))"
  using assms
proof (induction rs arbitrary: l)
  case (Cons r rs)
  obtain t k where r: "r = (t, k)" by (cases r)
  let ?l = "snd (allow t k l)"
  have t: "rl_lastRefillMs l \<le> of_int t" using Cons.prems(2) r by auto
  note c = refill_credit [OF t]
  have l: "rl_lastRefillMs ?l = of_int t" "rl_rate ?l = rl_rate l"
      "(if fst (allow t k l) then k else 0) + rl_tokens ?l = rl_tokens (refill t l)"
    using c by (auto simp: allow_def Let_def)
  have "\<forall>(t', k') \<in> set rs. rl_lastRefillMs ?l \<le> of_int t'"
    using Cons.prems(1) r l(1) by auto
  with Cons.IH [of ?l] Cons.prems(1)
  have ih: "fst (grants rs ?l) + rl_tokens (snd (grants rs ?l)) \<le> rl_tokens ?l +
      max 0 (rl_rate ?l) * (rl_lastRefillMs (snd (grants rs ?l)) - rl_lastRefillMs ?l) / 1000"
      "rl_lastRefillMs (snd (grants rs ?l)) = (if rs = [] then rl_lastRefillMs ?l else of_int (fst (last rs)))"
    by auto
  have g: "grants (r # rs) l = ((if fst (allow t k l) then k else 0) + fst (grants rs ?l), snd (grants rs ?l))"
    by (simp add: r split_beta Let_def)
  have e: "max 0 (rl_rate l) * (x - of_int t) / 1000 + max 0 (rl_rate l) * (of_int t - rl_lastRefillMs l) / 1000 =
      max 0 (rl_rate l) * (x - rl_lastRefillMs l) / 1000" for x
    by (simp add: field_simps)
  have "fst (grants (r # rs) l) + rl_tokens (snd (grants (r # rs) l)) \<le> rl_tokens l +
      max 0 (rl_rate l) * (rl_lastRefillMs (snd (grants (r # rs) l)) - rl_lastRefillMs l) / 1000"
    using ih(1) [unfolded l(1,2)] l(3) c(1) e [of "rl_lastRefillMs (snd (grants rs ?l))"]
    unfolding g fst_conv snd_conv by linarith
  moreover have "rl_lastRefillMs (snd (grants (r # rs) l)) = of_int (fst (last (r # rs)))"
    using ih(2) l(1) unfolding g by (simp add: r)
  ultimately show ?case by simp
qed simp

text \<open>
  Claim C17 (limiter_bound). Whatever the pattern of requests, as long as the clock does not go
  backwards the tokens a bucket grants between its last refill and the last request are at most the
  tokens it held plus the rate times the elapsed time: a fresh bucket never lets more through than
  its burst plus rate times time.
\<close>

theorem limiter_bound:
  assumes "bucket_inv l" "sorted_wrt (\<le>) (map fst rs)" "rs \<noteq> []"
    and "\<forall>(t, k) \<in> set rs. rl_lastRefillMs l \<le> of_int t \<and> 0 \<le> k"
  shows "fst (grants rs l) \<le>
    rl_burst l + max 0 (rl_rate l) * (of_int (fst (last rs)) - rl_lastRefillMs l) / 1000"
proof -
  have "\<forall>(t, k) \<in> set rs. 0 \<le> k" using assms(4) by auto
  then have inv: "bucket_inv (snd (grants rs l))"
    using assms(1)
  proof (induction rs arbitrary: l)
    case (Cons r rs)
    obtain t k where "r = (t, k)" by (cases r)
    with Cons show ?case
      using bucket_inv_allow [of l k t] by (simp add: split_beta Let_def)
  qed simp
  have "\<forall>(t, k) \<in> set rs. rl_lastRefillMs l \<le> of_int t" using assms(4) by auto
  from grants_credit [OF assms(2) this] inv assms(1,3) show ?thesis
    by (auto simp: bucket_inv_def)
qed

theorem limiter_bound_witness:
  "bucket_inv (TokenBucketRateLimiter_init 0 10 5) \<and>
   fst (grants (replicate 20 (0, 1) @ [(1000, 1)]) (TokenBucketRateLimiter_init 0 10 5)) \<le> 15"
proof -
  let ?l = "TokenBucketRateLimiter_init 0 10 5"
  have "fst (grants (replicate 20 (0, 1) @ [(1000, 1)]) ?l) \<le>
      rl_burst ?l + max 0 (rl_rate ?l) *
        (of_int (fst (last (replicate 20 (0, 1) @ [(1000 :: ms, 1 :: rat)]))) - rl_lastRefillMs ?l) / 1000"
    by (rule limiter_bound [OF bucket_inv_init]) (auto simp: TokenBucketRateLimiter_init_def sorted_wrt_append)
  then show ?thesis
    by (simp add: TokenBucketRateLimiter_init_def bucket_inv_def)
qed

text \<open>
  A bucket is never stuck: after any history, a request of at most the
  burst is granted once the idle time times the rate makes up for the tokens.
\<close>

theorem limiter_recovers:
  assumes "l = run limiter_step (TokenBucketRateLimiter_init t0 rate burst) ops" "0 < rl_rate l"
    and "k \<le> rl_burst l" "0 < k" "rl_lastRefillMs l + 1000 * k / rl_rate l \<le> of_int now"
  shows "fst (allow now k l)"
proof -
  have inv: "bucket_inv l" unfolding assms(1) by (rule bucket.inv_reached [OF bucket_inv_init])
  have "1000 * k \<le> (of_int now - rl_lastRefillMs l) * rl_rate l"
    using assms(2,5) by (simp add: field_simps)
  moreover have "0 < 1000 * k / rl_rate l" using assms(2,4) by simp
  then have "0 < of_int now - rl_lastRefillMs l" using assms(5) by linarith
  ultimately show ?thesis
    using inv assms(2,3) by (auto simp: allow_def refill_def Let_def bucket_inv_def min_def field_simps)
qed

theorem limiter_recovers_witness:
  "fst (allow 0 1 (run limiter_step (TokenBucketRateLimiter_init 0 2 1) [AllowOp 0 1])) = False \<and>
   fst (allow 500 1 (run limiter_step (TokenBucketRateLimiter_init 0 2 1) [AllowOp 0 1])) = True"
proof -
  let ?l = "run limiter_step (TokenBucketRateLimiter_init 0 2 1) [AllowOp 0 1]"
  have e: "?l = \<lparr>rl_rate = 2, rl_burst = 1, rl_tokens = 0, rl_lastRefillMs = 0\<rparr>"
    by (simp add: TokenBucketRateLimiter_init_def allow_def refill_def Let_def)
  show ?thesis
    using limiter_recovers [OF refl, of 0 2 1 "[AllowOp 0 1]" 1 500] unfolding e
    by (simp add: allow_def refill_def Let_def)
qed

end
