(* ===== verification/OverloadProtect.thy ===== *)
theory OverloadProtect
  imports RateLimiter Protocol
begin

text \<open>
  \<open>src/service/overloadProtectService.cpp\<close>: the connection cap, the global message rate per window of
  one second, and the per-address, per-command and per-user token buckets. The atomic \<open>size_t\<close>
  counters are 64-bit words, so that a decrement at zero wraps as it does in the code. The operations
  of the two rates are called from one event loop; each is one step.
\<close>

record OverloadProtectService =
  ov_maxConnections :: u64
  ov_maxQps :: u64
  ov_currentConnections :: u64
  ov_messageCount :: u64
  ov_lastResetTime :: ms
  ov_rateLimitEnabled :: bool
  ov_ipConnectRatePerSecond :: rat
  ov_userSendRatePerSecond :: rat
  ov_loginLimiter :: "TokenBucketRateLimiter option"
  ov_p2pLimiter :: "TokenBucketRateLimiter option"
  ov_broadcastLimiter :: "TokenBucketRateLimiter option"
  ov_ipLimiters :: "string \<rightharpoonup> TokenBucketRateLimiter"
  ov_userLimiters :: "string \<rightharpoonup> TokenBucketRateLimiter"

definition OverloadProtectService_init :: "ms \<Rightarrow> u64 \<Rightarrow> u64 \<Rightarrow> OverloadProtectService" where
  "OverloadProtectService_init now maxConnections maxQps =
     \<lparr>ov_maxConnections = maxConnections, ov_maxQps = maxQps, ov_currentConnections = 0,
      ov_messageCount = 0, ov_lastResetTime = now, ov_rateLimitEnabled = False,
      ov_ipConnectRatePerSecond = 0, ov_userSendRatePerSecond = 0, ov_loginLimiter = None,
      ov_p2pLimiter = None, ov_broadcastLimiter = None, ov_ipLimiters = Map.empty,
      ov_userLimiters = Map.empty\<rparr>"

definition canAcceptConnection :: "OverloadProtectService \<Rightarrow> bool" where
  "canAcceptConnection s = (ov_currentConnections s < ov_maxConnections s)"

text \<open>
  \<open>getOrCreateLimiter\<close> returns a shared pointer into the pool; the \<open>allow\<close> that follows updates the
  pool's element. The two clock readings are the creation's and the request's.
\<close>

definition getOrCreateLimiter ::
    "ms \<Rightarrow> string \<Rightarrow> rat \<Rightarrow> rat \<Rightarrow> (string \<rightharpoonup> TokenBucketRateLimiter) \<Rightarrow>
     TokenBucketRateLimiter \<times> (string \<rightharpoonup> TokenBucketRateLimiter)" where
  "getOrCreateLimiter now key rate burst pool =
     (case pool key of
        Some limiter \<Rightarrow> (limiter, pool)
      | None \<Rightarrow>
          let limiter = TokenBucketRateLimiter_init now rate burst
          in (limiter, pool(key \<mapsto> limiter)))"

definition pool_allow ::
    "ms \<Rightarrow> ms \<Rightarrow> string \<Rightarrow> rat \<Rightarrow> (string \<rightharpoonup> TokenBucketRateLimiter) \<Rightarrow>
     bool \<times> (string \<rightharpoonup> TokenBucketRateLimiter)" where
  "pool_allow t1 t2 key rate pool =
     (let (limiter, pool1) = getOrCreateLimiter t1 key rate rate pool;
          (ok, limiter1) = allow t2 1 limiter
      in (ok, pool1(key \<mapsto> limiter1)))"

definition canAcceptConnection_ip ::
    "ms \<Rightarrow> ms \<Rightarrow> string \<Rightarrow> OverloadProtectService \<Rightarrow> bool \<times> OverloadProtectService" where
  "canAcceptConnection_ip t1 t2 ip s =
     (if \<not> canAcceptConnection s then (False, s)
      else if \<not> ov_rateLimitEnabled s \<or> ov_ipConnectRatePerSecond s \<le> 0 \<or> ip = [] then (True, s)
      else
        let (ok, pool) = pool_allow t1 t2 ip (ov_ipConnectRatePerSecond s) (ov_ipLimiters s)
        in (ok, s\<lparr>ov_ipLimiters := pool\<rparr>))"

definition onConnectionAccepted :: "OverloadProtectService \<Rightarrow> OverloadProtectService" where
  "onConnectionAccepted s = s\<lparr>ov_currentConnections := ov_currentConnections s + 1\<rparr>"

definition onConnectionClosed :: "OverloadProtectService \<Rightarrow> OverloadProtectService" where
  "onConnectionClosed s = s\<lparr>ov_currentConnections := ov_currentConnections s - 1\<rparr>"

definition canProcessMessage :: "ms \<Rightarrow> OverloadProtectService \<Rightarrow> bool \<times> OverloadProtectService" where
  "canProcessMessage now s =
     (let s1 = (if now - ov_lastResetTime s \<ge> 1000
                then s\<lparr>ov_messageCount := 0, ov_lastResetTime := now\<rparr> else s)
      in (ov_messageCount s1 < ov_maxQps s1, s1))"

definition canProcessCommand ::
    "ms \<Rightarrow> ms \<Rightarrow> u16 \<Rightarrow> OverloadProtectService \<Rightarrow> bool \<times> OverloadProtectService" where
  "canProcessCommand t1 t2 command s =
     (let (ok, s1) = canProcessMessage t1 s in
      if \<not> ok then (False, s1)
      else if \<not> ov_rateLimitEnabled s1 then (True, s1)
      else if command = CmdLoginReq \<and> ov_loginLimiter s1 \<noteq> None
      then let (r, l) = allow t2 1 (the (ov_loginLimiter s1)) in (r, s1\<lparr>ov_loginLimiter := Some l\<rparr>)
      else if command = CmdP2pMsgReq \<and> ov_p2pLimiter s1 \<noteq> None
      then let (r, l) = allow t2 1 (the (ov_p2pLimiter s1)) in (r, s1\<lparr>ov_p2pLimiter := Some l\<rparr>)
      else if command = CmdBroadcastMsgReq \<and> ov_broadcastLimiter s1 \<noteq> None
      then let (r, l) = allow t2 1 (the (ov_broadcastLimiter s1)) in (r, s1\<lparr>ov_broadcastLimiter := Some l\<rparr>)
      else (True, s1))"

definition canSendMessage ::
    "ms \<Rightarrow> ms \<Rightarrow> string \<Rightarrow> OverloadProtectService \<Rightarrow> bool \<times> OverloadProtectService" where
  "canSendMessage t1 t2 userId s =
     (if \<not> ov_rateLimitEnabled s \<or> ov_userSendRatePerSecond s \<le> 0 \<or> userId = [] then (True, s)
      else
        let (ok, pool) = pool_allow t1 t2 userId (ov_userSendRatePerSecond s) (ov_userLimiters s)
        in (ok, s\<lparr>ov_userLimiters := pool\<rparr>))"

definition onMessageProcessed :: "OverloadProtectService \<Rightarrow> OverloadProtectService" where
  "onMessageProcessed s = s\<lparr>ov_messageCount := ov_messageCount s + 1\<rparr>"

definition getCurrentQps :: "OverloadProtectService \<Rightarrow> u64" where
  "getCurrentQps s = ov_messageCount s"

definition setRateLimitEnabled :: "bool \<Rightarrow> OverloadProtectService \<Rightarrow> OverloadProtectService" where
  "setRateLimitEnabled enabled s = s\<lparr>ov_rateLimitEnabled := enabled\<rparr>"

definition configureIpConnectRate :: "rat \<Rightarrow> OverloadProtectService \<Rightarrow> OverloadProtectService" where
  "configureIpConnectRate perSecond s =
     s\<lparr>ov_ipConnectRatePerSecond := perSecond, ov_ipLimiters := Map.empty\<rparr>"

definition configureCommandRates ::
    "ms \<Rightarrow> rat \<Rightarrow> rat \<Rightarrow> rat \<Rightarrow> OverloadProtectService \<Rightarrow> OverloadProtectService" where
  "configureCommandRates now loginQps p2pQps broadcastQps s =
     (let mk = (\<lambda>q. if q > 0 then Some (TokenBucketRateLimiter_init now q q) else None)
      in s\<lparr>ov_loginLimiter := mk loginQps, ov_p2pLimiter := mk p2pQps, ov_broadcastLimiter := mk broadcastQps\<rparr>)"

definition configureUserSendRate :: "rat \<Rightarrow> OverloadProtectService \<Rightarrow> OverloadProtectService" where
  "configureUserSendRate perSecond s =
     s\<lparr>ov_userSendRatePerSecond := perSecond, ov_userLimiters := Map.empty\<rparr>"

section \<open>The message rate\<close>

text \<open>
  The use the header describes: a message that arrives at time \<open>t\<close> and may be processed is counted by
  \<open>onMessageProcessed\<close>.
\<close>

definition admit :: "OverloadProtectService \<Rightarrow> ms \<Rightarrow> OverloadProtectService" where
  "admit s t = (let (ok, s1) = canProcessMessage t s in if ok then onMessageProcessed s1 else s1)"

fun admitted :: "ms list \<Rightarrow> OverloadProtectService \<Rightarrow> nat" where
  "admitted [] s = 0"
| "admitted (t # ts) s = (if fst (canProcessMessage t s) then 1 else 0) + admitted ts (admit s t)"

definition qps_inv :: "OverloadProtectService \<Rightarrow> bool" where
  "qps_inv s \<longleftrightarrow> ov_messageCount s \<le> ov_maxQps s"

lemma unat_Suc_below: "x < y \<Longrightarrow> unat (x + 1 :: u64) = Suc (unat x)"
proof (rule unat_Suc_u64)
  assume "x < y"
  then have "unat x < unat y" by (simp add: word_less_nat_alt)
  moreover have "unat y < 2 ^ 64" using unsigned_less [of y, where ?'a = nat] by simp
  ultimately show "Suc (unat x) < 2 ^ 64" by linarith
qed

lemma qps_inv_admit: "qps_inv s \<Longrightarrow> qps_inv (admit s t)"
  using unat_Suc_below [of "ov_messageCount s" "ov_maxQps s"]
  by (auto simp: qps_inv_def admit_def canProcessMessage_def onMessageProcessed_def Let_def
      word_le_nat_alt word_less_nat_alt)

interpretation qps: invariant_system qps_inv admit qps_inv
  by unfold_locales (simp_all add: qps_inv_admit)

lemma admitted_bound:
  assumes "qps_inv s" "sorted_wrt (\<le>) ts" "\<forall>t \<in> set ts. t \<le> fin" "ov_lastResetTime s \<le> fin"
  shows "admitted ts s + unat (ov_messageCount s) \<le>
    unat (ov_maxQps s) * (1 + nat ((fin - ov_lastResetTime s) div 1000))"
  using assms
proof (induction ts arbitrary: s)
  case Nil
  then show ?case by (simp add: qps_inv_def word_le_nat_alt)
next
  case (Cons t ts)
  let ?q = "unat (ov_maxQps s)" and ?L = "ov_lastResetTime s" and ?s = "admit s t"
  have t: "t \<le> fin" using Cons.prems(3) by simp
  have max: "ov_maxQps ?s = ov_maxQps s"
    by (simp add: admit_def canProcessMessage_def onMessageProcessed_def Let_def)
  have ih: "admitted ts ?s + unat (ov_messageCount ?s) \<le> ?q * (1 + nat ((fin - ov_lastResetTime ?s) div 1000))"
    if "ov_lastResetTime ?s \<le> fin"
    using Cons.IH [OF qps_inv_admit [OF Cons.prems(1), of t]] Cons.prems(2,3) that max by simp
  show ?case
  proof (cases "1000 \<le> t - ?L")
    case True
    then have L: "ov_lastResetTime ?s = t"
      by (simp add: admit_def canProcessMessage_def onMessageProcessed_def Let_def)
    have c: "(if fst (canProcessMessage t s) then 1 else 0) \<le> unat (ov_messageCount ?s)"
      using True by (simp add: admit_def canProcessMessage_def onMessageProcessed_def Let_def)
    have "1 + (fin - t) div 1000 \<le> (fin - ?L) div 1000"
      using True zdiv_mono1 [of "fin - t + 1000" "fin - ?L" 1000] by simp
    then have "Suc (nat ((fin - t) div 1000)) \<le> nat ((fin - ?L) div 1000)"
      using t by (simp add: Suc_nat_eq_nat_zadd1 nat_mono)
    then have "?q * (2 + nat ((fin - t) div 1000)) \<le> ?q * (1 + nat ((fin - ?L) div 1000))"
      by (intro mult_le_mono2) simp
    moreover have "unat (ov_messageCount s) \<le> ?q"
      using Cons.prems(1) by (simp add: qps_inv_def word_le_nat_alt)
    ultimately show ?thesis using ih L t c by (simp add: algebra_simps)
  next
    case False
    then have L: "ov_lastResetTime ?s = ?L"
      by (simp add: admit_def canProcessMessage_def onMessageProcessed_def Let_def)
    have "(if fst (canProcessMessage t s) then 1 else 0) + unat (ov_messageCount s) = unat (ov_messageCount ?s)"
      using False unat_Suc_below [of "ov_messageCount s" "ov_maxQps s"]
      by (simp add: admit_def canProcessMessage_def onMessageProcessed_def Let_def)
    with ih L Cons.prems(4) show ?thesis by simp
  qed
qed

text \<open>
  When every admitted message is counted, then from the start of a window to any
  later time, with a clock that does not go backwards, the number of messages admitted is at most the limit times one plus the whole seconds
  elapsed: windows do not overlap, and at most one window's worth is carried over a boundary.
\<close>

theorem qps_bound:
  assumes "sorted_wrt (\<le>) ts" "\<forall>t \<in> set ts. t \<le> fin" "t0 \<le> fin"
  shows "admitted ts (OverloadProtectService_init t0 maxConn maxQps) \<le>
    unat maxQps * (1 + nat ((fin - t0) div 1000))"
proof -
  have "qps_inv (OverloadProtectService_init t0 maxConn maxQps)"
    by (simp add: qps_inv_def OverloadProtectService_init_def)
  from admitted_bound [OF this assms(1,2)] assms(3) show ?thesis
    by (simp add: OverloadProtectService_init_def)
qed

theorem qps_bound_witness:
  "admitted [0, 1, 2, 3, 999, 1000] (OverloadProtectService_init 0 10 2) \<le> 4"
  using qps_bound [of "[0, 1, 2, 3, 999, 1000]" 1000 0 10 2] by simp

section \<open>The connection count\<close>

text \<open>
  The life of a connection as the counter should see it: a new connection is asked about and, when
  it may come in, counted; only a counted connection is counted out.
\<close>

datatype conn_op = Arrive | Leave

fun conn_step :: "OverloadProtectService \<times> nat \<Rightarrow> conn_op \<Rightarrow> OverloadProtectService \<times> nat" where
  "conn_step (s, n) Arrive = (if canAcceptConnection s then (onConnectionAccepted s, Suc n) else (s, n))"
| "conn_step (s, n) Leave = (if 0 < n then (onConnectionClosed s, n - 1) else (s, n))"

text \<open>The counter is the number of connections that are in, and never above the cap.\<close>

fun conn_inv :: "OverloadProtectService \<times> nat \<Rightarrow> bool" where
  "conn_inv (s, n) \<longleftrightarrow> unat (ov_currentConnections s) = n \<and> ov_currentConnections s \<le> ov_maxConnections s"

lemma conn_inv_step: "conn_inv p \<Longrightarrow> conn_inv (conn_step p a)"
proof (cases p)
  case (Pair s n)
  assume inv: "conn_inv p"
  show ?thesis
  proof (cases a)
    case Arrive
    with Pair inv unat_Suc_below [of "ov_currentConnections s" "ov_maxConnections s"] show ?thesis
      by (auto simp: canAcceptConnection_def onConnectionAccepted_def word_le_nat_alt word_less_nat_alt)
  next
    case Leave
    have "unat (ov_currentConnections s - 1) = unat (ov_currentConnections s) - 1" if "0 < n"
      using that Pair inv by (intro unat_minus_one) auto
    with Leave Pair inv show ?thesis
      by (auto simp: onConnectionClosed_def word_le_nat_alt)
  qed
qed

interpretation conns: invariant_system "\<lambda>p. \<exists>t mc mq. p = (OverloadProtectService_init t mc mq, 0)" conn_step conn_inv
  by unfold_locales (auto simp: OverloadProtectService_init_def conn_inv_step)

text \<open>
  Claim C18 (connection_cap). As long as only counted connections are counted out, after any sequence
  of arrivals and departures the counter equals the number of connections inside and does not exceed
  the cap.
\<close>

theorem connection_cap:
  assumes "run conn_step (OverloadProtectService_init t0 maxConn maxQps, 0) ops = (s, n)"
  shows "unat (ov_currentConnections s) = n \<and> n \<le> unat (ov_maxConnections s)"
proof -
  have "conn_inv (run conn_step (OverloadProtectService_init t0 maxConn maxQps, 0) ops)"
    by (rule conns.inv_reached) blast
  with assms show ?thesis by (auto simp: word_le_nat_alt)
qed

theorem connection_cap_witness:
  "unat (ov_currentConnections (fst (run conn_step (OverloadProtectService_init 0 1 5, 0) [Arrive, Arrive, Leave, Arrive]))) =
     snd (run conn_step (OverloadProtectService_init 0 1 5, 0) [Arrive, Arrive, Leave, Arrive]) \<and>
   snd (run conn_step (OverloadProtectService_init 0 1 5, 0) [Arrive, Arrive, Leave, Arrive]) \<le>
     unat (ov_maxConnections (fst (run conn_step (OverloadProtectService_init 0 1 5, 0) [Arrive, Arrive, Leave, Arrive])))"
  by (rule connection_cap [OF surjective_pairing])

text \<open>
  A departure that was never counted in, at count zero, wraps the counter
  to its maximum, and then no connection is accepted whatever the cap.
\<close>

theorem close_underflow:
  assumes "ov_currentConnections s = 0"
  shows "unat (ov_currentConnections (onConnectionClosed s)) = 2 ^ 64 - 1 \<and>
    \<not> canAcceptConnection ((onConnectionClosed s)\<lparr>ov_maxConnections := m\<rparr>)"
proof -
  have "ov_currentConnections (onConnectionClosed s) = - 1" using assms by (simp add: onConnectionClosed_def)
  then show ?thesis
    by (simp add: canAcceptConnection_def word_order.extremum_strict unsigned_minus_1_eq_mask mask_eq_exp_minus_1)
qed

theorem close_underflow_witness:
  "ov_currentConnections (OverloadProtectService_init 0 10 5) = 0 \<and>
   \<not> canAcceptConnection ((onConnectionClosed (OverloadProtectService_init 0 10 5))\<lparr>ov_maxConnections := 10\<rparr>)"
  using close_underflow [of "OverloadProtectService_init 0 10 5" 10]
  by (simp add: OverloadProtectService_init_def)

end
