(* ===== verification/MetricsRegistry.thy ===== *)
theory MetricsRegistry
  imports Complex_Main Util "HOL-Library.AList"
begin

text \<open>
  \<open>src/infra/metricsRegistry.cpp\<close>: counters, gauges and histograms, and their text in the Prometheus
  exposition format. \<open>double\<close>s are rational numbers; the text \<open>operator<<\<close> gives a \<open>double\<close> is the
  argument \<open>num\<close> of the renderer. The hash maps are association lists in their iteration order.
\<close>

section \<open>The registry\<close>

record CounterMetric =
  cm_value :: rat
  cm_help :: string

record GaugeMetric =
  gm_value :: rat
  gm_help :: string

record HistogramMetric =
  hm_bounds :: "rat list"
  hm_bucketCounts :: "u64 list"
  hm_sum :: rat
  hm_count :: u64
  hm_help :: string

record MetricsRegistry =
  mr_enabled :: bool
  mr_counters :: "(string \<times> CounterMetric) list"
  mr_gauges :: "(string \<times> GaugeMetric) list"
  mr_histograms :: "(string \<times> HistogramMetric) list"

definition MetricsRegistry_init :: MetricsRegistry where
  "MetricsRegistry_init = \<lparr>mr_enabled = False, mr_counters = [], mr_gauges = [], mr_histograms = []\<rparr>"

definition DefaultHistogramBounds :: "rat list" where
  "DefaultHistogramBounds = [1, 5, 10, 50, 100, 250, 500, 1000, 5000]"

definition valid_name_char :: "char \<Rightarrow> bool" where
  "valid_name_char ch =
     (let c = (of_char ch :: nat)
      in 97 \<le> c \<and> c \<le> 122 \<or> 65 \<le> c \<and> c \<le> 90 \<or> 48 \<le> c \<and> c \<le> 57 \<or> c = 95 \<or> c = 58)"

definition sanitizeName :: "string \<Rightarrow> string" where
  "sanitizeName name =
     (let sanitized = map (\<lambda>ch. if valid_name_char ch then ch else CHR ''_'') name
      in if sanitized = [] then ''unnamed_metric'' else sanitized)"

definition newline :: char where "newline = CHR 0x0A"

definition sanitizeHelp :: "string \<Rightarrow> string" where
  "sanitizeHelp help =
     (if help = [] then ''no_help'' else map (\<lambda>ch. if ch = newline then CHR '' '' else ch) help)"

definition setEnabled :: "bool \<Rightarrow> MetricsRegistry \<Rightarrow> MetricsRegistry" where
  "setEnabled enabled r = r\<lparr>mr_enabled := enabled\<rparr>"

definition incCounter :: "string \<Rightarrow> rat \<Rightarrow> string \<Rightarrow> MetricsRegistry \<Rightarrow> MetricsRegistry" where
  "incCounter name delta help r =
     (if \<not> mr_enabled r then r
      else
        let key = sanitizeName name;
            metric = opt_default \<lparr>cm_value = 0, cm_help = []\<rparr> (map_of (mr_counters r) key);
            metric1 = metric\<lparr>cm_value := cm_value metric + delta\<rparr>;
            metric2 = (if help \<noteq> [] then metric1\<lparr>cm_help := help\<rparr> else metric1)
        in r\<lparr>mr_counters := AList.update key metric2 (mr_counters r)\<rparr>)"

text \<open>The index of the first bound that is not below the value, or one past the last.\<close>

fun bucketIndex :: "rat \<Rightarrow> rat list \<Rightarrow> nat" where
  "bucketIndex v [] = 0"
| "bucketIndex v (b # bs) = (if v \<le> b then 0 else Suc (bucketIndex v bs))"

definition observe_metric :: "rat \<Rightarrow> string \<Rightarrow> HistogramMetric \<Rightarrow> HistogramMetric" where
  "observe_metric v help metric =
     (let m1 = (if hm_bounds metric = []
                then metric\<lparr>hm_bounds := DefaultHistogramBounds,
                       hm_bucketCounts := replicate (length DefaultHistogramBounds + 1) 0\<rparr>
                else metric);
          m2 = (if help \<noteq> [] then m1\<lparr>hm_help := help\<rparr> else m1);
          m3 = m2\<lparr>hm_sum := hm_sum m2 + v, hm_count := hm_count m2 + 1\<rparr>;
          i = bucketIndex v (hm_bounds m3)
      in m3\<lparr>hm_bucketCounts := (hm_bucketCounts m3)[i := hm_bucketCounts m3 ! i + 1]\<rparr>)"

definition observe :: "string \<Rightarrow> rat \<Rightarrow> string \<Rightarrow> MetricsRegistry \<Rightarrow> MetricsRegistry" where
  "observe name v help r =
     (if \<not> mr_enabled r then r
      else
        let key = sanitizeName name;
            metric = opt_default \<lparr>hm_bounds = [], hm_bucketCounts = [], hm_sum = 0, hm_count = 0, hm_help = []\<rparr>
                       (map_of (mr_histograms r) key)
        in r\<lparr>mr_histograms := AList.update key (observe_metric v help metric) (mr_histograms r)\<rparr>)"

definition setGauge :: "string \<Rightarrow> rat \<Rightarrow> string \<Rightarrow> MetricsRegistry \<Rightarrow> MetricsRegistry" where
  "setGauge name v help r =
     (if \<not> mr_enabled r then r
      else
        let key = sanitizeName name;
            metric = opt_default \<lparr>gm_value = 0, gm_help = []\<rparr> (map_of (mr_gauges r) key);
            metric1 = metric\<lparr>gm_value := v\<rparr>;
            metric2 = (if help \<noteq> [] then metric1\<lparr>gm_help := help\<rparr> else metric1)
        in r\<lparr>mr_gauges := AList.update key metric2 (mr_gauges r)\<rparr>)"

section \<open>Rendering\<close>

definition help_lines :: "string \<Rightarrow> string \<Rightarrow> string \<Rightarrow> string" where
  "help_lines name help kind =
     ''# HELP '' @ name @ '' '' @ sanitizeHelp help @ [newline] @
     ''# TYPE '' @ name @ '' '' @ kind @ [newline]"

definition render_simple :: "(rat \<Rightarrow> string) \<Rightarrow> string \<Rightarrow> string \<Rightarrow> rat \<Rightarrow> string \<Rightarrow> string" where
  "render_simple num name help v kind = help_lines name help kind @ name @ '' '' @ num v @ [newline]"

text \<open>The loop over the buckets with its running total.\<close>

fun render_buckets :: "(rat \<Rightarrow> string) \<Rightarrow> string \<Rightarrow> (rat \<times> u64) list \<Rightarrow> u64 \<Rightarrow> string \<times> u64" where
  "render_buckets num name [] cumulative = ([], cumulative)"
| "render_buckets num name ((b, n) # rest) cumulative =
     (let cumulative1 = cumulative + n; (out, total) = render_buckets num name rest cumulative1
      in (name @ ''_bucket{le='' @ [CHR 0x22] @ num b @ [CHR 0x22] @ ''} '' @ dec (unat cumulative1) @ [newline] @ out,
          total))"

definition render_histogram :: "(rat \<Rightarrow> string) \<Rightarrow> string \<Rightarrow> HistogramMetric \<Rightarrow> string" where
  "render_histogram num name metric =
     (let (out, cumulative) = render_buckets num name
            (zip (hm_bounds metric) (hm_bucketCounts metric)) 0;
          total = cumulative + last (hm_bucketCounts metric)
      in help_lines name (hm_help metric) ''histogram'' @ out @
         name @ ''_bucket{le='' @ [CHR 0x22] @ ''+Inf'' @ [CHR 0x22] @ ''} '' @ dec (unat total) @ [newline] @
         name @ ''_sum '' @ num (hm_sum metric) @ [newline] @
         name @ ''_count '' @ dec (unat (hm_count metric)) @ [newline])"

definition renderPrometheus :: "(rat \<Rightarrow> string) \<Rightarrow> MetricsRegistry \<Rightarrow> string" where
  "renderPrometheus num r =
     concat (map (\<lambda>(name, m). render_simple num name (cm_help m) (cm_value m) ''counter'') (mr_counters r)) @
     concat (map (\<lambda>(name, m). render_simple num name (gm_help m) (gm_value m) ''gauge'') (mr_gauges r)) @
     concat (map (\<lambda>(name, m). render_histogram num name m) (mr_histograms r))"

section \<open>Histories\<close>

datatype metric_op =
    SetEnabled bool
  | Inc string rat string
  | Obs string rat string
  | Gauge string rat string

fun metric_step :: "MetricsRegistry \<Rightarrow> metric_op \<Rightarrow> MetricsRegistry" where
  "metric_step r (SetEnabled b) = setEnabled b r"
| "metric_step r (Inc n d h) = incCounter n d h r"
| "metric_step r (Obs n v h) = observe n v h r"
| "metric_step r (Gauge n v h) = setGauge n v h r"

text \<open>The values a history observes under a sanitised name while the registry is enabled.\<close>

fun observed :: "bool \<Rightarrow> metric_op list \<Rightarrow> string \<Rightarrow> rat list" where
  "observed on [] k = []"
| "observed on (SetEnabled b # ops) k = observed b ops k"
| "observed on (Obs n v h # ops) k =
     (if on \<and> sanitizeName n = k then v # observed on ops k else observed on ops k)"
| "observed on (_ # ops) k = observed on ops k"

text \<open>What a histogram says about the values it has seen.\<close>

definition counts :: "rat list \<Rightarrow> rat list \<Rightarrow> u64 list" where
  "counts bs vs = map (\<lambda>i. of_nat (length (filter (\<lambda>v. bucketIndex v bs = i) vs))) [0..<Suc (length bs)]"

definition hist_ok :: "HistogramMetric \<Rightarrow> rat list \<Rightarrow> bool" where
  "hist_ok h vs \<longleftrightarrow>
     hm_bounds h = DefaultHistogramBounds \<and> hm_bucketCounts h = counts DefaultHistogramBounds vs \<and>
     hm_sum h = sum_list vs \<and> hm_count h = of_nat (length vs)"

lemma bucketIndex_le: "bucketIndex v bs \<le> length bs"
  by (induction bs) auto

lemma bucketIndex_sorted: "sorted_wrt (<) bs \<Longrightarrow> i < length bs \<Longrightarrow> bucketIndex v bs \<le> i \<longleftrightarrow> v \<le> bs ! i"
proof (induction bs arbitrary: i)
  case (Cons b bs)
  show ?case
  proof (cases i)
    case (Suc j)
    with Cons.prems have "b < bs ! j" by simp
    then have "v \<le> b \<Longrightarrow> v \<le> bs ! j" by linarith
    with Cons.IH [of j] Cons.prems Suc show ?thesis by auto
  qed simp
qed simp

lemma counts_nth: "i < Suc (length bs) \<Longrightarrow>
    counts bs vs ! i = of_nat (length (filter (\<lambda>v. bucketIndex v bs = i) vs))"
  by (simp add: counts_def del: upt_Suc)

lemma length_counts [simp]: "length (counts bs vs) = Suc (length bs)"
  by (simp add: counts_def)

lemma counts_snoc:
  "(counts bs vs)[bucketIndex v bs := counts bs vs ! bucketIndex v bs + 1] = counts bs (vs @ [v])"
  using bucketIndex_le [of v bs]
  by (intro nth_equalityI) (auto simp: counts_nth nth_list_update less_Suc_eq_le)

lemma counts_nil: "replicate (Suc (length bs)) 0 = counts bs []"
  by (intro nth_equalityI) (auto simp: counts_nth simp del: replicate_Suc)

lemma bounds_ne: "DefaultHistogramBounds \<noteq> []"
  by (simp add: DefaultHistogramBounds_def)

lemma hist_ok_observe: "hist_ok h vs \<Longrightarrow> hist_ok (observe_metric v help h) (vs @ [v])"
  by (simp add: hist_ok_def observe_metric_def Let_def bounds_ne counts_snoc)

lemma hist_ok_first:
  "hist_ok (observe_metric v help \<lparr>hm_bounds = [], hm_bucketCounts = [], hm_sum = 0, hm_count = 0, hm_help = []\<rparr>) [v]"
  using counts_snoc [of DefaultHistogramBounds "[]" v]
  by (simp add: hist_ok_def observe_metric_def Let_def counts_nil [symmetric] del: replicate_Suc)

text \<open>A histogram exists exactly for the names that were observed.\<close>

definition registry_ok :: "MetricsRegistry \<Rightarrow> (string \<Rightarrow> rat list) \<Rightarrow> bool" where
  "registry_ok r seen \<longleftrightarrow>
     (\<forall>k. case map_of (mr_histograms r) k of
            None \<Rightarrow> seen k = [] | Some h \<Rightarrow> seen k \<noteq> [] \<and> hist_ok h (seen k))"

lemma metric_frames [simp]:
  "mr_histograms (incCounter n d h r) = mr_histograms r" "mr_enabled (incCounter n d h r) = mr_enabled r"
  "mr_histograms (setGauge n d h r) = mr_histograms r" "mr_enabled (setGauge n d h r) = mr_enabled r"
  "mr_histograms (setEnabled b r) = mr_histograms r" "mr_enabled (setEnabled b r) = b"
  by (simp_all add: incCounter_def setGauge_def setEnabled_def Let_def)

lemma registry_ok_run:
  assumes "registry_ok r seen"
  shows "registry_ok (run metric_step r ops) (\<lambda>k. seen k @ observed (mr_enabled r) ops k)"
  using assms
proof (induction ops arbitrary: r seen)
  case (Cons a ops)
  show ?case
  proof (cases a)
    case (Obs n v h)
    show ?thesis
    proof (cases "mr_enabled r")
      case True
      let ?seen = "seen(sanitizeName n := seen (sanitizeName n) @ [v])"
      have seen: "registry_ok (observe n v h r) ?seen"
        unfolding registry_ok_def
      proof
        fix k
        have "case map_of (mr_histograms r) k of None \<Rightarrow> seen k = [] | Some h \<Rightarrow> seen k \<noteq> [] \<and> hist_ok h (seen k)"
          using Cons.prems unfolding registry_ok_def by blast
        with True hist_ok_first [of v h]
        show "case map_of (mr_histograms (observe n v h r)) k of
            None \<Rightarrow> ?seen k = [] | Some h \<Rightarrow> ?seen k \<noteq> [] \<and> hist_ok h (?seen k)"
          by (auto simp: observe_def Let_def update_conv' hist_ok_observe split: option.splits)
      qed
      have "mr_enabled (observe n v h r)" using True by (simp add: observe_def Let_def)
      with Cons.IH [OF seen] have "registry_ok (run metric_step (observe n v h r) ops)
          (\<lambda>k. ?seen k @ observed True ops k)"
        by simp
      moreover have "(\<lambda>k. ?seen k @ observed True ops k) = (\<lambda>k. seen k @ observed True (a # ops) k)"
        by (auto simp: Obs fun_eq_iff)
      ultimately show ?thesis using True Obs by simp
    next
      case False
      with Cons.IH [OF Cons.prems] Obs show ?thesis by (simp add: observe_def)
    qed
  next
    case (SetEnabled b)
    with Cons.IH [of "setEnabled b r" seen] Cons.prems show ?thesis
      by (simp add: registry_ok_def)
  next
    case (Inc n d h)
    with Cons.IH [of "incCounter n d h r" seen] Cons.prems show ?thesis
      by (simp add: registry_ok_def)
  next
    case (Gauge n d h)
    with Cons.IH [of "setGauge n d h r" seen] Cons.prems show ?thesis
      by (simp add: registry_ok_def)
  qed
qed simp

section \<open>Properties\<close>

lemma filter_less_Suc:
  "length (filter (\<lambda>v. f v < Suc i) vs) = length (filter (\<lambda>v. f v < i) vs) + length (filter (\<lambda>v. f v = i) vs)"
  by (induction vs) auto

lemma sum_counts:
  "i \<le> Suc (length bs) \<Longrightarrow>
   sum_list (take i (counts bs vs)) = of_nat (length (filter (\<lambda>v. bucketIndex v bs < i) vs))"
proof (induction i)
  case (Suc i)
  then show ?case by (simp add: take_Suc_conv_app_nth counts_nth filter_less_Suc)
qed simp

text \<open>
  After any history a histogram the registry holds is one of a name
  observed while it was enabled; its count is the number of those values, its sum their sum, the
  running total of the buckets up to a bound, which the renderer prints, is the number of values not
  above that bound (all counts modulo the 64-bit width), and the buckets together give the count.
\<close>

theorem histogram_counts:
  assumes "map_of (mr_histograms (run metric_step MetricsRegistry_init ops)) k = Some h"
    and "vs = observed False ops k"
  shows "vs \<noteq> [] \<and> hm_count h = of_nat (length vs) \<and> hm_sum h = sum_list vs \<and>
    (\<forall>i < length (hm_bounds h). sum_list (take (Suc i) (hm_bucketCounts h)) =
       of_nat (length (filter (\<lambda>v. v \<le> hm_bounds h ! i) vs))) \<and>
    sum_list (hm_bucketCounts h) = hm_count h"
proof -
  have "registry_ok MetricsRegistry_init (\<lambda>_. [])"
    by (simp add: registry_ok_def MetricsRegistry_init_def)
  from registry_ok_run [OF this, of ops] assms have ok: "vs \<noteq> []" "hist_ok h vs"
    by (auto simp: registry_ok_def MetricsRegistry_init_def split: option.splits)
  let ?bs = DefaultHistogramBounds
  have sorted: "sorted_wrt (<) ?bs" by (simp add: DefaultHistogramBounds_def)
  have c: "hm_bounds h = ?bs" "hm_bucketCounts h = counts ?bs vs" using ok by (simp_all add: hist_ok_def)
  have "sum_list (take (Suc i) (counts ?bs vs)) = of_nat (length (filter (\<lambda>v. v \<le> ?bs ! i) vs))"
    if "i < length ?bs" for i
    using that bucketIndex_sorted [OF sorted that] by (simp add: sum_counts less_Suc_eq_le del: upt_Suc)
  moreover have "sum_list (counts ?bs vs) = of_nat (length vs)"
    using sum_counts [of "Suc (length ?bs)" ?bs vs] bucketIndex_le [of _ ?bs] by (simp add: less_Suc_eq_le)
  ultimately show ?thesis using ok c by (simp add: hist_ok_def)
qed

theorem histogram_counts_witness:
  "\<exists>h. map_of (mr_histograms (run metric_step MetricsRegistry_init
        [Obs ''x'' 9 [], SetEnabled True, Obs ''x y'' 7 [], Obs ''x_y'' 300 []])) ''x_y'' = Some h \<and>
     hm_count h = 2 \<and> hm_sum h = 307 \<and> sum_list (hm_bucketCounts h) = hm_count h"
proof -
  let ?r = "run metric_step MetricsRegistry_init [Obs ''x'' 9 [], SetEnabled True, Obs ''x y'' 7 [], Obs ''x_y'' 300 []]"
  have n: "sanitizeName ''x y'' = ''x_y''" "sanitizeName ''x_y'' = ''x_y''" "sanitizeName ''x'' = ''x''"
    by (simp_all add: sanitizeName_def valid_name_char_def)
  obtain h where h: "map_of (mr_histograms ?r) ''x_y'' = Some h"
    by (simp add: MetricsRegistry_init_def observe_def setEnabled_def n Let_def)
  from h histogram_counts [OF h refl] show ?thesis by (simp add: n)
qed

end
