(* ===== verification/HeartbeatService.thy ===== *)
theory HeartbeatService
  imports Util "HOL-Library.AList"
begin

text \<open>
  \<open>src/service/heartbeatService.cpp\<close>: the health of every connection and the periodic check that
  kicks the unhealthy ones. The clock readings of an operation are its arguments. \<open>hb_useRedis\<close> is
  false when Redis is compiled out or not connected; the Redis commands an operation issues are its
  effects, submitted to the thread pool when there is one and run at once otherwise.
\<close>

section \<open>State\<close>

datatype ConnectionHealthState = New | AuthPending | Active | Idle | BackPressured | Closing

record ConnectionHealth =
  ch_state :: ConnectionHealthState
  ch_createdAtMs :: ms
  ch_lastHeartbeatAtMs :: ms
  ch_lastBlockedAtMs :: ms
  ch_authenticated :: bool

definition ConnectionHealth_default :: ConnectionHealth where
  "ConnectionHealth_default =
     \<lparr>ch_state = New, ch_createdAtMs = 0, ch_lastHeartbeatAtMs = 0, ch_lastBlockedAtMs = 0,
      ch_authenticated = False\<rparr>"

record HeartbeatService =
  hb_timeoutSeconds :: int
  hb_checkIntervalSeconds :: int
  hb_lastHeartbeatTime :: "string \<rightharpoonup> ms"
  hb_connections :: "(string \<times> conn_ref) list"
  hb_connToUser :: "(string \<times> string) list"
  hb_connectionHealth :: "string \<rightharpoonup> ConnectionHealth"
  hb_hasThreadPool :: bool
  hb_useRedis :: bool
  hb_nodeId :: string
  hb_nodeAliveTtlSeconds :: int
  hb_authTimeoutSeconds :: int
  hb_idleTimeoutSeconds :: int
  hb_slowConsumerKickSeconds :: int
  hb_running :: bool
  hb_hasKickCallback :: bool

definition HeartbeatService_init :: "int \<Rightarrow> int \<Rightarrow> HeartbeatService" where
  "HeartbeatService_init timeoutSeconds checkIntervalSeconds =
     \<lparr>hb_timeoutSeconds = timeoutSeconds, hb_checkIntervalSeconds = checkIntervalSeconds,
      hb_lastHeartbeatTime = Map.empty, hb_connections = [], hb_connToUser = [],
      hb_connectionHealth = Map.empty, hb_hasThreadPool = False, hb_useRedis = False,
      hb_nodeId = ''single-node'', hb_nodeAliveTtlSeconds = 15, hb_authTimeoutSeconds = 10,
      hb_idleTimeoutSeconds = 300, hb_slowConsumerKickSeconds = 30, hb_running = False,
      hb_hasKickCallback = False\<rparr>"

datatype redis_command = Setex string string int | Del string

datatype hb_effect =
    Redis redis_command
  | Submit "redis_command list"
  | Counter string
  | Kick conn_ref string

section \<open>Online status in Redis\<close>

definition online_key :: "string \<Rightarrow> string" where
  "online_key userId = ''user:online:'' @ userId"

definition online_command :: "int \<Rightarrow> string \<Rightarrow> bool \<Rightarrow> redis_command" where
  "online_command timeout userId online =
     (if online then Setex (online_key userId) ''1'' timeout else Del (online_key userId))"

definition updateOnlineStatus :: "string \<Rightarrow> bool \<Rightarrow> HeartbeatService \<Rightarrow> hb_effect list" where
  "updateOnlineStatus userId online s =
     (if hb_useRedis s then [Redis (online_command (hb_timeoutSeconds s) userId online)] else [])"

definition refreshOnlineStatus :: "string \<Rightarrow> HeartbeatService \<Rightarrow> hb_effect list" where
  "refreshOnlineStatus userId s =
     (if hb_useRedis s then [Redis (Setex (online_key userId) ''1'' (hb_timeoutSeconds s))] else [])"

definition updateOnlineStatusAsync :: "string \<Rightarrow> bool \<Rightarrow> HeartbeatService \<Rightarrow> hb_effect list" where
  "updateOnlineStatusAsync userId online s =
     (if \<not> hb_useRedis s then []
      else if hb_hasThreadPool s
      then [Submit [online_command (hb_timeoutSeconds s) userId online]]
      else updateOnlineStatus userId online s)"

definition refreshOnlineStatusAsync :: "string \<Rightarrow> HeartbeatService \<Rightarrow> hb_effect list" where
  "refreshOnlineStatusAsync userId s =
     (if \<not> hb_useRedis s then []
      else if hb_hasThreadPool s
      then [Submit [Setex (online_key userId) ''1'' (hb_timeoutSeconds s)]]
      else refreshOnlineStatus userId s)"

definition reportNodeAlive :: "HeartbeatService \<Rightarrow> hb_effect list" where
  "reportNodeAlive s =
     (if \<not> hb_useRedis s then []
      else
        let report = [Setex (''node:alive:'' @ hb_nodeId s) ''1'' (hb_nodeAliveTtlSeconds s),
                      Setex (''node:connections:'' @ hb_nodeId s) (dec (length (hb_connections s)))
                        (hb_nodeAliveTtlSeconds s)]
        in if hb_hasThreadPool s then [Submit report] else map Redis report)"

text \<open>\<open>isUserOnline\<close> asks Redis when it is in use; \<open>exists\<close> is Redis' answer for a key.\<close>

definition isUserOnline :: "(string \<Rightarrow> bool) \<Rightarrow> string \<Rightarrow> HeartbeatService \<Rightarrow> bool" where
  "isUserOnline redis_exists userId s =
     (if hb_useRedis s then redis_exists (online_key userId)
      else list_ex (\<lambda>(_, u). u = userId) (hb_connToUser s))"

section \<open>Operations\<close>

definition setNodeId :: "string \<Rightarrow> HeartbeatService \<Rightarrow> HeartbeatService" where
  "setNodeId nodeId s = s\<lparr>hb_nodeId := nodeId\<rparr>"

definition setNodeAliveTtlSeconds :: "int \<Rightarrow> HeartbeatService \<Rightarrow> HeartbeatService" where
  "setNodeAliveTtlSeconds ttl s = s\<lparr>hb_nodeAliveTtlSeconds := ttl\<rparr>"

definition setConnectionGovernance :: "int \<Rightarrow> int \<Rightarrow> int \<Rightarrow> HeartbeatService \<Rightarrow> HeartbeatService" where
  "setConnectionGovernance auth idle slow s =
     s\<lparr>hb_authTimeoutSeconds := auth, hb_idleTimeoutSeconds := idle, hb_slowConsumerKickSeconds := slow\<rparr>"

text \<open>A Redis client as the service sees it: absent, or present and connected or not.\<close>

definition setRedisClient :: "bool option \<Rightarrow> HeartbeatService \<Rightarrow> HeartbeatService" where
  "setRedisClient client s = s\<lparr>hb_useRedis := (client = Some True)\<rparr>"

definition setThreadPool :: "bool \<Rightarrow> HeartbeatService \<Rightarrow> HeartbeatService" where
  "setThreadPool pool s = s\<lparr>hb_hasThreadPool := pool\<rparr>"

definition setKickCallback :: "HeartbeatService \<Rightarrow> HeartbeatService" where
  "setKickCallback s = s\<lparr>hb_hasKickCallback := True\<rparr>"

definition start :: "HeartbeatService \<Rightarrow> bool \<times> HeartbeatService" where
  "start s = (\<not> hb_running s, s\<lparr>hb_running := True\<rparr>)"

definition stop :: "HeartbeatService \<Rightarrow> HeartbeatService" where
  "stop s = s\<lparr>hb_running := False\<rparr>"

text \<open>Changing the health of a connection that is known, as through an iterator.\<close>

definition modify_health ::
    "string \<Rightarrow> (ConnectionHealth \<Rightarrow> ConnectionHealth) \<Rightarrow> HeartbeatService \<Rightarrow> HeartbeatService" where
  "modify_health c f s =
     (case hb_connectionHealth s c of
        None \<Rightarrow> s
      | Some h \<Rightarrow> s\<lparr>hb_connectionHealth := (hb_connectionHealth s)(c \<mapsto> f h)\<rparr>)"

definition onHeartbeat :: "ms \<Rightarrow> ms \<Rightarrow> conn_ref \<Rightarrow> HeartbeatService \<Rightarrow> HeartbeatService \<times> hb_effect list" where
  "onHeartbeat t1 t2 conn s =
     (let c = connId conn;
          s1 = s\<lparr>hb_lastHeartbeatTime := (hb_lastHeartbeatTime s)(c \<mapsto> t1)\<rparr>;
          s2 = modify_health c
                 (\<lambda>h. let h1 = h\<lparr>ch_lastHeartbeatAtMs := t2\<rparr>
                      in if ch_authenticated h1 \<and> ch_state h1 \<noteq> BackPressured
                         then h1\<lparr>ch_state := Active\<rparr> else h1) s1;
          userId = opt_default [] (map_of (hb_connToUser s2) c)
      in (s2, if userId \<noteq> [] then refreshOnlineStatusAsync userId s2 else []))"

definition onConnection_up :: "ms \<Rightarrow> ms \<Rightarrow> conn_ref \<Rightarrow> HeartbeatService \<Rightarrow> HeartbeatService" where
  "onConnection_up t1 t2 conn s =
     (let c = connId conn
      in s\<lparr>hb_connections := AList.update c conn (hb_connections s),
           hb_lastHeartbeatTime := (hb_lastHeartbeatTime s)(c \<mapsto> t1),
           hb_connectionHealth := (hb_connectionHealth s)
             (c \<mapsto> ConnectionHealth_default\<lparr>ch_state := AuthPending, ch_createdAtMs := t2,
                     ch_lastHeartbeatAtMs := t2\<rparr>)\<rparr>)"

text \<open>Dropping every entry of a connection id.\<close>

definition forget :: "string \<Rightarrow> HeartbeatService \<Rightarrow> HeartbeatService" where
  "forget c s =
     s\<lparr>hb_connections := AList.delete c (hb_connections s),
       hb_lastHeartbeatTime := (hb_lastHeartbeatTime s)(c := None),
       hb_connToUser := AList.delete c (hb_connToUser s),
       hb_connectionHealth := (hb_connectionHealth s)(c := None)\<rparr>"

definition onConnection_down :: "conn_ref \<Rightarrow> HeartbeatService \<Rightarrow> HeartbeatService \<times> hb_effect list" where
  "onConnection_down conn s =
     (let c = connId conn
      in (forget c s,
          case map_of (hb_connToUser s) c of None \<Rightarrow> [] | Some u \<Rightarrow> updateOnlineStatusAsync u False s))"

definition onConnection ::
    "ms \<Rightarrow> ms \<Rightarrow> conn_ref \<Rightarrow> bool \<Rightarrow> HeartbeatService \<Rightarrow> HeartbeatService \<times> hb_effect list" where
  "onConnection t1 t2 conn connected s =
     (if connected then (onConnection_up t1 t2 conn s, []) else onConnection_down conn s)"

definition registerUserId :: "string \<Rightarrow> string \<Rightarrow> HeartbeatService \<Rightarrow> HeartbeatService \<times> hb_effect list" where
  "registerUserId c userId s =
     (let s1 = s\<lparr>hb_connToUser := AList.update c userId (hb_connToUser s)\<rparr>
      in (s1, updateOnlineStatusAsync userId True s1))"

definition onAuthenticated ::
    "ms \<Rightarrow> ms \<Rightarrow> conn_ref \<Rightarrow> string \<Rightarrow> HeartbeatService \<Rightarrow> HeartbeatService \<times> hb_effect list" where
  "onAuthenticated t1 t2 conn userId s =
     (let c = connId conn;
          h = opt_default ConnectionHealth_default (hb_connectionHealth s c);
          h1 = (if ch_createdAtMs h = 0 then h\<lparr>ch_createdAtMs := t1\<rparr> else h);
          h2 = h1\<lparr>ch_lastHeartbeatAtMs := t2, ch_authenticated := True, ch_state := Active\<rparr>;
          s1 = s\<lparr>hb_connToUser := AList.update c userId (hb_connToUser s),
                 hb_connectionHealth := (hb_connectionHealth s)(c \<mapsto> h2)\<rparr>
      in (s1, updateOnlineStatusAsync userId True s1 @ reportNodeAlive s1))"

definition onWriteBlocked :: "ms \<Rightarrow> conn_ref \<Rightarrow> HeartbeatService \<Rightarrow> HeartbeatService" where
  "onWriteBlocked t conn s =
     modify_health (connId conn) (\<lambda>h. h\<lparr>ch_state := BackPressured, ch_lastBlockedAtMs := t\<rparr>) s"

definition onBackPressureRecovered :: "conn_ref \<Rightarrow> HeartbeatService \<Rightarrow> HeartbeatService" where
  "onBackPressureRecovered conn s =
     modify_health (connId conn)
       (\<lambda>h. h\<lparr>ch_state := (if ch_authenticated h then Active else AuthPending), ch_lastBlockedAtMs := 0\<rparr>) s"

definition unregisterUserId :: "string \<Rightarrow> HeartbeatService \<Rightarrow> HeartbeatService \<times> hb_effect list" where
  "unregisterUserId c s =
     (case map_of (hb_connToUser s) c of
        None \<Rightarrow> (s, [])
      | Some u \<Rightarrow>
          (modify_health c (\<lambda>h. h\<lparr>ch_authenticated := False, ch_state := Closing\<rparr>)
             (s\<lparr>hb_connToUser := AList.delete c (hb_connToUser s)\<rparr>),
           updateOnlineStatusAsync u False s))"

section \<open>The periodic check\<close>

definition kick_reason :: "ms \<Rightarrow> HeartbeatService \<Rightarrow> ConnectionHealth \<Rightarrow> string" where
  "kick_reason now s h =
     (let heartbeatTimeoutMs = hb_timeoutSeconds s * 1000;
          authTimeoutMs = hb_authTimeoutSeconds s * 1000;
          idleTimeoutMs = hb_idleTimeoutSeconds s * 1000;
          slowConsumerKickMs = hb_slowConsumerKickSeconds s * 1000
      in if \<not> ch_authenticated h \<and> now - ch_createdAtMs h > authTimeoutMs then ''auth timeout''
         else if ch_state h = BackPressured \<and> ch_lastBlockedAtMs h > 0 \<and>
                 now - ch_lastBlockedAtMs h > slowConsumerKickMs then ''slow consumer''
         else if now - ch_lastHeartbeatAtMs h > heartbeatTimeoutMs then ''heartbeat timeout''
         else if ch_authenticated h \<and> idleTimeoutMs > heartbeatTimeoutMs \<and>
                 now - ch_lastHeartbeatAtMs h > idleTimeoutMs then ''idle timeout''
         else [])"

text \<open>The list \<open>toKick\<close>: connection id, connection, user id, reason.\<close>

definition to_kick :: "ms \<Rightarrow> HeartbeatService \<Rightarrow> (string \<times> conn_ref \<times> string \<times> string) list" where
  "to_kick now s =
     List.map_filter
       (\<lambda>(c, conn).
          case hb_connectionHealth s c of
            None \<Rightarrow> None
          | Some h \<Rightarrow>
              if kick_reason now s h \<noteq> []
              then Some (c, conn, opt_default [] (map_of (hb_connToUser s) c), kick_reason now s h)
              else None)
       (hb_connections s)"

definition kick_effects :: "HeartbeatService \<Rightarrow> string \<times> conn_ref \<times> string \<times> string \<Rightarrow> hb_effect list" where
  "kick_effects s item =
     (case item of (c, conn, userId, reason) \<Rightarrow>
        (if reason = ''heartbeat timeout'' then [Counter ''im_heartbeat_timeout_total''] else []) @
        (if userId \<noteq> [] then updateOnlineStatusAsync userId False s else []) @
        (if hb_hasKickCallback s then [Kick conn reason] else []))"

definition checkHeartbeat :: "ms \<Rightarrow> HeartbeatService \<Rightarrow> HeartbeatService \<times> hb_effect list" where
  "checkHeartbeat now s =
     (let toKick = to_kick now s; s1 = fold (\<lambda>item. forget (fst item)) toKick s
      in (s1, concat (map (kick_effects s1) toKick)))"

text \<open>One turn of the thread \<open>start\<close> creates.\<close>

definition heartbeat_turn :: "ms \<Rightarrow> HeartbeatService \<Rightarrow> HeartbeatService \<times> hb_effect list" where
  "heartbeat_turn now s =
     (if \<not> hb_running s then (s, [])
      else let (s1, ev) = checkHeartbeat now s in (s1, reportNodeAlive s @ ev))"

section \<open>Histories and the invariant\<close>

datatype hb_op =
    Up ms ms conn_ref
  | Down conn_ref
  | Beat ms ms conn_ref
  | Register string string
  | Authenticated ms ms conn_ref string
  | Blocked ms conn_ref
  | Recovered conn_ref
  | Unregister string
  | Check ms

fun hb_step :: "HeartbeatService \<Rightarrow> hb_op \<Rightarrow> HeartbeatService" where
  "hb_step s (Up t1 t2 conn) = fst (onConnection t1 t2 conn True s)"
| "hb_step s (Down conn) = fst (onConnection 0 0 conn False s)"
| "hb_step s (Beat t1 t2 conn) = fst (onHeartbeat t1 t2 conn s)"
| "hb_step s (Register c u) = fst (registerUserId c u s)"
| "hb_step s (Authenticated t1 t2 conn u) = fst (onAuthenticated t1 t2 conn u s)"
| "hb_step s (Blocked t conn) = onWriteBlocked t conn s"
| "hb_step s (Recovered conn) = onBackPressureRecovered conn s"
| "hb_step s (Unregister c) = fst (unregisterUserId c s)"
| "hb_step s (Check now) = fst (checkHeartbeat now s)"

text \<open>
  The state of a connection agrees with its authentication, the states \<open>New\<close> and \<open>Idle\<close> do not occur,
  every tracked connection has a health record and is filed under its own id.
\<close>

definition health_ok :: "ConnectionHealth \<Rightarrow> bool" where
  "health_ok h \<longleftrightarrow>
     (ch_state h = Active \<longrightarrow> ch_authenticated h) \<and> (ch_state h = AuthPending \<longrightarrow> \<not> ch_authenticated h) \<and>
     ch_state h \<noteq> New \<and> ch_state h \<noteq> Idle"

definition hb_inv :: "HeartbeatService \<Rightarrow> bool" where
  "hb_inv s \<longleftrightarrow>
     distinct (map fst (hb_connections s)) \<and>
     (\<forall>(c, conn) \<in> set (hb_connections s). c = connId conn \<and> hb_connectionHealth s c \<noteq> None) \<and>
     (\<forall>c h. hb_connectionHealth s c = Some h \<longrightarrow> health_ok h)"

lemma hb_inv_health:
  assumes "hb_inv s" "health_ok h"
  shows "hb_inv (s\<lparr>hb_connToUser := us, hb_connectionHealth := (hb_connectionHealth s)(c \<mapsto> h)\<rparr>)"
  using assms by (auto simp: hb_inv_def)

lemma hb_inv_modify:
  assumes "hb_inv s" "\<And>h. health_ok h \<Longrightarrow> health_ok (f h)"
  shows "hb_inv (modify_health c f s)"
  using assms by (auto simp: hb_inv_def modify_health_def split: option.splits)

lemma hb_inv_frame:
  "hb_inv (s\<lparr>hb_lastHeartbeatTime := x\<rparr>) \<longleftrightarrow> hb_inv s" "hb_inv (s\<lparr>hb_connToUser := us\<rparr>) \<longleftrightarrow> hb_inv s"
  by (simp_all add: hb_inv_def)

lemma set_delete: "set (AList.delete c xs) = {p \<in> set xs. fst p \<noteq> c}"
  by (auto simp: AList.delete_eq)

lemma hb_inv_forget: "hb_inv s \<Longrightarrow> hb_inv (forget c s)"
  by (auto simp: hb_inv_def forget_def set_delete distinct_delete)

lemma hb_inv_forget_fold: "hb_inv s \<Longrightarrow> hb_inv (fold (\<lambda>item. forget (fst item)) items s)"
  by (induction items arbitrary: s) (auto intro: hb_inv_forget)

lemma set_update_subset: "set (AList.update k v xs) \<subseteq> insert (k, v) (set xs)"
  by (induction xs) auto

lemma hb_inv_up:
  assumes "hb_inv s"
  shows "hb_inv (onConnection_up t1 t2 conn s)"
proof -
  let ?s = "onConnection_up t1 t2 conn s"
  have sub: "set (hb_connections ?s) \<subseteq> insert (connId conn, conn) (set (hb_connections s))"
    using set_update_subset by (simp add: onConnection_up_def Let_def)
  have h: "hb_connectionHealth ?s = (hb_connectionHealth s)(connId conn \<mapsto>
      ConnectionHealth_default\<lparr>ch_state := AuthPending, ch_createdAtMs := t2, ch_lastHeartbeatAtMs := t2\<rparr>)"
    by (simp add: onConnection_up_def Let_def)
  have "distinct (map fst (hb_connections ?s))"
    using assms by (simp add: hb_inv_def onConnection_up_def Let_def distinct_update)
  moreover have "\<forall>(c, conn) \<in> set (hb_connections ?s). c = connId conn \<and> hb_connectionHealth ?s c \<noteq> None"
  proof -
    have "c = connId k \<and> hb_connectionHealth ?s c \<noteq> None" if "(c, k) \<in> set (hb_connections ?s)" for c k
    proof (cases "(c, k) = (connId conn, conn)")
      case True
      then show ?thesis by (simp add: h)
    next
      case False
      with that sub have "(c, k) \<in> set (hb_connections s)" by blast
      with assms have "c = connId k \<and> hb_connectionHealth s c \<noteq> None" unfolding hb_inv_def by blast
      then show ?thesis unfolding h by auto
    qed
    then show ?thesis by blast
  qed
  moreover have "\<forall>c h. hb_connectionHealth ?s c = Some h \<longrightarrow> health_ok h"
    using assms unfolding hb_inv_def h by (auto simp: health_ok_def ConnectionHealth_default_def)
  ultimately show ?thesis unfolding hb_inv_def by blast
qed

lemma health_ok_fields:
  "health_ok h \<Longrightarrow> health_ok (h\<lparr>ch_lastHeartbeatAtMs := t\<rparr>)"
  "health_ok h \<Longrightarrow> ch_authenticated h \<Longrightarrow> health_ok (h\<lparr>ch_lastHeartbeatAtMs := t, ch_state := Active\<rparr>)"
  unfolding health_ok_def by (cases h, auto)

lemma health_ok_beat:
  "health_ok h \<Longrightarrow> health_ok (if ch_authenticated (h\<lparr>ch_lastHeartbeatAtMs := t\<rparr>) \<and>
      ch_state (h\<lparr>ch_lastHeartbeatAtMs := t\<rparr>) \<noteq> BackPressured
    then h\<lparr>ch_lastHeartbeatAtMs := t, ch_state := Active\<rparr> else h\<lparr>ch_lastHeartbeatAtMs := t\<rparr>)"
  by (simp add: health_ok_fields)

lemma hb_inv_step:
  assumes inv: "hb_inv s"
  shows "hb_inv (hb_step s a)"
proof (cases a)
  case (Beat t1 t2 conn)
  show ?thesis
    unfolding Beat hb_step.simps onHeartbeat_def Let_def fst_conv
    by (rule hb_inv_modify [OF iffD2 [OF hb_inv_frame(1) inv]]) (rule health_ok_beat)
next
  case (Authenticated t1 t2 conn u)
  show ?thesis
    unfolding Authenticated hb_step.simps onAuthenticated_def Let_def fst_conv
    by (rule hb_inv_health [OF inv]) (simp add: health_ok_def)
next
  case (Unregister c)
  have "hb_inv (modify_health c (\<lambda>h. h\<lparr>ch_authenticated := False, ch_state := Closing\<rparr>)
      (s\<lparr>hb_connToUser := AList.delete c (hb_connToUser s)\<rparr>))"
    by (rule hb_inv_modify) (simp_all add: hb_inv_frame inv health_ok_def)
  with inv Unregister show ?thesis by (simp add: unregisterUserId_def split: option.splits)
next
  case (Blocked t conn)
  show ?thesis
    unfolding Blocked hb_step.simps onWriteBlocked_def
    by (rule hb_inv_modify [OF inv]) (simp add: health_ok_def)
next
  case (Recovered conn)
  show ?thesis
    unfolding Recovered hb_step.simps onBackPressureRecovered_def
    by (rule hb_inv_modify [OF inv]) (simp add: health_ok_def)
next
  case (Up t1 t2 conn)
  then show ?thesis using hb_inv_up [OF inv] by (simp add: onConnection_def)
next
  case (Down conn)
  then show ?thesis
    using hb_inv_forget [OF inv] by (simp add: onConnection_def onConnection_down_def Let_def)
next
  case (Register c u)
  then show ?thesis using inv by (simp add: registerUserId_def Let_def hb_inv_frame)
next
  case (Check now)
  then show ?thesis
    using hb_inv_forget_fold [OF inv] by (simp add: checkHeartbeat_def Let_def)
qed

interpretation hb: invariant_system "\<lambda>s. \<exists>t i. s = HeartbeatService_init t i" hb_step hb_inv
proof
  show "hb_inv s" if "\<exists>t i. s = HeartbeatService_init t i" for s
    using that by (auto simp: hb_inv_def HeartbeatService_init_def)
qed (rule hb_inv_step)

section \<open>What a check does\<close>

text \<open>The three conditions under which a connection must go.\<close>

definition unhealthy :: "ms \<Rightarrow> HeartbeatService \<Rightarrow> ConnectionHealth \<Rightarrow> bool" where
  "unhealthy now s h \<longleftrightarrow>
     \<not> ch_authenticated h \<and> hb_authTimeoutSeconds s * 1000 < now - ch_createdAtMs h \<or>
     ch_state h = BackPressured \<and> 0 < ch_lastBlockedAtMs h \<and>
       hb_slowConsumerKickSeconds s * 1000 < now - ch_lastBlockedAtMs h \<or>
     hb_timeoutSeconds s * 1000 < now - ch_lastHeartbeatAtMs h"

lemma kick_reason_unhealthy: "kick_reason now s h \<noteq> [] \<longleftrightarrow> unhealthy now s h"
  by (auto simp: kick_reason_def unhealthy_def Let_def)

lemma set_map_filter_eq: "set (List.map_filter f xs) = {y. \<exists>x \<in> set xs. f x = Some y}"
  by (induction xs) (auto split: option.splits)

lemma in_to_kick:
  "(c, conn, u, r) \<in> set (to_kick now s) \<longleftrightarrow>
     (c, conn) \<in> set (hb_connections s) \<and>
     (\<exists>h. hb_connectionHealth s c = Some h \<and> unhealthy now s h \<and> r = kick_reason now s h) \<and>
     u = opt_default [] (map_of (hb_connToUser s) c)"
  unfolding to_kick_def set_map_filter_eq kick_reason_unhealthy
  by (auto split: option.splits if_splits intro!: bexI [of _ "(c, conn)"])

lemma kicked_conns:
  "\<forall>(c, conn) \<in> set cs. \<exists>h. hb_connectionHealth s c = Some h \<Longrightarrow>
   map (fst \<circ> snd) (List.map_filter
     (\<lambda>(c, conn). case hb_connectionHealth s c of None \<Rightarrow> None
        | Some h \<Rightarrow> if kick_reason now s h \<noteq> []
            then Some (c, conn, opt_default [] (map_of (hb_connToUser s) c), kick_reason now s h) else None) cs) =
   map snd (filter (\<lambda>(c, _). unhealthy now s (the (hb_connectionHealth s c))) cs)"
proof (induction cs)
  case (Cons p cs)
  obtain c conn where p: "p = (c, conn)" by (cases p)
  from Cons.prems p obtain h where "hb_connectionHealth s c = Some h" by auto
  with Cons p show ?case by (simp add: kick_reason_unhealthy)
qed simp

lemma forget_fold:
  "hb_connections (fold (\<lambda>item. forget (fst item)) items s) = filter (\<lambda>p. fst p \<notin> fst ` set items) (hb_connections s)"
  "hb_connToUser (fold (\<lambda>item. forget (fst item)) items s) = filter (\<lambda>p. fst p \<notin> fst ` set items) (hb_connToUser s)"
  "hb_connectionHealth (fold (\<lambda>item. forget (fst item)) items s) =
     (\<lambda>c. if c \<in> fst ` set items then None else hb_connectionHealth s c)"
  "hb_lastHeartbeatTime (fold (\<lambda>item. forget (fst item)) items s) =
     (\<lambda>c. if c \<in> fst ` set items then None else hb_lastHeartbeatTime s c)"
  "hb_hasKickCallback (fold (\<lambda>item. forget (fst item)) items s) = hb_hasKickCallback s"
  by (induction items arbitrary: s)
    (auto simp: forget_def AList.delete_eq fun_eq_iff split_beta intro!: filter_cong)

section \<open>Properties\<close>

text \<open>One check, on a service whose tables agree: whom it kicks and what it leaves.\<close>

lemma checked_parts:
  assumes "checkHeartbeat now s = (s', ev)"
  shows "s' = fold (\<lambda>item. forget (fst item)) (to_kick now s) s" "ev = concat (map (kick_effects s') (to_kick now s))"
  using assms by (auto simp: checkHeartbeat_def Let_def)

lemma kicked_unhealthy:
  assumes "hb_inv s" "(c, conn) \<in> set (hb_connections s)"
  shows "c \<in> fst ` set (to_kick now s) \<longleftrightarrow> unhealthy now s (the (hb_connectionHealth s c))"
proof -
  obtain h where h: "hb_connectionHealth s c = Some h" using assms by (auto simp: hb_inv_def)
  with assms(2) have "unhealthy now s h \<Longrightarrow> (c, conn, opt_default [] (map_of (hb_connToUser s) c), kick_reason now s h) \<in> set (to_kick now s)"
    by (simp add: in_to_kick)
  moreover have "unhealthy now s h" if "(c, k, u, r) \<in> set (to_kick now s)" for k u r
    using that h by (auto simp: in_to_kick)
  ultimately show ?thesis using h by force
qed

lemma kicks_of_check:
  assumes "checkHeartbeat now s = (s', ev)" "hb_hasKickCallback s"
  shows "[conn. Kick conn _ \<leftarrow> ev] = map (fst \<circ> snd) (to_kick now s)"
proof -
  have callback: "hb_hasKickCallback s'" unfolding checked_parts(1) [OF assms(1)] forget_fold(5) by (rule assms(2))
  have one: "[conn. Kick conn _ \<leftarrow> kick_effects s' item] = [fst (snd item)]" for item
    using callback by (cases item) (auto simp: kick_effects_def updateOnlineStatusAsync_def updateOnlineStatus_def)
  have "[conn. Kick conn _ \<leftarrow> concat (map (kick_effects s') items)] = map (fst \<circ> snd) items" for items
    using one by (induction items) simp_all
  then show ?thesis unfolding checked_parts(2) [OF assms(1)] .
qed


definition bob_conn :: conn_ref where
  "bob_conn = \<lparr>conn_object = 1, conn_fd = 7\<rparr>"


text \<open>
  The check never kicks a connection for being idle: whenever the
  idle condition holds the heartbeat condition, which is tested before it, holds too, so
  \<open>m_idleTimeoutSeconds\<close> has no effect.
\<close>

theorem idle_timeout_unreachable:
  "kick_reason now s h \<noteq> ''idle timeout'' \<and>
   kick_reason now (s\<lparr>hb_idleTimeoutSeconds := idle\<rparr>) h = kick_reason now s h"
  by (auto simp: kick_reason_def Let_def)

section \<open>A connection that keeps beating is kept\<close>

text \<open>The connection an operation is about; a check is about none.\<close>

fun op_id :: "hb_op \<Rightarrow> string option" where
  "op_id (Up _ _ conn) = Some (connId conn)"
| "op_id (Down conn) = Some (connId conn)"
| "op_id (Beat _ _ conn) = Some (connId conn)"
| "op_id (Register c _) = Some c"
| "op_id (Authenticated _ _ conn _) = Some (connId conn)"
| "op_id (Blocked _ conn) = Some (connId conn)"
| "op_id (Recovered conn) = Some (connId conn)"
| "op_id (Unregister c) = Some c"
| "op_id (Check _) = None"

definition limits :: "HeartbeatService \<Rightarrow> int \<times> int \<times> int" where
  "limits s = (hb_timeoutSeconds s, hb_authTimeoutSeconds s, hb_slowConsumerKickSeconds s)"

definition view :: "string \<Rightarrow> HeartbeatService \<Rightarrow> conn_ref option \<times> ConnectionHealth option \<times> int \<times> int \<times> int" where
  "view c s = (map_of (hb_connections s) c, hb_connectionHealth s c, limits s)"

lemma unhealthy_limits: "limits s = limits s' \<Longrightarrow> unhealthy now s h = unhealthy now s' h"
  by (simp add: unhealthy_def limits_def)

lemma view_forget: "c \<noteq> d \<Longrightarrow> view c (forget d s) = view c s"
  by (simp add: view_def forget_def limits_def)

lemma view_modify: "c \<noteq> d \<Longrightarrow> view c (modify_health d f s) = view c s"
  by (auto simp: view_def modify_health_def limits_def split: option.splits)

lemma view_frame:
  "view c (s\<lparr>hb_lastHeartbeatTime := x\<rparr>) = view c s" "view c (s\<lparr>hb_connToUser := us\<rparr>) = view c s"
  by (simp_all add: view_def limits_def)

lemma view_forget_fold:
  "c \<notin> fst ` set items \<Longrightarrow> view c (fold (\<lambda>item. forget (fst item)) items s) = view c s"
  by (induction items arbitrary: s) (auto simp: view_forget)

lemma view_other:
  assumes "op_id a \<noteq> None" "op_id a \<noteq> Some c"
  shows "view c (hb_step s a) = view c s"
proof (cases a)
  case (Up t1 t2 conn)
  with assms show ?thesis by (auto simp: onConnection_def onConnection_up_def view_def limits_def Let_def update_conv')
next
  case (Authenticated t1 t2 conn u)
  with assms show ?thesis by (auto simp: onAuthenticated_def view_def limits_def Let_def)
qed (use assms in \<open>auto simp: onConnection_def onConnection_down_def onHeartbeat_def registerUserId_def
      onWriteBlocked_def onBackPressureRecovered_def unregisterUserId_def Let_def
      view_forget view_modify view_frame split: option.splits\<close>)

lemma view_check:
  assumes "hb_connectionHealth s c = Some h" "\<not> unhealthy now s h"
  shows "view c (hb_step s (Check now)) = view c s"
proof -
  have "c \<notin> fst ` set (to_kick now s)" using assms by (force simp: in_to_kick)
  then show ?thesis by (simp add: checkHeartbeat_def Let_def view_forget_fold)
qed



end
