(* ===== verification/ServerFull.thy ===== *)
theory ServerFull
  imports AuthService RoutingService MessageService CircuitBreaker OverloadProtect MetricsRegistry HeartbeatService
begin

text \<open>
  \<open>src/server_full.cpp\<close>: the server's composition. The packet callback, the connection callback and the
  business tasks they hand to the thread pool, over the components of the other theories. A packet is
  handled on the loop thread and either answered at once or turned into a task; a task is run later, by
  a worker. The generated Protocol Buffers code is an argument (\<open>pb_lib\<close>), as are the libraries and the
  message store. Replies are \<open>Sent\<close> events of the message service's log, which also holds the
  notifications. A handler is \<open>None\<close> where the code throws. Trace contexts only feed the log lines and
  are left out.
\<close>

section \<open>Payload formats\<close>

record pb_lib =
  pb_parse_LoginReq :: "string \<Rightarrow> LoginReq option"
  pb_parse_P2PMsgReq :: "string \<Rightarrow> P2PMsgReq option"
  pb_parse_MessageAckReq :: "string \<Rightarrow> MessageAckReq option"
  pb_parse_PullOfflineReq :: "string \<Rightarrow> PullOfflineReq option"
  pb_parse_BroadcastMsgReq :: "string \<Rightarrow> BroadcastMsgReq option"
  pb_parse_KickUserReq :: "string \<Rightarrow> KickUserReq option"
  pb_print_LoginResp :: "LoginResp \<Rightarrow> string option"
  pb_print_HeartbeatResp :: "HeartbeatResp \<Rightarrow> string option"
  pb_print_P2PMsgResp :: "P2PMsgResp \<Rightarrow> string option"
  pb_print_P2PMsgNotify :: "P2PMsgNotify \<Rightarrow> string option"
  pb_print_MessageAckResp :: "MessageAckResp \<Rightarrow> string option"
  pb_print_PullOfflineResp :: "PullOfflineResp \<Rightarrow> string option"
  pb_print_BroadcastMsgNotify :: "BroadcastMsgNotify \<Rightarrow> string option"
  pb_print_KickUserResp :: "KickUserResp \<Rightarrow> string option"

record ('h, 'w, 'j, 's) server_env =
  sn_auth :: "('h, 'w, 'j) auth_env"
  sn_outside :: "conn_ref env"
  sn_random :: "nat \<Rightarrow> u64"
  sn_store :: "'s IMessageStore"
  sn_pb :: pb_lib
  sn_payloadFormat :: PayloadFormat
  sn_compatibleJson :: bool
  sn_nodeId :: string
  sn_clusterEnabled :: bool
  sn_highWaterMark :: nat
  sn_lowWaterMark :: nat
  sn_maxOutputBufferBytes :: nat

abbreviation sn_json :: "('h, 'w, 'j, 's) server_env \<Rightarrow> ('j, string) json_lib" where
  "sn_json env \<equiv> ae_json (sn_auth env)"

definition decode_with ::
    "('h, 'w, 'j, 's) server_env \<Rightarrow> (string \<Rightarrow> 'm option) \<Rightarrow> (string \<Rightarrow> 'm option) \<Rightarrow> string \<Rightarrow> 'm option" where
  "decode_with env pb js payload =
     (if sn_payloadFormat env = Json then js payload
      else case pb payload of
        Some m \<Rightarrow> Some m
      | None \<Rightarrow> if sn_compatibleJson env then js payload else None)"

definition encode_with ::
    "('h, 'w, 'j, 's) server_env \<Rightarrow> ('m \<Rightarrow> string option) \<Rightarrow> ('m \<Rightarrow> string option) \<Rightarrow> 'm \<Rightarrow> string option" where
  "encode_with env pb js m =
     (if sn_payloadFormat env = Json then js m
      else case pb m of Some t \<Rightarrow> Some t | None \<Rightarrow> js m)"

definition decodeLoginReq where
  "decodeLoginReq env payload =
     decode_with env (pb_parse_LoginReq (sn_pb env))
       (\<lambda>t. Deserialize_LoginReq (sn_json env) t \<lparr>lreq_userId = [], lreq_token = [], lreq_deviceId = []\<rparr>) payload"

definition encodeLoginResp where
  "encodeLoginResp env = encode_with env (pb_print_LoginResp (sn_pb env)) (Serialize_LoginResp (sn_json env))"

definition encodeHeartbeatResp where
  "encodeHeartbeatResp env = encode_with env (pb_print_HeartbeatResp (sn_pb env)) (Serialize_HeartbeatResp (sn_json env))"

definition decodeP2PReq where
  "decodeP2PReq env = decode_with env (pb_parse_P2PMsgReq (sn_pb env)) (Deserialize_P2PMsgReq (sn_json env))"

definition encodeP2PResp where
  "encodeP2PResp env = encode_with env (pb_print_P2PMsgResp (sn_pb env)) (Serialize_P2PMsgResp (sn_json env))"

definition encodeP2PNotify where
  "encodeP2PNotify env = encode_with env (pb_print_P2PMsgNotify (sn_pb env)) (Serialize_P2PMsgNotify (sn_json env))"

definition decodeAckReq where
  "decodeAckReq env = decode_with env (pb_parse_MessageAckReq (sn_pb env)) (Deserialize_MessageAckReq (sn_json env))"

definition encodeAckResp where
  "encodeAckResp env = encode_with env (pb_print_MessageAckResp (sn_pb env)) (Serialize_MessageAckResp (sn_json env))"

definition decodePullReq where
  "decodePullReq env = decode_with env (pb_parse_PullOfflineReq (sn_pb env)) (Deserialize_PullOfflineReq (sn_json env))"

definition encodePullResp where
  "encodePullResp env = encode_with env (pb_print_PullOfflineResp (sn_pb env)) (Serialize_PullOfflineResp (sn_json env))"

definition decodeBroadcastReq where
  "decodeBroadcastReq env = decode_with env (pb_parse_BroadcastMsgReq (sn_pb env)) (Deserialize_BroadcastMsgReq (sn_json env))"

definition encodeBroadcastNotify where
  "encodeBroadcastNotify env =
     encode_with env (pb_print_BroadcastMsgNotify (sn_pb env)) (Serialize_BroadcastMsgNotify (sn_json env))"

definition decodeKickReq where
  "decodeKickReq env = decode_with env (pb_parse_KickUserReq (sn_pb env)) (Deserialize_KickUserReq (sn_json env))"

definition encodeKickResp where
  "encodeKickResp env = encode_with env (pb_print_KickUserResp (sn_pb env)) (Serialize_KickUserResp (sn_json env))"

text \<open>
  The message id an acknowledgement that fails to parse leaves in its request: the JSON reader assigns
  it before it reaches the field that fails.
\<close>

definition partial_msgId :: "('h, 'w, 'j, 's) server_env \<Rightarrow> string \<Rightarrow> u64" where
  "partial_msgId env payload =
     (if sn_payloadFormat env = Json \<or> sn_compatibleJson env
      then opt_default 0 (do { j \<leftarrow> jl_parse (sn_json env) payload; get_field (sn_json env) (jl_get_u64 (sn_json env)) j ''msg_id'' })
      else 0)"

section \<open>State\<close>

datatype business_task =
    LoginTask conn_ref u32 LoginReq
  | P2PTask conn_ref u32 P2PMsgReq string
  | AckTask conn_ref u32 MessageAckReq string
  | PullTask conn_ref u32 PullOfflineReq string
  | BroadcastTask string BroadcastMsgReq
  | LogoutTask conn_ref
  | PresenceTask "redis_command list"

record ('h, 'w, 's) server =
  sv_auth :: AuthService
  sv_backend :: "('h, 'w) backend"
  sv_routing :: RoutingService
  sv_overload :: OverloadProtectService
  sv_breaker :: CircuitBreaker
  sv_heartbeat :: HeartbeatService
  sv_message :: "conn_ref MessageService"
  sv_store :: 's
  sv_world :: "conn_ref world"
  sv_metrics :: MetricsRegistry
  sv_poolRunning :: bool
  sv_maxQueueSize :: nat
  sv_queue :: "business_task list"
  sv_forceClosed :: "conn_ref list"
  sv_limits :: "(conn_ref \<times> nat \<times> nat \<times> nat) list"

text \<open>Reading the clock, and sending a packet.\<close>

definition clock :: "('h, 'w, 'j, 's) server_env \<Rightarrow> ('h, 'w, 's) server \<Rightarrow> ms \<times> ('h, 'w, 's) server" where
  "clock env sv = (case GetTimestamp (sn_outside env) (sv_world sv) of (t, w) \<Rightarrow> (t, sv\<lparr>sv_world := w\<rparr>))"

definition reply_header :: "u16 \<Rightarrow> u32 \<Rightarrow> u16 \<Rightarrow> u64 \<Rightarrow> u64 \<Rightarrow> ErrorCode \<Rightarrow> PacketHeader" where
  "reply_header command requestId flags clientSeq serverSeq errorCode =
     PacketHeader_default\<lparr>h_command := command,
       h_flags := (if flags = 0 then GuessFlagsFromCommand command else flags), h_requestId := requestId,
       h_clientSeq := clientSeq, h_serverSeq := serverSeq, h_errorCode := error_value errorCode\<rparr>"

definition sendPacket ::
    "conn_ref \<Rightarrow> u16 \<Rightarrow> u32 \<Rightarrow> string \<Rightarrow> u16 \<Rightarrow> u64 \<Rightarrow> u64 \<Rightarrow> ErrorCode \<Rightarrow> ('h, 'w, 's) server \<Rightarrow> ('h, 'w, 's) server" where
  "sendPacket conn command requestId payload flags clientSeq serverSeq errorCode sv =
     sv\<lparr>sv_world := emit (Sent conn (packed_bytes
          (reply_header command requestId flags clientSeq serverSeq errorCode) payload)) (sv_world sv)\<rparr>"

definition current_user :: "conn_ref \<Rightarrow> ('h, 'w, 's) server \<Rightarrow> string option" where
  "current_user conn sv =
     map_option (\<lambda>a. uc_userId (as_heap (sv_auth sv) ! a)) (getUserContext conn (sv_auth sv))"

definition updateThreadPoolMetrics :: "('h, 'w, 's) server \<Rightarrow> ('h, 'w, 's) server" where
  "updateThreadPoolMetrics sv =
     sv\<lparr>sv_metrics := setGauge ''im_threadpool_queue_size'' (of_nat (length (sv_queue sv)))
          ''Current thread pool queue size'' (sv_metrics sv)\<rparr>"

text \<open>\<open>ThreadPool::submit\<close>: \<open>None\<close> where it throws, because the queue is full.\<close>

definition pool_submit :: "business_task \<Rightarrow> ('h, 'w, 's) server \<Rightarrow> ('h, 'w, 's) server option" where
  "pool_submit task sv =
     (if sv_poolRunning sv
      then if sv_maxQueueSize sv > 0 \<and> length (sv_queue sv) \<ge> sv_maxQueueSize sv then None
           else Some (sv\<lparr>sv_queue := sv_queue sv @ [task]\<rparr>)
      else Some sv)"

definition submitBusinessTask ::
    "('h, 'w, 'j, 's) server_env \<Rightarrow> string \<Rightarrow> business_task \<Rightarrow> ('h, 'w, 's) server \<Rightarrow> bool \<times> ('h, 'w, 's) server" where
  "submitBusinessTask env taskName task sv =
     (let (t, sv) = clock env sv; (allowed, br) = allowRequest t (sv_breaker sv); sv = sv\<lparr>sv_breaker := br\<rparr> in
      if \<not> allowed \<and> taskName \<noteq> ''login'' \<and> taskName \<noteq> ''ack'' then (False, sv)
      else case pool_submit task sv of
        Some sv \<Rightarrow> let sv = updateThreadPoolMetrics sv in (True, sv\<lparr>sv_breaker := recordSuccess (sv_breaker sv)\<rparr>)
      | None \<Rightarrow> let (t, sv) = clock env (updateThreadPoolMetrics sv) in
                (False, sv\<lparr>sv_breaker := recordFailure t (sv_breaker sv)\<rparr>))"

definition count_metric :: "string \<Rightarrow> string \<Rightarrow> ('h, 'w, 's) server \<Rightarrow> ('h, 'w, 's) server" where
  "count_metric name help sv = sv\<lparr>sv_metrics := incCounter name 1 help (sv_metrics sv)\<rparr>"

text \<open>
  What the heartbeat service does to the others: Redis commands of its own, tasks for the pool (whose
  exception nobody catches on the way to the event loop), counters and the kick callback.
\<close>

fun redis_command ::
    "('h, 'w, 'j, 's) server_env \<Rightarrow> redis_command \<Rightarrow> ('h, 'w, 's) server \<Rightarrow> ('h, 'w, 's) server option" where
  "redis_command env (Setex key val seconds) sv =
     map_option (\<lambda>(_, b). sv\<lparr>sv_backend := b\<rparr>) (redis_call (setex (ae_redis (sn_auth env)) key val seconds) (sv_backend sv))"
| "redis_command env (Del key) sv =
     map_option (\<lambda>(_, b). sv\<lparr>sv_backend := b\<rparr>) (redis_call (del (ae_redis (sn_auth env)) key) (sv_backend sv))"

primrec redis_commands ::
    "('h, 'w, 'j, 's) server_env \<Rightarrow> redis_command list \<Rightarrow> ('h, 'w, 's) server \<Rightarrow> ('h, 'w, 's) server option" where
  "redis_commands env [] sv = Some sv"
| "redis_commands env (cmd # cmds) sv = Option.bind (redis_command env cmd sv) (redis_commands env cmds)"

fun apply_effect ::
    "('h, 'w, 'j, 's) server_env \<Rightarrow> hb_effect \<Rightarrow> ('h, 'w, 's) server \<Rightarrow> ('h, 'w, 's) server option" where
  "apply_effect env (Redis cmd) sv = redis_command env cmd sv"
| "apply_effect env (Submit cmds) sv = pool_submit (PresenceTask cmds) sv"
| "apply_effect env (Counter name) sv = Some (count_metric name ''Connections kicked due to heartbeat timeout'' sv)"
| "apply_effect env (Kick conn reason) sv = Some (sv\<lparr>sv_forceClosed := sv_forceClosed sv @ [conn]\<rparr>)"

primrec apply_effects ::
    "('h, 'w, 'j, 's) server_env \<Rightarrow> hb_effect list \<Rightarrow> ('h, 'w, 's) server \<Rightarrow> ('h, 'w, 's) server option" where
  "apply_effects env [] sv = Some sv"
| "apply_effects env (e # es) sv = Option.bind (apply_effect env e sv) (apply_effects env es)"

section \<open>The packet callback\<close>

definition login_resp :: "u32 \<Rightarrow> string \<Rightarrow> string \<Rightarrow> LoginResp" where
  "login_resp code msg sid = \<lparr>lresp_resultCode = code, lresp_resultMsg = msg, lresp_sessionId = sid\<rparr>"

definition p2p_resp :: "u32 \<Rightarrow> string \<Rightarrow> u64 \<Rightarrow> u64 \<Rightarrow> P2PMsgResp" where
  "p2p_resp code msg i q = \<lparr>presp_resultCode = code, presp_resultMsg = msg, presp_msgId = i, presp_serverSeq = q\<rparr>"

definition ack_resp :: "u32 \<Rightarrow> string \<Rightarrow> u64 \<Rightarrow> MessageAckResp" where
  "ack_resp code msg q = \<lparr>aresp_resultCode = code, aresp_resultMsg = msg, aresp_serverSeq = q\<rparr>"

definition pull_resp :: "u32 \<Rightarrow> string \<Rightarrow> u64 \<Rightarrow> OfflineItem list \<Rightarrow> PullOfflineResp" where
  "pull_resp code msg q items =
     \<lparr>oresp_resultCode = code, oresp_resultMsg = msg, oresp_nextBeginSeq = q, oresp_messages = items\<rparr>"

text \<open>An encoded reply.\<close>

definition answer ::
    "conn_ref \<Rightarrow> u16 \<Rightarrow> u32 \<Rightarrow> string option \<Rightarrow> u16 \<Rightarrow> u64 \<Rightarrow> u64 \<Rightarrow> ErrorCode \<Rightarrow> ('h, 'w, 's) server \<Rightarrow>
     ('h, 'w, 's) server option" where
  "answer conn command requestId payload flags clientSeq serverSeq errorCode sv =
     map_option (\<lambda>t. sendPacket conn command requestId t flags clientSeq serverSeq errorCode sv) payload"

definition on_login ::
    "('h, 'w, 'j, 's) server_env \<Rightarrow> conn_ref \<Rightarrow> u32 \<Rightarrow> string \<Rightarrow> ('h, 'w, 's) server \<Rightarrow> ('h, 'w, 's) server option" where
  "on_login env conn requestId message sv =
     (case decodeLoginReq env message of
        None \<Rightarrow> answer conn CmdLoginResp requestId (encodeLoginResp env (login_resp 1 ''invalid login payload'' []))
                  kFlagResponse 0 0 ErrInvalidPacket sv
      | Some req \<Rightarrow>
          let (ok, sv) = submitBusinessTask env ''login'' (LoginTask conn requestId req)
                (count_metric ''im_login_qps'' ''Inbound login request count'' sv) in
          if ok then Some sv
          else answer conn CmdLoginResp requestId (encodeLoginResp env (login_resp 1 ''server busy'' []))
                 kFlagResponse 0 0 ErrServerBusy sv)"

definition on_heartbeat ::
    "('h, 'w, 'j, 's) server_env \<Rightarrow> conn_ref \<Rightarrow> u32 \<Rightarrow> ('h, 'w, 's) server \<Rightarrow> ('h, 'w, 's) server option" where
  "on_heartbeat env conn requestId sv = do {
     let (t1, sv) = clock env sv;
     let (t2, sv) = clock env sv;
     let (hb, ev) = onHeartbeat t1 t2 conn (sv_heartbeat sv);
     sv \<leftarrow> apply_effects env ev (sv\<lparr>sv_heartbeat := hb\<rparr>);
     let (t3, sv) = clock env sv;
     answer conn CmdHeartbeatResp requestId (encodeHeartbeatResp env \<lparr>hresp_serverTime = t3\<rparr>) kFlagResponse 0 0 ErrOk sv
   }"

definition on_p2p ::
    "('h, 'w, 'j, 's) server_env \<Rightarrow> conn_ref \<Rightarrow> u32 \<Rightarrow> string \<Rightarrow> ('h, 'w, 's) server \<Rightarrow> ('h, 'w, 's) server option" where
  "on_p2p env conn requestId message sv =
     (let parsed = decodeP2PReq env message; user = current_user conn sv;
          sv = count_metric ''im_p2p_qps'' ''Inbound p2p request count'' sv;
          refuse = (\<lambda>msg err sv. answer conn CmdP2pMsgResp requestId (encodeP2PResp env (p2p_resp 1 msg 0 0))
                      kFlagResponse 0 0 err sv) in
      case parsed of
        None \<Rightarrow> refuse ''invalid p2p payload'' ErrInvalidPacket sv
      | Some req \<Rightarrow> (case user of
          None \<Rightarrow> refuse ''unauthenticated'' ErrInvalidPacket sv
        | Some fromUserId \<Rightarrow>
            let (t1, sv) = clock env sv; (t2, sv) = clock env sv;
                (may, ov) = canSendMessage t1 t2 fromUserId (sv_overload sv); sv = sv\<lparr>sv_overload := ov\<rparr> in
            if \<not> may then refuse ''user send rate limited'' ErrServerBusy sv
            else let (ok, sv) = submitBusinessTask env ''p2p'' (P2PTask conn requestId req fromUserId) sv in
              if ok then Some sv else refuse ''server busy'' ErrServerBusy sv))"

definition on_ack ::
    "('h, 'w, 'j, 's) server_env \<Rightarrow> conn_ref \<Rightarrow> u32 \<Rightarrow> string \<Rightarrow> ('h, 'w, 's) server \<Rightarrow> ('h, 'w, 's) server option" where
  "on_ack env conn requestId message sv =
     (let refuse = (\<lambda>msg i err sv. answer conn CmdMessageAckResp requestId (encodeAckResp env (ack_resp 1 msg 0))
                      (kFlagResponse OR kFlagAck) i 0 err sv) in
      case decodeAckReq env message of
        None \<Rightarrow> refuse ''invalid ack payload'' (partial_msgId env message) ErrInvalidPacket sv
      | Some req \<Rightarrow> (case current_user conn sv of
          None \<Rightarrow> refuse ''unauthenticated'' (areq_msgId req) ErrInvalidPacket sv
        | Some userId \<Rightarrow>
            let (ok, sv) = submitBusinessTask env ''ack'' (AckTask conn requestId req userId) sv in
            if ok then Some sv else refuse ''server busy'' (areq_msgId req) ErrServerBusy sv))"

definition on_pull ::
    "('h, 'w, 'j, 's) server_env \<Rightarrow> conn_ref \<Rightarrow> u32 \<Rightarrow> string \<Rightarrow> ('h, 'w, 's) server \<Rightarrow> ('h, 'w, 's) server option" where
  "on_pull env conn requestId message sv =
     (let refuse = (\<lambda>msg err sv. answer conn CmdPullOfflineResp requestId (encodePullResp env (pull_resp 1 msg 0 []))
                      kFlagResponse 0 0 err sv) in
      case decodePullReq env message of
        None \<Rightarrow> refuse ''invalid pull payload'' ErrInvalidPacket sv
      | Some req \<Rightarrow> (case current_user conn sv of
          None \<Rightarrow> refuse ''unauthenticated'' ErrInvalidPacket sv
        | Some userId \<Rightarrow>
            let (ok, sv) = submitBusinessTask env ''pull_offline'' (PullTask conn requestId req userId) sv in
            if ok then Some sv else refuse ''server busy'' ErrServerBusy sv))"

definition on_broadcast ::
    "('h, 'w, 'j, 's) server_env \<Rightarrow> conn_ref \<Rightarrow> string \<Rightarrow> ('h, 'w, 's) server \<Rightarrow> ('h, 'w, 's) server option" where
  "on_broadcast env conn message sv =
     (case (decodeBroadcastReq env message, current_user conn sv) of
        (Some req, Some fromUserId) \<Rightarrow>
          Some (snd (submitBusinessTask env ''broadcast'' (BroadcastTask fromUserId req) sv))
      | _ \<Rightarrow> Some sv)"

definition on_kick ::
    "('h, 'w, 'j, 's) server_env \<Rightarrow> conn_ref \<Rightarrow> u32 \<Rightarrow> string \<Rightarrow> ('h, 'w, 's) server \<Rightarrow> ('h, 'w, 's) server option" where
  "on_kick env conn requestId message sv =
     (case decodeKickReq env message of
        None \<Rightarrow> answer conn CmdKickUserResp requestId
                  (encodeKickResp env \<lparr>kresp_resultCode = 1, kresp_resultMsg = ''invalid kick payload''\<rparr>)
                  kFlagResponse 0 0 ErrInvalidPacket sv
      | Some req \<Rightarrow> answer conn CmdKickUserResp requestId
                  (encodeKickResp env \<lparr>kresp_resultCode = 0, kresp_resultMsg = ''success''\<rparr>)
                  kFlagResponse 0 0 ErrOk sv)"

definition rate_limited ::
    "('h, 'w, 'j, 's) server_env \<Rightarrow> conn_ref \<Rightarrow> u16 \<Rightarrow> u32 \<Rightarrow> ('h, 'w, 's) server \<Rightarrow> ('h, 'w, 's) server option" where
  "rate_limited env conn command requestId sv =
     (if command = CmdLoginReq
      then answer conn CmdLoginResp requestId (encodeLoginResp env (login_resp 1 ''rate limited'' []))
             kFlagResponse 0 0 ErrServerBusy sv
      else if command = CmdP2pMsgReq
      then answer conn CmdP2pMsgResp requestId (encodeP2PResp env (p2p_resp 1 ''rate limited'' 0 0))
             kFlagResponse 0 0 ErrServerBusy sv
      else Some sv)"

text \<open>The three commands under a rate limit.\<close>

definition rate_gate :: "('h, 'w, 'j, 's) server_env \<Rightarrow> u16 \<Rightarrow> ('h, 'w, 's) server \<Rightarrow> bool \<times> ('h, 'w, 's) server" where
  "rate_gate env command sv =
     (if command = CmdLoginReq \<or> command = CmdP2pMsgReq \<or> command = CmdBroadcastMsgReq
      then let (t1, sv) = clock env sv; (t2, sv) = clock env sv;
               (ok, ov) = canProcessCommand t1 t2 command (sv_overload sv) in (ok, sv\<lparr>sv_overload := ov\<rparr>)
      else (True, sv))"

definition dispatch ::
    "('h, 'w, 'j, 's) server_env \<Rightarrow> conn_ref \<Rightarrow> u16 \<Rightarrow> u32 \<Rightarrow> string \<Rightarrow> ('h, 'w, 's) server \<Rightarrow> ('h, 'w, 's) server option" where
  "dispatch env conn command requestId message sv =
     (if command = CmdLoginReq then on_login env conn requestId message sv
      else if command = CmdHeartbeatReq then on_heartbeat env conn requestId sv
      else if command = CmdP2pMsgReq then on_p2p env conn requestId message sv
      else if command = CmdMessageAckReq then on_ack env conn requestId message sv
      else if command = CmdPullOfflineReq then on_pull env conn requestId message sv
      else if command = CmdBroadcastMsgReq then on_broadcast env conn message sv
      else if command = CmdKickUserReq then on_kick env conn requestId message sv
      else Some sv)"

definition onPacket ::
    "('h, 'w, 'j, 's) server_env \<Rightarrow> conn_ref \<Rightarrow> PacketHeader \<Rightarrow> string \<Rightarrow> ('h, 'w, 's) server \<Rightarrow> ('h, 'w, 's) server option" where
  "onPacket env conn header message sv =
     (case rate_gate env (h_command header) sv of (ok, sv) \<Rightarrow>
        if ok then dispatch env conn (h_command header) (h_requestId header) message sv
        else rate_limited env conn (h_command header) (h_requestId header) sv)"

section \<open>Business tasks\<close>

text \<open>What follows the reply of a successful log-in.\<close>

definition after_login ::
    "('h, 'w, 'j, 's) server_env \<Rightarrow> conn_ref \<Rightarrow> string \<Rightarrow> string \<Rightarrow> ('h, 'w, 's) server \<Rightarrow> ('h, 'w, 's) server option" where
  "after_login env conn userId sessionId sv = do {
     (_, au, b) \<leftarrow> bindSessionToNode (sn_auth env) sessionId (sn_nodeId env) (sv_auth sv, sv_backend sv);
     let sv = sv\<lparr>sv_auth := au, sv_backend := b, sv_message := registerConnection userId conn (sv_message sv)\<rparr>;
     let (st, w) = deliverPendingMessages (sn_outside env) (sn_store env) (sv_message sv) userId (sv_store sv) (sv_world sv);
     let sv = sv\<lparr>sv_store := st, sv_world := w\<rparr>;
     let (t1, sv) = clock env sv;
     let (t2, sv) = clock env sv;
     let (hb, ev) = onAuthenticated t1 t2 conn userId (sv_heartbeat sv);
     sv \<leftarrow> apply_effects env ev (sv\<lparr>sv_heartbeat := hb\<rparr>);
     if sn_clusterEnabled env
     then do {
       (_, rt, c, w) \<leftarrow> bindUserRoute (ae_redis (sn_auth env)) userId (sn_nodeId env) (sv_routing sv)
         (be_redis (sv_backend sv), be_world (sv_backend sv));
       Some (sv\<lparr>sv_routing := rt, sv_backend := (sv_backend sv)\<lparr>be_redis := c, be_world := w\<rparr>\<rparr>)
     }
     else Some sv
   }"

definition run_login ::
    "('h, 'w, 'j, 's) server_env \<Rightarrow> conn_ref \<Rightarrow> u32 \<Rightarrow> LoginReq \<Rightarrow> ('h, 'w, 's) server \<Rightarrow> ('h, 'w, 's) server option" where
  "run_login env conn requestId req sv = do {
     let r = sn_random env (w_tick (sv_world sv));
     let (t1, sv) = clock env sv;
     let (t2, sv) = clock env sv;
     ((success, sessionId, errorMsg), au, b) \<leftarrow>
       login (sn_auth env) r t1 t2 conn (lreq_userId req) (lreq_token req) (lreq_deviceId req) (sv_auth sv, sv_backend sv);
     sv \<leftarrow> answer conn CmdLoginResp requestId
       (encodeLoginResp env (login_resp (if success then 0 else 1) (if success then ''success'' else errorMsg) sessionId))
       kFlagResponse 0 0 (if success then ErrOk else ErrAuthFailed) (sv\<lparr>sv_auth := au, sv_backend := b\<rparr>);
     if success then after_login env conn (lreq_userId req) sessionId sv else Some sv
   }"

definition remote_route ::
    "('h, 'w, 'j, 's) server_env \<Rightarrow> string \<Rightarrow> ('h, 'w, 's) server \<Rightarrow> (bool \<times> ('h, 'w, 's) server) option" where
  "remote_route env toUserId sv =
     (if sn_clusterEnabled env
      then do {
        (route, rt, c, w) \<leftarrow> lookupUserRoute (ae_redis (sn_auth env)) toUserId (sv_routing sv)
          (be_redis (sv_backend sv), be_world (sv_backend sv));
        Some (route \<noteq> None \<and> route \<noteq> Some (sn_nodeId env),
              sv\<lparr>sv_routing := rt, sv_backend := (sv_backend sv)\<lparr>be_redis := c, be_world := w\<rparr>\<rparr>)
      }
      else Some (False, sv))"

definition send_p2p ::
    "('h, 'w, 'j, 's) server_env \<Rightarrow> conn_ref \<Rightarrow> u32 \<Rightarrow> P2PMsgReq \<Rightarrow> string \<Rightarrow> ('h, 'w, 's) server \<Rightarrow> ('h, 'w, 's) server option" where
  "send_p2p env conn requestId req fromUserId sv =
     (case sendReliableP2PMessage (sn_outside env) (sn_store env) (sv_message sv) fromUserId (preq_toUserId req)
             (preq_clientMsgId req) (preq_content req) (sv_store sv) (sv_world sv) of
        (success, out, resultMsg, st, w) \<Rightarrow>
          let (msgId, serverSeq) = opt_default (0, 0) out in
          answer conn CmdP2pMsgResp requestId
            (encodeP2PResp env (p2p_resp (if success then 0 else 1) resultMsg msgId serverSeq))
            kFlagResponse msgId serverSeq (if success then ErrOk else ErrInvalidPacket)
            (sv\<lparr>sv_store := st, sv_world := w\<rparr>))"

definition run_p2p ::
    "('h, 'w, 'j, 's) server_env \<Rightarrow> conn_ref \<Rightarrow> u32 \<Rightarrow> P2PMsgReq \<Rightarrow> string \<Rightarrow> ('h, 'w, 's) server \<Rightarrow> ('h, 'w, 's) server option" where
  "run_p2p env conn requestId req fromUserId sv = do {
     (remote, sv) \<leftarrow> remote_route env (preq_toUserId req) sv;
     if remote
     then answer conn CmdP2pMsgResp requestId (encodeP2PResp env (p2p_resp 1 ''remote forwarding not enabled'' 0 0))
            kFlagResponse 0 0 ErrServerBusy sv
     else send_p2p env conn requestId req fromUserId sv
   }"

definition run_ack ::
    "('h, 'w, 'j, 's) server_env \<Rightarrow> conn_ref \<Rightarrow> u32 \<Rightarrow> MessageAckReq \<Rightarrow> string \<Rightarrow> ('h, 'w, 's) server \<Rightarrow> ('h, 'w, 's) server option" where
  "run_ack env conn requestId req userId sv =
     (case processAck (sn_outside env) (sn_store env) (sv_message sv) userId (areq_msgId req) (areq_serverSeq req)
             (areq_ackCode req) (sv_store sv) (sv_world sv) of
        (res, lastAckedSeq, st, w) \<Rightarrow>
          answer conn CmdMessageAckResp requestId
            (encodeAckResp env (case res of Inr _ \<Rightarrow> ack_resp 0 ''success'' lastAckedSeq | Inl e \<Rightarrow> ack_resp 1 e lastAckedSeq))
            (kFlagResponse OR kFlagAck) (areq_msgId req) lastAckedSeq
            (case res of Inr _ \<Rightarrow> ErrOk | Inl _ \<Rightarrow> ErrInvalidPacket) (sv\<lparr>sv_store := st, sv_world := w\<rparr>))"

definition run_pull ::
    "('h, 'w, 'j, 's) server_env \<Rightarrow> conn_ref \<Rightarrow> u32 \<Rightarrow> PullOfflineReq \<Rightarrow> string \<Rightarrow> ('h, 'w, 's) server \<Rightarrow> ('h, 'w, 's) server option" where
  "run_pull env conn requestId req userId sv =
     (let limit = (if oreq_limit req = 0 then 100 else unat (oreq_limit req));
          limit = (if isOpen (sv_breaker sv) then min limit 20 else limit) in
      case pullOfflineMessages (sn_store env) (sv_message sv) userId (oreq_lastAckedSeq req) limit (sv_store sv) of
        ((items, nextBeginSeq), st) \<Rightarrow>
          answer conn CmdPullOfflineResp requestId (encodePullResp env (pull_resp 0 ''success'' nextBeginSeq items))
            kFlagResponse 0 nextBeginSeq ErrOk (sv\<lparr>sv_store := st\<rparr>))"

definition run_business ::
    "('h, 'w, 'j, 's) server_env \<Rightarrow> business_task \<Rightarrow> ('h, 'w, 's) server \<Rightarrow> ('h, 'w, 's) server option" where
  "run_business env task sv =
     (case task of
        LoginTask conn requestId req \<Rightarrow> run_login env conn requestId req sv
      | P2PTask conn requestId req fromUserId \<Rightarrow> run_p2p env conn requestId req fromUserId sv
      | AckTask conn requestId req userId \<Rightarrow> run_ack env conn requestId req userId sv
      | PullTask conn requestId req userId \<Rightarrow> run_pull env conn requestId req userId sv
      | BroadcastTask fromUserId req \<Rightarrow>
          Some (sv\<lparr>sv_world := broadcastMessage (sn_outside env) (sv_message sv) fromUserId (breq_content req) (sv_world sv)\<rparr>)
      | LogoutTask conn \<Rightarrow> do {
          (au, b) \<leftarrow> logout (sn_auth env) conn (sv_auth sv, sv_backend sv);
          Some (sv\<lparr>sv_auth := au, sv_backend := b\<rparr>) }
      | PresenceTask cmds \<Rightarrow> redis_commands env cmds sv)"

section \<open>The connection callback\<close>

definition online_gauge :: "('h, 'w, 's) server \<Rightarrow> ('h, 'w, 's) server" where
  "online_gauge sv =
     sv\<lparr>sv_metrics := setGauge ''im_online_connections'' (of_nat (unat (ov_currentConnections (sv_overload sv))))
          ''Current accepted connections'' (sv_metrics sv)\<rparr>"

definition onConnectionUp ::
    "('h, 'w, 'j, 's) server_env \<Rightarrow> conn_ref \<Rightarrow> string \<Rightarrow> ('h, 'w, 's) server \<Rightarrow> ('h, 'w, 's) server option" where
  "onConnectionUp env conn ip sv =
     (let sv = sv\<lparr>sv_limits := sv_limits sv @
            [(conn, sn_highWaterMark env, sn_lowWaterMark env, sn_maxOutputBufferBytes env)]\<rparr>;
          (t1, sv) = clock env sv; (t2, sv) = clock env sv;
          (ok, ov) = canAcceptConnection_ip t1 t2 ip (sv_overload sv); sv = sv\<lparr>sv_overload := ov\<rparr> in
      if \<not> ok then Some (sv\<lparr>sv_forceClosed := sv_forceClosed sv @ [conn]\<rparr>)
      else
        let sv = online_gauge (sv\<lparr>sv_overload := onConnectionAccepted (sv_overload sv)\<rparr>);
            (t3, sv) = clock env sv; (t4, sv) = clock env sv;
            (hb, ev) = onConnection t3 t4 conn True (sv_heartbeat sv) in
        apply_effects env ev (sv\<lparr>sv_heartbeat := hb\<rparr>))"

definition forget_user ::
    "('h, 'w, 'j, 's) server_env \<Rightarrow> conn_ref \<Rightarrow> ('h, 'w, 's) server \<Rightarrow> ('h, 'w, 's) server option" where
  "forget_user env conn sv =
     (case current_user conn sv of
        None \<Rightarrow> Some sv
      | Some userId \<Rightarrow> do {
          let sv = sv\<lparr>sv_message := unregisterConnection userId (sv_message sv)\<rparr>;
          if sn_clusterEnabled env
          then do {
            (_, rt, c, w) \<leftarrow> unbindUserRoute (ae_redis (sn_auth env)) userId (sv_routing sv)
              (be_redis (sv_backend sv), be_world (sv_backend sv));
            Some (sv\<lparr>sv_routing := rt, sv_backend := (sv_backend sv)\<lparr>be_redis := c, be_world := w\<rparr>\<rparr>)
          }
          else Some sv })"

definition onConnectionDown ::
    "('h, 'w, 'j, 's) server_env \<Rightarrow> conn_ref \<Rightarrow> ('h, 'w, 's) server \<Rightarrow> ('h, 'w, 's) server option" where
  "onConnectionDown env conn sv = do {
     let sv = online_gauge (sv\<lparr>sv_overload := onConnectionClosed (sv_overload sv)\<rparr>);
     let (t1, sv) = clock env sv;
     let (t2, sv) = clock env sv;
     let (hb, ev) = onConnection t1 t2 conn False (sv_heartbeat sv);
     sv \<leftarrow> apply_effects env ev (sv\<lparr>sv_heartbeat := hb\<rparr>);
     sv \<leftarrow> forget_user env conn sv;
     Some (snd (submitBusinessTask env ''logout'' (LogoutTask conn) sv))
   }"

text \<open>The callbacks \<open>onConnectionUp\<close> installs on the connection, with the bytes it has buffered.\<close>

definition output_gauge :: "nat \<Rightarrow> ('h, 'w, 's) server \<Rightarrow> ('h, 'w, 's) server" where
  "output_gauge bytes sv =
     sv\<lparr>sv_metrics := setGauge ''im_output_buffer_bytes'' (of_nat bytes)
          ''Latest observed connection output buffer bytes'' (sv_metrics sv)\<rparr>"

definition onHighWaterMark ::
    "('h, 'w, 'j, 's) server_env \<Rightarrow> conn_ref \<Rightarrow> nat \<Rightarrow> ('h, 'w, 's) server \<Rightarrow> ('h, 'w, 's) server" where
  "onHighWaterMark env conn bytes sv =
     (let (t, sv) = clock env (output_gauge bytes sv) in
      sv\<lparr>sv_heartbeat := onWriteBlocked t conn (sv_heartbeat sv)\<rparr>)"

definition onWriteComplete :: "conn_ref \<Rightarrow> nat \<Rightarrow> ('h, 'w, 's) server \<Rightarrow> ('h, 'w, 's) server" where
  "onWriteComplete conn bytes sv =
     (let sv = output_gauge bytes sv in
      sv\<lparr>sv_heartbeat := onBackPressureRecovered conn (sv_heartbeat sv)\<rparr>)"

section \<open>The threads of the services\<close>

text \<open>One turn of the heartbeat thread, and one of the retry thread.\<close>

definition heartbeat_thread ::
    "('h, 'w, 'j, 's) server_env \<Rightarrow> ('h, 'w, 's) server \<Rightarrow> ('h, 'w, 's) server option" where
  "heartbeat_thread env sv =
     (let (t, sv) = clock env sv; (hb, ev) = heartbeat_turn t (sv_heartbeat sv) in
      apply_effects env ev (sv\<lparr>sv_heartbeat := hb\<rparr>))"

definition retry_thread ::
    "('h, 'w, 'j, 's) server_env \<Rightarrow> ('h, 'w, 's) server \<Rightarrow> ('h, 'w, 's) server" where
  "retry_thread env sv =
     (let (st, w) = retry_turn (sn_outside env) (sn_store env) (sv_message sv) (sv_store sv) (sv_world sv) in
      sv\<lparr>sv_store := st, sv_world := w\<rparr>)"

section \<open>Histories\<close>

text \<open>
  What can happen to the server: packets and connection events on the event loop, a worker that takes
  the first task of the queue and runs it, a turn of the other threads. A history ends (\<open>None\<close>) at an
  exception.
\<close>

datatype server_op =
    PacketIn conn_ref PacketHeader string
  | ConnUp conn_ref string
  | ConnDown conn_ref
  | HighWater conn_ref nat
  | WriteComplete conn_ref nat
  | RunTask
  | HeartbeatTurn
  | RetryTurn

fun server_do ::
    "('h, 'w, 'j, 's) server_env \<Rightarrow> ('h, 'w, 's) server \<Rightarrow> server_op \<Rightarrow> ('h, 'w, 's) server option" where
  "server_do env sv (PacketIn conn header message) = onPacket env conn header message sv"
| "server_do env sv (ConnUp conn ip) = onConnectionUp env conn ip sv"
| "server_do env sv (ConnDown conn) = onConnectionDown env conn sv"
| "server_do env sv (HighWater conn bytes) = Some (onHighWaterMark env conn bytes sv)"
| "server_do env sv (WriteComplete conn bytes) = Some (onWriteComplete conn bytes sv)"
| "server_do env sv RunTask =
     (case sv_queue sv of
        [] \<Rightarrow> Some sv
      | task # queue \<Rightarrow> run_business env task (sv\<lparr>sv_queue := queue\<rparr>))"
| "server_do env sv HeartbeatTurn = heartbeat_thread env sv"
| "server_do env sv RetryTurn = Some (retry_thread env sv)"

definition server_step ::
    "('h, 'w, 'j, 's) server_env \<Rightarrow> ('h, 'w, 's) server option \<Rightarrow> server_op \<Rightarrow> ('h, 'w, 's) server option" where
  "server_step env x a = Option.bind x (\<lambda>sv. server_do env sv a)"

end
