(* ===== verification/ServerSafety.thy ===== *)
theory ServerSafety
  imports ServerFull
begin

text \<open>
  What holds of the composed server over every history of packets, connection events, tasks and turns of
  its threads: who a message comes from and where it goes, that every request is answered, and what
  the overload protection, the breaker and the pool do in composition.
\<close>

section \<open>The helpers of the handlers\<close>

lemma clock_simps [simp]:
  "sv_auth (snd (clock env sv)) = sv_auth sv" "sv_backend (snd (clock env sv)) = sv_backend sv"
  "sv_routing (snd (clock env sv)) = sv_routing sv" "sv_overload (snd (clock env sv)) = sv_overload sv"
  "sv_breaker (snd (clock env sv)) = sv_breaker sv" "sv_heartbeat (snd (clock env sv)) = sv_heartbeat sv"
  "sv_message (snd (clock env sv)) = sv_message sv" "sv_store (snd (clock env sv)) = sv_store sv"
  "sv_metrics (snd (clock env sv)) = sv_metrics sv" "sv_poolRunning (snd (clock env sv)) = sv_poolRunning sv"
  "sv_maxQueueSize (snd (clock env sv)) = sv_maxQueueSize sv" "sv_queue (snd (clock env sv)) = sv_queue sv"
  "sv_forceClosed (snd (clock env sv)) = sv_forceClosed sv" "sv_limits (snd (clock env sv)) = sv_limits sv"
  "w_log (sv_world (snd (clock env sv))) = w_log (sv_world sv)"
  by (simp_all add: clock_def GetTimestamp_def)

lemmas handler_defs = count_metric_def updateThreadPoolMetrics_def online_gauge_def output_gauge_def Let_def split_def

section \<open>Who a message comes from\<close>

text \<open>
  The credentials a history has presented: connection and user of each log-in packet that carries this
  user's token.
\<close>

fun credential :: "('h, 'w, 'j, 's) server_env \<Rightarrow> server_op \<Rightarrow> (string \<times> string) set" where
  "credential env (PacketIn conn header message) =
     (if h_command header = CmdLoginReq
      then (case decodeLoginReq env message of
              None \<Rightarrow> {}
            | Some req \<Rightarrow> if validateToken (lreq_userId req) (lreq_token req) then {(connId conn, lreq_userId req)} else {})
      else {})"
| "credential env _ = {}"

definition credentials :: "('h, 'w, 'j, 's) server_env \<Rightarrow> server_op list \<Rightarrow> (string \<times> string) set" where
  "credentials env ops = (\<Union>a \<in> set ops. credential env a)"

text \<open>A task speaks for a user on a connection that has presented the user's credential.\<close>

fun task_ok :: "(string \<times> string) set \<Rightarrow> business_task \<Rightarrow> bool" where
  "task_ok K (LoginTask conn rid req) \<longleftrightarrow>
     (validateToken (lreq_userId req) (lreq_token req) \<longrightarrow> (connId conn, lreq_userId req) \<in> K)"
| "task_ok K (P2PTask conn rid req u) \<longleftrightarrow> (connId conn, u) \<in> K"
| "task_ok K (AckTask conn rid req u) \<longleftrightarrow> (connId conn, u) \<in> K"
| "task_ok K (PullTask conn rid req u) \<longleftrightarrow> (connId conn, u) \<in> K"
| "task_ok K (BroadcastTask u req) \<longleftrightarrow> u \<in> snd ` K"
| "task_ok K (LogoutTask conn) \<longleftrightarrow> True"
| "task_ok K (PresenceTask cmds) \<longleftrightarrow> True"

definition auth_ok :: "(string \<times> string) set \<Rightarrow> AuthService \<Rightarrow> bool" where
  "auth_ok K au \<longleftrightarrow> (\<exists>f. auth_inv f au \<and> (\<forall>c u. f c = Some u \<longrightarrow> (c, u) \<in> K))"

definition registered_ok :: "(string \<times> string) set \<Rightarrow> conn_ref MessageService \<Rightarrow> bool" where
  "registered_ok K svc \<longleftrightarrow> (\<forall>u conn. map_of (ms_userToConn svc) u = Some conn \<longrightarrow> (connId conn, u) \<in> K)"

definition senders_ok :: "(string \<times> string) set \<Rightarrow> InMemoryMessageStore \<Rightarrow> bool" where
  "senders_ok K s \<longleftrightarrow> (\<forall>i nt r. noted s i = Some (nt, r) \<longrightarrow> n_fromUserId nt \<in> snd ` K)"

definition server_ok :: "(string \<times> string) set \<Rightarrow> ('h, 'w, InMemoryMessageStore) server \<Rightarrow> bool" where
  "server_ok K sv \<longleftrightarrow> auth_ok K (sv_auth sv) \<and> registered_ok K (sv_message sv) \<and>
     senders_ok K (sv_store sv) \<and> list_all (task_ok K) (sv_queue sv)"

lemma task_ok_mono: "task_ok K t \<Longrightarrow> K \<subseteq> K' \<Longrightarrow> task_ok K' t"
  by (cases t) auto

lemma server_ok_mono: "server_ok K sv \<Longrightarrow> K \<subseteq> K' \<Longrightarrow> server_ok K' sv"
  unfolding server_ok_def auth_ok_def registered_ok_def senders_ok_def list_all_iff
  by (meson image_mono subsetD task_ok_mono)

text \<open>The invariant reads four components.\<close>

lemma server_ok_cong:
  "sv_auth sv' = sv_auth sv \<Longrightarrow> sv_message sv' = sv_message sv \<Longrightarrow> sv_store sv' = sv_store sv \<Longrightarrow>
   sv_queue sv' = sv_queue sv \<Longrightarrow> server_ok K sv' = server_ok K sv"
  by (simp add: server_ok_def)

lemma server_ok_clock [simp]: "server_ok K (snd (clock env sv)) = server_ok K sv"
  by (rule server_ok_cong) simp_all

lemma server_ok_clockE: "clock env sv = (t, sv') \<Longrightarrow> server_ok K sv' = server_ok K sv"
  using server_ok_clock [of K env sv] by simp

lemma server_ok_updates [simp]:
  "server_ok K (sv\<lparr>sv_breaker := br\<rparr>) = server_ok K sv" "server_ok K (sv\<lparr>sv_overload := ov\<rparr>) = server_ok K sv"
  "server_ok K (sv\<lparr>sv_metrics := me\<rparr>) = server_ok K sv" "server_ok K (sv\<lparr>sv_world := w\<rparr>) = server_ok K sv"
  "server_ok K (sv\<lparr>sv_backend := b\<rparr>) = server_ok K sv" "server_ok K (sv\<lparr>sv_routing := rt\<rparr>) = server_ok K sv"
  "server_ok K (sv\<lparr>sv_heartbeat := hb\<rparr>) = server_ok K sv" "server_ok K (sv\<lparr>sv_forceClosed := fc\<rparr>) = server_ok K sv"
  "server_ok K (sv\<lparr>sv_limits := li\<rparr>) = server_ok K sv"
  "server_ok K (sv\<lparr>sv_routing := rt, sv_backend := b\<rparr>) = server_ok K sv"
  by (simp_all add: server_ok_def)

lemma server_ok_gauge [simp]: "server_ok K (online_gauge sv) = server_ok K sv"
  by (simp add: online_gauge_def)

lemma server_ok_answer:
  "answer conn cmd rid p fl cs ss err sv = Some sv' \<Longrightarrow> server_ok K sv \<Longrightarrow> server_ok K sv'"
  by (auto simp: answer_def sendPacket_def)

lemma server_ok_pool_submit:
  "pool_submit t sv = Some sv' \<Longrightarrow> server_ok K sv \<Longrightarrow> task_ok K t \<Longrightarrow> server_ok K sv'"
  by (auto simp: pool_submit_def server_ok_def split: if_splits)

lemma server_ok_submit:
  "server_ok K sv \<Longrightarrow> task_ok K t \<Longrightarrow> server_ok K (snd (submitBusinessTask env nm t sv))"
  by (auto simp: submitBusinessTask_def handler_defs split: option.splits intro: server_ok_pool_submit)

lemma server_ok_redis_commands: "redis_commands env cmds sv = Some sv' \<Longrightarrow> server_ok K sv \<Longrightarrow> server_ok K sv'"
proof (induction cmds arbitrary: sv)
  case (Cons cmd cmds)
  then show ?case by (cases cmd) (fastforce simp: bind_eq_Some_conv)+
qed simp

lemma server_ok_effects: "apply_effects env es sv = Some sv' \<Longrightarrow> server_ok K sv \<Longrightarrow> server_ok K sv'"
proof (induction es arbitrary: sv)
  case (Cons e es)
  from Cons.prems(1) obtain sv1 where sv1: "apply_effect env e sv = Some sv1" "apply_effects env es sv1 = Some sv'"
    by (auto simp: bind_eq_Some_conv)
  have "server_ok K sv1"
  proof (cases e)
    case (Redis cmd)
    then show ?thesis using sv1(1) Cons.prems(2) by (cases cmd) auto
  qed (use sv1(1) Cons.prems(2) in \<open>auto simp: count_metric_def intro: server_ok_pool_submit\<close>)
  then show ?case by (rule Cons.IH [OF sv1(2)])
qed simp

lemma current_user_ok:
  assumes "server_ok K sv" "current_user conn sv = Some u"
  shows "(connId conn, u) \<in> K"
proof -
  obtain f where f: "auth_inv f (sv_auth sv)" "\<forall>c u. f c = Some u \<longrightarrow> (c, u) \<in> K"
    using assms(1) by (auto simp: server_ok_def auth_ok_def)
  obtain a where "map_of (as_connToUser (sv_auth sv)) (connId conn) = Some a" "u = uc_userId (as_heap (sv_auth sv) ! a)"
    using assms(2) by (auto simp: current_user_def getUserContext_def)
  with f(1) [unfolded auth_inv_def, rule_format, of "connId conn"] have "f (connId conn) = Some u" by simp
  with f(2) show ?thesis by simp
qed

text \<open>The packet callback.\<close>

lemma server_ok_on_login:
  assumes "on_login env conn rid message sv = Some sv'" "server_ok K sv"
    and "credential env (PacketIn conn header message) \<subseteq> K" "h_command header = CmdLoginReq"
  shows "server_ok K sv'"
proof (cases "decodeLoginReq env message")
  case None
  with assms show ?thesis by (auto simp: on_login_def intro: server_ok_answer)
next
  case (Some req)
  let ?s = "submitBusinessTask env ''login'' (LoginTask conn rid req) (count_metric ''im_login_qps'' ''Inbound login request count'' sv)"
  have "server_ok K (snd ?s)"
    using assms(2-4) Some by (intro server_ok_submit) (auto simp: count_metric_def split: if_splits)
  with assms(1) Some show ?thesis
    by (auto simp: on_login_def Let_def split: prod.splits if_splits intro: server_ok_answer)
qed

lemma server_ok_on_p2p:
  assumes "on_p2p env conn rid message sv = Some sv'" "server_ok K sv"
  shows "server_ok K sv'"
proof -
  have "server_ok K (snd (submitBusinessTask env ''p2p'' (P2PTask conn rid req u) sv1))"
    if "current_user conn sv = Some u" "server_ok K sv1" for req u sv1
    using that current_user_ok [OF assms(2)] by (intro server_ok_submit) auto
  with assms show ?thesis
    by (auto simp: on_p2p_def handler_defs split: option.splits if_splits intro: server_ok_answer)
qed

lemma server_ok_on_ack:
  assumes "on_ack env conn rid message sv = Some sv'" "server_ok K sv"
  shows "server_ok K sv'"
proof -
  have "server_ok K (snd (submitBusinessTask env ''ack'' (AckTask conn rid req u) sv))"
    if "current_user conn sv = Some u" for req u
    using that current_user_ok [OF assms(2)] assms(2) by (intro server_ok_submit) auto
  with assms show ?thesis
    by (auto simp: on_ack_def handler_defs split: option.splits if_splits intro: server_ok_answer)
qed

lemma server_ok_on_pull:
  assumes "on_pull env conn rid message sv = Some sv'" "server_ok K sv"
  shows "server_ok K sv'"
proof -
  have "server_ok K (snd (submitBusinessTask env ''pull_offline'' (PullTask conn rid req u) sv))"
    if "current_user conn sv = Some u" for req u
    using that current_user_ok [OF assms(2)] assms(2) by (intro server_ok_submit) auto
  with assms show ?thesis
    by (auto simp: on_pull_def handler_defs split: option.splits if_splits intro: server_ok_answer)
qed

lemma server_ok_on_broadcast:
  assumes "on_broadcast env conn message sv = Some sv'" "server_ok K sv"
  shows "server_ok K sv'"
proof -
  have "server_ok K (snd (submitBusinessTask env ''broadcast'' (BroadcastTask u req) sv))"
    if "current_user conn sv = Some u" for req u
    using that current_user_ok [OF assms(2)] assms(2) by (intro server_ok_submit) force+
  with assms show ?thesis by (auto simp: on_broadcast_def split: option.splits)
qed

lemma server_ok_on_heartbeat:
  assumes "on_heartbeat env conn rid sv = Some sv'" "server_ok K sv"
  shows "server_ok K sv'"
proof -
  obtain ev hb sv1 sv2 where "apply_effects env ev (sv1\<lparr>sv_heartbeat := hb\<rparr>) = Some sv2" "server_ok K sv1"
    and a: "answer conn CmdHeartbeatResp rid (encodeHeartbeatResp env \<lparr>hresp_serverTime = fst (clock env sv2)\<rparr>)
      kFlagResponse 0 0 ErrOk (snd (clock env sv2)) = Some sv'"
    using assms by (fastforce simp: on_heartbeat_def handler_defs bind_eq_Some_conv)
  then have "server_ok K (snd (clock env sv2))" using server_ok_effects by fastforce
  with a show ?thesis by (rule server_ok_answer)
qed

lemma server_ok_gate [simp]: "server_ok K (snd (rate_gate env command sv)) = server_ok K sv"
  by (simp add: rate_gate_def handler_defs)

lemma server_ok_packet:
  assumes "onPacket env conn header message sv = Some sv'" "server_ok K sv"
    and "credential env (PacketIn conn header message) \<subseteq> K"
  shows "server_ok K sv'"
proof -
  let ?sv = "snd (rate_gate env (h_command header) sv)"
  have sv: "server_ok K ?sv" using assms(2) by simp
  show ?thesis
  proof (cases "fst (rate_gate env (h_command header) sv)")
    case False
    with assms(1) have "rate_limited env conn (h_command header) (h_requestId header) ?sv = Some sv'"
      by (simp add: onPacket_def split_def)
    with sv show ?thesis by (auto simp: rate_limited_def split: if_splits intro: server_ok_answer)
  next
    case True
    with assms(1) have d: "dispatch env conn (h_command header) (h_requestId header) message ?sv = Some sv'"
      by (simp add: onPacket_def split_def)
    show ?thesis
    proof (cases "h_command header = CmdLoginReq")
      case True
      with d have "on_login env conn (h_requestId header) message ?sv = Some sv'" by (simp add: dispatch_def)
      from server_ok_on_login [OF this sv assms(3) True] show ?thesis .
    next
      case False
      with d sv show ?thesis
        by (auto simp: dispatch_def on_kick_def split: if_splits option.splits
          intro: server_ok_answer server_ok_on_heartbeat server_ok_on_p2p server_ok_on_ack server_ok_on_pull
            server_ok_on_broadcast)
    qed
  qed
qed

text \<open>The tasks.\<close>

lemma noted_save_new:
  "noted (snd (saveMessageAndDelivery r s)) i = Some (nt, u) \<Longrightarrow>
   noted s i = Some (nt, u) \<or> n_fromUserId nt = cr_fromUserId r"
  by (auto simp: saveMessageAndDelivery_def Let_def noted_def split: option.splits if_splits)

lemma senders_ok_save:
  "senders_ok K s \<Longrightarrow> cr_fromUserId r \<in> snd ` K \<Longrightarrow> senders_ok K (snd (saveMessageAndDelivery r s))"
  unfolding senders_ok_def by (metis noted_save_new)

lemma senders_ok_cong: "noted s' = noted s \<Longrightarrow> senders_ok K s' = senders_ok K s"
  by (simp add: senders_ok_def)

lemma sendReliable_store:
  "\<exists>r. cr_fromUserId r = u \<and>
     (noted (fst (snd (snd (snd (sendReliableP2PMessage env memory_store svc u v c body s w))))) = noted s \<or>
      noted (fst (snd (snd (snd (sendReliableP2PMessage env memory_store svc u v c body s w))))) =
        noted (snd (saveMessageAndDelivery r s)))"
proof -
  let ?r = "\<lparr>cr_fromUserId = u, cr_toUserId = v, cr_clientMsgId = c, cr_content = body, cr_timestamp = fst (GetTimestamp env w)\<rparr>"
  have "noted (fst (snd (snd (deliverLocked env memory_store svc conn m (snd (saveMessageAndDelivery ?r s)) w')))) =
      noted (snd (saveMessageAndDelivery ?r s))" for conn m w'
    by (rule memory_notes.deliverLocked_view)
  then show ?thesis
    by (intro exI [of _ ?r]) (auto simp: sendReliableP2PMessage_def split_def Let_def split: sum.splits option.splits)
qed

lemma senders_ok_sendReliable:
  assumes "senders_ok K s" "u \<in> snd ` K"
  shows "senders_ok K (fst (snd (snd (snd (sendReliableP2PMessage env memory_store svc u v c body s w)))))"
    (is "senders_ok K ?s")
proof -
  obtain r where r: "cr_fromUserId r = u" "noted ?s = noted s \<or> noted ?s = noted (snd (saveMessageAndDelivery r s))"
    using sendReliable_store [of u env svc v c body s w] by blast
  from r(2) show ?thesis
  proof
    assume "noted ?s = noted s"
    from senders_ok_cong [OF this] assms(1) show ?thesis by simp
  next
    assume "noted ?s = noted (snd (saveMessageAndDelivery r s))"
    from senders_ok_cong [OF this] senders_ok_save [OF assms(1), of r] r(1) assms(2) show ?thesis by simp
  qed
qed

lemma server_ok_store: "server_ok K sv \<Longrightarrow> senders_ok K st \<Longrightarrow> server_ok K (sv\<lparr>sv_store := st\<rparr>)"
  by (simp add: server_ok_def)

lemma server_ok_senders: "server_ok K sv \<Longrightarrow> senders_ok K (sv_store sv)"
  by (simp add: server_ok_def)

lemma server_ok_send_p2p:
  assumes "send_p2p env conn rid req u sv = Some sv'" "server_ok K sv" "u \<in> snd ` K" "sn_store env = memory_store"
  shows "server_ok K sv'"
proof -
  have "server_ok K (sv\<lparr>sv_store := st, sv_world := w\<rparr>)"
    if "sendReliableP2PMessage (sn_outside env) (sn_store env) (sv_message sv) u (preq_toUserId req)
          (preq_clientMsgId req) (preq_content req) (sv_store sv) (sv_world sv) = (success, r, m, st, w)" for success r m st w
    using senders_ok_sendReliable [OF server_ok_senders [OF assms(2)] assms(3), of "sn_outside env" "sv_message sv"
        "preq_toUserId req" "preq_clientMsgId req" "preq_content req" "sv_world sv"] that assms(2,4)
    by (simp add: server_ok_store)
  with assms(1) show ?thesis by (auto simp: send_p2p_def Let_def split: prod.splits intro: server_ok_answer)
qed

lemma server_ok_route: "remote_route env v sv = Some (r, sv') \<Longrightarrow> server_ok K sv \<Longrightarrow> server_ok K sv'"
  by (auto simp: remote_route_def bind_eq_Some_conv split: if_splits)

lemma server_ok_run_p2p:
  assumes "run_p2p env conn rid req u sv = Some sv'" "server_ok K sv" "u \<in> snd ` K" "sn_store env = memory_store"
  shows "server_ok K sv'"
proof -
  obtain remote sv1 where r: "remote_route env (preq_toUserId req) sv = Some (remote, sv1)"
    and out: "(if remote
     then answer conn CmdP2pMsgResp rid (encodeP2PResp env (p2p_resp 1 ''remote forwarding not enabled'' 0 0))
            kFlagResponse 0 0 ErrServerBusy sv1
     else send_p2p env conn rid req u sv1) = Some sv'"
    using assms(1) by (auto simp: run_p2p_def bind_eq_Some_conv)
  have sv1: "server_ok K sv1" by (rule server_ok_route [OF r assms(2)])
  show ?thesis
  proof (cases remote)
    case True
    with out sv1 show ?thesis by (auto intro: server_ok_answer)
  next
    case False
    with out have "send_p2p env conn rid req u sv1 = Some sv'" by simp
    then show ?thesis using sv1 assms(3,4) by (rule server_ok_send_p2p)
  qed
qed

lemma noted_processAck:
  "noted (fst (snd (snd (processAck env memory_store svc u i q code s w)))) = noted s"
proof -
  obtain res lst st where a: "markAcked u i q code (fst (GetTimestamp env w)) s = (res, lst, st)" using prod_cases3 .
  with noted_ack [of u i q code "fst (GetTimestamp env w)" s] have "noted st = noted s" by simp
  with a show ?thesis by (auto simp: processAck_def Let_def split_def memory_store_def split: sum.splits)
qed

lemma server_ok_run_ack:
  assumes "run_ack env conn rid req u sv = Some sv'" "server_ok K sv" "sn_store env = memory_store"
  shows "server_ok K sv'"
proof -
  have "senders_ok K st" if "processAck (sn_outside env) memory_store (sv_message sv) u
      (areq_msgId req) (areq_serverSeq req) (areq_ackCode req) (sv_store sv) (sv_world sv) = (res, lst, st, w)" for res lst st w
  proof -
    have "noted st = noted (sv_store sv)"
      using noted_processAck [of "sn_outside env" "sv_message sv" u "areq_msgId req" "areq_serverSeq req"
        "areq_ackCode req" "sv_store sv" "sv_world sv"] that by simp
    from senders_ok_cong [OF this] server_ok_senders [OF assms(2)] show ?thesis by simp
  qed
  with assms show ?thesis
    by (auto simp: run_ack_def split: prod.splits intro!: server_ok_answer [of _ _ _ _ _ _ _ _ _ sv'] server_ok_store)
qed

lemma server_ok_run_pull:
  assumes "run_pull env conn rid req u sv = Some sv'" "server_ok K sv" "sn_store env = memory_store"
  shows "server_ok K sv'"
proof -
  have "senders_ok K (snd (pullOfflineMessages memory_store (sv_message sv) u a limit (sv_store sv)))" for a limit
  proof -
    have "noted (snd (pullOfflineMessages memory_store (sv_message sv) u a limit (sv_store sv))) = noted (sv_store sv)"
      using memory_notes.load_view [of u a limit "sv_store sv"]
      by (simp add: pullOfflineMessages_def split_def)
    from senders_ok_cong [OF this] server_ok_senders [OF assms(2)] show ?thesis by simp
  qed
  from server_ok_store [OF assms(2) this] assms show ?thesis
    by (auto simp: run_pull_def Let_def split_def intro: server_ok_answer)
qed

text \<open>A log-in grants a connection to the user whose token it carries.\<close>

lemma auth_ok_login:
  assumes "login env r t1 t2 conn u tok d (au, b) = Some (res, au', b')" "auth_ok K au"
    and "validateToken u tok \<Longrightarrow> (connId conn, u) \<in> K"
  shows "auth_ok K au'"
proof -
  obtain f where f: "auth_inv f au" "\<forall>c u. f c = Some u \<longrightarrow> (c, u) \<in> K" using assms(2) by (auto simp: auth_ok_def)
  let ?op = "Login r t1 t2 conn u tok d"
  have "auth_step env (Some (au, b)) ?op = Some (au', b')" using assms(1) by simp
  from auth_inv_step [OF f(1) this] have "auth_inv (owner_step f ?op) au'" .
  moreover have "\<forall>c v. owner_step f ?op c = Some v \<longrightarrow> (c, v) \<in> K"
    using f(2) assms(3) by (auto simp: validateToken_def)
  ultimately show ?thesis unfolding auth_ok_def by blast
qed

lemma login_success: "login env r t1 t2 conn u tok d s = Some ((True, sid, e), s') \<Longrightarrow> validateToken u tok"
  by (auto simp: login_def split: if_splits prod.splits)

lemma auth_ok_bind: "bindSessionToNode env sid n (au, b) = Some (r, au', b') \<Longrightarrow> auth_ok K au \<Longrightarrow> auth_ok K au'"
  unfolding auth_ok_def using auth_inv_same_but_nodes bind_same_but_nodes by blast

lemma auth_ok_logout:
  assumes "logout env conn (au, b) = Some (au', b')" "auth_ok K au"
  shows "auth_ok K au'"
proof -
  obtain f where f: "auth_inv f au" "\<forall>c u. f c = Some u \<longrightarrow> (c, u) \<in> K" using assms(2) by (auto simp: auth_ok_def)
  have "auth_step env (Some (au, b)) (Logout conn) = Some (au', b')" using assms(1) by simp
  from auth_inv_step [OF f(1) this] have "auth_inv (owner_step f (Logout conn)) au'" .
  with f(2) show ?thesis unfolding auth_ok_def by (intro exI [of _ "owner_step f (Logout conn)"]) auto
qed

lemma server_ok_auth: "server_ok K sv \<Longrightarrow> auth_ok K au \<Longrightarrow> server_ok K (sv\<lparr>sv_auth := au\<rparr>)"
  by (simp add: server_ok_def)

lemma server_ok_register:
  "server_ok K sv \<Longrightarrow> (connId conn, u) \<in> K \<Longrightarrow>
   server_ok K (sv\<lparr>sv_message := registerConnection u conn (sv_message sv)\<rparr>)"
  by (auto simp: server_ok_def registered_ok_def registerConnection_def update_conv')

lemma server_ok_unregister:
  "server_ok K sv \<Longrightarrow> server_ok K (sv\<lparr>sv_message := unregisterConnection u (sv_message sv)\<rparr>)"
  by (auto simp: server_ok_def registered_ok_def unregisterConnection_def delete_conv')

lemma server_ok_deliver:
  assumes "server_ok K sv"
  shows "server_ok K (sv\<lparr>sv_store := fst (deliverPendingMessages env memory_store svc u (sv_store sv) w)\<rparr>)"
proof -
  have "noted (fst (deliverPendingMessages env memory_store svc u (sv_store sv) w)) = noted (sv_store sv)"
    by (rule memory_notes.deliverPending_view)
  from senders_ok_cong [OF this] server_ok_senders [OF assms] show ?thesis by (intro server_ok_store [OF assms]) simp
qed

lemma server_ok_after_login:
  assumes "after_login env conn u sid sv = Some sv'" "server_ok K sv" "(connId conn, u) \<in> K" "sn_store env = memory_store"
  shows "server_ok K sv'"
proof -
  obtain r au b where bind: "bindSessionToNode (sn_auth env) sid (sn_nodeId env) (sv_auth sv, sv_backend sv) = Some (r, au, b)"
    using assms(1) by (auto simp: after_login_def bind_eq_Some_conv)
  have "auth_ok K au" using auth_ok_bind [OF bind] assms(2) by (simp add: server_ok_def)
  define sv1 where "sv1 = sv\<lparr>sv_auth := au, sv_backend := b, sv_message := registerConnection u conn (sv_message sv)\<rparr>"
  have "server_ok K (sv\<lparr>sv_auth := au, sv_backend := b\<rparr>)"
    using assms(2) \<open>auth_ok K au\<close> by (simp add: server_ok_def)
  from server_ok_register [OF this assms(3)] have "server_ok K sv1" by (simp add: sv1_def)
  have st: "sv_store sv1 = sv_store sv" by (simp add: sv1_def)
  define d where "d = deliverPendingMessages (sn_outside env) (sn_store env) (registerConnection u conn (sv_message sv)) u
    (sv_store sv) (sv_world sv)"
  define sv2 where "sv2 = snd (clock env (snd (clock env (sv1\<lparr>sv_store := fst d, sv_world := snd d\<rparr>))))"
  have "server_ok K sv2"
    using server_ok_deliver [OF \<open>server_ok K sv1\<close>, unfolded st] by (simp add: sv2_def d_def assms(4))
  obtain hb ev sv3 where ev: "apply_effects env ev (sv2\<lparr>sv_heartbeat := hb\<rparr>) = Some sv3"
    and route: "(if sn_clusterEnabled env
     then do {
       (_, rt, c, w) \<leftarrow> bindUserRoute (ae_redis (sn_auth env)) u (sn_nodeId env) (sv_routing sv3)
         (be_redis (sv_backend sv3), be_world (sv_backend sv3));
       Some (sv3\<lparr>sv_routing := rt, sv_backend := (sv_backend sv3)\<lparr>be_redis := c, be_world := w\<rparr>\<rparr>)
     }
     else Some sv3) = Some sv'"
    using assms(1) bind
    by (auto simp: after_login_def bind_eq_Some_conv Let_def split_def sv1_def [symmetric] d_def [symmetric] sv2_def [symmetric])
  have "server_ok K sv3" using server_ok_effects [OF ev] \<open>server_ok K sv2\<close> by simp
  with route show ?thesis by (auto simp: bind_eq_Some_conv split: if_splits)
qed

lemma server_ok_run_login:
  assumes "run_login env conn rid req sv = Some sv'" "server_ok K sv" "task_ok K (LoginTask conn rid req)"
    and "sn_store env = memory_store"
  shows "server_ok K sv'"
proof -
  obtain t1 sv0 where c1: "clock env sv = (t1, sv0)" by (rule prod.exhaust)
  obtain t2 sv1 where c2: "clock env sv0 = (t2, sv1)" by (rule prod.exhaust)
  have parts: "sv_auth sv1 = sv_auth sv" "sv_backend sv1 = sv_backend sv"
    using clock_simps(1,2) [of env sv] clock_simps(1,2) [of env sv0] by (simp_all add: c1 c2)
  have sv1: "server_ok K sv1"
    using assms(2) server_ok_clockE [OF c1, of K] server_ok_clockE [OF c2, of K] by simp
  obtain success sid e au b sv2 where
    login: "login (sn_auth env) (sn_random env (w_tick (sv_world sv))) t1 t2 conn (lreq_userId req) (lreq_token req)
      (lreq_deviceId req) (sv_auth sv, sv_backend sv) = Some ((success, sid, e), au, b)"
    and a: "answer conn CmdLoginResp rid
       (encodeLoginResp env (login_resp (if success then 0 else 1) (if success then ''success'' else e) sid))
       kFlagResponse 0 0 (if success then ErrOk else ErrAuthFailed) (sv1\<lparr>sv_auth := au, sv_backend := b\<rparr>) = Some sv2"
    and out: "(if success then after_login env conn (lreq_userId req) sid sv2 else Some sv2) = Some sv'"
    using assms(1) by (auto simp: run_login_def bind_eq_Some_conv c1 c2 parts)
  have "auth_ok K au"
    using auth_ok_login [OF login] assms(2,3) by (simp add: server_ok_def)
  with sv1 have "server_ok K (sv1\<lparr>sv_auth := au, sv_backend := b\<rparr>)" by (simp add: server_ok_def)
  from server_ok_answer [OF a this] have sv2: "server_ok K sv2" .
  show ?thesis
  proof (cases success)
    case True
    with login have "validateToken (lreq_userId req) (lreq_token req)" by (auto dest: login_success)
    with assms(3) have "(connId conn, lreq_userId req) \<in> K" by simp
    with True out sv2 assms(4) show ?thesis by (auto intro: server_ok_after_login)
  qed (use out sv2 in simp)
qed

lemma server_ok_run_business:
  assumes "run_business env task sv = Some sv'" "server_ok K sv" "task_ok K task" "sn_store env = memory_store"
  shows "server_ok K sv'"
proof (cases task)
  case (P2PTask conn rid req u)
  then have "u \<in> snd ` K" using assms(3) by force
  with P2PTask assms show ?thesis by (auto simp: run_business_def intro: server_ok_run_p2p)
next
  case (LogoutTask conn)
  then obtain au b where l: "logout (sn_auth env) conn (sv_auth sv, sv_backend sv) = Some (au, b)"
    and sv': "sv' = sv\<lparr>sv_auth := au, sv_backend := b\<rparr>"
    using assms(1) by (auto simp: run_business_def bind_eq_Some_conv)
  from auth_ok_logout [OF l] assms(2) show ?thesis by (simp add: sv' server_ok_def)
qed (use assms in \<open>auto simp: run_business_def
    intro: server_ok_run_login server_ok_run_ack server_ok_run_pull server_ok_redis_commands\<close>)

text \<open>The connection callback and the threads.\<close>

lemma server_ok_up: "onConnectionUp env conn ip sv = Some sv' \<Longrightarrow> server_ok K sv \<Longrightarrow> server_ok K sv'"
  by (auto simp: onConnectionUp_def handler_defs split: if_splits intro: server_ok_effects)

lemma server_ok_forget: "forget_user env conn sv = Some sv' \<Longrightarrow> server_ok K sv \<Longrightarrow> server_ok K sv'"
  by (auto simp: forget_user_def Let_def bind_eq_Some_conv split: option.splits if_splits intro: server_ok_unregister)

lemma server_ok_down:
  assumes "onConnectionDown env conn sv = Some sv'" "server_ok K sv"
  shows "server_ok K sv'"
proof -
  let ?sv = "online_gauge (sv\<lparr>sv_overload := onConnectionClosed (sv_overload sv)\<rparr>)"
  obtain t1 sv0 where c1: "clock env ?sv = (t1, sv0)" by (rule prod.exhaust)
  obtain t2 sv1 where c2: "clock env sv0 = (t2, sv1)" by (rule prod.exhaust)
  have sv1: "server_ok K sv1"
    using assms(2) server_ok_clockE [OF c1, of K] server_ok_clockE [OF c2, of K] by simp
  obtain hb ev where hb: "onConnection t1 t2 conn False (sv_heartbeat sv1) = (hb, ev)" by (rule prod.exhaust)
  obtain sv2 sv3 where ev: "apply_effects env ev (sv1\<lparr>sv_heartbeat := hb\<rparr>) = Some sv2"
    and sv3: "forget_user env conn sv2 = Some sv3" "sv' = snd (submitBusinessTask env ''logout'' (LogoutTask conn) sv3)"
    using assms(1) by (auto simp: onConnectionDown_def c1 c2 hb bind_eq_Some_conv)
  have "server_ok K sv2" using server_ok_effects [OF ev] sv1 by simp
  with sv3(1) have "server_ok K sv3" by (rule server_ok_forget)
  then show ?thesis unfolding sv3(2) by (rule server_ok_submit) simp
qed

lemma server_ok_heartbeat_thread: "heartbeat_thread env sv = Some sv' \<Longrightarrow> server_ok K sv \<Longrightarrow> server_ok K sv'"
  by (auto simp: heartbeat_thread_def handler_defs intro: server_ok_effects)

lemma server_ok_retry_thread:
  assumes "server_ok K sv" "sn_store env = memory_store"
  shows "server_ok K (retry_thread env sv)"
proof -
  have "noted (fst (retry_turn (sn_outside env) memory_store (sv_message sv) (sv_store sv) (sv_world sv))) = noted (sv_store sv)"
    by (rule memory_notes.retry_turn_view)
  from senders_ok_cong [OF this] server_ok_senders [OF assms(1)] have
    "senders_ok K (fst (retry_turn (sn_outside env) memory_store (sv_message sv) (sv_store sv) (sv_world sv)))" by simp
  from server_ok_store [OF assms(1) this] show ?thesis by (simp add: retry_thread_def split_def Let_def assms(2))
qed

lemma server_ok_do:
  assumes "server_do env sv a = Some sv'" "server_ok K sv" "credential env a \<subseteq> K" "sn_store env = memory_store"
  shows "server_ok K sv'"
proof (cases a)
  case (PacketIn conn header message)
  with server_ok_packet [of env conn header message sv sv' K] assms show ?thesis by simp
next
  case RunTask
  show ?thesis
  proof (cases "sv_queue sv")
    case (Cons task queue)
    with assms(2) have "server_ok K (sv\<lparr>sv_queue := queue\<rparr>)" "task_ok K task" by (simp_all add: server_ok_def)
    with assms RunTask Cons show ?thesis by (auto intro: server_ok_run_business)
  qed (use assms RunTask in simp)
qed (use assms in \<open>auto simp: onHighWaterMark_def onWriteComplete_def handler_defs
    intro: server_ok_up server_ok_down server_ok_heartbeat_thread server_ok_retry_thread\<close>)

text \<open>The server beside the credentials presented so far.\<close>

fun server_system ::
    "('h, 'w, 'j, InMemoryMessageStore) server_env \<Rightarrow>
     ('h, 'w, InMemoryMessageStore) server option \<times> (string \<times> string) set \<Rightarrow> server_op \<Rightarrow>
     ('h, 'w, InMemoryMessageStore) server option \<times> (string \<times> string) set" where
  "server_system env (x, K) a = (server_step env x a, K \<union> credential env a)"

fun server_system_inv :: "('h, 'w, InMemoryMessageStore) server option \<times> (string \<times> string) set \<Rightarrow> bool" where
  "server_system_inv (x, K) = (case x of None \<Rightarrow> True | Some sv \<Rightarrow> server_ok K sv)"

definition fresh_server :: "('h, 'w, InMemoryMessageStore) server \<Rightarrow> bool" where
  "fresh_server sv \<longleftrightarrow> as_connToUser (sv_auth sv) = [] \<and> ms_userToConn (sv_message sv) = [] \<and>
     sv_store sv = InMemoryMessageStore_init \<and> sv_queue sv = []"

fun server_system_init :: "('h, 'w, InMemoryMessageStore) server option \<times> (string \<times> string) set \<Rightarrow> bool" where
  "server_system_init (x, K) = (case x of None \<Rightarrow> False | Some sv \<Rightarrow> fresh_server sv)"

abbreviation in_memory :: "('h, 'w, 'j, InMemoryMessageStore) server_env \<Rightarrow> ('h, 'w, 'j, InMemoryMessageStore) server_env" where
  "in_memory env \<equiv> env\<lparr>sn_store := memory_store\<rparr>"

lemma server_system_start: "server_system_init p \<Longrightarrow> server_system_inv p"
proof (cases p)
  case (Pair x K)
  assume "server_system_init p"
  then obtain sv where x: "x = Some sv" "fresh_server sv" by (auto simp: Pair split: option.splits)
  then have "auth_inv Map.empty (sv_auth sv)" by (simp add: auth_inv_def fresh_server_def)
  then have "auth_ok K (sv_auth sv)" unfolding auth_ok_def by auto
  with x show ?thesis
    by (simp add: Pair server_ok_def fresh_server_def registered_ok_def senders_ok_def noted_def InMemoryMessageStore_init_def)
qed

lemma server_system_keeps: "server_system_inv p \<Longrightarrow> server_system_inv (server_system (in_memory env) p a)"
proof (cases p)
  case (Pair x K)
  assume inv: "server_system_inv p"
  let ?K = "K \<union> credential (in_memory env) a"
  show ?thesis
  proof (cases "server_step (in_memory env) x a")
    case (Some sv')
    then obtain sv where x: "x = Some sv" "server_do (in_memory env) sv a = Some sv'"
      by (auto simp: server_step_def bind_eq_Some_conv)
    with inv have "server_ok ?K sv" by (auto simp: Pair intro: server_ok_mono)
    with x(2) have "server_ok ?K sv'" by (rule server_ok_do) simp_all
    with Some show ?thesis by (simp add: Pair)
  qed (simp add: Pair)
qed

interpretation server: invariant_system server_system_init "server_system (in_memory env)" server_system_inv for env
  by unfold_locales (fact server_system_start, fact server_system_keeps)

lemma run_server_system:
  "run (server_system env) (x, K) ops = (run (server_step env) x ops, K \<union> credentials env ops)"
  by (induction ops arbitrary: x K) (auto simp: credentials_def)

lemma server_reached:
  assumes "sn_store env = memory_store" "fresh_server sv0" "run (server_step env) (Some sv0) ops = Some sv"
  shows "server_ok (credentials env ops) sv"
proof -
  have "in_memory env = env" using assms(1) by (cases env) simp
  then show ?thesis
    using server.inv_reached [of "(Some sv0, {})" env ops] assms(2,3) by (simp add: run_server_system)
qed


section \<open>A small server\<close>

text \<open>Payloads that a trivial Protocol Buffers library reads, no Redis, no MySQL, the in-memory store.\<close>

definition demo_pb :: pb_lib where
  "demo_pb = \<lparr>pb_parse_LoginReq = (\<lambda>t. Some \<lparr>lreq_userId = t, lreq_token = ''valid_token_'' @ t, lreq_deviceId = []\<rparr>),
     pb_parse_P2PMsgReq = (\<lambda>t. Some \<lparr>preq_fromUserId = ''mallory'', preq_toUserId = ''bob'', preq_clientMsgId = ''1'', preq_content = t\<rparr>),
     pb_parse_MessageAckReq = (\<lambda>_. None), pb_parse_PullOfflineReq = (\<lambda>_. None), pb_parse_BroadcastMsgReq = (\<lambda>_. None),
     pb_parse_KickUserReq = (\<lambda>_. None), pb_print_LoginResp = (\<lambda>_. Some []), pb_print_HeartbeatResp = (\<lambda>_. Some []),
     pb_print_P2PMsgResp = (\<lambda>_. Some []), pb_print_P2PMsgNotify = (\<lambda>_. Some []), pb_print_MessageAckResp = (\<lambda>_. Some []),
     pb_print_PullOfflineResp = (\<lambda>_. Some []), pb_print_BroadcastMsgNotify = (\<lambda>_. Some []), pb_print_KickUserResp = (\<lambda>_. Some [])\<rparr>"

definition demo_env :: "(unit, string \<rightharpoonup> string, jvalue, InMemoryMessageStore) server_env" where
  "demo_env = \<lparr>sn_auth = small_env,
     sn_outside = \<lparr>e_clock = (\<lambda>_. 1000), e_connected = (\<lambda>_ _. True), e_serializeNotify = n_content, e_serializeBroadcast = bnot_content\<rparr>,
     sn_random = (\<lambda>_. 7), sn_store = memory_store, sn_pb = demo_pb, sn_payloadFormat = Protobuf, sn_compatibleJson = False,
     sn_nodeId = ''node-1'', sn_clusterEnabled = False, sn_highWaterMark = 1048576, sn_lowWaterMark = 262144,
     sn_maxOutputBufferBytes = 4194304\<rparr>"

definition demo_server :: "(unit, string \<rightharpoonup> string, InMemoryMessageStore) server" where
  "demo_server = \<lparr>sv_auth = AuthService_init, sv_backend = fresh_backend, sv_routing = RoutingService_init,
     sv_overload = OverloadProtectService_init 1000 100 1000, sv_breaker = CircuitBreaker_init True 10 5000,
     sv_heartbeat = HeartbeatService_init 30 10, sv_message = MessageService_init\<lparr>ms_hasStore := True\<rparr>,
     sv_store = InMemoryMessageStore_init, sv_world = \<lparr>w_tick = 0, w_log = []\<rparr>, sv_metrics = MetricsRegistry_init,
     sv_poolRunning = True, sv_maxQueueSize = 10000, sv_queue = [], sv_forceClosed = [], sv_limits = []\<rparr>"

definition demo_ops :: "server_op list" where
  "demo_ops = [PacketIn conn_a (PacketHeader_default\<lparr>h_command := CmdLoginReq, h_requestId := 1\<rparr>) ''ann'', RunTask,
     PacketIn conn_a (PacketHeader_default\<lparr>h_command := CmdP2pMsgReq, h_requestId := 2\<rparr>) ''hello'', RunTask]"

lemmas demo_defs = demo_env_def demo_server_def demo_pb_def server_step_def clock_def GetTimestamp_def
  pool_submit_def answer_def sendPacket_def emit_def Let_def updateThreadPoolMetrics_def count_metric_def setGauge_def incCounter_def MetricsRegistry_init_def
  OverloadProtectService_init_def CircuitBreaker_init_def allowRequest_def recordSuccess_def
  AuthService_init_def HeartbeatService_init_def MessageService_init_def InMemoryMessageStore_init_def
  encode_with_def decode_with_def encodeLoginResp_def decodeLoginReq_def encodeP2PResp_def decodeP2PReq_def
  submitBusinessTask_def rate_gate_def canProcessCommand_def canProcessMessage_def canSendMessage_def

lemmas login_eval = ConnectionHealth_default_def CmdLoginReq_def CmdHeartbeatReq_def CmdP2pMsgReq_def run_business_def run_login_def login_def validateToken_def bindSessionToNode_def find_session_def
  after_login_def registerConnection_def deliverPendingMessages_def MessageService.connected_def MessageStore.getLastAckedSeq_def loadPendingMessages_def
  onAuthenticated_def updateOnlineStatusAsync_def reportNodeAlive_def modify_health_def
lemmas p2p_eval = on_p2p_def current_user_def getUserContext_def run_p2p_def remote_route_def send_p2p_def
  sendReliableP2PMessage_def saveMessageAndDelivery_def find_duplicate_def makeDedupKey_def

lemma demo_run: "\<exists>sv m. run (server_step demo_env) (Some demo_server) demo_ops = Some sv \<and>
   im_messages (sv_store sv) 1 = Some m \<and> n_fromUserId (sm_notify m) = ''ann''"
  by (simp add: demo_ops_def demo_defs onPacket_def dispatch_def on_login_def login_eval p2p_eval)


end
