(* ===== verification/ServerReplies.thy ===== *)
theory ServerReplies
  imports ServerSafety
begin

text \<open>
  Every request gets exactly one reply: at once, or from the task it is turned into.
\<close>

section \<open>Every request is answered\<close>

abbreviation sent :: "('h, 'w, 's) server \<Rightarrow> (conn_ref \<times> string) list" where
  "sent sv \<equiv> sends (w_log (sv_world sv))"

text \<open>A reply to a request, and a notification of a message.\<close>

definition reply :: "conn_ref \<Rightarrow> u16 \<Rightarrow> u32 \<Rightarrow> conn_ref \<times> string \<Rightarrow> bool" where
  "reply conn command rid p \<longleftrightarrow>
     (\<exists>flags cs ss err payload. p = (conn, packet_bytes (reply_header command rid flags cs ss err) payload))"

definition notification :: "conn_ref \<times> string \<Rightarrow> bool" where
  "notification p \<longleftrightarrow> (\<exists>m payload. snd p = packet_bytes (notify_header m) payload)"

definition response_to :: "u16 \<Rightarrow> u16 option" where
  "response_to command =
     (if command = CmdLoginReq then Some CmdLoginResp
      else if command = CmdHeartbeatReq then Some CmdHeartbeatResp
      else if command = CmdP2pMsgReq then Some CmdP2pMsgResp
      else if command = CmdMessageAckReq then Some CmdMessageAckResp
      else if command = CmdPullOfflineReq then Some CmdPullOfflineResp
      else if command = CmdKickUserReq then Some CmdKickUserResp else None)"

fun task_reply :: "business_task \<Rightarrow> (conn_ref \<times> u16 \<times> u32) option" where
  "task_reply (LoginTask conn rid req) = Some (conn, CmdLoginResp, rid)"
| "task_reply (P2PTask conn rid req u) = Some (conn, CmdP2pMsgResp, rid)"
| "task_reply (AckTask conn rid req u) = Some (conn, CmdMessageAckResp, rid)"
| "task_reply (PullTask conn rid req u) = Some (conn, CmdPullOfflineResp, rid)"
| "task_reply _ = None"

lemma answer_sends:
  "answer conn cmd rid p fl cs ss err sv = Some sv' \<Longrightarrow>
   \<exists>r. reply conn cmd rid r \<and> sent sv' = sent sv @ [r] \<and> sv_queue sv' = sv_queue sv"
  by (auto simp: answer_def sendPacket_def reply_def) blast

lemma submit_effect:
  assumes "submitBusinessTask env nm task sv = (ok, sv')" "sv_poolRunning sv"
  shows "sent sv' = sent sv" "sv_queue sv' = sv_queue sv @ (if ok then [task] else [])"
  using assms by (auto simp: submitBusinessTask_def pool_submit_def handler_defs split: option.splits if_splits)

lemma gate_effect: "sent (snd (rate_gate env c sv)) = sent sv" "sv_queue (snd (rate_gate env c sv)) = sv_queue sv"
  "sv_poolRunning (snd (rate_gate env c sv)) = sv_poolRunning sv"
  by (simp_all add: rate_gate_def handler_defs)

lemma effects_effect:
  "apply_effects env es sv = Some sv' \<Longrightarrow>
   sent sv' = sent sv \<and> (\<exists>qs. sv_queue sv' = sv_queue sv @ qs \<and> list_all (\<lambda>t. task_reply t = None) qs)"
proof (induction es arbitrary: sv)
  case (Cons e es)
  from Cons.prems obtain sv1 where sv1: "apply_effect env e sv = Some sv1" "apply_effects env es sv1 = Some sv'"
    by (auto simp: bind_eq_Some_conv)
  have "sent sv1 = sent sv \<and> (\<exists>qs. sv_queue sv1 = sv_queue sv @ qs \<and> list_all (\<lambda>t. task_reply t = None) qs)"
  proof (cases e)
    case (Redis cmd)
    then show ?thesis using sv1(1) by (cases cmd) auto
  qed (use sv1(1) in \<open>auto simp: count_metric_def pool_submit_def split: if_splits\<close>)
  with Cons.IH [OF sv1(2)] show ?case by auto
qed simp

text \<open>An answer at once, or a task that owes it.\<close>

definition answered ::
    "conn_ref \<Rightarrow> u16 \<Rightarrow> u32 \<Rightarrow> ('h, 'w, 's) server \<Rightarrow> ('h, 'w, 's) server \<Rightarrow> bool" where
  "answered conn cmd rid sv sv' \<longleftrightarrow>
     (\<exists>r qs. reply conn cmd rid r \<and> sent sv' = sent sv @ [r] \<and> sv_queue sv' = sv_queue sv @ qs \<and>
        list_all (\<lambda>t. task_reply t = None) qs)"

definition owed :: "conn_ref \<Rightarrow> u16 \<Rightarrow> u32 \<Rightarrow> business_task \<Rightarrow> ('h, 'w, 's) server \<Rightarrow> ('h, 'w, 's) server \<Rightarrow> bool" where
  "owed conn cmd rid task sv sv' \<longleftrightarrow>
     task_reply task = Some (conn, cmd, rid) \<and> sent sv' = sent sv \<and> sv_queue sv' = sv_queue sv @ [task]"

lemma answer_answered:
  "answer conn cmd rid p fl cs ss err sv1 = Some sv' \<Longrightarrow> sent sv1 = sent sv \<Longrightarrow> sv_queue sv1 = sv_queue sv \<Longrightarrow>
   answered conn cmd rid sv sv'"
  using answer_sends [of conn cmd rid p fl cs ss err sv1 sv'] by (fastforce simp: answered_def)

text \<open>The end of a handler that submits a task and answers at once when the pool refuses it.\<close>

lemma submit_or_answer:
  assumes "(case submitBusinessTask env nm task sv1 of (ok, sv2) \<Rightarrow>
      if ok then Some sv2 else answer conn cmd rid p fl cs ss err sv2) = Some sv'"
    and "sv_poolRunning sv1" "sent sv1 = sent sv" "sv_queue sv1 = sv_queue sv" "task_reply task = Some (conn, cmd, rid)"
  shows "answered conn cmd rid sv sv' \<or> (\<exists>task. owed conn cmd rid task sv sv')"
proof -
  obtain ok sv2 where s: "submitBusinessTask env nm task sv1 = (ok, sv2)" by (rule prod.exhaust)
  note e = submit_effect [OF s assms(2)]
  show ?thesis
  proof (cases ok)
    case True
    with assms s e have "owed conn cmd rid task sv sv'" by (simp add: owed_def)
    then show ?thesis by blast
  next
    case False
    with assms(1) s have "answer conn cmd rid p fl cs ss err sv2 = Some sv'" by simp
    then have "answered conn cmd rid sv sv'" by (rule answer_answered) (use e assms False in simp_all)
    then show ?thesis ..
  qed
qed

lemma on_login_answered:
  assumes "on_login env conn rid message sv = Some sv'" "sv_poolRunning sv"
  shows "answered conn CmdLoginResp rid sv sv' \<or> (\<exists>task. owed conn CmdLoginResp rid task sv sv')"
proof (cases "decodeLoginReq env message")
  case None
  with assms(1) show ?thesis by (auto simp: on_login_def intro: answer_answered)
next
  case (Some req)
  let ?sv = "count_metric ''im_login_qps'' ''Inbound login request count'' sv"
  have "(case submitBusinessTask env ''login'' (LoginTask conn rid req) ?sv of (ok, sv2) \<Rightarrow>
      if ok then Some sv2 else answer conn CmdLoginResp rid (encodeLoginResp env (login_resp 1 ''server busy'' []))
        kFlagResponse 0 0 ErrServerBusy sv2) = Some sv'"
    using assms(1) Some by (simp add: on_login_def Let_def)
  then show ?thesis by (rule submit_or_answer) (use assms(2) in \<open>simp_all add: count_metric_def\<close>)
qed

lemma on_heartbeat_answered:
  assumes "on_heartbeat env conn rid sv = Some sv'"
  shows "answered conn CmdHeartbeatResp rid sv sv'"
proof -
  obtain t1 sv0 where c1: "clock env sv = (t1, sv0)" by (rule prod.exhaust)
  obtain t2 sv1 where c2: "clock env sv0 = (t2, sv1)" by (rule prod.exhaust)
  obtain hb ev where hb: "onHeartbeat t1 t2 conn (sv_heartbeat sv1) = (hb, ev)" by (rule prod.exhaust)
  have c: "sent sv1 = sent sv" "sv_queue sv1 = sv_queue sv"
    using clock_simps(12,15) [of env sv] clock_simps(12,15) [of env sv0] by (simp_all add: c1 c2)
  obtain sv2 where ev: "apply_effects env ev (sv1\<lparr>sv_heartbeat := hb\<rparr>) = Some sv2"
    and out: "(case clock env sv2 of (t3, sv3) \<Rightarrow> answer conn CmdHeartbeatResp rid
      (encodeHeartbeatResp env \<lparr>hresp_serverTime = t3\<rparr>) kFlagResponse 0 0 ErrOk sv3) = Some sv'"
    using assms by (auto simp: on_heartbeat_def c1 c2 hb bind_eq_Some_conv)
  obtain t3 sv3 where c3: "clock env sv2 = (t3, sv3)" by (rule prod.exhaust)
  with out have a: "answer conn CmdHeartbeatResp rid (encodeHeartbeatResp env \<lparr>hresp_serverTime = t3\<rparr>) kFlagResponse 0 0 ErrOk sv3 = Some sv'"
    by simp
  have "sent sv3 = sent sv2" "sv_queue sv3 = sv_queue sv2"
    using clock_simps(12,15) [of env sv2] by (simp_all add: c3)
  with effects_effect [OF ev] answer_sends [OF a] c show ?thesis by (auto simp: answered_def)
qed

lemma on_p2p_answered:
  assumes "on_p2p env conn rid message sv = Some sv'" "sv_poolRunning sv"
  shows "answered conn CmdP2pMsgResp rid sv sv' \<or> (\<exists>task. owed conn CmdP2pMsgResp rid task sv sv')"
proof -
  let ?sv = "count_metric ''im_p2p_qps'' ''Inbound p2p request count'' sv"
  consider (now) msg err sv1 where "answer conn CmdP2pMsgResp rid (encodeP2PResp env (p2p_resp 1 msg 0 0)) kFlagResponse 0 0 err sv1 = Some sv'"
      "sent sv1 = sent sv" "sv_queue sv1 = sv_queue sv"
    | (later) req u sv1 where "(case submitBusinessTask env ''p2p'' (P2PTask conn rid req u) sv1 of (ok, sv2) \<Rightarrow>
        if ok then Some sv2 else answer conn CmdP2pMsgResp rid (encodeP2PResp env (p2p_resp 1 ''server busy'' 0 0))
          kFlagResponse 0 0 ErrServerBusy sv2) = Some sv'" "sv_poolRunning sv1" "sent sv1 = sent sv" "sv_queue sv1 = sv_queue sv"
  proof (cases "decodeP2PReq env message")
    case None
    with assms(1) that(1) [of "''invalid p2p payload''" ErrInvalidPacket ?sv] show ?thesis
      by (simp add: on_p2p_def handler_defs)
  next
    case (Some req)
    show ?thesis
    proof (cases "current_user conn sv")
      case None
      with Some assms(1) that(1) [of "''unauthenticated''" ErrInvalidPacket ?sv] show ?thesis
        by (simp add: on_p2p_def handler_defs)
    next
      case (Some u)
      let ?sv1 = "snd (clock env (snd (clock env ?sv)))"
      let ?ov = "canSendMessage (fst (clock env ?sv)) (fst (clock env (snd (clock env ?sv)))) u (sv_overload ?sv)"
      let ?sv2 = "?sv1\<lparr>sv_overload := snd ?ov\<rparr>"
      have s: "sent ?sv2 = sent sv" "sv_queue ?sv2 = sv_queue sv" "sv_poolRunning ?sv2 = sv_poolRunning sv"
        by (simp_all add: count_metric_def)
      show ?thesis
      proof (cases "fst ?ov")
        case True
        with Some \<open>decodeP2PReq env message = Some req\<close> assms s that(2) [of req u ?sv2] show ?thesis
          by (simp add: on_p2p_def Let_def split_def count_metric_def)
      next
        case False
        with Some \<open>decodeP2PReq env message = Some req\<close> assms s that(1) [of "''user send rate limited''" ErrServerBusy ?sv2] show ?thesis
          by (simp add: on_p2p_def Let_def split_def count_metric_def)
      qed
    qed
  qed
  then show ?thesis
  proof cases
    case now
    then show ?thesis by (auto intro: answer_answered)
  next
    case later
    then show ?thesis by (rule submit_or_answer) simp
  qed
qed

lemma on_ack_answered:
  assumes "on_ack env conn rid message sv = Some sv'" "sv_poolRunning sv"
  shows "answered conn CmdMessageAckResp rid sv sv' \<or> (\<exists>task. owed conn CmdMessageAckResp rid task sv sv')"
proof (cases "\<exists>req u. decodeAckReq env message = Some req \<and> current_user conn sv = Some u")
  case True
  then obtain req u where r: "decodeAckReq env message = Some req" "current_user conn sv = Some u" by blast
  have "(case submitBusinessTask env ''ack'' (AckTask conn rid req u) sv of (ok, sv2) \<Rightarrow>
      if ok then Some sv2 else answer conn CmdMessageAckResp rid (encodeAckResp env (ack_resp 1 ''server busy'' 0))
        (kFlagResponse OR kFlagAck) (areq_msgId req) 0 ErrServerBusy sv2) = Some sv'"
    using assms(1) r by (simp add: on_ack_def Let_def)
  then show ?thesis by (rule submit_or_answer) (use assms(2) in simp_all)
next
  case False
  with assms(1) show ?thesis by (auto simp: on_ack_def Let_def split: option.splits intro: answer_answered)
qed

lemma on_pull_answered:
  assumes "on_pull env conn rid message sv = Some sv'" "sv_poolRunning sv"
  shows "answered conn CmdPullOfflineResp rid sv sv' \<or> (\<exists>task. owed conn CmdPullOfflineResp rid task sv sv')"
proof (cases "\<exists>req u. decodePullReq env message = Some req \<and> current_user conn sv = Some u")
  case True
  then obtain req u where r: "decodePullReq env message = Some req" "current_user conn sv = Some u" by blast
  have "(case submitBusinessTask env ''pull_offline'' (PullTask conn rid req u) sv of (ok, sv2) \<Rightarrow>
      if ok then Some sv2 else answer conn CmdPullOfflineResp rid (encodePullResp env (pull_resp 1 ''server busy'' 0 []))
        kFlagResponse 0 0 ErrServerBusy sv2) = Some sv'"
    using assms(1) r by (simp add: on_pull_def Let_def)
  then show ?thesis by (rule submit_or_answer) (use assms(2) in simp_all)
next
  case False
  with assms(1) show ?thesis by (auto simp: on_pull_def Let_def split: option.splits intro: answer_answered)
qed

lemma packet_answered:
  assumes "onPacket env conn header message sv = Some sv'" "sv_poolRunning sv" "response_to (h_command header) = Some cmd"
  shows "answered conn cmd (h_requestId header) sv sv' \<or> (\<exists>task. owed conn cmd (h_requestId header) task sv sv')"
proof -
  let ?sv = "snd (rate_gate env (h_command header) sv)"
  note gate = gate_effect [of env "h_command header" sv]
  have "answered conn cmd (h_requestId header) ?sv sv' \<or> (\<exists>task. owed conn cmd (h_requestId header) task ?sv sv')"
  proof (cases "fst (rate_gate env (h_command header) sv)")
    case False
    then have "h_command header = CmdLoginReq \<or> h_command header = CmdP2pMsgReq \<or> h_command header = CmdBroadcastMsgReq"
      by (auto simp: rate_gate_def split: if_splits)
    with False assms(1,3) show ?thesis
      by (auto simp: onPacket_def split_def rate_limited_def response_to_def Cmd_defs split: if_splits intro: answer_answered)
  next
    case True
    with assms(1) have d: "dispatch env conn (h_command header) (h_requestId header) message ?sv = Some sv'"
      by (simp add: onPacket_def split_def)
    have run: "sv_poolRunning ?sv" using assms(2) gate(3) by simp
    have "CmdKickUserReq \<noteq> CmdBroadcastMsgReq" by (simp add: Cmd_defs)
    with d assms(3) run show ?thesis
      by (auto simp: dispatch_def response_to_def on_kick_def split: if_splits option.splits
        intro: answer_answered on_heartbeat_answered
        dest: on_login_answered on_p2p_answered on_ack_answered on_pull_answered)
  qed
  then show ?thesis by (simp add: answered_def owed_def gate)
qed

text \<open>What a task sends.\<close>

definition one_reply :: "conn_ref \<times> u16 \<times> u32 \<Rightarrow> ('h, 'w, 's) server \<Rightarrow> ('h, 'w, 's) server \<Rightarrow> bool" where
  "one_reply to sv sv' \<longleftrightarrow>
     (\<exists>pre r post. sent sv' = sent sv @ pre @ [r] @ post \<and> reply (fst to) (fst (snd to)) (snd (snd to)) r \<and>
        list_all notification (pre @ post))"

lemma notification_packet: "notification (conn, notify_packet env svc m)"
  by (auto simp: notification_def notify_packet_def)

lemma deliverLocked_notifies:
  "\<exists>ns. sends (w_log (snd (snd (snd (deliverLocked env ops svc conn m s w))))) = sends (w_log w) @ ns \<and> list_all notification ns"
proof (cases "e_connected env (w_tick w) conn")
  case True
  then show ?thesis
    by (intro exI [of _ "[(conn, notify_packet env svc m)]"])
      (simp add: deliverLocked_def MessageService.connected_def GetTimestamp_def Let_def notification_packet [unfolded notify_packet_def] notify_packet_def emit_def
        split: prod.splits sum.splits)
qed (simp add: deliverLocked_def MessageService.connected_def)

lemma deliverPending_notifies:
  "\<exists>ns. sends (w_log (snd (deliverPendingMessages env ops svc u s w))) = sends (w_log w) @ ns \<and> list_all notification ns"
proof (cases "ms_hasStore svc")
  case True
  have loop: "\<exists>ns. sends (w_log (snd (deliver_loop env ops svc conn now ms s1 w1))) = sends (w_log w1) @ ns \<and> list_all notification ns"
    for conn now ms s1 w1
  proof -
    obtain s2 w2 where d: "deliver_loop env ops svc conn now ms s1 w1 = (s2, w2)" by (rule prod.exhaust)
    from deliver_loop_sends [OF True d] d show ?thesis by (auto simp: list_all_iff notification_packet)
  qed
  show ?thesis
  proof (cases "map_of (ms_userToConn svc) u")
    case (Some conn)
    let ?w1 = "snd (MessageService.connected env conn w)"
    let ?l = "st_last ops u s"
    let ?p = "st_load ops u (fst ?l) (ms_retryBatchSize svc) (snd ?l)"
    from Some True loop [of conn "fst (GetTimestamp env ?w1)" "fst (fst ?p)" "snd ?p" "snd (GetTimestamp env ?w1)"] show ?thesis
      by (auto simp: deliverPendingMessages_def Let_def split_def)
  qed (simp add: deliverPendingMessages_def)
qed (simp add: deliverPendingMessages_def)

lemma sendReliable_notifies:
  "\<exists>ns. sends (w_log (snd (snd (snd (snd (sendReliableP2PMessage env ops svc u v c body s w)))))) = sends (w_log w) @ ns \<and>
     list_all notification ns"
proof -
  let ?r = "\<lparr>cr_fromUserId = u, cr_toUserId = v, cr_clientMsgId = c, cr_content = body, cr_timestamp = fst (GetTimestamp env w)\<rparr>"
  let ?w1 = "snd (GetTimestamp env w)"
  show ?thesis
  proof (cases "ms_hasStore svc")
    case True
    show ?thesis
    proof (cases "fst (st_save ops ?r s)")
      case (Inl e)
      with True show ?thesis by (simp add: sendReliableP2PMessage_def Let_def split_def)
    next
      case (Inr stored)
      show ?thesis
      proof (cases "map_of (ms_userToConn svc) v")
        case None
        with True Inr show ?thesis by (simp add: sendReliableP2PMessage_def Let_def split_def)
      next
        case (Some conn)
        with True Inr deliverLocked_notifies [of env ops svc conn "fst stored" "snd (st_save ops ?r s)"
            "snd (MessageService.connected env conn ?w1)"]
        show ?thesis by (simp add: sendReliableP2PMessage_def Let_def split_def)
      qed
    qed
  qed (simp add: sendReliableP2PMessage_def)
qed

lemma run_p2p_reply:
  assumes "run_p2p env conn rid req u sv = Some sv'"
  shows "one_reply (conn, CmdP2pMsgResp, rid) sv sv'"
proof -
  obtain remote sv1 where r: "remote_route env (preq_toUserId req) sv = Some (remote, sv1)"
    and out: "(if remote
     then answer conn CmdP2pMsgResp rid (encodeP2PResp env (p2p_resp 1 ''remote forwarding not enabled'' 0 0))
            kFlagResponse 0 0 ErrServerBusy sv1
     else send_p2p env conn rid req u sv1) = Some sv'"
    using assms by (auto simp: run_p2p_def bind_eq_Some_conv)
  have sv1: "sent sv1 = sent sv" using r by (auto simp: remote_route_def bind_eq_Some_conv split: if_splits)
  show ?thesis
  proof (cases remote)
    case True
    with out answer_sends sv1 show ?thesis by (fastforce simp: one_reply_def)
  next
    case False
    define d where "d = sendReliableP2PMessage (sn_outside env) (sn_store env) (sv_message sv1) u (preq_toUserId req)
             (preq_clientMsgId req) (preq_content req) (sv_store sv1) (sv_world sv1)"
    obtain ns where ns: "sends (w_log (snd (snd (snd (snd d))))) = sent sv1 @ ns" "list_all notification ns"
      using sendReliable_notifies [of "sn_outside env" "sn_store env" "sv_message sv1" u "preq_toUserId req"
        "preq_clientMsgId req" "preq_content req" "sv_store sv1" "sv_world sv1"] unfolding d_def by blast
    from out False obtain p fl cs ss err where
      "answer conn CmdP2pMsgResp rid p fl cs ss err (sv1\<lparr>sv_store := fst (snd (snd (snd d))), sv_world := snd (snd (snd (snd d)))\<rparr>) = Some sv'"
      by (auto simp: send_p2p_def d_def [symmetric] Let_def split_def)
    from answer_sends [OF this] obtain r where "reply conn CmdP2pMsgResp rid r" "sent sv' = sent sv @ ns @ [r]"
      using ns(1) sv1 by auto
    with ns(2) show ?thesis
      unfolding one_reply_def by (intro exI [of _ ns] exI [of _ r] exI [of _ "[]"]) simp
  qed
qed

lemma answer_one_reply:
  "answer conn cmd rid p fl cs ss err sv1 = Some sv' \<Longrightarrow> sent sv1 = sent sv \<Longrightarrow> one_reply (conn, cmd, rid) sv sv'"
  using answer_sends [of conn cmd rid p fl cs ss err sv1 sv'] unfolding one_reply_def by fastforce

lemma run_ack_reply:
  assumes "run_ack env conn rid req u sv = Some sv'"
  shows "one_reply (conn, CmdMessageAckResp, rid) sv sv'"
proof -
  define d where "d = processAck (sn_outside env) (sn_store env) (sv_message sv) u (areq_msgId req) (areq_serverSeq req)
    (areq_ackCode req) (sv_store sv) (sv_world sv)"
  have "sends (w_log (snd (snd (snd d)))) = sent sv"
    by (auto simp: d_def processAck_def Let_def split_def split: sum.splits)
  moreover obtain p fl cs ss err where
    "answer conn CmdMessageAckResp rid p fl cs ss err (sv\<lparr>sv_store := fst (snd (snd d)), sv_world := snd (snd (snd d))\<rparr>) = Some sv'"
    using assms by (auto simp: run_ack_def d_def [symmetric] split_def)
  ultimately show ?thesis by (auto intro: answer_one_reply)
qed

lemma run_pull_reply:
  "run_pull env conn rid req u sv = Some sv' \<Longrightarrow> one_reply (conn, CmdPullOfflineResp, rid) sv sv'"
  by (auto simp: run_pull_def Let_def split_def intro: answer_one_reply)

lemma after_login_notifies:
  assumes "after_login env conn u sid sv = Some sv'"
  shows "\<exists>ns. sent sv' = sent sv @ ns \<and> list_all notification ns"
proof -
  obtain r au b where bind: "bindSessionToNode (sn_auth env) sid (sn_nodeId env) (sv_auth sv, sv_backend sv) = Some (r, au, b)"
    using assms by (auto simp: after_login_def bind_eq_Some_conv)
  define sv1 where "sv1 = sv\<lparr>sv_auth := au, sv_backend := b, sv_message := registerConnection u conn (sv_message sv)\<rparr>"
  define d where "d = deliverPendingMessages (sn_outside env) (sn_store env) (registerConnection u conn (sv_message sv)) u
    (sv_store sv) (sv_world sv)"
  define sv2 where "sv2 = snd (clock env (snd (clock env (sv1\<lparr>sv_store := fst d, sv_world := snd d\<rparr>))))"
  obtain ns where ns: "sends (w_log (snd d)) = sent sv @ ns" "list_all notification ns"
    using deliverPending_notifies [of "sn_outside env" "sn_store env" "registerConnection u conn (sv_message sv)" u
      "sv_store sv" "sv_world sv"] unfolding d_def by blast
  have sv2: "sent sv2 = sent sv @ ns" using ns(1) by (simp add: sv2_def)
  obtain hb ev sv3 where ev: "apply_effects env ev (sv2\<lparr>sv_heartbeat := hb\<rparr>) = Some sv3" and "sent sv' = sent sv3"
    using assms bind
    by (auto simp: after_login_def bind_eq_Some_conv Let_def split_def sv1_def [symmetric] d_def [symmetric] sv2_def [symmetric]
        split: if_splits)
  with effects_effect [OF ev] sv2 ns(2) show ?thesis by auto
qed

lemma run_login_reply:
  assumes "run_login env conn rid req sv = Some sv'"
  shows "one_reply (conn, CmdLoginResp, rid) sv sv'"
proof -
  obtain t1 sv0 where c1: "clock env sv = (t1, sv0)" by (rule prod.exhaust)
  obtain t2 sv1 where c2: "clock env sv0 = (t2, sv1)" by (rule prod.exhaust)
  have sv1: "sent sv1 = sent sv" using clock_simps(15) [of env sv] clock_simps(15) [of env sv0] by (simp add: c1 c2)
  obtain success sid p err au b sv2 where
    a: "answer conn CmdLoginResp rid p kFlagResponse 0 0 err (sv1\<lparr>sv_auth := au, sv_backend := b\<rparr>) = Some sv2"
    and out: "(if success then after_login env conn (lreq_userId req) sid sv2 else Some sv2) = Some sv'"
    using assms by (auto simp: run_login_def bind_eq_Some_conv c1 c2)
  obtain r where r: "reply conn CmdLoginResp rid r" "sent sv2 = sent sv @ [r]" using answer_sends [OF a] sv1 by auto
  obtain ns where "sent sv' = sent sv2 @ ns" "list_all notification ns"
    using out after_login_notifies by (cases success) fastforce+
  with r show ?thesis unfolding one_reply_def by (intro exI [of _ "[]"] exI [of _ r] exI [of _ ns]) simp
qed

lemma task_one_reply: "run_business env task sv = Some sv' \<Longrightarrow> task_reply task = Some to \<Longrightarrow> one_reply to sv sv'"
  by (cases task) (auto simp: run_business_def intro: run_login_reply run_p2p_reply run_ack_reply run_pull_reply)



end
