(* ===== verification/ServerLimits.thy ===== *)
theory ServerLimits
  imports ServerSafety
begin

text \<open>
  The protections of the server in composition: what the message rate, the connection cap, the breaker
  and the bounded queue do once the callbacks of \<open>server_full.cpp\<close> drive them.
\<close>

section \<open>The overload protection under the handlers\<close>

lemma overload_answer: "answer conn cmd rid p fl cs ss err sv = Some sv' \<Longrightarrow> sv_overload sv' = sv_overload sv"
  by (auto simp: answer_def sendPacket_def)

lemma overload_pool: "pool_submit t sv = Some sv' \<Longrightarrow> sv_overload sv' = sv_overload sv"
  by (auto simp: pool_submit_def split: if_splits)

lemma overload_submit [simp]: "sv_overload (snd (submitBusinessTask env nm t sv)) = sv_overload sv"
  by (auto simp: submitBusinessTask_def handler_defs split: option.splits dest: overload_pool)

lemma overload_command: "redis_command env cmd sv = Some sv' \<Longrightarrow> sv_overload sv' = sv_overload sv"
  by (cases cmd) auto

lemma overload_commands: "redis_commands env cmds sv = Some sv' \<Longrightarrow> sv_overload sv' = sv_overload sv"
proof (induction cmds arbitrary: sv)
  case (Cons cmd cmds)
  then obtain sv1 where "redis_command env cmd sv = Some sv1" "redis_commands env cmds sv1 = Some sv'"
    by (auto simp: bind_eq_Some_conv)
  with Cons.IH overload_command show ?case by metis
qed simp

lemma overload_effects: "apply_effects env es sv = Some sv' \<Longrightarrow> sv_overload sv' = sv_overload sv"
proof (induction es arbitrary: sv)
  case (Cons e es)
  from Cons.prems obtain sv1 where sv1: "apply_effect env e sv = Some sv1" "apply_effects env es sv1 = Some sv'"
    by (auto simp: bind_eq_Some_conv)
  have "sv_overload sv1 = sv_overload sv"
    by (cases e) (use sv1(1) in \<open>auto simp: count_metric_def dest: overload_pool overload_command\<close>)
  with Cons.IH [OF sv1(2)] show ?case by simp
qed simp

lemma overload_on_heartbeat:
  assumes "on_heartbeat env conn rid sv = Some sv'"
  shows "sv_overload sv' = sv_overload sv"
proof -
  obtain hb ev sv1 sv2 t where "apply_effects env ev (sv1\<lparr>sv_heartbeat := hb\<rparr>) = Some sv2" "sv_overload sv1 = sv_overload sv"
    and a: "answer conn CmdHeartbeatResp rid (encodeHeartbeatResp env \<lparr>hresp_serverTime = t\<rparr>)
      kFlagResponse 0 0 ErrOk (snd (clock env sv2)) = Some sv'"
    using assms by (fastforce simp: on_heartbeat_def handler_defs bind_eq_Some_conv)
  with overload_effects overload_answer [OF a] show ?thesis by fastforce
qed

lemma overload_run_p2p: "run_p2p env conn rid req u sv = Some sv' \<Longrightarrow> sv_overload sv' = sv_overload sv"
  by (auto simp: run_p2p_def remote_route_def send_p2p_def bind_eq_Some_conv Let_def split_def
      split: if_splits dest!: overload_answer)

lemma overload_after_login:
  assumes "after_login env conn u sid sv = Some sv'"
  shows "sv_overload sv' = sv_overload sv"
proof -
  obtain ev sv1 sv2 where ev: "apply_effects env ev sv1 = Some sv2" "sv_overload sv1 = sv_overload sv" "sv_overload sv' = sv_overload sv2"
    using assms by (fastforce simp: after_login_def bind_eq_Some_conv Let_def split_def split: if_splits)
  with overload_effects [OF ev(1)] show ?thesis by simp
qed

lemma overload_run_login:
  assumes "run_login env conn rid req sv = Some sv'"
  shows "sv_overload sv' = sv_overload sv"
proof -
  obtain success sid p err sv1 sv2 where
    a: "answer conn CmdLoginResp rid p kFlagResponse 0 0 err sv1 = Some sv2" "sv_overload sv1 = sv_overload sv"
    and out: "(if success then after_login env conn (lreq_userId req) sid sv2 else Some sv2) = Some sv'"
    using assms by (fastforce simp: run_login_def bind_eq_Some_conv Let_def split_def)
  from overload_answer [OF a(1)] a(2) overload_after_login out show ?thesis by (fastforce split: if_splits)
qed

lemma overload_run_business: "run_business env task sv = Some sv' \<Longrightarrow> sv_overload sv' = sv_overload sv"
  by (cases task)
    (auto simp: run_business_def run_ack_def run_pull_def bind_eq_Some_conv Let_def split_def
      dest!: overload_run_login overload_run_p2p overload_answer overload_commands)

lemma overload_forget: "forget_user env conn sv = Some sv' \<Longrightarrow> sv_overload sv' = sv_overload sv"
  by (auto simp: forget_user_def Let_def bind_eq_Some_conv split: option.splits if_splits)

text \<open>
  A view of the overload protection that the operations the handlers call leave as it is, the command
  rate limit apart: the server changes it only where a packet passes that limit.
\<close>

locale overload_view =
  fixes view :: "OverloadProtectService \<Rightarrow> 'p"
  assumes send_view [simp]: "view (snd (canSendMessage t1 t2 u ov)) = view ov"
    and accept_view [simp]: "view (snd (canAcceptConnection_ip t1 t2 ip ov)) = view ov"
    and accepted_view [simp]: "view (onConnectionAccepted ov) = view ov"
    and closed_view [simp]: "view (onConnectionClosed ov) = view ov"
begin

abbreviation part :: "('h, 'w, 's) server \<Rightarrow> 'p" where
  "part sv \<equiv> view (sv_overload sv)"

lemma part_on_p2p: "on_p2p env conn rid message sv = Some sv' \<Longrightarrow> part sv' = part sv"
  by (auto simp: on_p2p_def handler_defs split: option.splits if_splits dest!: overload_answer)

lemma part_dispatch:
  assumes "dispatch env conn c rid message sv = Some sv'"
  shows "part sv' = part sv"
proof (cases "c = CmdP2pMsgReq \<or> c = CmdHeartbeatReq")
  case True
  with assms show ?thesis by (auto simp: dispatch_def Cmd_defs dest!: part_on_p2p overload_on_heartbeat)
next
  case False
  with assms have "sv_overload sv' = sv_overload sv"
    by (auto simp: dispatch_def on_login_def on_ack_def on_pull_def on_broadcast_def on_kick_def count_metric_def Let_def
        split_def split: if_splits option.splits dest!: overload_answer)
  then show ?thesis by simp
qed

lemma part_packet: "onPacket env conn header message sv = Some sv' \<Longrightarrow> part sv' = part (snd (rate_gate env (h_command header) sv))"
  by (auto simp: onPacket_def split_def rate_limited_def split: if_splits dest!: part_dispatch overload_answer)

lemma part_up: "onConnectionUp env conn ip sv = Some sv' \<Longrightarrow> part sv' = part sv"
  by (auto simp: onConnectionUp_def handler_defs split: if_splits dest!: overload_effects)

lemma part_down:
  assumes "onConnectionDown env conn sv = Some sv'"
  shows "part sv' = part sv"
proof -
  obtain ev sv1 sv2 sv3 where "apply_effects env ev sv1 = Some sv2" "part sv1 = part sv" "forget_user env conn sv2 = Some sv3"
    "sv' = snd (submitBusinessTask env ''logout'' (LogoutTask conn) sv3)"
    using assms by (fastforce simp: onConnectionDown_def handler_defs bind_eq_Some_conv)
  with overload_effects overload_forget show ?thesis by (metis overload_submit)
qed

lemma part_do:
  assumes "server_do env sv a = Some sv'"
  shows "part sv' = part sv \<or> (\<exists>c. part sv' = part (snd (rate_gate env c sv)))"
proof (cases a)
  case (PacketIn conn header message)
  with assms part_packet show ?thesis by fastforce
next
  case RunTask
  with assms overload_run_business show ?thesis by (fastforce split: list.splits)
qed (use assms in \<open>auto simp: onHighWaterMark_def onWriteComplete_def heartbeat_thread_def retry_thread_def handler_defs
    dest!: part_up part_down overload_effects\<close>)

end

section \<open>The message rate is never enforced\<close>

definition rate_view :: "OverloadProtectService \<Rightarrow> u64 \<times> u64 \<times> bool" where
  "rate_view ov = (ov_messageCount ov, ov_maxQps ov, ov_rateLimitEnabled ov)"

interpretation rates: overload_view rate_view
  by unfold_locales
    (simp_all add: rate_view_def canSendMessage_def canAcceptConnection_ip_def onConnectionAccepted_def
      onConnectionClosed_def Let_def split_def)

lemma gate_open:
  assumes "rate_view (sv_overload sv) = (0, q, False)" "0 < q"
  shows "fst (rate_gate env c sv) \<and> rate_view (sv_overload (snd (rate_gate env c sv))) = (0, q, False)"
  using assms by (simp add: rate_gate_def rate_view_def canProcessCommand_def canProcessMessage_def Let_def split_def)

definition rate_idle :: "u64 \<Rightarrow> ('h, 'w, 's) server option \<Rightarrow> bool" where
  "rate_idle q x \<longleftrightarrow> (case x of None \<Rightarrow> True | Some sv \<Rightarrow> rate_view (sv_overload sv) = (0, q, False))"

lemma rate_idle_step:
  assumes "rate_idle q x" "0 < q"
  shows "rate_idle q (server_step env x a)"
proof (cases "server_step env x a")
  case (Some sv')
  then obtain sv where sv: "x = Some sv" "server_do env sv a = Some sv'" by (auto simp: server_step_def bind_eq_Some_conv)
  with assms rates.part_do [OF sv(2)] gate_open [of sv q env] Some show ?thesis by (auto simp: rate_idle_def)
qed (simp add: rate_idle_def)

lemma rate_idle_run: "rate_idle q x \<Longrightarrow> 0 < q \<Longrightarrow> rate_idle q (run (server_step env) x ops)"
  by (induction ops arbitrary: x) (simp_all add: rate_idle_step)

text \<open>
  No handler calls \<open>onMessageProcessed\<close>, so the message count stays at zero:
  whatever the load, with the per-command limits switched off and a positive \<open>max_qps\<close>, no packet of
  any history is ever refused by the rate limit, and \<open>max_qps\<close> has no effect.
\<close>

theorem qps_never_enforced:
  assumes "ov_messageCount (sv_overload sv0) = 0" "0 < ov_maxQps (sv_overload sv0)"
    and "\<not> ov_rateLimitEnabled (sv_overload sv0)" "run (server_step env) (Some sv0) ops = Some sv"
  shows "fst (rate_gate env command sv) \<and> getCurrentQps (sv_overload sv) = 0"
proof -
  let ?q = "ov_maxQps (sv_overload sv0)"
  have "rate_idle ?q (Some sv0)" using assms(1,3) by (simp add: rate_idle_def rate_view_def)
  from rate_idle_run [OF this assms(2), of env ops] assms(4)
  have "rate_view (sv_overload sv) = (0, ?q, False)" by (simp add: rate_idle_def)
  with gate_open [OF this assms(2), of env command] show ?thesis by (simp add: rate_view_def getCurrentQps_def)
qed

theorem qps_never_enforced_witness:
  "\<exists>sv. run (server_step demo_env) (Some demo_server) demo_ops = Some sv \<and> fst (rate_gate demo_env CmdP2pMsgReq sv)"
proof -
  obtain sv where sv: "run (server_step demo_env) (Some demo_server) demo_ops = Some sv" using demo_run by blast
  have "fst (rate_gate demo_env CmdP2pMsgReq sv)"
    using qps_never_enforced [OF _ _ _ sv, of CmdP2pMsgReq] by (simp add: demo_server_def OverloadProtectService_init_def)
  with sv show ?thesis by blast
qed

section \<open>The connection cap lets rejected connections make room\<close>

text \<open>
  The callback counts a closing connection out whether or not
  it was ever counted in. With the server full, a connection is refused; when it is then closed the
  counter drops below the number of connections inside, and the next connection is let in: each refused
  connection makes room for one above the cap.
\<close>

theorem rejected_connection_makes_room:
  assumes "ov_currentConnections (sv_overload sv) = ov_maxConnections (sv_overload sv)" "0 < ov_maxConnections (sv_overload sv)"
    and "\<not> ov_rateLimitEnabled (sv_overload sv)"
    and up: "onConnectionUp env b ip sv = Some sv1" and down: "onConnectionDown env b sv1 = Some sv2"
    and next_up: "onConnectionUp env c ip' sv2 = Some sv3"
  shows "sv_forceClosed sv1 = sv_forceClosed sv @ [b] \<and> sv_forceClosed sv3 = sv_forceClosed sv2 \<and>
    ov_currentConnections (sv_overload sv2) = ov_maxConnections (sv_overload sv) - 1"
proof -
  have rej: "sv_forceClosed sv1 = sv_forceClosed sv @ [b]" "sv_overload sv1 = sv_overload sv"
    using up assms(1) by (auto simp: onConnectionUp_def canAcceptConnection_ip_def canAcceptConnection_def handler_defs)
  obtain ev w1 w2 w3 where e: "apply_effects env ev w1 = Some w2" "sv_overload w1 = onConnectionClosed (sv_overload sv1)"
    "forget_user env b w2 = Some w3" "sv2 = snd (submitBusinessTask env ''logout'' (LogoutTask b) w3)"
    using down by (fastforce simp: onConnectionDown_def handler_defs bind_eq_Some_conv)
  have ov: "sv_overload sv2 = onConnectionClosed (sv_overload sv)"
    using overload_effects [OF e(1)] overload_forget [OF e(3)] e(2,4) rej(2) by simp
  have "m - 1 < m" if "0 < m" for m :: u64
    using that by (simp add: word_less_nat_alt unat_minus_one word_gt_0 unat_gt_0)
  with ov assms(1,2) have "canAcceptConnection (sv_overload sv2)"
    by (simp add: canAcceptConnection_def onConnectionClosed_def)
  with ov assms(3) next_up have "sv_forceClosed sv3 = sv_forceClosed sv2"
    by (auto simp: onConnectionUp_def canAcceptConnection_ip_def onConnectionClosed_def onConnection_def handler_defs)
  with rej ov assms(1) show ?thesis by (simp add: onConnectionClosed_def)
qed

definition full_server :: "(unit, string \<rightharpoonup> string, InMemoryMessageStore) server" where
  "full_server = demo_server\<lparr>sv_overload := (OverloadProtectService_init 1000 1 1000)\<lparr>ov_currentConnections := 1\<rparr>\<rparr>"

theorem rejected_connection_makes_room_witness:
  "\<exists>sv1 sv2 sv3. onConnectionUp demo_env conn_a ''10.0.0.1'' full_server = Some sv1 \<and>
     onConnectionDown demo_env conn_a sv1 = Some sv2 \<and> onConnectionUp demo_env conn_b ''10.0.0.2'' sv2 = Some sv3 \<and>
     sv_forceClosed sv3 = sv_forceClosed sv2"
proof -
  have full: "ov_currentConnections (sv_overload full_server) = ov_maxConnections (sv_overload full_server)"
    "0 < ov_maxConnections (sv_overload full_server)" "\<not> ov_rateLimitEnabled (sv_overload full_server)"
    by (simp_all add: full_server_def OverloadProtectService_init_def)
  note eval = full_server_def demo_defs onConnectionUp_def onConnectionDown_def canAcceptConnection_ip_def canAcceptConnection_def
    online_gauge_def onConnection_def onConnection_down_def onConnection_up_def forget_def forget_user_def current_user_def
    getUserContext_def onConnectionClosed_def onConnectionAccepted_def
  obtain sv1 where sv1: "onConnectionUp demo_env conn_a ''10.0.0.1'' full_server = Some sv1" by (simp add: eval)
  obtain sv2 where sv2: "onConnectionDown demo_env conn_a sv1 = Some sv2" using sv1 by (auto simp: eval)
  obtain sv3 where sv3: "onConnectionUp demo_env conn_b ''10.0.0.2'' sv2 = Some sv3" using sv1 sv2 by (auto simp: eval)
  from rejected_connection_makes_room [OF full sv1 sv2 sv3] sv1 sv2 sv3 show ?thesis by blast
qed

section \<open>The breaker is closed by the tasks it does not hold back\<close>

lemma submit_accepted:
  assumes "nm = ''login'' \<or> nm = ''ack''" "\<not> sv_poolRunning sv \<or> sv_maxQueueSize sv = 0 \<or> length (sv_queue sv) < sv_maxQueueSize sv"
  shows "fst (submitBusinessTask env nm task sv)" "cb_state (sv_breaker (snd (submitBusinessTask env nm task sv))) = Closed"
  using assms by (auto simp: submitBusinessTask_def pool_submit_def handler_defs recordSuccess_def)

text \<open>
  Log-ins and acknowledgements are submitted even when the breaker is
  open, and every submission that the pool accepts is recorded as a success: so an open breaker, at
  whatever time it opened, is closed by the next well-formed log-in request for which the queue has
  room, and the pause \<open>half_open_after_ms\<close> is cut short.
\<close>

theorem login_closes_breaker:
  assumes "h_command header = CmdLoginReq" "decodeLoginReq env message = Some req" "fst (rate_gate env CmdLoginReq sv)"
    and "sv_maxQueueSize sv = 0 \<or> length (sv_queue sv) < sv_maxQueueSize sv"
  shows "\<exists>sv'. onPacket env conn header message sv = Some sv' \<and> \<not> isOpen (sv_breaker sv')"
proof -
  let ?sv = "count_metric ''im_login_qps'' ''Inbound login request count'' (snd (rate_gate env CmdLoginReq sv))"
  let ?s = "submitBusinessTask env ''login'' (LoginTask conn (h_requestId header) req) ?sv"
  have "sv_maxQueueSize ?sv = sv_maxQueueSize sv" "sv_queue ?sv = sv_queue sv"
    by (simp_all add: count_metric_def rate_gate_def Let_def split_def)
  with assms(4) submit_accepted [of "''login''" ?sv env] have "fst ?s" "cb_state (sv_breaker (snd ?s)) = Closed" by simp_all
  with assms(1-3) show ?thesis
    by (auto simp: onPacket_def dispatch_def on_login_def Let_def split_def isOpen_def)
qed

theorem login_closes_breaker_witness:
  "isOpen (recordFailure 1000 (CircuitBreaker_init True 1 5000)) \<and>
   (\<exists>sv'. onPacket demo_env conn_a (PacketHeader_default\<lparr>h_command := CmdLoginReq\<rparr>) ''ann''
      (demo_server\<lparr>sv_breaker := recordFailure 1000 (CircuitBreaker_init True 1 5000)\<rparr>) = Some sv' \<and> \<not> isOpen (sv_breaker sv'))"
proof -
  let ?sv = "demo_server\<lparr>sv_breaker := recordFailure 1000 (CircuitBreaker_init True 1 5000)\<rparr>"
  have "fst (rate_gate demo_env CmdLoginReq ?sv)" "sv_maxQueueSize ?sv = 0 \<or> length (sv_queue ?sv) < sv_maxQueueSize ?sv"
    by (simp_all add: demo_defs)
  moreover have "decodeLoginReq demo_env ''ann'' = Some \<lparr>lreq_userId = ''ann'', lreq_token = ''valid_token_ann'', lreq_deviceId = []\<rparr>"
    by (simp add: demo_defs)
  ultimately show ?thesis
    using login_closes_breaker [of "PacketHeader_default\<lparr>h_command := CmdLoginReq\<rparr>" demo_env "''ann''" _ ?sv conn_a]
    by (auto simp: isOpen_def recordFailure_def CircuitBreaker_init_def Let_def)
qed

section \<open>A full queue ends the event loop\<close>

text \<open>
  With Redis in use the heartbeat service hands its Redis commands to the
  pool, and nobody on the way from there to the event loop catches the exception \<open>ThreadPool::submit\<close>
  throws when the queue is full: while it is, the heartbeat of a logged-in connection and the closing of
  one end the loop and with it the server.
\<close>

theorem full_queue_throws:
  assumes "hb_useRedis (sv_heartbeat sv)" "hb_hasThreadPool (sv_heartbeat sv)"
    and "map_of (hb_connToUser (sv_heartbeat sv)) (connId conn) = Some u" "u \<noteq> []"
    and "sv_poolRunning sv" "0 < sv_maxQueueSize sv" "sv_maxQueueSize sv \<le> length (sv_queue sv)"
  shows "onPacket env conn (PacketHeader_default\<lparr>h_command := CmdHeartbeatReq, h_requestId := rid\<rparr>) message sv = None \<and>
    onConnectionDown env conn sv = None"
proof
  show "onPacket env conn (PacketHeader_default\<lparr>h_command := CmdHeartbeatReq, h_requestId := rid\<rparr>) message sv = None"
    using assms
    by (simp add: onPacket_def rate_gate_def dispatch_def Cmd_defs on_heartbeat_def onHeartbeat_def modify_health_def
        refreshOnlineStatusAsync_def pool_submit_def Let_def split_def split: option.splits)
  show "onConnectionDown env conn sv = None"
    using assms
    by (simp add: onConnectionDown_def onConnection_def onConnection_down_def updateOnlineStatusAsync_def
        pool_submit_def online_gauge_def Let_def split_def)
qed

theorem full_queue_throws_witness:
  "onPacket demo_env conn_a (PacketHeader_default\<lparr>h_command := CmdHeartbeatReq, h_requestId := 5\<rparr>) []
     (demo_server\<lparr>sv_heartbeat := (HeartbeatService_init 30 10)\<lparr>hb_useRedis := True, hb_hasThreadPool := True,
        hb_connToUser := [(connId conn_a, ''ann'')]\<rparr>, sv_maxQueueSize := 1, sv_queue := [LogoutTask conn_b]\<rparr>) = None"
  using full_queue_throws [of "demo_server\<lparr>sv_heartbeat := (HeartbeatService_init 30 10)\<lparr>hb_useRedis := True, hb_hasThreadPool := True,
        hb_connToUser := [(connId conn_a, ''ann'')]\<rparr>, sv_maxQueueSize := 1, sv_queue := [LogoutTask conn_b]\<rparr>" conn_a "''ann''" demo_env 5 "[]"]
  by (simp add: demo_server_def)

end
