(* ===== verification/ServerOutput.thy ===== *)
theory ServerOutput
  imports ServerReplies
begin

text \<open>
  What the server says is well-formed: over every history everything it sends is a sequence of packets
  that carry a response or a notification, with the flags of that kind, and a client whose parser is the
  one of \<open>codec.cpp\<close> reads exactly these packets.
\<close>

section \<open>Typed packets\<close>

definition outgoing :: "PacketHeader \<Rightarrow> bool" where
  "outgoing h \<longleftrightarrow>
     IsResponseCommand (h_command h) \<and> h_flags h = GuessFlagsFromCommand (h_command h) \<or>
     h_command h = CmdP2pMsgNotify \<and> h_flags h \<in> {kFlagNone, kFlagRetry} \<and> h_requestId h = 0 \<or>
     h_command h = CmdBroadcastMsgNotify \<and> h_flags h = kFlagNone \<and> h_requestId h = 0"

definition typed :: "(conn_ref \<times> string) list \<Rightarrow> bool" where
  "typed out \<longleftrightarrow> list_all (\<lambda>p. \<exists>h m. outgoing h \<and> snd p = packet_bytes h m) out"

lemma typed_simps [simp]: "typed []" "typed (xs @ ys) \<longleftrightarrow> typed xs \<and> typed ys"
  by (simp_all add: typed_def)

lemma notification_typed: "list_all notification ns \<Longrightarrow> typed ns"
proof -
  have "outgoing (notify_header m)" for m
    by (simp add: outgoing_def notify_header_def kFlagNone_def)
  then show "list_all notification ns \<Longrightarrow> typed ns" by (fastforce simp: typed_def notification_def list_all_iff)
qed

text \<open>The replies: command and flags that fit together.\<close>

definition reply_kind :: "u16 \<Rightarrow> u16 \<Rightarrow> bool" where
  "reply_kind cmd fl \<longleftrightarrow> IsResponseCommand cmd \<and> fl = GuessFlagsFromCommand cmd"

lemma reply_kinds [simp]:
  "reply_kind CmdLoginResp kFlagResponse" "reply_kind CmdHeartbeatResp kFlagResponse" "reply_kind CmdP2pMsgResp kFlagResponse"
  "reply_kind CmdMessageAckResp (kFlagResponse OR kFlagAck)" "reply_kind CmdPullOfflineResp kFlagResponse"
  "reply_kind CmdKickUserResp kFlagResponse"
  by (simp_all add: reply_kind_def IsResponseCommand_def GuessFlagsFromCommand_def Cmd_defs)

lemma answer_typed:
  assumes "answer conn cmd rid p fl cs ss err sv = Some sv'" "reply_kind cmd fl" "typed (sent sv)"
  shows "typed (sent sv')"
proof -
  have "outgoing (reply_header cmd rid fl cs ss err)"
    using assms(2) by (auto simp: outgoing_def reply_header_def reply_kind_def)
  with assms(1,3) show ?thesis by (fastforce simp: answer_def sendPacket_def typed_def)
qed

lemma submit_typed [simp]: "sent (snd (submitBusinessTask env nm task sv)) = sent sv"
  by (auto simp: submitBusinessTask_def pool_submit_def handler_defs split: option.splits if_splits)

lemma commands_typed: "redis_commands env cmds sv = Some sv' \<Longrightarrow> sent sv' = sent sv"
proof (induction cmds arbitrary: sv)
  case (Cons cmd cmds)
  then obtain sv1 where "redis_command env cmd sv = Some sv1" "redis_commands env cmds sv1 = Some sv'"
    by (auto simp: bind_eq_Some_conv)
  moreover from this(1) have "sent sv1 = sent sv" by (cases cmd) auto
  ultimately show ?case using Cons.IH by metis
qed simp

section \<open>The handlers\<close>

lemma on_heartbeat_typed:
  assumes "on_heartbeat env conn rid sv = Some sv'" "typed (sent sv)"
  shows "typed (sent sv')"
proof -
  obtain hb ev sv1 sv2 t where ev: "apply_effects env ev (sv1\<lparr>sv_heartbeat := hb\<rparr>) = Some sv2" "sent sv1 = sent sv"
    and a: "answer conn CmdHeartbeatResp rid (encodeHeartbeatResp env \<lparr>hresp_serverTime = t\<rparr>)
      kFlagResponse 0 0 ErrOk (snd (clock env sv2)) = Some sv'"
    using assms(1) by (fastforce simp: on_heartbeat_def handler_defs bind_eq_Some_conv)
  with effects_effect [OF ev(1)] answer_typed [OF a] assms(2) show ?thesis by simp
qed

lemma packet_typed:
  assumes "onPacket env conn header message sv = Some sv'" "typed (sent sv)"
  shows "typed (sent sv')"
proof (cases "fst (rate_gate env (h_command header) sv)")
  case False
  with assms gate_effect(1) [of env "h_command header" sv] show ?thesis
    by (auto simp: onPacket_def split_def rate_limited_def split: if_splits dest: answer_typed)
next
  case True
  let ?sv = "snd (rate_gate env (h_command header) sv)"
  have t: "typed (sent ?sv)" using assms(2) gate_effect(1) [of env "h_command header" sv] by simp
  from True assms(1) have "dispatch env conn (h_command header) (h_requestId header) message ?sv = Some sv'"
    by (simp add: onPacket_def split_def)
  with t show ?thesis
    by (auto simp: dispatch_def on_login_def on_p2p_def on_ack_def on_pull_def on_broadcast_def on_kick_def count_metric_def Let_def
        split_def split: if_splits option.splits dest: answer_typed on_heartbeat_typed)
qed

lemma run_p2p_typed:
  assumes "run_p2p env conn rid req u sv = Some sv'" "typed (sent sv)"
  shows "typed (sent sv')"
proof -
  obtain remote sv1 where r: "remote_route env (preq_toUserId req) sv = Some (remote, sv1)"
    and out: "(if remote
     then answer conn CmdP2pMsgResp rid (encodeP2PResp env (p2p_resp 1 ''remote forwarding not enabled'' 0 0))
            kFlagResponse 0 0 ErrServerBusy sv1
     else send_p2p env conn rid req u sv1) = Some sv'"
    using assms(1) by (auto simp: run_p2p_def bind_eq_Some_conv)
  have sv1: "typed (sent sv1)" using r assms(2) by (auto simp: remote_route_def bind_eq_Some_conv split: if_splits)
  define d where "d = sendReliableP2PMessage (sn_outside env) (sn_store env) (sv_message sv1) u (preq_toUserId req)
    (preq_clientMsgId req) (preq_content req) (sv_store sv1) (sv_world sv1)"
  have "typed (sends (w_log (snd (snd (snd (snd d))))))"
    using sendReliable_notifies [of "sn_outside env" "sn_store env" "sv_message sv1" u "preq_toUserId req"
      "preq_clientMsgId req" "preq_content req" "sv_store sv1" "sv_world sv1"] sv1
    by (auto simp: notification_typed simp flip: d_def)
  with out sv1 show ?thesis
    by (auto simp: send_p2p_def Let_def split_def simp flip: d_def split: if_splits dest: answer_typed)
qed

lemma run_login_typed:
  assumes "run_login env conn rid req sv = Some sv'" "typed (sent sv)"
  shows "typed (sent sv')"
proof -
  obtain success sid p err sv1 sv2 where
    a: "answer conn CmdLoginResp rid p kFlagResponse 0 0 err sv1 = Some sv2" "sent sv1 = sent sv"
    and out: "(if success then after_login env conn (lreq_userId req) sid sv2 else Some sv2) = Some sv'"
    using assms(1) by (fastforce simp: run_login_def bind_eq_Some_conv Let_def split_def)
  have "typed (sent sv2)" using answer_typed [OF a(1)] a(2) assms(2) by simp
  with out after_login_notifies [of env conn "lreq_userId req" sid sv2 sv'] show ?thesis
    by (auto simp: notification_typed split: if_splits)
qed

lemma broadcast_typed:
  assumes "typed (sends (w_log w))"
  shows "typed (sends (w_log (broadcastMessage env svc u body w)))"
proof -
  have all: "typed (sends (w_log (fold (\<lambda>(_, conn) w'. case MessageService.connected env conn w' of
      (up, w'') \<Rightarrow> if up then emit (Sent conn (packed_bytes h m)) w'' else w'') cs w1)))"
    if "outgoing h" "typed (sends (w_log w1))" for h m cs w1
    using that(2)
  proof (induction cs arbitrary: w1)
    case (Cons c cs)
    obtain up w2 where c: "MessageService.connected env (snd c) w1 = (up, w2)" by (rule prod.exhaust)
    then have "sends (w_log w2) = sends (w_log w1)" using world_simps(3) [of env "snd c" w1] by simp
    with Cons.prems that(1) have "typed (sends (w_log (if up then emit (Sent (snd c) (packed_bytes h m)) w2 else w2)))"
      by (auto simp: typed_def)
    from Cons.IH [OF this] show ?case by (cases up) (simp_all add: split_def c del: packed_bytes_eq)
  qed simp
  have out: "outgoing (PacketHeader_default\<lparr>h_command := CmdBroadcastMsgNotify, h_flags := kFlagNone, h_requestId := 0, h_clientSeq := x\<rparr>)" for x
    by (simp add: outgoing_def)
  show ?thesis
    unfolding broadcastMessage_def Let_def split_def
    by (rule all [unfolded split_def, OF out]) (use assms in simp)
qed

lemma task_typed:
  assumes "run_business env task sv = Some sv'" "typed (sent sv)"
  shows "typed (sent sv')"
proof (cases task)
  case (AckTask conn rid req u)
  define d where "d = processAck (sn_outside env) (sn_store env) (sv_message sv) u (areq_msgId req) (areq_serverSeq req)
    (areq_ackCode req) (sv_store sv) (sv_world sv)"
  have "sends (w_log (snd (snd (snd d)))) = sent sv"
    by (auto simp: d_def processAck_def Let_def split_def split: sum.splits)
  with AckTask assms show ?thesis
    by (auto simp: run_business_def run_ack_def split_def simp flip: d_def dest: answer_typed)
next
  case (PullTask conn rid req u)
  with assms show ?thesis by (auto simp: run_business_def run_pull_def Let_def split_def dest: answer_typed)
qed (use assms in \<open>auto simp: run_business_def bind_eq_Some_conv broadcast_typed dest: run_login_typed run_p2p_typed commands_typed\<close>)

lemma deliver_all_typed:
  "typed (sends (w_log w)) \<Longrightarrow>
   typed (sends (w_log (snd (fold (\<lambda>u (s', w'). deliverPendingMessages out ops svc u s' w') us (st, w)))))"
proof (induction us arbitrary: st w)
  case (Cons u us)
  obtain st1 w1 where d: "deliverPendingMessages out ops svc u st w = (st1, w1)" by (rule prod.exhaust)
  with deliverPending_notifies [of out ops svc u st w] Cons.prems have "typed (sends (w_log w1))"
    by (auto simp: notification_typed)
  from Cons.IH [OF this] show ?case by (simp add: d)
qed simp

lemma online_users_log: "w_log (snd (online_users out us w)) = w_log w"
  by (induction out us w rule: online_users.induct)
    (auto simp: Let_def split_def, metis prod.collapse world_simps(3))

lemma retry_typed: "typed (sent sv) \<Longrightarrow> typed (sent (retry_thread env sv))"
  by (auto simp: retry_thread_def retry_turn_def Let_def split_def online_users_log intro!: deliver_all_typed [unfolded split_def])

lemma server_do_typed:
  assumes "server_do env sv a = Some sv'" "typed (sent sv)"
  shows "typed (sent sv')"
proof (cases a)
  case (PacketIn conn header message)
  with assms packet_typed show ?thesis by fastforce
next
  case (ConnUp conn ip)
  with assms show ?thesis
    by (auto simp: onConnectionUp_def handler_defs split: if_splits dest!: effects_effect)
next
  case (ConnDown conn)
  then obtain sv1 sv2 sv3 ev where "apply_effects env ev sv1 = Some sv2" "sent sv1 = sent sv"
    "forget_user env conn sv2 = Some sv3" "sent sv' = sent sv3"
    using assms(1) by (fastforce simp: onConnectionDown_def handler_defs bind_eq_Some_conv)
  with effects_effect assms(2) show ?thesis
    by (fastforce simp: forget_user_def Let_def bind_eq_Some_conv split: option.splits if_splits)
next
  case RunTask
  with assms task_typed show ?thesis by (cases "sv_queue sv") fastforce+
next
  case HeartbeatTurn
  with assms show ?thesis by (auto simp: heartbeat_thread_def Let_def split_def dest!: effects_effect)
qed (use assms in \<open>auto simp: onHighWaterMark_def onWriteComplete_def handler_defs retry_typed\<close>)

interpretation server_out: invariant_system "\<lambda>x. \<forall>sv. x = Some sv \<longrightarrow> sent sv = []" "server_step env" "\<lambda>x. \<forall>sv. x = Some sv \<longrightarrow> typed (sent sv)"
  for env :: "('h, 'w, 'j, 's) server_env"
  by unfold_locales (auto simp: server_step_def bind_eq_Some_conv intro: server_do_typed)

section \<open>What a client reads\<close>

definition bytes_to :: "conn_ref \<Rightarrow> (conn_ref \<times> string) list \<Rightarrow> string" where
  "bytes_to conn out = concat (map snd (filter (\<lambda>p. fst p = conn) out))"

lemma typed_stream:
  assumes "typed out"
  shows "\<exists>ps. list_all (\<lambda>(h, m). outgoing h) ps \<and> bytes_to conn out = stream ps"
  using assms
proof (induction out)
  case (Cons p out)
  then obtain h m ps where "outgoing h" "snd p = packet_bytes h m" "list_all (\<lambda>(h, m). outgoing h) ps" "bytes_to conn out = stream ps"
    by (auto simp: typed_def)
  then show ?case
    by (intro exI [of _ "if fst p = conn then (h, m) # ps else ps"]) (simp add: bytes_to_def stream_def)
qed (simp add: bytes_to_def stream_def exI [of _ "[]"])

text \<open>
  Claim C34 (server_output_typed). Over every history of the composed server, with any message store, what
  it has sent on a connection is a sequence of packets, each a response with the flags of its command or
  a notification; and a client that parses these bytes as \<open>codec.cpp\<close> does, however they are cut into
  reads, gets exactly these packets in order, as long as they keep within the maximal message size.
\<close>

theorem server_output_typed:
  assumes "run (server_step env) (Some sv0) ops = Some sv" "sent sv0 = []"
  shows "\<exists>ps. list_all (\<lambda>(h, m). outgoing h) ps \<and> bytes_to conn (sent sv) = stream ps \<and>
    (\<forall>chunks. chunks \<noteq> [] \<and> concat chunks = bytes_to conn (sent sv) \<and> list_all (\<lambda>(h, m). packet_ok m) ps \<longrightarrow>
       (\<exists>c b. feed client (Codec_init msg pkt err) Buffer_init chunks =
          Some (c, b, stream_events (Codec_init msg pkt err) client ps)))"
proof -
  have "typed (sent sv)" using server_out.inv_reached [of "Some sv0" env ops] assms by simp
  from typed_stream [OF this, of conn] obtain ps where
    ps: "list_all (\<lambda>(h, m). outgoing h) ps" "bytes_to conn (sent sv) = stream ps" by blast
  have "\<exists>c b. feed client (Codec_init msg pkt err) Buffer_init chunks =
      Some (c, b, stream_events (Codec_init msg pkt err) client ps)"
    if "chunks \<noteq> []" "concat chunks = bytes_to conn (sent sv)" "list_all (\<lambda>(h, m). packet_ok m) ps" for chunks
    using feed_in_sync [of "Codec_init msg pkt err" Buffer_init ps chunks client] that ps(2)
    by (auto simp: in_sync_def Codec_init_def)
  then show ?thesis using ps by (intro exI [of _ ps]) simp
qed

text \<open>Ann's log-in and her message are answered.\<close>

theorem server_output_typed_witness:
  "\<exists>sv ps. run (server_step demo_env) (Some demo_server) demo_ops = Some sv \<and> map fst (sent sv) = [conn_a, conn_a] \<and>
     list_all (\<lambda>(h, m). outgoing h) ps \<and> bytes_to conn_a (sent sv) = stream ps"
proof -
  obtain sv where run: "run (server_step demo_env) (Some demo_server) demo_ops = Some sv" and two: "map fst (sent sv) = [conn_a, conn_a]"
    by (simp add: demo_ops_def demo_defs onPacket_def dispatch_def on_login_def login_eval p2p_eval)
  have "sent demo_server = []" by (simp add: demo_server_def)
  from server_output_typed [OF run this, of conn_a] obtain ps where
    "list_all (\<lambda>(h, m). outgoing h) ps" "bytes_to conn_a (sent sv) = stream ps" by metis
  with run two show ?thesis by (intro exI conjI)
qed

end
