(* ===== verification/Checksum.thy ===== *)
theory Checksum
  imports Protocol
begin

text \<open>
  What \<open>CalcCRC16\<close> of \<open>src/codec/protocol.cpp\<close> computes, against a reference definition: polynomials over
  the field of two elements as lists of their coefficients, highest first, and the remainder of the long
  division by the generator \<open>x ^ 16 + x ^ 12 + x ^ 5 + 1\<close>.
\<close>

section \<open>The reference\<close>

text \<open>Addition of a polynomial to the leading coefficients of another.\<close>

fun add_front :: "bool list \<Rightarrow> bool list \<Rightarrow> bool list" where
  "add_front [] ys = ys"
| "add_front xs [] = []"
| "add_front (x # xs) (y # ys) = (x \<noteq> y) # add_front xs ys"

lemma length_add_front [simp]: "length (add_front xs ys) = length ys"
  by (induction xs ys rule: add_front.induct) simp_all

text \<open>The generator without its leading coefficient.\<close>

definition generator :: "bool list" where
  "generator = map (\<lambda>e. e \<in> {0, 5, 12}) (rev [0..<16])"

function remainder :: "bool list \<Rightarrow> bool list" where
  "remainder bs =
     (if length bs \<le> 16 then bs
      else remainder (if hd bs then add_front generator (tl bs) else tl bs))"
  by auto
termination by (relation "measure length") auto

declare remainder.simps [simp del]

definition byte_bits :: "char \<Rightarrow> bool list" where
  "byte_bits c = map (bit (byte_of_char c)) (rev [0..<8])"

definition word_bits :: "u16 \<Rightarrow> bool list" where
  "word_bits w = map (bit w) (rev [0..<16])"

text \<open>
  The checksum of the standard: the first sixteen bits of the message are inverted, sixteen zeros are
  appended, and the remainder is taken.
\<close>

definition crc_reference :: "string \<Rightarrow> bool list" where
  "crc_reference data =
     remainder (add_front (replicate 16 True) (concat (map byte_bits data) @ replicate 16 False))"

section \<open>Registers and remainders\<close>

lemma nth_add_front:
  "i < length ys \<Longrightarrow> add_front xs ys ! i = (if i < length xs then xs ! i \<noteq> ys ! i else ys ! i)"
  by (induction xs ys arbitrary: i rule: add_front.induct) (auto simp: nth_Cons split: nat.splits)

lemma nth_word_bits: "i < 16 \<Longrightarrow> word_bits w ! i = bit w (15 - i)"
  by (simp add: word_bits_def rev_nth)

lemma nth_byte_bits: "i < 8 \<Longrightarrow> byte_bits c ! i = bit (byte_of_char c) (7 - i)"
  by (simp add: byte_bits_def rev_nth)

lemma length_bits [simp]: "length (word_bits w) = 16" "length (byte_bits c) = 8" "length generator = 16"
  by (simp_all add: word_bits_def byte_bits_def generator_def)

lemma word_bits_Cons: "\<exists>bs. word_bits w = bit w 15 # bs \<and> length bs = 15"
  by (intro exI [of _ "tl (word_bits w)"]) (simp add: word_bits_def upt_rec numeral_eq_Suc)

lemma generator_bits: "i < 16 \<Longrightarrow> generator ! i = bit (0x1021 :: u16) (15 - i)"
proof -
  have "generator = word_bits 0x1021" by (simp add: generator_def word_bits_def upt_rec numeral_eq_Suc bit_simps)
  then show "i < 16 \<Longrightarrow> generator ! i = bit (0x1021 :: u16) (15 - i)" by (metis nth_word_bits)
qed

text \<open>One round of the inner loop is one step of the division.\<close>

lemma division_step:
  assumes "16 \<le> length rest"
  shows "remainder (add_front (word_bits r) (False # rest)) = remainder (add_front (word_bits (crc_bit r)) rest)"
proof -
  obtain bs where bs: "word_bits r = bit r 15 # bs" "length bs = 15" using word_bits_Cons by blast
  have nth_bs: "bs ! i = bit r (14 - i)" if "i < 15" for i
    using nth_word_bits [of "Suc i" r] that bs by simp
  let ?next = "if bit r 15 then add_front generator (add_front bs rest) else add_front bs rest"
  have "?next = add_front (word_bits (crc_bit r)) rest"
  proof (rule nth_equalityI)
    fix i
    assume i: "i < length ?next"
    then have i: "i < length rest" by (simp split: if_splits)
    show "?next ! i = add_front (word_bits (crc_bit r)) rest ! i"
    proof (cases "i < 16")
      case True
      then have "word_bits (crc_bit r) ! i \<longleftrightarrow> (i < 15 \<and> bit r (14 - i)) \<noteq> (bit r 15 \<and> bit (0x1021 :: u16) (15 - i))"
        by (subst nth_word_bits, simp, subst bit_crc_bit) (auto simp: diff_diff_left)
      with True i show ?thesis
        by (cases "i < 15") (auto simp only: nth_add_front length_add_front length_bits bs(2) generator_bits nth_bs split: if_splits)
    next
      case False
      with i show ?thesis by (simp add: nth_add_front bs(2))
    qed
  qed simp
  moreover have "remainder (add_front (word_bits r) (False # rest)) = remainder ?next"
    by (subst remainder.simps) (use assms bs in simp)
  ultimately show ?thesis by simp
qed

lemma division_steps:
  "16 \<le> length rest \<Longrightarrow>
   remainder (add_front (word_bits r) (replicate n False @ rest)) = remainder (add_front (word_bits ((crc_bit ^^ n) r)) rest)"
proof (induction n arbitrary: r)
  case (Suc n)
  then show ?case by (simp add: division_step funpow_swap1)
qed simp

text \<open>A byte that is added to the register instead of to the message.\<close>

lemma byte_in_register:
  "add_front (word_bits r) (byte_bits c @ rest) =
   add_front (word_bits (r XOR push_bit 8 (ucast (byte_of_char c)))) (replicate 8 False @ rest)"
proof (rule nth_equalityI)
  fix i
  assume "i < length (add_front (word_bits r) (byte_bits c @ rest))"
  then have i: "i < 8 + length rest" by simp
  have top: "bit (ucast (byte_of_char c) :: u16) (7 - i) = bit (byte_of_char c) (7 - i)" if "i < 8"
    using that less_imp_diff_less [of 7 16 i] by (simp add: bit_ucast_iff)
  have low: "\<not> bit (push_bit 8 (ucast (byte_of_char c)) :: u16) (15 - i)" if "\<not> i < 8"
  proof -
    from that have "\<not> 8 \<le> 15 - i" by simp
    then show ?thesis by (simp only: bit_push_bit_iff simp_thms)
  qed
  show "add_front (word_bits r) (byte_bits c @ rest) ! i =
      add_front (word_bits (r XOR push_bit 8 (ucast (byte_of_char c)))) (replicate 8 False @ rest) ! i"
    using i top low
    by (auto simp: nth_add_front nth_append nth_word_bits nth_byte_bits bit_xor_iff bit_push_bit_iff)
qed simp

lemma division_bytes:
  "remainder (add_front (word_bits r) (concat (map byte_bits data) @ replicate 16 False)) = word_bits (crc_loop r data)"
proof (induction data arbitrary: r)
  case Nil
  have "add_front (word_bits r) (replicate 16 False) = word_bits r"
    by (rule nth_equalityI) (auto simp: nth_add_front)
  then show ?case by (subst remainder.simps) simp
next
  case (Cons c data)
  then show ?case
    by (simp add: byte_in_register division_steps crc_byte_def)
qed

text \<open>
  Claim C35 (crc_is_remainder). \<open>CalcCRC16\<close>, which shifts a sixteen-bit register bit by bit and adds each
  byte to its upper half, computes the remainder of the message, with its first sixteen bits inverted and
  followed by sixteen zeros, in the division by the polynomial \<open>x ^ 16 + x ^ 12 + x ^ 5 + 1\<close>: the checksum
  known as CRC-16/CCITT-FALSE.
\<close>

theorem crc_is_remainder: "word_bits (CalcCRC16 data) = crc_reference data"
proof -
  have "word_bits 0xFFFF = replicate 16 True"
    by (simp add: word_bits_def upt_rec numeral_eq_Suc bit_simps)
  then show ?thesis by (simp add: crc_reference_def CalcCRC16_def flip: division_bytes)
qed

end
