(* ===== verification/TraceContext.thy ===== *)
theory TraceContext
  imports Util
begin

text \<open>
  \<open>src/infra/traceContext.cpp\<close>: the trace context of the current thread, its scoped replacement, and
  the generation of trace ids from the clock, a process-wide counter and the thread.
\<close>

record TraceContext =
  tc_traceId :: string
  tc_requestId :: u64
  tc_sessionId :: string
  tc_userId :: string
  tc_nodeId :: string
  tc_messageId :: u64
  tc_serverSeq :: u64

definition TraceContext_default :: TraceContext where
  "TraceContext_default =
     \<lparr>tc_traceId = [], tc_requestId = 0, tc_sessionId = [], tc_userId = [], tc_nodeId = [],
      tc_messageId = 0, tc_serverSeq = 0\<rparr>"

text \<open>The thread-local pair \<open>g_currentTraceContext\<close>, \<open>g_hasCurrentTraceContext\<close>.\<close>

record trace_state =
  g_currentTraceContext :: TraceContext
  g_hasCurrentTraceContext :: bool

definition trace_start :: trace_state where
  "trace_start = \<lparr>g_currentTraceContext = TraceContext_default, g_hasCurrentTraceContext = False\<rparr>"

definition NormalizeField :: "string \<Rightarrow> string" where
  "NormalizeField v = (if v = [] then ''-'' else v)"

definition SetCurrentTraceContext :: "TraceContext \<Rightarrow> trace_state \<Rightarrow> trace_state" where
  "SetCurrentTraceContext context g = \<lparr>g_currentTraceContext = context, g_hasCurrentTraceContext = True\<rparr>"

definition ClearCurrentTraceContext :: "trace_state \<Rightarrow> trace_state" where
  "ClearCurrentTraceContext g =
     \<lparr>g_currentTraceContext = TraceContext_default, g_hasCurrentTraceContext = False\<rparr>"

definition HasCurrentTraceContext :: "trace_state \<Rightarrow> bool" where
  "HasCurrentTraceContext g = g_hasCurrentTraceContext g"

definition CurrentTraceContext :: "trace_state \<Rightarrow> TraceContext" where
  "CurrentTraceContext g = g_currentTraceContext g"

record ScopedTraceContext =
  stc_hadPrevious :: bool
  stc_previous :: TraceContext

definition ScopedTraceContext_enter ::
    "TraceContext \<Rightarrow> trace_state \<Rightarrow> ScopedTraceContext \<times> trace_state" where
  "ScopedTraceContext_enter context g =
     (\<lparr>stc_hadPrevious = g_hasCurrentTraceContext g, stc_previous = g_currentTraceContext g\<rparr>,
      SetCurrentTraceContext context g)"

definition ScopedTraceContext_leave :: "ScopedTraceContext \<Rightarrow> trace_state \<Rightarrow> trace_state" where
  "ScopedTraceContext_leave guard g =
     (if stc_hadPrevious guard then SetCurrentTraceContext (stc_previous guard) g
      else ClearCurrentTraceContext g)"

text \<open>
  \<open>GenerateTraceId\<close>: the clock in microseconds, the counter (which it increments) and the hash of the
  thread id, in hexadecimal.
\<close>

definition GenerateTraceId :: "timeval \<Rightarrow> u64 \<Rightarrow> u64 \<Rightarrow> string \<times> u64" where
  "GenerateTraceId tv thread_hash g_traceCounter =
     (hex (nat (GetTimestampUs tv)) @ ''-'' @ hex (unat g_traceCounter) @ ''-'' @ hex (unat thread_hash),
      g_traceCounter + 1)"

definition FormatTraceContextForLog :: "trace_state \<Rightarrow> string" where
  "FormatTraceContextForLog g =
     (let context = g_currentTraceContext g
      in ''trace_id='' @ NormalizeField (tc_traceId context) @
         '' request_id='' @ dec (unat (tc_requestId context)) @
         '' session_id='' @ NormalizeField (tc_sessionId context) @
         '' user_id='' @ NormalizeField (tc_userId context) @
         '' node_id='' @ NormalizeField (tc_nodeId context) @
         (if tc_messageId context > 0 then '' message_id='' @ dec (unat (tc_messageId context)) else []) @
         (if tc_serverSeq context > 0 then '' server_seq='' @ dec (unat (tc_serverSeq context)) else []))"

section \<open>Scopes\<close>

text \<open>The code a thread runs: explicit changes of the context, and blocks under a guard.\<close>

datatype trace_code = Set TraceContext | Clear | Scope TraceContext "trace_code list"

fun exec :: "trace_code list \<Rightarrow> trace_state \<Rightarrow> trace_state" where
  "exec [] g = g"
| "exec (Set c # k) g = exec k (SetCurrentTraceContext c g)"
| "exec (Clear # k) g = exec k (ClearCurrentTraceContext g)"
| "exec (Scope c body # k) g =
     (let (guard, g1) = ScopedTraceContext_enter c g
      in exec k (ScopedTraceContext_leave guard (exec body g1)))"

text \<open>Without a context the stored one is the default one; the operations keep this.\<close>

definition trace_inv :: "trace_state \<Rightarrow> bool" where
  "trace_inv g \<longleftrightarrow> (\<not> g_hasCurrentTraceContext g \<longrightarrow> g_currentTraceContext g = TraceContext_default)"

lemma trace_inv_ops [inv_intros]:
  "trace_inv trace_start" "trace_inv (SetCurrentTraceContext c g)" "trace_inv (ClearCurrentTraceContext g)"
  "trace_inv (ScopedTraceContext_leave guard g)"
  by (simp_all add: trace_inv_def trace_start_def SetCurrentTraceContext_def ClearCurrentTraceContext_def
      ScopedTraceContext_leave_def)

lemma trace_inv_exec: "trace_inv g \<Longrightarrow> trace_inv (exec k g)"
  by (induction k g rule: exec.induct) (simp_all add: trace_inv_ops split_beta Let_def)

interpretation trc: invariant_system "\<lambda>g. g = trace_start" "\<lambda>g k. exec [k] g" trace_inv
  by unfold_locales (simp_all add: trace_inv_ops trace_inv_exec)

section \<open>Properties\<close>

text \<open>
  A guarded block leaves the thread's trace context exactly as it found it,
  whatever the block does inside: nested guards, explicit changes, clearing.
\<close>

theorem scope_restores:
  assumes "g = run (\<lambda>g k. exec [k] g) trace_start before"
  shows "exec [Scope c body] g = g"
proof -
  have "trace_inv g" unfolding assms by (rule trc.inv_reached) simp
  then show ?thesis
    by (cases g) (auto simp: trace_inv_def ScopedTraceContext_enter_def ScopedTraceContext_leave_def
        SetCurrentTraceContext_def ClearCurrentTraceContext_def)
qed

theorem scope_restores_witness:
  "exec [Scope TraceContext_default [Clear, Scope TraceContext_default [], Clear]]
     (exec [Set (TraceContext_default\<lparr>tc_userId := ''ann''\<rparr>)] trace_start) =
   exec [Set (TraceContext_default\<lparr>tc_userId := ''ann''\<rparr>)] trace_start"
  using scope_restores [of _ "[Set (TraceContext_default\<lparr>tc_userId := ''ann''\<rparr>)]" TraceContext_default
      "[Clear, Scope TraceContext_default [], Clear]"]
  by simp

lemma hex_no_dash: "CHR ''-'' \<notin> set (hex n)"
  using digit_chars(1) [of "CHR ''-''" n] by auto

lemma split_dash:
  "CHR ''-'' \<notin> set xs \<Longrightarrow> CHR ''-'' \<notin> set us \<Longrightarrow> xs @ CHR ''-'' # ys = us @ CHR ''-'' # vs \<longleftrightarrow> xs = us \<and> ys = vs"
proof (induction xs arbitrary: us)
  case (Cons x xs)
  then show ?case by (cases us) auto
qed (auto simp: Cons_eq_append_conv)

text \<open>
  Two trace ids generated with different counter values differ, whatever
  the clock and the threads: the parts can be read back from the text.
\<close>

theorem trace_ids_unique:
  assumes "n \<noteq> n'"
  shows "fst (GenerateTraceId tv h n) \<noteq> fst (GenerateTraceId tv' h' n')"
  using assms by (auto simp: GenerateTraceId_def split_dash hex_no_dash word_unat_eq_iff)

theorem trace_ids_unique_witness:
  "(4 :: u64) \<noteq> 5 \<and>
   fst (GenerateTraceId \<lparr>tv_sec = 1, tv_usec = 2\<rparr> 3 4) \<noteq> fst (GenerateTraceId \<lparr>tv_sec = 1, tv_usec = 2\<rparr> 3 5)"
  using trace_ids_unique [of 4 5 "\<lparr>tv_sec = 1, tv_usec = 2\<rparr>" 3 "\<lparr>tv_sec = 1, tv_usec = 2\<rparr>" 3] by simp

end
