(* ===== verification/TcpConnection.thy ===== *)
theory TcpConnection
  imports Buffer "HOL-Library.Monad_Syntax"
begin

text \<open>
  \<open>src/net/tcpConnection.cpp\<close>: one connection on its event loop. The channel is the two interests the
  class reads and sets; registering them with the poller is the subject of another theory. What the
  code does to the outside (system calls, user callbacks, tasks queued on the loop, the warning about
  a dropped tail) is a trace of events. The answers of the system calls are arguments; a list of
  answers that ends stands for a socket that would block from there on, and a call writes at most the
  bytes it is offered. The calls of \<open>sendInLoop\<close> are
  part of the trace, so that the bytes on the wire can be compared with them. An operation is \<open>None\<close>
  where a buffer assertion fails.
\<close>

section \<open>State\<close>

datatype tcp_state = kConnecting | kConnected | kDisconnecting | kDisconnected

record TcpConnection =
  tc_state :: tcp_state
  tc_reading :: bool
  tc_writing :: bool
  tc_inputBuffer :: Buffer
  tc_outputBuffer :: Buffer
  tc_highWaterMark :: nat
  tc_lowWaterMark :: nat
  tc_maxOutputBufferBytes :: nat
  tc_backPressured :: bool
  tc_hasConnectionCallback :: bool
  tc_hasMessageCallback :: bool
  tc_hasCloseCallback :: bool
  tc_hasWriteCompleteCallback :: bool
  tc_hasHighWaterMarkCallback :: bool

definition TcpConnection_init :: TcpConnection where
  "TcpConnection_init =
     \<lparr>tc_state = kConnecting, tc_reading = False, tc_writing = False, tc_inputBuffer = Buffer_init,
      tc_outputBuffer = Buffer_init, tc_highWaterMark = 1024 * 1024, tc_lowWaterMark = 256 * 1024,
      tc_maxOutputBufferBytes = 4 * 1024 * 1024, tc_backPressured = False, tc_hasConnectionCallback = False,
      tc_hasMessageCallback = False, tc_hasCloseCallback = False, tc_hasWriteCompleteCallback = False,
      tc_hasHighWaterMarkCallback = False\<rparr>"

datatype tcp_task = SendTask string | ShutdownTask | ForceCloseTask

datatype tcp_event =
    Sending string
  | Wrote string
  | Dropped string
  | Faulted string
  | Queue tcp_task
  | ConnectionCb bool
  | MessageCb
  | CloseCb
  | WriteCompleteCb
  | HighWaterCb nat
  | ShutdownWrite
  | CloseSocket

datatype write_result = WriteOk nat | WriteErr errno

definition setHighWaterMark :: "nat \<Rightarrow> TcpConnection \<Rightarrow> TcpConnection" where
  "setHighWaterMark n c = c\<lparr>tc_highWaterMark := n\<rparr>"

definition setLowWaterMark :: "nat \<Rightarrow> TcpConnection \<Rightarrow> TcpConnection" where
  "setLowWaterMark n c = c\<lparr>tc_lowWaterMark := n\<rparr>"

definition setMaxOutputBufferBytes :: "nat \<Rightarrow> TcpConnection \<Rightarrow> TcpConnection" where
  "setMaxOutputBufferBytes n c = c\<lparr>tc_maxOutputBufferBytes := n\<rparr>"

definition connected :: "TcpConnection \<Rightarrow> bool" where
  "connected c \<longleftrightarrow> tc_state c = kConnected"

definition disableAll :: "TcpConnection \<Rightarrow> TcpConnection" where
  "disableAll c = c\<lparr>tc_reading := False, tc_writing := False\<rparr>"

section \<open>Handlers on the loop\<close>

definition handleClose :: "TcpConnection \<Rightarrow> TcpConnection \<times> tcp_event list" where
  "handleClose c =
     (if tc_state c = kConnected \<or> tc_state c = kDisconnecting
      then (disableAll (c\<lparr>tc_state := kDisconnected\<rparr>),
            (if tc_hasConnectionCallback c then [ConnectionCb False] else []) @
            (if tc_hasCloseCallback c then [CloseCb] else []))
      else (c, []))"

text \<open>The read loop: the buffer after it, whether data came, and why it ended.\<close>

datatype read_end = WouldBlock | PeerClosed | Failed

primrec read_loop :: "readv_result list \<Rightarrow> bool \<Rightarrow> Buffer \<Rightarrow> (Buffer \<times> bool \<times> read_end) option" where
  "read_loop [] received b = Some (b, received, WouldBlock)"
| "read_loop (r # rs) received b = do {
     (n, err, b') \<leftarrow> readFd r b;
     if n > 0 then read_loop rs True b'
     else if n = 0 then Some (b', received, PeerClosed)
     else if err = Some EAGAIN then Some (b', received, WouldBlock)
     else Some (b', received, Failed)
   }"

definition handleRead :: "readv_result list \<Rightarrow> TcpConnection \<Rightarrow> (TcpConnection \<times> tcp_event list) option" where
  "handleRead rs c = do {
     (b, received, stop) \<leftarrow> read_loop rs False (tc_inputBuffer c);
     let c = c\<lparr>tc_inputBuffer := b\<rparr>;
     Some (case stop of
        PeerClosed \<Rightarrow> handleClose c
      | Failed \<Rightarrow> (c, [])
      | WouldBlock \<Rightarrow> (c, if received \<and> tc_hasMessageCallback c then [MessageCb] else []))
   }"

definition shutdownInLoop :: "TcpConnection \<Rightarrow> tcp_event list" where
  "shutdownInLoop c = (if \<not> tc_writing c then [ShutdownWrite] else [])"

primrec write_loop :: "write_result list \<Rightarrow> TcpConnection \<Rightarrow> (TcpConnection \<times> tcp_event list) option" where
  "write_loop [] c = Some (c, [])"
| "write_loop (r # rs) c =
     (if readableBytes (tc_outputBuffer c) = 0 then Some (c, [])
      else case r of
        WriteErr e \<Rightarrow> Some (c, [])
      | WriteOk n \<Rightarrow>
          if n = 0 then Some (c, [])
          else do {
            let n = min n (readableBytes (tc_outputBuffer c));
            b \<leftarrow> retrieve n (tc_outputBuffer c);
            let sent = peek n (tc_outputBuffer c);
            let c = c\<lparr>tc_outputBuffer := b,
                      tc_backPressured := (tc_backPressured c \<and> \<not> readableBytes b \<le> tc_lowWaterMark c)\<rparr>;
            (c, ev) \<leftarrow> write_loop rs c;
            Some (c, Wrote sent # ev)
          })"

definition handleWrite :: "write_result list \<Rightarrow> TcpConnection \<Rightarrow> (TcpConnection \<times> tcp_event list) option" where
  "handleWrite rs c =
     (if \<not> tc_writing c then Some (c, [])
      else do {
        (c, ev) \<leftarrow> write_loop rs c;
        if readableBytes (tc_outputBuffer c) = 0
        then
          let c = c\<lparr>tc_writing := False\<rparr> in
          Some (c, ev @ (if tc_hasWriteCompleteCallback c then [WriteCompleteCb] else []) @
                   (if tc_state c = kDisconnecting then shutdownInLoop c else []))
        else Some (c, ev)
      })"

definition sendInLoop :: "write_result \<Rightarrow> string \<Rightarrow> TcpConnection \<Rightarrow> (TcpConnection \<times> tcp_event list) option" where
  "sendInLoop r data c =
     (if tc_state c = kDisconnected then Some (c, [])
      else
        let direct = (\<not> tc_writing c \<and> readableBytes (tc_outputBuffer c) = 0);
            nwrote = (case r of WriteOk n \<Rightarrow> if direct then n else 0 | WriteErr _ \<Rightarrow> 0);
            remaining = length data - nwrote;
            faultError = (direct \<and> (r = WriteErr EPIPE \<or> r = WriteErr ECONNRESET));
            ev = Sending data # (if nwrote > 0 then [Wrote (take nwrote data)] else []) @
                 (if direct \<and> (case r of WriteOk _ \<Rightarrow> True | WriteErr _ \<Rightarrow> False) \<and> remaining = 0 \<and> tc_hasWriteCompleteCallback c
                  then [WriteCompleteCb] else []) in
        if faultError then Some (c, ev @ [Faulted data])
        else if remaining = 0 then Some (c, ev)
        else if readableBytes (tc_outputBuffer c) + remaining > tc_maxOutputBufferBytes c
        then Some (c\<lparr>tc_backPressured := True\<rparr>, ev @ [Dropped (drop nwrote data)])
        else do {
          b \<leftarrow> append (drop nwrote data) (tc_outputBuffer c);
          let high = (\<not> tc_backPressured c \<and> readableBytes b \<ge> tc_highWaterMark c);
          Some (c\<lparr>tc_outputBuffer := b, tc_backPressured := (tc_backPressured c \<or> high), tc_writing := True\<rparr>,
                ev @ (if high \<and> tc_hasHighWaterMarkCallback c then [HighWaterCb (readableBytes b)] else []))
        })"

definition forceCloseInLoop :: "TcpConnection \<Rightarrow> TcpConnection \<times> tcp_event list" where
  "forceCloseInLoop c =
     (if tc_state c = kConnected \<or> tc_state c = kDisconnecting then handleClose c else (c, []))"

section \<open>Operations of any thread\<close>

definition send :: "bool \<Rightarrow> write_result \<Rightarrow> string \<Rightarrow> TcpConnection \<Rightarrow> (TcpConnection \<times> tcp_event list) option" where
  "send inLoop r data c =
     (if tc_state c = kConnected
      then if inLoop then sendInLoop r data c else Some (c, [Queue (SendTask data)])
      else Some (c, []))"

definition send_string :: "bool \<Rightarrow> write_result \<Rightarrow> string \<Rightarrow> TcpConnection \<Rightarrow> (TcpConnection \<times> tcp_event list) option" where
  "send_string inLoop r data c = send inLoop r data c"

text \<open>\<open>handleError\<close> only logs: the number it reports, from the answer of \<open>getsockopt\<close>, its result and \<open>errno\<close>.\<close>

definition handleError :: "int \<Rightarrow> int \<Rightarrow> int \<Rightarrow> TcpConnection \<Rightarrow> int \<times> TcpConnection" where
  "handleError ret so_error errno c = (if ret < 0 then errno else so_error, c)"

definition send_buffer ::
    "bool \<Rightarrow> write_result \<Rightarrow> Buffer \<Rightarrow> TcpConnection \<Rightarrow> (Buffer \<times> TcpConnection \<times> tcp_event list) option" where
  "send_buffer inLoop r buf c =
     (if tc_state c = kConnected
      then if inLoop
        then do {
          (c, ev) \<leftarrow> sendInLoop r (peek (readableBytes buf) buf) c;
          Some (retrieveAll buf, c, ev) }
        else do {
          (message, buf') \<leftarrow> retrieveAllAsString buf;
          Some (buf', c, [Queue (SendTask message)]) }
      else Some (buf, c, []))"

definition shutdown :: "bool \<Rightarrow> TcpConnection \<Rightarrow> TcpConnection \<times> tcp_event list" where
  "shutdown inLoop c =
     (if tc_state c = kConnected
      then let c = c\<lparr>tc_state := kDisconnecting\<rparr> in (c, if inLoop then shutdownInLoop c else [Queue ShutdownTask])
      else (c, []))"

definition forceClose :: "TcpConnection \<Rightarrow> TcpConnection \<times> tcp_event list" where
  "forceClose c =
     (if tc_state c = kConnected \<or> tc_state c = kDisconnecting
      then (c\<lparr>tc_state := kDisconnecting\<rparr>, [Queue ForceCloseTask])
      else (c, []))"

definition forceCloseWithDelay :: "'d \<Rightarrow> TcpConnection \<Rightarrow> TcpConnection \<times> tcp_event list" where
  "forceCloseWithDelay seconds c =
     (if tc_state c = kConnected \<or> tc_state c = kDisconnecting
      then (c\<lparr>tc_state := kDisconnecting\<rparr>, [Queue ForceCloseTask])
      else (c, []))"

definition connectEstablished :: "TcpConnection \<Rightarrow> TcpConnection \<times> tcp_event list" where
  "connectEstablished c =
     (if tc_state c = kConnecting
      then (c\<lparr>tc_state := kConnected, tc_reading := True\<rparr>,
            if tc_hasConnectionCallback c then [ConnectionCb True] else [])
      else (c, []))"

text \<open>\<open>Channel::remove\<close> asserts that the channel has no interest left.\<close>

definition connectDestroyed :: "TcpConnection \<Rightarrow> (TcpConnection \<times> tcp_event list) option" where
  "connectDestroyed c =
     (let (c, ev) =
        (if tc_state c = kConnected
         then (disableAll (c\<lparr>tc_state := kDisconnected\<rparr>), if tc_hasConnectionCallback c then [ConnectionCb False] else [])
         else (c, [])) in
      if tc_reading c \<or> tc_writing c then None else Some (c, ev))"

definition TcpConnection_destroy :: "TcpConnection \<Rightarrow> tcp_event list" where
  "TcpConnection_destroy c = (if tc_state c = kConnected then [CloseSocket] else [])"

definition run_task :: "write_result \<Rightarrow> tcp_task \<Rightarrow> TcpConnection \<Rightarrow> (TcpConnection \<times> tcp_event list) option" where
  "run_task r t c =
     (case t of
        SendTask data \<Rightarrow> sendInLoop r data c
      | ShutdownTask \<Rightarrow> Some (c, shutdownInLoop c)
      | ForceCloseTask \<Rightarrow> Some (forceCloseInLoop c))"

section \<open>Histories\<close>

text \<open>
  The connection, the tasks it has queued on its loop, and the trace. The loop runs queued tasks in
  order; the server queues \<open>connectDestroyed\<close> from the close callback.
\<close>

datatype tcp_op =
    Establish
  | Readable "readv_result list"
  | Writable "write_result list"
  | HangUp
  | Send bool write_result string
  | Shutdown bool
  | ForceClose
  | RunTask write_result
  | Destroy
  | SetLimits nat nat nat

type_synonym tcp_sys = "TcpConnection \<times> tcp_task list \<times> tcp_event list"

definition tcp_do :: "tcp_op \<Rightarrow> tcp_task list \<Rightarrow> tcp_event list \<Rightarrow> TcpConnection \<Rightarrow> (TcpConnection \<times> tcp_event list) option" where
  "tcp_do a pend log c =
     (case a of
        Establish \<Rightarrow> Some (connectEstablished c)
      | Readable rs \<Rightarrow> handleRead rs c
      | Writable rs \<Rightarrow> handleWrite rs c
      | HangUp \<Rightarrow> Some (handleClose c)
      | Send inLoop r data \<Rightarrow> send inLoop r data c
      | Shutdown inLoop \<Rightarrow> Some (shutdown inLoop c)
      | ForceClose \<Rightarrow> Some (forceClose c)
      | RunTask r \<Rightarrow> (case pend of [] \<Rightarrow> Some (c, []) | t # _ \<Rightarrow> run_task r t c)
      | Destroy \<Rightarrow> if CloseCb \<in> set log then connectDestroyed c else Some (c, [])
      | SetLimits h l m \<Rightarrow>
          Some (setMaxOutputBufferBytes m (setLowWaterMark l (setHighWaterMark h c)), []))"

fun queued :: "tcp_event list \<Rightarrow> tcp_task list" where
  "queued [] = []"
| "queued (Queue t # es) = t # queued es"
| "queued (e # es) = queued es"

fun tcp_step :: "tcp_sys option \<Rightarrow> tcp_op \<Rightarrow> tcp_sys option" where
  "tcp_step None a = None"
| "tcp_step (Some (c, pend, log)) a =
     map_option (\<lambda>(c', ev). (c', (case a of RunTask _ \<Rightarrow> tl pend | _ \<Rightarrow> pend) @ queued ev, log @ ev))
       (tcp_do a pend log c)"

text \<open>The bytes written, and the bytes that should have been: every message sent less the tails given up.\<close>

fun wrote :: "tcp_event list \<Rightarrow> string" where
  "wrote [] = []"
| "wrote (Wrote s # es) = s @ wrote es"
| "wrote (e # es) = wrote es"

fun intend :: "string \<Rightarrow> tcp_event \<Rightarrow> string" where
  "intend acc (Sending d) = acc @ d"
| "intend acc (Dropped d) = take (length acc - length d) acc"
| "intend acc (Faulted d) = take (length acc - length d) acc"
| "intend acc _ = acc"

definition intended :: "tcp_event list \<Rightarrow> string" where
  "intended log = foldl intend [] log"

fun ups :: "tcp_event list \<Rightarrow> bool list" where
  "ups [] = []"
| "ups (ConnectionCb b # es) = b # ups es"
| "ups (e # es) = ups es"

definition life :: "tcp_state \<Rightarrow> bool list" where
  "life st = (case st of kConnecting \<Rightarrow> [] | kConnected \<Rightarrow> [True] | kDisconnecting \<Rightarrow> [True] | kDisconnected \<Rightarrow> [True, False])"

lemma wrote_append [simp]: "wrote (xs @ ys) = wrote xs @ wrote ys"
  by (induction xs rule: wrote.induct) auto

lemma ups_append [simp]: "ups (xs @ ys) = ups xs @ ups ys"
  by (induction xs rule: ups.induct) auto

lemma intended_append: "intended (xs @ ys) = foldl intend (intended xs) ys"
  by (simp add: intended_def)

definition tcp_inv :: "tcp_sys \<Rightarrow> bool" where
  "tcp_inv = (\<lambda>(c, pend, log).
     buffer_inv (tc_inputBuffer c) \<and> buffer_inv (tc_outputBuffer c) \<and>
     wrote log @ content (tc_outputBuffer c) = intended log \<and>
     (tc_state c \<noteq> kDisconnected \<longrightarrow> (tc_writing c \<longleftrightarrow> content (tc_outputBuffer c) \<noteq> [])) \<and>
     (tc_state c = kDisconnected \<longrightarrow> \<not> tc_reading c \<and> \<not> tc_writing c) \<and>
     (tc_hasConnectionCallback c \<longrightarrow> ups log = life (tc_state c)) \<and>
     (CloseCb \<in> set log \<longrightarrow> tc_state c = kDisconnected) \<and> CloseSocket \<notin> set log)"

text \<open>What an operation promises: the next state satisfies the invariant with its events appended.\<close>

definition keeps :: "tcp_sys \<Rightarrow> (TcpConnection \<times> tcp_event list) option \<Rightarrow> bool" where
  "keeps s res = (case s of (c, pend, log) \<Rightarrow>
     (\<exists>c' ev. res = Some (c', ev) \<and> (\<forall>pend'. tcp_inv (c', pend', log @ ev))))"

lemma tcp_invI:
  assumes "tcp_inv (c, pend, log)" "buffer_inv (tc_inputBuffer c')" "buffer_inv (tc_outputBuffer c')"
    and "wrote (log @ ev) @ content (tc_outputBuffer c') = foldl intend (intended log) ev"
    and "tc_state c' \<noteq> kDisconnected \<Longrightarrow> tc_writing c' \<longleftrightarrow> content (tc_outputBuffer c') \<noteq> []"
    and "tc_state c' = kDisconnected \<Longrightarrow> \<not> tc_reading c' \<and> \<not> tc_writing c'"
    and "tc_hasConnectionCallback c' = tc_hasConnectionCallback c"
    and "tc_hasConnectionCallback c \<Longrightarrow> life (tc_state c) @ ups ev = life (tc_state c')"
    and "CloseCb \<in> set ev \<or> tc_state c = kDisconnected \<Longrightarrow> tc_state c' = kDisconnected" "CloseSocket \<notin> set ev"
  shows "tcp_inv (c', pend', log @ ev)"
  using assms unfolding tcp_inv_def by (auto simp: intended_append)

lemma keepsI:
  assumes "res = Some (c', ev)" "\<And>pend'. tcp_inv (c', pend', log @ ev)"
  shows "keeps (c, pend, log) res"
  using assms by (simp add: keeps_def)

lemma handleClose_keeps:
  assumes "tcp_inv (c, pend, log)" "c' = c \<or> (\<exists>b. c' = c\<lparr>tc_inputBuffer := b\<rparr> \<and> buffer_inv b)"
  shows "keeps (c, pend, log) (Some (handleClose c'))"
proof (rule keepsI)
  show "Some (handleClose c') = Some (fst (handleClose c'), snd (handleClose c'))" by simp
  show "tcp_inv (fst (handleClose c'), pend', log @ snd (handleClose c'))" for pend'
    using assms
    by (intro tcp_invI [OF assms(1)])
      (auto simp: handleClose_def disableAll_def tcp_inv_def life_def split: if_splits tcp_state.splits)
qed

lemma read_loop_total:
  "buffer_inv b \<Longrightarrow> \<exists>b' received' stop. read_loop rs received b = Some (b', received', stop) \<and> buffer_inv b'"
proof (induction rs arbitrary: b received)
  case (Cons r rs)
  show ?case
  proof (cases r)
    case (ReadErr e)
    with Cons.prems show ?thesis by (simp add: readFd_def)
  next
    case (ReadOk data)
    from readFd_spec [OF Cons.prems, of data] obtain b' where
      "readFd (ReadOk data) b = Some (int (length data), None, b')" "buffer_inv b'" by blast
    with Cons.IH [of b' True] ReadOk show ?thesis by auto
  qed
qed simp

lemma handleRead_keeps:
  assumes "tcp_inv (c, pend, log)"
  shows "keeps (c, pend, log) (handleRead rs c)"
proof -
  from assms(1) have "buffer_inv (tc_inputBuffer c)" by (simp add: tcp_inv_def)
  from read_loop_total [OF this] obtain b received stop where
    r: "read_loop rs False (tc_inputBuffer c) = Some (b, received, stop)" "buffer_inv b" by blast
  show ?thesis
  proof (cases stop)
    case PeerClosed
    from handleClose_keeps [OF assms, of "c\<lparr>tc_inputBuffer := b\<rparr>"] r PeerClosed show ?thesis
      by (auto simp: handleRead_def)
  next
    case Failed
    with r assms(1) show ?thesis
      by (intro keepsI [of _ "c\<lparr>tc_inputBuffer := b\<rparr>" "[]"])
        (auto simp: handleRead_def tcp_inv_def)
  next
    case WouldBlock
    with r assms(1) show ?thesis
      by (intro keepsI [of _ "c\<lparr>tc_inputBuffer := b\<rparr>" "if received \<and> tc_hasMessageCallback c then [MessageCb] else []"])
        (auto simp: handleRead_def tcp_inv_def intended_append)
  qed
qed

lemma write_loop_spec:
  assumes "buffer_inv (tc_outputBuffer c)"
  shows "\<exists>b bp ev. write_loop rs c = Some (c\<lparr>tc_outputBuffer := b, tc_backPressured := bp\<rparr>, ev) \<and> buffer_inv b \<and>
    wrote ev @ content b = content (tc_outputBuffer c) \<and> ev = map Wrote (map (\<lambda>e. wrote [e]) ev)"
  using assms
proof (induction rs arbitrary: c)
  case Nil
  then show ?case
    by (intro exI [of _ "tc_outputBuffer c"] exI [of _ "tc_backPressured c"] exI [of _ "[]"]) simp
next
  case (Cons r rs)
  let ?b = "tc_outputBuffer c"
  have stay: "\<exists>b bp ev. Some (c, []) = Some (c\<lparr>tc_outputBuffer := b, tc_backPressured := bp\<rparr>, ev) \<and> buffer_inv b \<and>
      wrote ev @ content b = content ?b \<and> ev = map Wrote (map (\<lambda>e. wrote [e]) ev)"
    using Cons.prems by (intro exI [of _ ?b] exI [of _ "tc_backPressured c"] exI [of _ "[]"]) simp
  show ?case
  proof (cases r)
    case (WriteErr e)
    with stay show ?thesis by simp
  next
    case (WriteOk n)
    show ?thesis
    proof (cases "readableBytes ?b = 0 \<or> n = 0")
      case True
      with stay WriteOk show ?thesis by auto
    next
      case False
      define m where "m = min n (readableBytes ?b)"
      have m: "m \<le> length (content ?b)" "peek m ?b = take m (content ?b)"
        using Cons.prems by (simp_all add: m_def readableBytes_content peek_content)
      from retrieve_spec [OF Cons.prems m(1)] obtain b1 where
        b1: "retrieve m ?b = Some b1" "buffer_inv b1" "content b1 = drop m (content ?b)" by blast
      define c1 where "c1 = c\<lparr>tc_outputBuffer := b1,
          tc_backPressured := (tc_backPressured c \<and> \<not> readableBytes b1 \<le> tc_lowWaterMark c)\<rparr>"
      have "buffer_inv (tc_outputBuffer c1)" by (simp add: c1_def b1)
      from Cons.IH [OF this] obtain b2 bp ev where
        ih: "write_loop rs c1 = Some (c1\<lparr>tc_outputBuffer := b2, tc_backPressured := bp\<rparr>, ev)" "buffer_inv b2"
        "wrote ev @ content b2 = content b1" "ev = map Wrote (map (\<lambda>e. wrote [e]) ev)"
        by (auto simp: c1_def)
      have "write_loop (r # rs) c = Some (c\<lparr>tc_outputBuffer := b2, tc_backPressured := bp\<rparr>, Wrote (peek m ?b) # ev)"
        using False WriteOk b1(1) ih(1) by (simp add: m_def [symmetric] c1_def [symmetric]) (simp add: c1_def)
      moreover have "wrote (Wrote (peek m ?b) # ev) @ content b2 = content ?b"
        using ih(3) by (simp add: m(2) b1(3))
      moreover have "Wrote (peek m ?b) # ev = map Wrote (map (\<lambda>e. wrote [e]) (Wrote (peek m ?b) # ev))"
        using ih(4) by simp
      ultimately show ?thesis using ih(2)
        by (intro exI [of _ b2] exI [of _ bp] exI [of _ "Wrote (peek m ?b) # ev"] conjI)
    qed
  qed
qed

lemma only_writes:
  assumes "ev = map Wrote xs"
  shows "foldl intend acc ev = acc" "ups ev = []" "CloseCb \<notin> set ev" "CloseSocket \<notin> set ev"
  unfolding assms by (induction xs arbitrary: acc) auto

lemma handleWrite_keeps:
  assumes "tcp_inv (c, pend, log)"
  shows "keeps (c, pend, log) (handleWrite rs c)"
proof (cases "tc_writing c")
  case False
  with assms show ?thesis by (intro keepsI [of _ c "[]"]) (auto simp: handleWrite_def tcp_inv_def)
next
  case True
  from assms have inv: "buffer_inv (tc_outputBuffer c)" "buffer_inv (tc_inputBuffer c)"
    "wrote log @ content (tc_outputBuffer c) = intended log" "tc_state c \<noteq> kDisconnected"
    using True by (auto simp: tcp_inv_def)
  from write_loop_spec [OF inv(1), of rs] obtain b bp ev where
    w: "write_loop rs c = Some (c\<lparr>tc_outputBuffer := b, tc_backPressured := bp\<rparr>, ev)" "buffer_inv b"
    "wrote ev @ content b = content (tc_outputBuffer c)" "ev = map Wrote (map (\<lambda>e. wrote [e]) ev)" by blast
  note ev = only_writes [OF w(4)]
  have total: "wrote log @ wrote ev @ content b = intended log" using w(3) inv(3) by simp
  have zero: "readableBytes b = 0 \<longleftrightarrow> content b = []" using w(2) by (simp add: readableBytes_content)
  let ?c = "c\<lparr>tc_outputBuffer := b, tc_backPressured := bp\<rparr>"
  show ?thesis
  proof (cases "content b = []")
    case True
    define ev2 where "ev2 = (if tc_hasWriteCompleteCallback c then [WriteCompleteCb] else []) @
      (if tc_state c = kDisconnecting then [ShutdownWrite] else [])"
    have ev2: "foldl intend acc ev2 = acc" "ups ev2 = []" "CloseCb \<notin> set ev2" "CloseSocket \<notin> set ev2" "wrote ev2 = []" for acc
      by (auto simp: ev2_def)
    have "readableBytes b = 0" using True zero by blast
    then have "handleWrite rs c = Some (?c\<lparr>tc_writing := False\<rparr>, ev @ ev2)"
      using \<open>tc_writing c\<close> w(1) by (simp add: handleWrite_def ev2_def shutdownInLoop_def)
    then show ?thesis
      using inv w(2) ev ev2 True total
      by (intro keepsI [of _ "?c\<lparr>tc_writing := False\<rparr>" "ev @ ev2"] tcp_invI [OF assms]) auto
  next
    case False
    with \<open>tc_writing c\<close> w(1) zero have "handleWrite rs c = Some (?c, ev)" by (simp add: handleWrite_def)
    then show ?thesis
      using inv w(2) ev False total \<open>tc_writing c\<close>
      by (intro keepsI [of _ ?c ev] tcp_invI [OF assms]) auto
  qed
qed

text \<open>Events of a direct write: the bytes \<open>w\<close> went out and nothing else was promised.\<close>

definition only_wrote :: "string \<Rightarrow> tcp_event list \<Rightarrow> bool" where
  "only_wrote w ev \<longleftrightarrow> wrote ev = w \<and> ups ev = [] \<and> CloseCb \<notin> set ev \<and> CloseSocket \<notin> set ev \<and> (\<forall>acc. foldl intend acc ev = acc)"

text \<open>The branches of \<open>sendInLoop\<close> on an open connection; \<open>n\<close> bytes were written at once, none behind buffered ones.\<close>

lemma sendInLoop_cases:
  assumes "buffer_inv (tc_outputBuffer c)" "tc_writing c \<longleftrightarrow> content (tc_outputBuffer c) \<noteq> []" "tc_state c \<noteq> kDisconnected"
  obtains (fault) ev where "only_wrote [] ev" "sendInLoop r data c = Some (c, Sending data # ev @ [Faulted data])"
  | (all) n ev where "only_wrote (take n data) ev" "n > 0 \<longrightarrow> content (tc_outputBuffer c) = []"
      "sendInLoop r data c = Some (c, Sending data # ev)" "length data \<le> n"
  | (dropped) n ev where "only_wrote (take n data) ev" "n > 0 \<longrightarrow> content (tc_outputBuffer c) = []"
      "sendInLoop r data c = Some (c\<lparr>tc_backPressured := True\<rparr>, Sending data # ev @ [Dropped (drop n data)])" "n < length data"
  | (queued) n ev b bp ev' where "only_wrote (take n data) ev" "n > 0 \<longrightarrow> content (tc_outputBuffer c) = []"
      "sendInLoop r data c = Some (c\<lparr>tc_outputBuffer := b, tc_backPressured := bp, tc_writing := True\<rparr>, Sending data # ev @ ev')"
      "only_wrote [] ev'" "buffer_inv b" "content b = content (tc_outputBuffer c) @ drop n data" "n < length data"
proof -
  let ?b = "tc_outputBuffer c"
  define direct where "direct = (\<not> tc_writing c \<and> readableBytes ?b = 0)"
  define n where "n = (case r of WriteOk n \<Rightarrow> if direct then n else 0 | WriteErr _ \<Rightarrow> 0)"
  define ev where "ev = (if n > 0 then [Wrote (take n data)] else []) @
      (if direct \<and> (case r of WriteOk _ \<Rightarrow> True | WriteErr _ \<Rightarrow> False) \<and> length data - n = 0 \<and> tc_hasWriteCompleteCallback c
       then [WriteCompleteCb] else [])"
  have ev: "only_wrote (take n data) ev" by (auto simp: only_wrote_def ev_def)
  have n: "n > 0 \<longrightarrow> content ?b = []"
    using assms by (auto simp: n_def direct_def readableBytes_content split: write_result.splits if_splits)
  obtain b where b: "append (drop n data) ?b = Some b" "buffer_inv b" "content b = content ?b @ drop n data"
    using append_spec [OF assms(1)] by blast
  define hi where "hi = (\<not> tc_backPressured c \<and> readableBytes b \<ge> tc_highWaterMark c)"
  have send: "sendInLoop r data c =
      (if direct \<and> (r = WriteErr EPIPE \<or> r = WriteErr ECONNRESET) then Some (c, Sending data # ev @ [Faulted data])
       else if length data - n = 0 then Some (c, Sending data # ev)
       else if readableBytes ?b + (length data - n) > tc_maxOutputBufferBytes c
       then Some (c\<lparr>tc_backPressured := True\<rparr>, Sending data # ev @ [Dropped (drop n data)])
       else Some (c\<lparr>tc_outputBuffer := b, tc_backPressured := (tc_backPressured c \<or> hi), tc_writing := True\<rparr>,
                Sending data # ev @ (if hi \<and> tc_hasHighWaterMarkCallback c then [HighWaterCb (readableBytes b)] else [])))"
    using assms(3) b(1) by (simp add: sendInLoop_def direct_def [symmetric] n_def [symmetric] ev_def hi_def Let_def)
  have hw: "only_wrote [] (if hi \<and> tc_hasHighWaterMarkCallback c then [HighWaterCb (readableBytes b)] else [])"
    by (simp add: only_wrote_def)
  show ?thesis
  proof (cases "direct \<and> (r = WriteErr EPIPE \<or> r = WriteErr ECONNRESET)")
    case True
    then have "n = 0" by (auto simp: n_def)
    with True ev send show ?thesis by (intro fault [of ev]) simp_all
  next
    case nofault: False
    show ?thesis
    proof (cases "length data - n = 0")
      case True
      with nofault send show ?thesis by (intro all [OF ev n]) simp_all
    next
      case rest: False
      then show ?thesis
        using nofault send b(2,3) hw
        by (cases "readableBytes ?b + (length data - n) > tc_maxOutputBufferBytes c") (auto intro: dropped [OF ev n] queued [OF ev n])
    qed
  qed
qed

lemma sendInLoop_keeps:
  assumes "tcp_inv (c, pend, log)"
  shows "keeps (c, pend, log) (sendInLoop r data c)"
proof (cases "tc_state c = kDisconnected")
  case True
  with assms show ?thesis by (intro keepsI [of _ c "[]"]) (auto simp: sendInLoop_def tcp_inv_def)
next
  case False
  let ?b = "tc_outputBuffer c"
  from assms have inv: "buffer_inv ?b" "buffer_inv (tc_inputBuffer c)" "wrote log @ content ?b = intended log"
    "tc_writing c \<longleftrightarrow> content ?b \<noteq> []"
    using False by (auto simp: tcp_inv_def)
  have swap: "content ?b @ take n data = take n data @ content ?b" if "n > 0 \<longrightarrow> content ?b = []" for n
    using that by (cases "n = 0") auto
  from inv(1,4) False show ?thesis
  proof (cases rule: sendInLoop_cases [of c r data])
    case (fault ev)
    with False inv show ?thesis
      by (intro keepsI [OF fault(2)] tcp_invI [OF assms]) (auto simp: only_wrote_def)
  next
    case (all n ev)
    have "content ?b = [] \<or> data = []" using all(2,4) by (cases "n = 0") auto
    with all False inv show ?thesis
      by (intro keepsI [OF all(3)] tcp_invI [OF assms]) (auto simp: only_wrote_def)
  next
    case (dropped n ev)
    have "wrote log @ take n data @ content ?b = intended log @ take n data" using inv(3) swap [OF dropped(2)] by (metis append_assoc)
    moreover have "take (length (intended log) + length data - (length data - n)) (intended log @ data) = intended log @ take n data"
      using dropped(4) by simp
    ultimately show ?thesis
      using dropped False inv by (intro keepsI [OF dropped(3)] tcp_invI [OF assms]) (auto simp: only_wrote_def)
  next
    case (queued n ev b bp ev')
    have "wrote log @ take n data @ content b = intended log @ data"
      using inv(3) queued(6) swap [OF queued(2)] by (metis append_assoc append_take_drop_id)
    with queued inv False show ?thesis
      by (intro keepsI [OF queued(3)] tcp_invI [OF assms]) (auto simp: only_wrote_def)
  qed
qed

lemma state_ops_keep:
  assumes "tcp_inv (c, pend, log)"
  shows "keeps (c, pend, log) (Some (connectEstablished c))" "keeps (c, pend, log) (Some (shutdown inLoop c))"
    "keeps (c, pend, log) (Some (forceClose c))" "keeps (c, pend, log) (Some (c, shutdownInLoop c))"
  using assms
  by (auto simp: keeps_def tcp_inv_def connectEstablished_def shutdown_def forceClose_def shutdownInLoop_def
      intended_append life_def Let_def)

lemma destroy_keeps:
  assumes "tcp_inv (c, pend, log)" "CloseCb \<in> set log"
  shows "keeps (c, pend, log) (connectDestroyed c)"
  using assms by (auto simp: keeps_def tcp_inv_def connectDestroyed_def)

lemma send_keeps:
  assumes "tcp_inv (c, pend, log)"
  shows "keeps (c, pend, log) (send inLoop r data c)"
proof (cases "tc_state c = kConnected \<and> inLoop")
  case True
  then show ?thesis using sendInLoop_keeps [OF assms] by (simp add: send_def)
next
  case False
  with assms show ?thesis by (auto simp: send_def keeps_def tcp_inv_def intended_append)
qed

lemma run_task_keeps:
  assumes "tcp_inv (c, pend, log)"
  shows "keeps (c, pend, log) (run_task r t c)"
proof (cases t)
  case (SendTask data)
  then show ?thesis using sendInLoop_keeps [OF assms] by (simp add: run_task_def)
next
  case ShutdownTask
  then show ?thesis using state_ops_keep(4) [OF assms] by (simp add: run_task_def)
next
  case ForceCloseTask
  have "forceCloseInLoop c = handleClose c" by (simp add: forceCloseInLoop_def handleClose_def)
  then show ?thesis using handleClose_keeps [OF assms, of c] ForceCloseTask by (simp add: run_task_def)
qed

lemma tcp_do_keeps:
  assumes "tcp_inv (c, pend, log)"
  shows "keeps (c, pend, log) (tcp_do a pend log c)"
proof -
  have same: "keeps (c, pend, log) (Some (c, []))"
    using assms by (auto simp: keeps_def tcp_inv_def)
  show ?thesis
  proof (cases a)
    case (SetLimits h l m)
    with assms show ?thesis
      by (auto simp: tcp_do_def keeps_def tcp_inv_def setHighWaterMark_def setLowWaterMark_def setMaxOutputBufferBytes_def)
  next
    case (RunTask r)
    show ?thesis
    proof (cases pend)
      case Nil
      with RunTask same show ?thesis by (simp add: tcp_do_def)
    next
      case (Cons t ts)
      with RunTask run_task_keeps [OF assms, of r t] show ?thesis by (simp add: tcp_do_def)
    qed
  qed (use assms same in \<open>simp_all add: tcp_do_def state_ops_keep handleRead_keeps handleWrite_keeps handleClose_keeps
      send_keeps destroy_keeps\<close>)
qed

definition tcp_sys_inv :: "tcp_sys option \<Rightarrow> bool" where
  "tcp_sys_inv s \<longleftrightarrow> (case s of None \<Rightarrow> False | Some t \<Rightarrow> tcp_inv t)"

definition fresh :: "TcpConnection \<Rightarrow> bool" where
  "fresh c \<longleftrightarrow> tc_state c = kConnecting \<and> \<not> tc_reading c \<and> \<not> tc_writing c \<and> tc_inputBuffer c = Buffer_init \<and>
     tc_outputBuffer c = Buffer_init"

interpretation tcp: invariant_system "\<lambda>s. \<exists>c. fresh c \<and> s = Some (c, [], [])" tcp_step tcp_sys_inv
proof unfold_locales
  fix s :: "tcp_sys option"
  assume "\<exists>c. fresh c \<and> s = Some (c, [], [])"
  then show "tcp_sys_inv s"
    by (auto simp: tcp_sys_inv_def tcp_inv_def fresh_def intended_def life_def)
next
  fix s :: "tcp_sys option" and a
  assume "tcp_sys_inv s"
  then obtain c pend log where s: "s = Some (c, pend, log)" "tcp_inv (c, pend, log)"
    by (auto simp: tcp_sys_inv_def split: option.splits)
  from tcp_do_keeps [OF s(2), of a] show "tcp_sys_inv (tcp_step s a)"
    by (auto simp: s(1) tcp_sys_inv_def keeps_def)
qed

lemma tcp_reached:
  assumes "fresh c0"
  obtains c pend log where "run tcp_step (Some (c0, [], [])) ops = Some (c, pend, log)" "tcp_inv (c, pend, log)"
  using tcp.inv_reached [of "Some (c0, [], [])" ops] assms
  by (auto simp: tcp_sys_inv_def split: option.splits)

text \<open>
  Claim C19 (tcp_stream). Whatever the sequence of events, calls and answers of the system calls, no
  assertion fires, and the bytes written to the socket followed by the bytes still buffered are exactly
  the messages handed to \<open>sendInLoop\<close>, in order and unchanged, less the tails that were given up
  because the buffer would have exceeded its limit or the peer was gone.
\<close>

theorem tcp_stream:
  assumes "fresh c0"
  shows "\<exists>c pend log. run tcp_step (Some (c0, [], [])) ops = Some (c, pend, log) \<and>
    wrote log @ content (tc_outputBuffer c) = intended log"
proof -
  obtain c pend log where "run tcp_step (Some (c0, [], [])) ops = Some (c, pend, log)" "tcp_inv (c, pend, log)"
    using tcp_reached [OF assms] .
  then show ?thesis by (simp add: tcp_inv_def)
qed

text \<open>
  Over any history the connection callback is called at most twice, first when
  the connection is established and then when it is down, in step with the state; a connection that is
  down has no interest in events left, so its removal from the poller asserts nothing; and the socket is
  shut down for writing only when nothing is buffered, so a graceful shutdown loses no accepted byte.
\<close>

theorem tcp_lifecycle:
  assumes "fresh c0" "run tcp_step (Some (c0, [], [])) ops = Some (c, pend, log)" "tc_hasConnectionCallback c"
  shows "ups log = life (tc_state c) \<and>
    (tc_state c = kDisconnected \<longrightarrow> \<not> tc_reading c \<and> \<not> tc_writing c) \<and>
    (tc_state c \<noteq> kDisconnected \<longrightarrow> (shutdownInLoop c = [ShutdownWrite] \<longleftrightarrow> wrote log = intended log))"
proof -
  from tcp_reached [OF assms(1), of ops] assms(2) have inv: "tcp_inv (c, pend, log)" by auto
  then have "wrote log @ content (tc_outputBuffer c) = intended log" by (simp add: tcp_inv_def)
  then have "wrote log = intended log \<longleftrightarrow> content (tc_outputBuffer c) = []" by (metis append_Nil2 append_self_conv)
  with inv assms(3) show ?thesis by (auto simp: tcp_inv_def shutdownInLoop_def)
qed

text \<open>
  The destructor closes the socket only in the state \<open>kConnected\<close>.
  A connection whose close callback has run, which is when the server lets go of it, is in the state
  \<open>kDisconnected\<close> whatever happens later, so it is destroyed without closing its socket: every
  connection that ends leaks its file descriptor.
\<close>

theorem removed_socket_not_closed:
  assumes "fresh c0" "run tcp_step (Some (c0, [], [])) ops = Some (c, pend, log)" "CloseCb \<in> set log"
  shows "TcpConnection_destroy c = [] \<and> CloseSocket \<notin> set log"
proof -
  from tcp_reached [OF assms(1), of ops] assms(2) have inv: "tcp_inv (c, pend, log)" by auto
  then have "tc_state c = kDisconnected" using assms(3) by (simp add: tcp_inv_def)
  with inv show ?thesis by (simp add: TcpConnection_destroy_def tcp_inv_def)
qed

text \<open>
  When the socket takes a part of a message and the rest exceeds the
  limit of the output buffer, the rest is dropped and the connection stays up: the next message is
  written directly behind the cut one, so the peer's parser reads it as the missing rest.
\<close>

theorem limit_cuts_message:
  assumes "tc_state c = kConnected" "\<not> tc_writing c" "buffer_inv (tc_outputBuffer c)" "content (tc_outputBuffer c) = []"
    and "0 < n" "n < length data" "tc_maxOutputBufferBytes c < length data - n" "next_data \<noteq> []"
  shows "\<exists>c1 c2 ev1 ev2. sendInLoop (WriteOk n) data c = Some (c1, ev1) \<and> connected c1 \<and>
    sendInLoop (WriteOk (length next_data)) next_data c1 = Some (c2, ev2) \<and>
    wrote (ev1 @ ev2) = take n data @ next_data \<and> content (tc_outputBuffer c2) = []"
  using assms by (simp add: sendInLoop_def readableBytes_content connected_def Let_def)

section \<open>Witnesses\<close>

definition new_connection :: TcpConnection where
  "new_connection = TcpConnection_init\<lparr>tc_hasConnectionCallback := True, tc_hasMessageCallback := True,
     tc_hasCloseCallback := True, tc_maxOutputBufferBytes := 4\<rparr>"

lemma new_connection_fresh: "fresh new_connection"
  by (simp add: fresh_def new_connection_def TcpConnection_init_def)

theorem tcp_stream_witness:
  "\<exists>c pend log. run tcp_step (Some (new_connection, [], []))
       [Establish, Send True (WriteOk 1) ''abc'', Send False (WriteOk 0) ''de'', RunTask (WriteOk 0), Writable [WriteOk 2]] =
     Some (c, pend, log) \<and> wrote log @ content (tc_outputBuffer c) = intended log"
  by (rule tcp_stream [OF new_connection_fresh])

lemma closed_run:
  "\<exists>c pend log. run tcp_step (Some (new_connection, [], [])) [Establish, HangUp] = Some (c, pend, log) \<and>
     CloseCb \<in> set log \<and> tc_hasConnectionCallback c"
  by (simp add: new_connection_def TcpConnection_init_def tcp_do_def connectEstablished_def handleClose_def disableAll_def)

theorem tcp_lifecycle_witness:
  "\<exists>c pend log. run tcp_step (Some (new_connection, [], [])) [Establish, HangUp] = Some (c, pend, log) \<and>
     ups log = life (tc_state c)"
  using closed_run tcp_lifecycle [OF new_connection_fresh, of "[Establish, HangUp]"] by blast

theorem removed_socket_not_closed_witness:
  "\<exists>c pend log. run tcp_step (Some (new_connection, [], [])) [Establish, HangUp] = Some (c, pend, log) \<and>
     TcpConnection_destroy c = []"
  using closed_run removed_socket_not_closed [OF new_connection_fresh, of "[Establish, HangUp]"] by blast

theorem limit_cuts_message_witness:
  "\<exists>c1 c2 ev1 ev2. sendInLoop (WriteOk 1) ''abcdefgh'' (fst (connectEstablished new_connection)) = Some (c1, ev1) \<and>
     sendInLoop (WriteOk (length ''xyz'')) ''xyz'' c1 = Some (c2, ev2) \<and> wrote (ev1 @ ev2) = ''axyz''"
proof -
  let ?c = "fst (connectEstablished new_connection)"
  have "tc_state ?c = kConnected" "\<not> tc_writing ?c" "buffer_inv (tc_outputBuffer ?c)" "content (tc_outputBuffer ?c) = []"
    "tc_maxOutputBufferBytes ?c = 4"
    by (simp_all add: connectEstablished_def new_connection_def TcpConnection_init_def)
  with limit_cuts_message [of ?c 1 "''abcdefgh''" "''xyz''"] show ?thesis by auto
qed

end
