(* ===== verification/ThreadPool.thy ===== *)
theory ThreadPool
  imports Prelude "HOL-Library.Multiset"
begin

text \<open>
  \<open>src/base/blockingQueue.h\<close>, \<open>src/base/threadpool.h\<close> and \<open>src/base/threadpool.cpp\<close>: the pool as a step
  relation over the interleavings of its threads. A step is one access to the shared state: the test
  of the running flag, the test of the queue's size, an operation of the queue under its mutex, the run
  of a task. \<open>tp_threads\<close> bounds the calls of \<open>submit\<close> in flight at one time. The lists \<open>tp_accepted\<close>,
  \<open>tp_taken\<close>, \<open>tp_done\<close>, \<open>tp_dropped\<close>, \<open>tp_late\<close> and \<open>tp_refused\<close> record what happened to the tasks,
  which are numbered; the code never reads them.
\<close>

section \<open>The queue\<close>

definition put :: "'a \<Rightarrow> 'a list \<Rightarrow> 'a list" where
  "put task q = q @ [task]"

text \<open>The waiting \<open>take\<close> can proceed only on a non-empty queue; the timed one gives up on an empty one.\<close>

definition take_wait :: "'a list \<Rightarrow> ('a \<times> 'a list) option" where
  "take_wait q = (case q of [] \<Rightarrow> None | x # q' \<Rightarrow> Some (x, q'))"

definition take_timeout :: "'a list \<Rightarrow> 'a option \<times> 'a list" where
  "take_timeout q = (case q of [] \<Rightarrow> (None, []) | x # q' \<Rightarrow> (Some x, q'))"

definition queue_size :: "'a list \<Rightarrow> nat" where
  "queue_size q = length q"

definition queue_empty :: "'a list \<Rightarrow> bool" where
  "queue_empty q \<longleftrightarrow> q = []"

definition clear :: "'a list \<Rightarrow> 'a list" where
  "clear q = []"

section \<open>The pool\<close>

datatype job = Task nat | Noop

datatype worker = AtTest | InTake | Executing job | Exited

datatype submitter = Checked nat | Sized nat

datatype stop_phase = NotStopping | Clearing | Putting nat | Joining

record ThreadPool =
  tp_threadCount :: nat
  tp_workers :: "worker list"
  tp_taskQueue :: "job list"
  tp_runningFlag :: bool
  tp_maxQueueSize :: nat
  tp_threads :: nat
  tp_submitters :: "submitter list"
  tp_stop :: stop_phase
  tp_accepted :: "nat list"
  tp_taken :: "nat list"
  tp_done :: "nat list"
  tp_dropped :: "nat list"
  tp_late :: "nat list"
  tp_refused :: "nat list"

definition ThreadPool_init :: "nat \<Rightarrow> nat \<Rightarrow> nat \<Rightarrow> ThreadPool" where
  "ThreadPool_init threadCount maxQueueSize threads =
     \<lparr>tp_threadCount = threadCount, tp_workers = [], tp_taskQueue = [], tp_runningFlag = False,
      tp_maxQueueSize = maxQueueSize, tp_threads = threads, tp_submitters = [], tp_stop = NotStopping,
      tp_accepted = [], tp_taken = [], tp_done = [], tp_dropped = [], tp_late = [], tp_refused = []\<rparr>"

fun task_of :: "job \<Rightarrow> nat list" where
  "task_of (Task t) = [t]"
| "task_of Noop = []"

definition tasks :: "job list \<Rightarrow> nat list" where
  "tasks js = concat (map task_of js)"

fun executing :: "worker \<Rightarrow> nat list" where
  "executing (Executing j) = task_of j"
| "executing _ = []"

text \<open>
  \<open>submit\<close> tests the flag, then the size, then puts the task; \<open>workerThread\<close> tests the flag and the
  queue, takes a job or times out, and runs it; \<open>stop\<close> lowers the flag, clears the queue unless it
  drains, puts one empty job per worker and joins them.
\<close>

inductive pool_step :: "ThreadPool \<Rightarrow> ThreadPool \<Rightarrow> bool" where
  start: "\<not> tp_runningFlag p \<Longrightarrow> tp_stop p = NotStopping \<Longrightarrow> tp_workers p = [] \<Longrightarrow>
    pool_step p (p\<lparr>tp_runningFlag := True, tp_workers := replicate (tp_threadCount p) AtTest\<rparr>)"
| submit_running: "tp_runningFlag p \<Longrightarrow> length (tp_submitters p) < tp_threads p \<Longrightarrow>
    pool_step p (p\<lparr>tp_submitters := tp_submitters p @ [Checked t]\<rparr>)"
| submit_stopped: "\<not> tp_runningFlag p \<Longrightarrow>
    pool_step p (p\<lparr>tp_refused := tp_refused p @ [t]\<rparr>)"
| submit_room: "tp_submitters p = xs @ Checked t # ys \<Longrightarrow>
    \<not> (tp_maxQueueSize p > 0 \<and> queue_size (tp_taskQueue p) \<ge> tp_maxQueueSize p) \<Longrightarrow>
    pool_step p (p\<lparr>tp_submitters := xs @ Sized t # ys\<rparr>)"
| submit_full: "tp_submitters p = xs @ Checked t # ys \<Longrightarrow>
    tp_maxQueueSize p > 0 \<Longrightarrow> queue_size (tp_taskQueue p) \<ge> tp_maxQueueSize p \<Longrightarrow>
    pool_step p (p\<lparr>tp_submitters := xs @ ys, tp_refused := tp_refused p @ [t]\<rparr>)"
| submit_put: "tp_submitters p = xs @ Sized t # ys \<Longrightarrow>
    pool_step p (p\<lparr>tp_submitters := xs @ ys, tp_taskQueue := put (Task t) (tp_taskQueue p),
      tp_accepted := tp_accepted p @ [t],
      tp_late := (if tp_runningFlag p then tp_late p else tp_late p @ [t])\<rparr>)"
| worker_enter: "tp_workers p = xs @ AtTest # ys \<Longrightarrow> tp_runningFlag p \<or> \<not> queue_empty (tp_taskQueue p) \<Longrightarrow>
    pool_step p (p\<lparr>tp_workers := xs @ InTake # ys\<rparr>)"
| worker_exit: "tp_workers p = xs @ AtTest # ys \<Longrightarrow> \<not> tp_runningFlag p \<Longrightarrow> queue_empty (tp_taskQueue p) \<Longrightarrow>
    pool_step p (p\<lparr>tp_workers := xs @ Exited # ys\<rparr>)"
| worker_take: "tp_workers p = xs @ InTake # ys \<Longrightarrow> take_timeout (tp_taskQueue p) = (Some j, q) \<Longrightarrow>
    pool_step p (p\<lparr>tp_workers := xs @ Executing j # ys, tp_taskQueue := q, tp_taken := tp_taken p @ task_of j\<rparr>)"
| worker_timeout: "tp_workers p = xs @ InTake # ys \<Longrightarrow> take_timeout (tp_taskQueue p) = (None, q) \<Longrightarrow>
    pool_step p (p\<lparr>tp_workers := xs @ AtTest # ys\<rparr>)"
| worker_run: "tp_workers p = xs @ Executing j # ys \<Longrightarrow>
    pool_step p (p\<lparr>tp_workers := xs @ AtTest # ys, tp_done := tp_done p @ task_of j\<rparr>)"
| stop_begin: "tp_runningFlag p \<Longrightarrow> tp_stop p = NotStopping \<Longrightarrow>
    pool_step p (p\<lparr>tp_runningFlag := False, tp_stop := (if drain then Putting (length (tp_workers p)) else Clearing)\<rparr>)"
| stop_clear: "tp_stop p = Clearing \<Longrightarrow>
    pool_step p (p\<lparr>tp_stop := Putting (length (tp_workers p)), tp_taskQueue := clear (tp_taskQueue p),
      tp_dropped := tp_dropped p @ tasks (tp_taskQueue p)\<rparr>)"
| stop_put: "tp_stop p = Putting (Suc n) \<Longrightarrow>
    pool_step p (p\<lparr>tp_stop := Putting n, tp_taskQueue := put Noop (tp_taskQueue p)\<rparr>)"
| stop_wait: "tp_stop p = Putting 0 \<Longrightarrow> pool_step p (p\<lparr>tp_stop := Joining\<rparr>)"
| stop_joined: "tp_stop p = Joining \<Longrightarrow> list_all (\<lambda>w. w = Exited) (tp_workers p) \<Longrightarrow>
    pool_step p (p\<lparr>tp_workers := [], tp_stop := NotStopping\<rparr>)"

inductive_cases pool_stepE: "pool_step p p'"

inductive reachable :: "ThreadPool \<Rightarrow> ThreadPool \<Rightarrow> bool" for p0 where
  init: "reachable p0 p0"
| next_step: "reachable p0 p \<Longrightarrow> pool_step p p' \<Longrightarrow> reachable p0 p'"

section \<open>Invariants\<close>

definition sized :: "submitter list \<Rightarrow> nat list" where
  "sized ss = concat (map (\<lambda>s. case s of Checked _ \<Rightarrow> [] | Sized t \<Rightarrow> [t]) ss)"

definition exec_tasks :: "worker list \<Rightarrow> nat multiset" where
  "exec_tasks ws = mset (concat (map executing ws))"

text \<open>Every accepted task is queued, taken or dropped, and a taken one is being run or has been.\<close>

definition books :: "ThreadPool \<Rightarrow> bool" where
  "books p \<longleftrightarrow>
     mset (tp_accepted p) = mset (tp_taken p) + mset (tasks (tp_taskQueue p)) + mset (tp_dropped p) \<and>
     mset (tp_taken p) = exec_tasks (tp_workers p) + mset (tp_done p) \<and>
     (tp_dropped p = [] \<longrightarrow> tp_accepted p = tp_taken p @ tasks (tp_taskQueue p))"

text \<open>The queue exceeds its limit by at most the calls that have passed the test, less one.\<close>

definition within :: "ThreadPool \<Rightarrow> bool" where
  "within p \<longleftrightarrow> length (tp_submitters p) \<le> tp_threads p \<and>
     (tp_maxQueueSize p > 0 \<longrightarrow> length (tasks (tp_taskQueue p)) + length (sized (tp_submitters p)) \<le> tp_maxQueueSize p - 1 + tp_threads p)"

text \<open>Once a worker has left, only late tasks and empty jobs can be in the queue.\<close>

definition drained :: "ThreadPool \<Rightarrow> bool" where
  "drained p \<longleftrightarrow>
     (tp_stop p \<noteq> NotStopping \<longrightarrow> \<not> tp_runningFlag p) \<and>
     (Exited \<in> set (tp_workers p) \<longrightarrow> \<not> tp_runningFlag p \<and> (tp_late p = [] \<longrightarrow> tasks (tp_taskQueue p) = []))"

lemmas queue_defs = put_def take_timeout_def queue_size_def queue_empty_def clear_def

lemma tasks_simps [simp]:
  "tasks [] = []" "tasks (j # js) = task_of j @ tasks js" "tasks (js @ ks) = tasks js @ tasks ks"
  by (simp_all add: tasks_def)

lemma sized_simps [simp]:
  "sized [] = []" "sized (Checked t # ss) = sized ss" "sized (Sized t # ss) = t # sized ss"
  "sized (ss @ ss') = sized ss @ sized ss'"
  by (simp_all add: sized_def)

lemma exec_tasks_simps [simp]:
  "exec_tasks [] = {#}" "exec_tasks (w # ws) = mset (executing w) + exec_tasks ws"
  "exec_tasks (ws @ ws') = exec_tasks ws + exec_tasks ws'" "exec_tasks (replicate n AtTest) = {#}"
proof -
  show "exec_tasks (replicate n AtTest) = {#}" by (induction n) (simp_all add: exec_tasks_def)
qed (simp_all add: exec_tasks_def)

lemma exec_tasks_exited: "list_all (\<lambda>w. w = Exited) ws \<Longrightarrow> exec_tasks ws = {#}"
  by (induction ws) auto

lemma length_tasks: "length (tasks js) \<le> length js"
proof (induction js)
  case (Cons j js)
  then show ?case by (cases j) auto
qed simp

lemma length_sized: "length (sized ss) \<le> length ss"
proof (induction ss)
  case (Cons x ss)
  then show ?case by (cases x) auto
qed simp

lemma take_timeout_Some [simp]: "take_timeout q = (Some j, q') \<longleftrightarrow> q = j # q'"
  by (cases q) (auto simp: take_timeout_def)

lemma books_step: "books p \<Longrightarrow> pool_step p p' \<Longrightarrow> books p'"
  by (erule pool_stepE) (auto simp: books_def queue_defs exec_tasks_exited split: list.splits)

lemma within_step:
  assumes "within p" "pool_step p p'"
  shows "within p'"
  using assms(2)
proof cases
  case (submit_room xs t ys)
  then show ?thesis
    using assms(1) length_tasks [of "tp_taskQueue p"] length_sized [of xs] length_sized [of ys]
    by (auto simp: within_def queue_size_def)
qed (use assms(1) in \<open>auto simp: within_def queue_defs split: list.splits\<close>)

lemma drained_step: "drained p \<Longrightarrow> pool_step p p' \<Longrightarrow> drained p'"
  by (erule pool_stepE) (auto simp: drained_def queue_defs split: list.splits if_splits)

text \<open>A property of the initial pool that every step keeps holds in every reachable one.\<close>

locale pool_invariant =
  fixes good :: "ThreadPool \<Rightarrow> bool"
  assumes good_init: "good (ThreadPool_init threadCount maxQueueSize threads)"
    and good_step: "good p \<Longrightarrow> pool_step p p' \<Longrightarrow> good p'"
begin

lemma good_reachable: "reachable (ThreadPool_init threadCount maxQueueSize threads) p \<Longrightarrow> good p"
  by (induction rule: reachable.induct) (auto intro: good_init good_step)

end

interpretation pool_books: pool_invariant books
  by unfold_locales (simp add: books_def ThreadPool_init_def, fact books_step)

interpretation pool_within: pool_invariant within
  by unfold_locales (simp add: within_def ThreadPool_init_def, fact within_step)

interpretation pool_drained: pool_invariant drained
  by unfold_locales (simp add: drained_def ThreadPool_init_def, fact drained_step)

lemma maxQueueSize_constant: "reachable p0 p \<Longrightarrow> tp_maxQueueSize p = tp_maxQueueSize p0 \<and> tp_threads p = tp_threads p0"
  by (induction rule: reachable.induct) (auto elim!: pool_stepE)

section \<open>Properties\<close>

text \<open>
  Claim C20 (pool_fifo_once). Under every interleaving, as long as the pool was not stopped without
  draining, the tasks are taken in exactly the order in which they were put into the queue, none twice
  and none skipped, and every task taken has been run or is being run by exactly one worker.
\<close>

theorem pool_fifo_once:
  assumes "reachable (ThreadPool_init n m k) p" "tp_dropped p = []"
  shows "tp_accepted p = tp_taken p @ tasks (tp_taskQueue p) \<and>
    mset (tp_taken p) = exec_tasks (tp_workers p) + mset (tp_done p)"
  using pool_books.good_reachable [OF assms(1)] assms(2) by (simp add: books_def)


text \<open>
  The size test and the put are separate accesses, so the queue can exceed
  its limit, but never holds more tasks than the limit plus the number of threads that submit at one
  time, less one.
\<close>

theorem pool_queue_bound:
  assumes "reachable (ThreadPool_init n m k) p" "0 < m"
  shows "length (tasks (tp_taskQueue p)) \<le> m - 1 + k"
  using pool_within.good_reachable [OF assms(1)] maxQueueSize_constant [OF assms(1)] assms(2)
  by (simp add: within_def ThreadPool_init_def)

text \<open>
  A pool of one worker: the states after the start, after a submission has passed its tests, and after
  the stop, with the step that leads to each.
\<close>

definition pool1 :: ThreadPool where
  "pool1 = (ThreadPool_init 1 1 2)\<lparr>tp_runningFlag := True, tp_workers := [AtTest]\<rparr>"

definition pool2 :: ThreadPool where "pool2 = pool1\<lparr>tp_submitters := [Sized 7]\<rparr>"

definition pool3 :: ThreadPool where
  "pool3 = pool2\<lparr>tp_runningFlag := False, tp_stop := Putting 1, tp_workers := [Exited]\<rparr>"

definition pool4 :: ThreadPool where
  "pool4 = pool3\<lparr>tp_stop := Joining, tp_submitters := [], tp_taskQueue := [Noop, Task 7], tp_accepted := [7], tp_late := [7]\<rparr>"

lemma pool1_reachable: "reachable (ThreadPool_init 1 1 2) pool1"
proof -
  have "pool_step (ThreadPool_init 1 1 2) pool1"
    using pool_step.start [of "ThreadPool_init 1 1 2"] by (simp add: ThreadPool_init_def pool1_def)
  then show ?thesis by (rule reachable.next_step [OF reachable.init])
qed

lemma pool2_reachable: "reachable (ThreadPool_init 1 1 2) pool2"
proof -
  have "pool_step pool1 (pool1\<lparr>tp_submitters := [Checked 7]\<rparr>)"
    using pool_step.submit_running [of pool1 7] by (simp add: ThreadPool_init_def pool1_def)
  moreover have "pool_step (pool1\<lparr>tp_submitters := [Checked 7]\<rparr>) pool2"
    using pool_step.submit_room [of "pool1\<lparr>tp_submitters := [Checked 7]\<rparr>" "[]" 7 "[]"]
    by (simp add: ThreadPool_init_def pool1_def pool2_def queue_size_def)
  ultimately show ?thesis
    by (rule reachable.next_step [OF reachable.next_step [OF pool1_reachable]])
qed

lemma pool3_reachable: "reachable (ThreadPool_init 1 1 2) pool3"
proof -
  have "pool_step pool2 (pool2\<lparr>tp_runningFlag := False, tp_stop := Putting 1\<rparr>)"
    using pool_step.stop_begin [of pool2 True] by (simp add: ThreadPool_init_def pool1_def pool2_def)
  moreover have "pool_step (pool2\<lparr>tp_runningFlag := False, tp_stop := Putting 1\<rparr>) pool3"
    using pool_step.worker_exit [of "pool2\<lparr>tp_runningFlag := False, tp_stop := Putting 1\<rparr>" "[]" "[]"]
    by (simp add: ThreadPool_init_def pool1_def pool2_def pool3_def queue_empty_def)
  ultimately show ?thesis
    by (rule reachable.next_step [OF reachable.next_step [OF pool2_reachable]])
qed

lemma pool4_reachable: "reachable (ThreadPool_init 1 1 2) pool4"
proof -
  let ?a = "pool3\<lparr>tp_stop := Putting 0, tp_taskQueue := [Noop]\<rparr>" and ?b = "pool3\<lparr>tp_taskQueue := [Noop], tp_stop := Joining\<rparr>"
  have "pool_step pool3 ?a"
    using pool_step.stop_put [of pool3 0] by (simp add: ThreadPool_init_def pool1_def pool2_def pool3_def put_def)
  moreover have "pool_step ?a ?b" using pool_step.stop_wait [of ?a] by simp
  moreover have "pool_step ?b pool4"
    using pool_step.submit_put [of ?b "[]" 7 "[]"]
    by (simp add: ThreadPool_init_def pool1_def pool2_def pool3_def pool4_def put_def)
  ultimately show ?thesis
    by (rule reachable.next_step [OF reachable.next_step [OF reachable.next_step [OF pool3_reachable]]])
qed

theorem pool_fifo_once_witness:
  "tp_dropped pool4 = [] \<and> tp_accepted pool4 = tp_taken pool4 @ tasks (tp_taskQueue pool4)"
proof -
  have "tp_dropped pool4 = []"
    by (simp add: pool4_def pool3_def pool2_def pool1_def ThreadPool_init_def)
  with pool_fifo_once [OF pool4_reachable] show ?thesis by blast
qed


theorem pool_queue_bound_witness: "length (tasks (tp_taskQueue pool4)) \<le> 1 - 1 + 2"
  using pool_queue_bound [OF pool4_reachable] by simp

text \<open>
  A call of \<open>submit\<close> that tested the flag before a draining stop and
  puts its task after the workers have left succeeds, and the stop returns, but the task is never run:
  a state is reachable in which all workers have left, the task has been accepted and is still queued.
\<close>

theorem pool_loses_late_task:
  "\<exists>p. reachable (ThreadPool_init 1 1 2) p \<and> tp_stop p = Joining \<and> list_all (\<lambda>w. w = Exited) (tp_workers p) \<and>
     tp_accepted p = [7] \<and> tp_done p = [] \<and> tp_dropped p = [] \<and> Task 7 \<in> set (tp_taskQueue p)"
  using pool4_reachable
  by (intro exI [of _ pool4]) (simp add: pool4_def pool3_def pool2_def pool1_def ThreadPool_init_def)

end
