(* ===== verification/Channel.thy ===== *)
theory Channel
  imports TcpConnection
begin

text \<open>
  \<open>src/net/channel.cpp\<close> and \<open>src/net/epollPoller.cpp\<close>: the channels of one event loop and their
  registration with epoll. Channels live in a store, a pointer is a number. The kernel is the argument
  \<open>ctl\<close>, which acts on an arbitrary state \<open>'k\<close>. A failed assertion and a pointer to a channel that does
  not exist are \<open>None\<close>; a failed \<open>epoll_ctl\<close>, which the code only logs, is a line of \<open>nt_log\<close>. The
  operations run on the loop's thread.
\<close>

section \<open>Events\<close>

definition POLLIN :: u32 where "POLLIN = 0x1"
definition POLLPRI :: u32 where "POLLPRI = 0x2"
definition POLLOUT :: u32 where "POLLOUT = 0x4"
definition POLLERR :: u32 where "POLLERR = 0x8"
definition POLLHUP :: u32 where "POLLHUP = 0x10"
definition POLLNVAL :: u32 where "POLLNVAL = 0x20"
definition POLLRDHUP :: u32 where "POLLRDHUP = 0x2000"
definition EPOLLET :: u32 where "EPOLLET = 0x80000000"

definition kNoneEvent :: u32 where "kNoneEvent = 0"
definition kReadEvent :: u32 where "kReadEvent = POLLIN OR POLLPRI"
definition kWriteEvent :: u32 where "kWriteEvent = POLLOUT"

lemmas poll_bits =
  POLLIN_def POLLPRI_def POLLOUT_def POLLERR_def POLLHUP_def POLLNVAL_def POLLRDHUP_def EPOLLET_def
  kNoneEvent_def kReadEvent_def kWriteEvent_def

section \<open>Channels\<close>

datatype channel_index = kNew | kAdded | kDeleted

record Channel =
  ch_fd :: int
  ch_events :: u32
  ch_revents :: u32
  ch_index :: channel_index
  ch_eventHandling :: bool
  ch_addedToLoop :: bool

definition Channel_init :: "int \<Rightarrow> Channel" where
  "Channel_init fd =
     \<lparr>ch_fd = fd, ch_events = 0, ch_revents = 0, ch_index = kNew, ch_eventHandling = False, ch_addedToLoop = False\<rparr>"

definition isNoneEvent :: "Channel \<Rightarrow> bool" where
  "isNoneEvent c \<longleftrightarrow> ch_events c = kNoneEvent"

definition isWriting :: "Channel \<Rightarrow> bool" where
  "isWriting c \<longleftrightarrow> ch_events c AND kWriteEvent \<noteq> 0"

definition isReading :: "Channel \<Rightarrow> bool" where
  "isReading c \<longleftrightarrow> ch_events c AND kReadEvent \<noteq> 0"

text \<open>The callbacks \<open>handleEvent\<close> calls, in order, when all four are set.\<close>

datatype callback = CloseCallback | ErrorCallback | ReadCallback | WriteCallback

definition handleEvent :: "u32 \<Rightarrow> callback list" where
  "handleEvent revents =
     (if revents AND POLLHUP \<noteq> 0 \<and> revents AND POLLIN = 0 then [CloseCallback] else []) @
     (if revents AND (POLLERR OR POLLNVAL) \<noteq> 0 then [ErrorCallback] else []) @
     (if revents AND (POLLIN OR POLLPRI OR POLLRDHUP) \<noteq> 0 then [ReadCallback] else []) @
     (if revents AND POLLOUT \<noteq> 0 then [WriteCallback] else [])"

section \<open>The poller\<close>

datatype epoll_op = EPOLL_CTL_ADD | EPOLL_CTL_MOD | EPOLL_CTL_DEL

type_synonym 'k epoll_ctl = "epoll_op \<Rightarrow> int \<Rightarrow> u32 \<Rightarrow> nat \<Rightarrow> 'k \<Rightarrow> bool \<times> 'k"

record EpollPoller =
  ep_channels :: "int \<rightharpoonup> nat"
  ep_eventsSize :: nat
  ep_useEdgeTrigger :: bool

record 'k net =
  nt_heap :: "nat \<rightharpoonup> Channel"
  nt_poller :: EpollPoller
  nt_kernel :: 'k
  nt_log :: "(epoll_op \<times> int) list"

definition kInitEventListSize :: nat where "kInitEventListSize = 16"

definition EpollPoller_init :: EpollPoller where
  "EpollPoller_init = \<lparr>ep_channels = Map.empty, ep_eventsSize = kInitEventListSize, ep_useEdgeTrigger = False\<rparr>"

definition net_init :: "'k \<Rightarrow> 'k net" where
  "net_init k = \<lparr>nt_heap = Map.empty, nt_poller = EpollPoller_init, nt_kernel = k, nt_log = []\<rparr>"

abbreviation channels_of :: "'k net \<Rightarrow> int \<rightharpoonup> nat" where
  "channels_of s \<equiv> ep_channels (nt_poller s)"

definition set_channel :: "nat \<Rightarrow> Channel \<Rightarrow> 'k net \<Rightarrow> 'k net" where
  "set_channel p c s = s\<lparr>nt_heap := (nt_heap s)(p \<mapsto> c)\<rparr>"

definition setIndex :: "nat \<Rightarrow> channel_index \<Rightarrow> 'k net \<Rightarrow> 'k net option" where
  "setIndex p i s = map_option (\<lambda>c. set_channel p (c\<lparr>ch_index := i\<rparr>) s) (nt_heap s p)"

definition epoll_update :: "'k epoll_ctl \<Rightarrow> epoll_op \<Rightarrow> nat \<Rightarrow> 'k net \<Rightarrow> 'k net option" where
  "epoll_update ctl operation p s = do {
     c \<leftarrow> nt_heap s p;
     let events = (if ep_useEdgeTrigger (nt_poller s) \<and> operation \<noteq> EPOLL_CTL_DEL
                   then ch_events c OR EPOLLET else ch_events c);
     let (ok, k) = ctl operation (ch_fd c) events p (nt_kernel s);
     Some (s\<lparr>nt_kernel := k, nt_log := nt_log s @ (if ok then [] else [(operation, ch_fd c)])\<rparr>)
   }"

definition updateChannel :: "'k epoll_ctl \<Rightarrow> nat \<Rightarrow> 'k net \<Rightarrow> 'k net option" where
  "updateChannel ctl p s = do {
     c \<leftarrow> nt_heap s p;
     let fd = ch_fd c;
     if ch_index c = kNew
     then if channels_of s fd \<noteq> None then None
       else do {
         let s = s\<lparr>nt_poller := (nt_poller s)\<lparr>ep_channels := (channels_of s)(fd \<mapsto> p)\<rparr>\<rparr>;
         s \<leftarrow> setIndex p kAdded s;
         epoll_update ctl EPOLL_CTL_ADD p s }
     else if channels_of s fd \<noteq> Some p then None
     else if ch_index c = kDeleted
     then do { s \<leftarrow> setIndex p kAdded s; epoll_update ctl EPOLL_CTL_ADD p s }
     else if isNoneEvent c
     then do { s \<leftarrow> epoll_update ctl EPOLL_CTL_DEL p s; setIndex p kDeleted s }
     else epoll_update ctl EPOLL_CTL_MOD p s
   }"

definition removeChannel :: "'k epoll_ctl \<Rightarrow> nat \<Rightarrow> 'k net \<Rightarrow> 'k net option" where
  "removeChannel ctl p s = do {
     c \<leftarrow> nt_heap s p;
     let fd = ch_fd c;
     if channels_of s fd \<noteq> Some p \<or> \<not> isNoneEvent c \<or> ch_index c = kNew then None
     else do {
       let s = s\<lparr>nt_poller := (nt_poller s)\<lparr>ep_channels := (channels_of s)(fd := None)\<rparr>\<rparr>;
       s \<leftarrow> (if ch_index c = kAdded then epoll_update ctl EPOLL_CTL_DEL p s else Some s);
       setIndex p kNew s }
   }"

text \<open>
  \<open>epoll_wait\<close> hands back at most \<open>m_events.size()\<close> events, each with the pointer registered; the list
  of active channels is returned. An error is only logged.
\<close>

datatype wait_result = Events "(u32 \<times> nat) list" | WaitFailed errno

primrec fillActiveChannels :: "(u32 \<times> nat) list \<Rightarrow> 'k net \<Rightarrow> (nat list \<times> 'k net) option" where
  "fillActiveChannels [] s = Some ([], s)"
| "fillActiveChannels (e # es) s = do {
     c \<leftarrow> nt_heap s (snd e);
     (ps, s) \<leftarrow> fillActiveChannels es (set_channel (snd e) (c\<lparr>ch_revents := fst e\<rparr>) s);
     Some (snd e # ps, s) }"

definition poll :: "wait_result \<Rightarrow> 'k net \<Rightarrow> (nat list \<times> 'k net) option" where
  "poll r s =
     (case r of
        WaitFailed e \<Rightarrow> Some ([], s)
      | Events es \<Rightarrow>
          if es = [] then Some ([], s)
          else if length es > ep_eventsSize (nt_poller s) then None
          else do {
            (ps, s) \<leftarrow> fillActiveChannels es s;
            Some (ps, if length es = ep_eventsSize (nt_poller s)
              then s\<lparr>nt_poller := (nt_poller s)\<lparr>ep_eventsSize := ep_eventsSize (nt_poller s) * 2\<rparr>\<rparr> else s) })"

section \<open>Operations of a channel\<close>

definition channel_update :: "'k epoll_ctl \<Rightarrow> (u32 \<Rightarrow> u32) \<Rightarrow> nat \<Rightarrow> 'k net \<Rightarrow> 'k net option" where
  "channel_update ctl f p s = do {
     c \<leftarrow> nt_heap s p;
     updateChannel ctl p (set_channel p (c\<lparr>ch_events := f (ch_events c), ch_addedToLoop := True\<rparr>) s) }"

definition enableReading where "enableReading ctl = channel_update ctl (\<lambda>e. e OR kReadEvent)"
definition disableReading where "disableReading ctl = channel_update ctl (\<lambda>e. e AND NOT kReadEvent)"
definition enableWriting where "enableWriting ctl = channel_update ctl (\<lambda>e. e OR kWriteEvent)"
definition disableWriting where "disableWriting ctl = channel_update ctl (\<lambda>e. e AND NOT kWriteEvent)"
definition disable_all_events where "disable_all_events ctl = channel_update ctl (\<lambda>_. kNoneEvent)"

definition channel_remove :: "'k epoll_ctl \<Rightarrow> nat \<Rightarrow> 'k net \<Rightarrow> 'k net option" where
  "channel_remove ctl p s = do {
     c \<leftarrow> nt_heap s p;
     if \<not> isNoneEvent c then None
     else removeChannel ctl p (set_channel p (c\<lparr>ch_addedToLoop := False\<rparr>) s) }"

definition new_channel :: "nat \<Rightarrow> int \<Rightarrow> 'k net \<Rightarrow> 'k net option" where
  "new_channel p fd s = (if nt_heap s p \<noteq> None then None else Some (set_channel p (Channel_init fd) s))"

definition delete_channel :: "nat \<Rightarrow> 'k net \<Rightarrow> 'k net option" where
  "delete_channel p s = do {
     c \<leftarrow> nt_heap s p;
     if ch_eventHandling c \<or> ch_addedToLoop c then None
     else Some (s\<lparr>nt_heap := (nt_heap s)(p := None)\<rparr>) }"

text \<open>The brackets \<open>handleEvent\<close> puts around its callbacks.\<close>

definition set_handling :: "bool \<Rightarrow> nat \<Rightarrow> 'k net \<Rightarrow> 'k net option" where
  "set_handling b p s = map_option (\<lambda>c. set_channel p (c\<lparr>ch_eventHandling := b\<rparr>) s) (nt_heap s p)"

definition setUseEdgeTrigger :: "bool \<Rightarrow> 'k net \<Rightarrow> 'k net" where
  "setUseEdgeTrigger enabled s = s\<lparr>nt_poller := (nt_poller s)\<lparr>ep_useEdgeTrigger := enabled\<rparr>\<rparr>"

section \<open>Histories\<close>

datatype channel_op =
    NewChannel nat int
  | DeleteChannel nat
  | EnableReading nat
  | DisableReading nat
  | EnableWriting nat
  | DisableWriting nat
  | DisableAll nat
  | RemoveChannel nat
  | SetEdge bool
  | Poll wait_result
  | BeginEvent nat
  | EndEvent nat

fun channel_do :: "'k epoll_ctl \<Rightarrow> channel_op \<Rightarrow> 'k net \<Rightarrow> 'k net option" where
  "channel_do ctl (NewChannel p fd) s = new_channel p fd s"
| "channel_do ctl (DeleteChannel p) s = delete_channel p s"
| "channel_do ctl (EnableReading p) s = enableReading ctl p s"
| "channel_do ctl (DisableReading p) s = disableReading ctl p s"
| "channel_do ctl (EnableWriting p) s = enableWriting ctl p s"
| "channel_do ctl (DisableWriting p) s = disableWriting ctl p s"
| "channel_do ctl (DisableAll p) s = disable_all_events ctl p s"
| "channel_do ctl (RemoveChannel p) s = channel_remove ctl p s"
| "channel_do ctl (SetEdge e) s = Some (setUseEdgeTrigger e s)"
| "channel_do ctl (Poll r) s = map_option snd (poll r s)"
| "channel_do ctl (BeginEvent p) s = set_handling True p s"
| "channel_do ctl (EndEvent p) s = set_handling False p s"

primrec channel_run :: "'k epoll_ctl \<Rightarrow> channel_op list \<Rightarrow> 'k net \<Rightarrow> 'k net option" where
  "channel_run ctl [] s = Some s"
| "channel_run ctl (a # as) s = Option.bind (channel_do ctl a s) (channel_run ctl as)"

lemmas channel_ops =
  enableReading_def disableReading_def enableWriting_def disableWriting_def disable_all_events_def

section \<open>The kernel's interest list follows the channels\<close>

text \<open>The two ways of \<open>updateChannel\<close>: a watched channel without events leaves the interest list, any
  other is entered into it.\<close>

abbreviation forgetting :: "Channel \<Rightarrow> bool" where
  "forgetting c \<equiv> ch_index c = kAdded \<and> isNoneEvent c"

abbreviation ctl_operation :: "Channel \<Rightarrow> epoll_op" where
  "ctl_operation c \<equiv> if ch_index c = kAdded then EPOLL_CTL_MOD else EPOLL_CTL_ADD"

definition entered :: "nat \<Rightarrow> Channel \<Rightarrow> 'k net \<Rightarrow> 'k net" where
  "entered p c t = set_channel p (c\<lparr>ch_index := kAdded\<rparr>)
     (t\<lparr>nt_poller := (nt_poller t)\<lparr>ep_channels := (channels_of t)(ch_fd c \<mapsto> p)\<rparr>\<rparr>)"

lemma updateChannel_enters:
  assumes "nt_heap t p = Some c" "\<not> forgetting c"
    and "(ch_index c \<noteq> kNew) = (channels_of t (ch_fd c) = Some p)"
    and "channels_of t (ch_fd c) = None \<or> channels_of t (ch_fd c) = Some p"
  shows "updateChannel ctl p t = epoll_update ctl (ctl_operation c) p (entered p c t)"
proof (cases "ch_index c = kNew")
  case True
  then show ?thesis
    using assms by (simp add: updateChannel_def setIndex_def entered_def set_channel_def)
next
  case False
  then have "entered p c t = set_channel p (c\<lparr>ch_index := kAdded\<rparr>) t"
    using assms by (intro net.equality) (auto simp: entered_def set_channel_def fun_upd_idem)
  moreover have "set_channel p (c\<lparr>ch_index := kAdded\<rparr>) t = t" if "ch_index c = kAdded"
    using that assms(1) by (intro net.equality) (auto simp: set_channel_def)
  ultimately show ?thesis
    using False assms by (cases "ch_index c") (auto simp: updateChannel_def setIndex_def)
qed

text \<open>
  What the manual promises of \<open>epoll_ctl\<close> on open descriptors while the kernel has memory: a descriptor
  can be added when it is not in the list, changed or deleted when it is.
\<close>

locale epoll_kernel =
  fixes ctl :: "'k epoll_ctl"
    and interest :: "'k \<Rightarrow> int \<rightharpoonup> u32 \<times> nat"
  assumes ctl_add: "interest k fd = None \<Longrightarrow>
      \<exists>k'. ctl EPOLL_CTL_ADD fd e p k = (True, k') \<and> interest k' = (interest k)(fd \<mapsto> (e, p))"
    and ctl_mod: "interest k fd \<noteq> None \<Longrightarrow>
      \<exists>k'. ctl EPOLL_CTL_MOD fd e p k = (True, k') \<and> interest k' = (interest k)(fd \<mapsto> (e, p))"
    and ctl_del: "interest k fd \<noteq> None \<Longrightarrow>
      \<exists>k'. ctl EPOLL_CTL_DEL fd e p k = (True, k') \<and> interest k' = (interest k)(fd := None)"
begin

definition registered :: "'k net \<Rightarrow> int \<Rightarrow> (u32 \<times> nat) option" where
  "registered s fd = do {
     p \<leftarrow> channels_of s fd;
     c \<leftarrow> nt_heap s p;
     if ch_index c = kAdded then Some (ch_events c, p) else None }"

definition same_watch :: "u32 \<times> nat \<Rightarrow> u32 \<times> nat \<Rightarrow> bool" where
  "same_watch = (\<lambda>(m, p) (e, q). p = q \<and> (m = e \<or> m = e OR EPOLLET))"

definition listed :: "'k net \<Rightarrow> bool" where
  "listed s \<longleftrightarrow>
     (\<forall>p c. nt_heap s p = Some c \<longrightarrow>
        (ch_index c \<noteq> kNew \<longleftrightarrow> channels_of s (ch_fd c) = Some p) \<and>
        (ch_addedToLoop c \<longleftrightarrow> ch_index c \<noteq> kNew) \<and> (ch_index c = kDeleted \<longrightarrow> ch_events c = 0)) \<and>
     (\<forall>fd p. channels_of s fd = Some p \<longrightarrow> (\<exists>c. nt_heap s p = Some c \<and> ch_fd c = fd))"

definition synced :: "'k net \<Rightarrow> bool" where
  "synced s \<longleftrightarrow> listed s \<and> nt_log s = [] \<and>
     (\<forall>fd. rel_option same_watch (interest (nt_kernel s) fd) (registered s fd))"

lemma listed_channel:
  assumes "listed s" "nt_heap s p = Some c"
  shows "channels_of s (ch_fd c) = Some p \<longleftrightarrow> ch_index c \<noteq> kNew" "ch_addedToLoop c \<longleftrightarrow> ch_index c \<noteq> kNew"
    "ch_index c = kDeleted \<Longrightarrow> ch_events c = 0"
  using assms by (auto simp: listed_def)

lemma listed_fd: "listed s \<Longrightarrow> channels_of s fd = Some p \<Longrightarrow> \<exists>c. nt_heap s p = Some c \<and> ch_fd c = fd"
  by (auto simp: listed_def)

lemma same_watch_refl [simp]: "same_watch (e, p) (e, p)" "same_watch (e OR EPOLLET, p) (e, p)"
  by (simp_all add: same_watch_def)

lemma synced_init: "interest k = Map.empty \<Longrightarrow> synced (net_init k)"
  by (simp add: synced_def listed_def net_init_def EpollPoller_init_def registered_def)

lemma interest_iff:
  assumes "synced s" "nt_heap s p = Some c" "channels_of s (ch_fd c) = Some p"
  shows "interest (nt_kernel s) (ch_fd c) = None \<longleftrightarrow> ch_index c \<noteq> kAdded"
proof -
  have "rel_option same_watch (interest (nt_kernel s) (ch_fd c)) (registered s (ch_fd c))"
    using assms(1) by (simp add: synced_def)
  then show ?thesis using assms(2,3) by (auto simp: registered_def option_rel_Some1 option_rel_Some2 split: if_splits)
qed

lemma interest_none:
  assumes "synced s" "channels_of s fd = None"
  shows "interest (nt_kernel s) fd = None"
proof -
  have "rel_option same_watch (interest (nt_kernel s) fd) (registered s fd)"
    using assms(1) by (simp add: synced_def)
  then show ?thesis using assms(2) by (cases "interest (nt_kernel s) fd") (auto simp: registered_def)
qed

lemma epoll_update_watch:
  assumes "nt_heap s p = Some c"
    and "operation = EPOLL_CTL_ADD \<and> interest (nt_kernel s) (ch_fd c) = None \<or>
         operation = EPOLL_CTL_MOD \<and> interest (nt_kernel s) (ch_fd c) \<noteq> None"
  shows "\<exists>k m. epoll_update ctl operation p s = Some (s\<lparr>nt_kernel := k\<rparr>) \<and>
    interest k = (interest (nt_kernel s))(ch_fd c \<mapsto> (m, p)) \<and> same_watch (m, p) (ch_events c, p)"
proof -
  define m where "m = (if ep_useEdgeTrigger (nt_poller s) then ch_events c OR EPOLLET else ch_events c)"
  have "\<exists>k. ctl operation (ch_fd c) m p (nt_kernel s) = (True, k) \<and>
      interest k = (interest (nt_kernel s))(ch_fd c \<mapsto> (m, p))"
    using assms(2) ctl_add ctl_mod by metis
  then obtain k where "ctl operation (ch_fd c) m p (nt_kernel s) = (True, k)"
    "interest k = (interest (nt_kernel s))(ch_fd c \<mapsto> (m, p))" by blast
  moreover have "same_watch (m, p) (ch_events c, p)" by (simp add: m_def)
  moreover have "operation \<noteq> EPOLL_CTL_DEL" using assms(2) by auto
  ultimately show ?thesis
    using assms(1) by (intro exI [of _ k] exI [of _ m]) (simp add: epoll_update_def m_def split: if_splits)
qed

lemma epoll_update_forget:
  assumes "nt_heap s p = Some c" "interest (nt_kernel s) (ch_fd c) \<noteq> None"
  shows "\<exists>k. epoll_update ctl EPOLL_CTL_DEL p s = Some (s\<lparr>nt_kernel := k\<rparr>) \<and>
    interest k = (interest (nt_kernel s))(ch_fd c := None)"
  using ctl_del [OF assms(2), of "ch_events c" p] assms(1) by (auto simp: epoll_update_def)

text \<open>The registration of one channel changes, the others keep theirs.\<close>

lemma synced_change:
  assumes "synced s" "nt_heap s p = Some c" "ch_fd c' = ch_fd c"
    and "channels_of s (ch_fd c) = Some p \<or> channels_of s (ch_fd c) = None"
    and "ch_addedToLoop c' \<longleftrightarrow> ch_index c' \<noteq> kNew" "ch_index c' = kDeleted \<longrightarrow> ch_events c' = 0"
    and "nt_heap s' = (nt_heap s)(p \<mapsto> c')" "nt_log s' = nt_log s"
    and "channels_of s' = (channels_of s)(ch_fd c := (if ch_index c' = kNew then None else Some p))"
    and "\<forall>fd. fd \<noteq> ch_fd c \<longrightarrow> interest (nt_kernel s') fd = interest (nt_kernel s) fd"
    and "rel_option same_watch (interest (nt_kernel s') (ch_fd c))
           (if ch_index c' = kAdded then Some (ch_events c', p) else None)"
  shows "synced s'"
proof -
  have other: "q \<noteq> p \<Longrightarrow> nt_heap s q = Some d \<Longrightarrow> ch_fd d = ch_fd c \<Longrightarrow> ch_index d = kNew" for q d
    using assms(1,2,4) by (fastforce simp: synced_def listed_def)
  have single: "channels_of s fd \<noteq> Some p" if "fd \<noteq> ch_fd c" for fd
    using assms(1,2) that by (fastforce simp: synced_def listed_def)
  then have "registered s' fd = registered s fd" if "fd \<noteq> ch_fd c" for fd
    using that assms(7,9) by (auto simp: registered_def bind_eq_Some_conv intro!: Option.bind_cong)
  then have "rel_option same_watch (interest (nt_kernel s') fd) (registered s' fd)" for fd
    using assms(1,7,9,10,11) by (cases "fd = ch_fd c") (auto simp: synced_def registered_def)
  moreover have "listed s'"
    using assms(1-9) other single by (auto simp: synced_def listed_def)
  ultimately show ?thesis
    using assms(1,8) by (simp add: synced_def)
qed

lemma channel_update_synced:
  assumes "synced s" "nt_heap s p = Some c"
    and "channels_of s (ch_fd c) = None \<or> channels_of s (ch_fd c) = Some p"
  shows "\<exists>s'. channel_update ctl f p s = Some s' \<and> synced s'"
proof -
  define c' where "c' = c\<lparr>ch_events := f (ch_events c), ch_addedToLoop := True\<rparr>"
  define t where "t = set_channel p c' s"
  have t: "nt_heap t p = Some c'" "nt_kernel t = nt_kernel s" "nt_poller t = nt_poller s" "nt_log t = nt_log s"
    "nt_heap t = (nt_heap s)(p \<mapsto> c')" "ch_fd c' = ch_fd c" "ch_index c' = ch_index c"
    by (simp_all add: t_def set_channel_def c'_def)
  have c: "(ch_index c \<noteq> kNew) = (channels_of s (ch_fd c) = Some p)"
    using assms(1,2) by (auto simp: synced_def listed_def)
  note change = synced_change [OF assms(1,2) _ assms(3) [THEN disj_commute [THEN iffD1]]]
  have "\<exists>s'. updateChannel ctl p t = Some s' \<and> synced s'"
  proof (cases "forgetting c'")
    case True
    then have "interest (nt_kernel t) (ch_fd c') \<noteq> None"
      using interest_iff [OF assms(1,2)] c t by simp
    from epoll_update_forget [OF t(1) this] obtain k
      where k: "epoll_update ctl EPOLL_CTL_DEL p t = Some (t\<lparr>nt_kernel := k\<rparr>)"
        "interest k = (interest (nt_kernel t))(ch_fd c' := None)" by blast
    have "synced (set_channel p (c'\<lparr>ch_index := kDeleted\<rparr>) (t\<lparr>nt_kernel := k\<rparr>))"
      using True c k t by (intro change) (auto simp: set_channel_def c'_def isNoneEvent_def kNoneEvent_def fun_eq_iff)
    then show ?thesis
      using True c k t by (auto simp: updateChannel_def setIndex_def)
  next
    case False
    define u where "u = entered p c' t"
    have u: "nt_heap u p = Some (c'\<lparr>ch_index := kAdded\<rparr>)" "nt_kernel u = nt_kernel s"
      by (simp_all add: u_def entered_def set_channel_def t)
    have "ch_index c = kAdded \<longleftrightarrow> interest (nt_kernel u) (ch_fd c) \<noteq> None"
      using interest_iff [OF assms(1,2)] interest_none [OF assms(1)] assms(3) c u by auto
    then have "ctl_operation c' = EPOLL_CTL_ADD \<and> interest (nt_kernel u) (ch_fd (c'\<lparr>ch_index := kAdded\<rparr>)) = None \<or>
        ctl_operation c' = EPOLL_CTL_MOD \<and> interest (nt_kernel u) (ch_fd (c'\<lparr>ch_index := kAdded\<rparr>)) \<noteq> None"
      by (cases "ch_index c = kAdded") (simp_all add: t del: not_None_eq)
    from epoll_update_watch [OF u(1) this] obtain k m
      where k: "epoll_update ctl (ctl_operation c') p u = Some (u\<lparr>nt_kernel := k\<rparr>)"
        "interest k = (interest (nt_kernel u))(ch_fd c \<mapsto> (m, p))" "same_watch (m, p) (ch_events c', p)"
      by (auto simp: t)
    have "synced (u\<lparr>nt_kernel := k\<rparr>)"
      using k u by (intro change [of "c'\<lparr>ch_index := kAdded\<rparr>"]) (auto simp: u_def entered_def set_channel_def t c'_def)
    moreover have "updateChannel ctl p t = epoll_update ctl (ctl_operation c') p u"
      unfolding u_def using t c assms(3) False by (intro updateChannel_enters) simp_all
    ultimately show ?thesis using k by simp
  qed
  then show ?thesis using assms(2) by (simp add: channel_update_def t_def c'_def)
qed

lemma channel_remove_synced:
  assumes "synced s" "channel_remove ctl p s = Some s'"
  shows "synced s'"
proof -
  obtain c where c: "nt_heap s p = Some c" "isNoneEvent c" "channels_of s (ch_fd c) = Some p" "ch_index c \<noteq> kNew"
    and r: "removeChannel ctl p (set_channel p (c\<lparr>ch_addedToLoop := False\<rparr>) s) = Some s'"
    using assms(2)
    by (auto simp: channel_remove_def removeChannel_def set_channel_def bind_eq_Some_conv isNoneEvent_def Let_def split: if_splits)
  define t where "t = (set_channel p (c\<lparr>ch_addedToLoop := False\<rparr>) s)
    \<lparr>nt_poller := (nt_poller s)\<lparr>ep_channels := (channels_of s)(ch_fd c := None)\<rparr>\<rparr>"
  have t: "nt_heap t p = Some (c\<lparr>ch_addedToLoop := False\<rparr>)" "nt_kernel t = nt_kernel s"
    by (simp_all add: t_def set_channel_def)
  note change = synced_change [OF assms(1) c(1) _ disjI1 [OF c(3)], of "c\<lparr>ch_addedToLoop := False, ch_index := kNew\<rparr>"]
  show ?thesis
  proof (cases "ch_index c = kAdded")
    case True
    then have "interest (nt_kernel t) (ch_fd (c\<lparr>ch_addedToLoop := False\<rparr>)) \<noteq> None"
      using interest_iff [OF assms(1) c(1,3)] t by simp
    from epoll_update_forget [OF t(1) this] obtain k
      where k: "epoll_update ctl EPOLL_CTL_DEL p t = Some (t\<lparr>nt_kernel := k\<rparr>)"
        "interest k = (interest (nt_kernel s))(ch_fd c := None)" by (auto simp: t)
    then have "s' = set_channel p (c\<lparr>ch_addedToLoop := False, ch_index := kNew\<rparr>) (t\<lparr>nt_kernel := k\<rparr>)"
      using r True c by (simp add: removeChannel_def setIndex_def t_def set_channel_def isNoneEvent_def)
    then show ?thesis using k by (intro change) (auto simp: t_def set_channel_def)
  next
    case False
    then have "s' = set_channel p (c\<lparr>ch_addedToLoop := False, ch_index := kNew\<rparr>) t"
      using r c by (simp add: removeChannel_def setIndex_def t_def set_channel_def isNoneEvent_def)
    moreover have "interest (nt_kernel s) (ch_fd c) = None"
      using False interest_iff [OF assms(1) c(1,3)] by simp
    ultimately show ?thesis by (intro change) (auto simp: t_def set_channel_def)
  qed
qed

text \<open>What the poller does not read of a channel may change at will.\<close>

lemma synced_same:
  assumes "synced s" "nt_heap s p = Some c"
    and "ch_fd c' = ch_fd c" "ch_events c' = ch_events c" "ch_index c' = ch_index c" "ch_addedToLoop c' = ch_addedToLoop c"
  shows "synced (set_channel p c' s)"
proof -
  have "registered (set_channel p c' s) fd = registered s fd" for fd
    using assms(2-) by (auto simp: registered_def set_channel_def Option.bind_eq_Some_conv split: Option.bind_splits)
  moreover have "channels_of s fd = Some p \<Longrightarrow> ch_fd c = fd" for fd
    using assms(1,2) by (fastforce simp: synced_def listed_def)
  then have "listed (set_channel p c' s)"
    using assms by (auto simp: synced_def listed_def set_channel_def)
  ultimately show ?thesis using assms(1) by (simp add: synced_def set_channel_def)
qed

lemma synced_poller:
  assumes "synced s" "ep_channels q = channels_of s"
  shows "synced (s\<lparr>nt_poller := q\<rparr>)"
  using assms by (simp add: synced_def listed_def registered_def)

lemma fillActive_synced: "synced s \<Longrightarrow> fillActiveChannels es s = Some (ps, s') \<Longrightarrow> synced s'"
proof (induction es arbitrary: s ps)
  case (Cons e es)
  then obtain c qs where c: "nt_heap s (snd e) = Some c"
    and f: "fillActiveChannels es (set_channel (snd e) (c\<lparr>ch_revents := fst e\<rparr>) s) = Some (qs, s')"
    by (auto simp: bind_eq_Some_conv)
  have "synced (set_channel (snd e) (c\<lparr>ch_revents := fst e\<rparr>) s)"
    by (rule synced_same [OF Cons.prems(1) c]) simp_all
  from Cons.IH [OF this f] show ?case .
qed simp

lemma new_channel_synced: "synced s \<Longrightarrow> new_channel p fd s = Some s' \<Longrightarrow> synced s'"
proof -
  assume s: "synced s" and n: "new_channel p fd s = Some s'"
  have free: "channels_of s i \<noteq> Some p" for i
    using s n by (fastforce simp: synced_def listed_def new_channel_def split: if_splits)
  then have "registered s' i = registered s i" for i
    using n by (auto simp: registered_def new_channel_def set_channel_def split: if_splits intro!: Option.bind_cong)
  moreover have "listed s'"
    using s n free by (fastforce simp: synced_def listed_def new_channel_def set_channel_def Channel_init_def split: if_splits)
  ultimately show "synced s'"
    using s n by (auto simp: synced_def new_channel_def set_channel_def split: if_splits)
qed

lemma delete_channel_synced: "synced s \<Longrightarrow> delete_channel p s = Some s' \<Longrightarrow> synced s'"
proof -
  assume s: "synced s" and d: "delete_channel p s = Some s'"
  have s': "s' = s\<lparr>nt_heap := (nt_heap s)(p := None)\<rparr>"
    using d by (auto simp: delete_channel_def bind_eq_Some_conv split: if_splits)
  have free: "channels_of s i \<noteq> Some p" for i
    using s d by (fastforce simp: synced_def listed_def delete_channel_def bind_eq_Some_conv split: if_splits)
  then have "registered s' i = registered s i" for i
    unfolding s' by (auto simp: registered_def intro!: Option.bind_cong)
  moreover have "listed s'"
    using s free unfolding s' by (auto simp: synced_def listed_def)
  ultimately show "synced s'" using s by (simp add: synced_def s')
qed

lemma updated_synced:
  assumes "synced s" "channel_update ctl f p s = Some s'"
  shows "synced s'"
proof -
  obtain c where c: "nt_heap s p = Some c"
    using assms(2) by (auto simp: channel_update_def bind_eq_Some_conv)
  have "channels_of s (ch_fd c) = None \<or> channels_of s (ch_fd c) = Some p"
    using assms(2) c
    by (auto simp: channel_update_def updateChannel_def set_channel_def bind_eq_Some_conv Let_def split: if_splits)
  from channel_update_synced [OF assms(1) c this, of f] assms(2) show ?thesis by auto
qed

lemma channel_do_synced:
  assumes "synced s" "channel_do ctl a s = Some s'"
  shows "synced s'"
  using assms
proof (cases a)
  case (Poll r)
  with assms show ?thesis
    by (cases r) (auto simp: poll_def bind_eq_Some_conv split: if_splits
        intro: fillActive_synced intro!: synced_poller)
qed (auto simp: channel_ops setUseEdgeTrigger_def set_handling_def
      intro: updated_synced channel_remove_synced new_channel_synced delete_channel_synced synced_poller synced_same)

lemma channel_run_synced: "synced s \<Longrightarrow> channel_run ctl as s = Some s' \<Longrightarrow> synced s'"
  by (induction as arbitrary: s) (auto simp: bind_eq_Some_conv dest: channel_do_synced)

lemma synced_watch:
  assumes "synced s" "interest (nt_kernel s) fd = Some (m, p)"
  shows "\<exists>c. nt_heap s p = Some c \<and> ch_fd c = fd \<and> ch_addedToLoop c \<and> (m = ch_events c \<or> m = ch_events c OR EPOLLET)"
proof -
  have "rel_option same_watch (Some (m, p)) (registered s fd)"
    using assms by (metis synced_def)
  then obtain e where e: "registered s fd = Some (e, p)" "m = e \<or> m = e OR EPOLLET"
    by (auto simp: option_rel_Some1 same_watch_def)
  then obtain c where "nt_heap s p = Some c" "channels_of s fd = Some p" "ch_index c = kAdded" "e = ch_events c"
    by (auto simp: registered_def bind_eq_Some_conv split: if_splits)
  with e(2) show ?thesis
    using assms(1) listed_fd [of s fd p] listed_channel(2) [of s p c] by (auto simp: synced_def)
qed

lemma synced_wanted:
  assumes "synced s" "nt_heap s p = Some c" "ch_addedToLoop c" "ch_events c \<noteq> 0"
  shows "\<exists>m. interest (nt_kernel s) (ch_fd c) = Some (m, p)"
proof -
  have "listed s" using assms(1) by (simp add: synced_def)
  from listed_channel [OF this assms(2)] assms(3,4)
  have c: "channels_of s (ch_fd c) = Some p" "ch_index c = kAdded"
    by (auto intro: channel_index.exhaust [of "ch_index c"])
  then have "interest (nt_kernel s) (ch_fd c) \<noteq> None"
    using interest_iff [OF assms(1,2)] by simp
  then obtain m q where "interest (nt_kernel s) (ch_fd c) = Some (m, q)" by auto
  moreover from synced_watch [OF assms(1) this] have "q = p"
    using c listed_channel [OF \<open>listed s\<close>, of q] by fastforce
  ultimately show ?thesis by blast
qed

lemma synced_update_defined:
  assumes "synced s" "nt_heap s p = Some c"
    and "\<And>q d. nt_heap s q = Some d \<Longrightarrow> ch_fd d = ch_fd c \<Longrightarrow> ch_addedToLoop d \<Longrightarrow> q = p"
  shows "channel_update ctl f p s \<noteq> None"
proof -
  have "listed s" using assms(1) by (simp add: synced_def)
  have "channels_of s (ch_fd c) = None \<or> channels_of s (ch_fd c) = Some p"
  proof (cases "channels_of s (ch_fd c)")
    case (Some q)
    then obtain d where "nt_heap s q = Some d" "ch_fd d = ch_fd c"
      using listed_fd [OF \<open>listed s\<close>] by blast
    then have "q = p"
      using assms(3) [of q d] listed_channel(1,2) [OF \<open>listed s\<close>, of q d] Some by simp
    then show ?thesis using Some by simp
  qed simp
  from channel_update_synced [OF assms(1,2) this, of f] show ?thesis by auto
qed

end

text \<open>The interest list as the manual describes it.\<close>

fun interest_list_ctl :: "(int \<rightharpoonup> u32 \<times> nat) epoll_ctl" where
  "interest_list_ctl EPOLL_CTL_ADD fd e p k = (case k fd of None \<Rightarrow> (True, k(fd \<mapsto> (e, p))) | Some _ \<Rightarrow> (False, k))"
| "interest_list_ctl EPOLL_CTL_MOD fd e p k = (case k fd of None \<Rightarrow> (False, k) | Some _ \<Rightarrow> (True, k(fd \<mapsto> (e, p))))"
| "interest_list_ctl EPOLL_CTL_DEL fd e p k = (case k fd of None \<Rightarrow> (False, k) | Some _ \<Rightarrow> (True, k(fd := None)))"

interpretation interest_list: epoll_kernel interest_list_ctl "\<lambda>k. k"
  by unfold_locales auto

text \<open>
  Claim C31 (interest_in_sync). Whatever channels are created, enabled, disabled, removed and destroyed,
  in level- or edge-triggered mode, as long as no assertion of the code fails: no \<open>epoll_ctl\<close> ever fails;
  every entry of the kernel's interest list points to a channel that still exists, has this descriptor
  and wants exactly these events, so no event is handed to a destroyed channel; every channel that wants
  events is in the list; and changing a channel's events fails no assertion unless a second channel is
  registered for the same descriptor.
\<close>

theorem interest_in_sync:
  assumes "epoll_kernel ctl interest" "interest k = Map.empty" "channel_run ctl ops (net_init k) = Some s"
  shows "nt_log s = [] \<and>
    (\<forall>fd m p. interest (nt_kernel s) fd = Some (m, p) \<longrightarrow>
       (\<exists>c. nt_heap s p = Some c \<and> ch_fd c = fd \<and> ch_addedToLoop c \<and> (m = ch_events c \<or> m = ch_events c OR EPOLLET))) \<and>
    (\<forall>p c. nt_heap s p = Some c \<and> ch_addedToLoop c \<and> ch_events c \<noteq> 0 \<longrightarrow>
       (\<exists>m. interest (nt_kernel s) (ch_fd c) = Some (m, p))) \<and>
    (\<forall>p c f. nt_heap s p = Some c \<and>
       (\<forall>q d. nt_heap s q = Some d \<and> ch_fd d = ch_fd c \<and> ch_addedToLoop d \<longrightarrow> q = p) \<longrightarrow>
       channel_update ctl f p s \<noteq> None)"
proof -
  have s: "epoll_kernel.synced interest s"
    by (rule epoll_kernel.channel_run_synced [OF assms(1) epoll_kernel.synced_init [OF assms(1,2)] assms(3)])
  have "nt_log s = []"
    using s by (simp add: epoll_kernel.synced_def [OF assms(1)])
  with s show ?thesis
    using epoll_kernel.synced_watch [OF assms(1)] epoll_kernel.synced_wanted [OF assms(1)]
      epoll_kernel.synced_update_defined [OF assms(1)] by blast
qed

definition demo_channel_ops :: "channel_op list" where
  "demo_channel_ops =
     [NewChannel 0 7, EnableReading 0, SetEdge True, EnableWriting 0, DisableAll 0, RemoveChannel 0, DeleteChannel 0,
      NewChannel 1 7, EnableReading 1]"

theorem interest_in_sync_witness:
  "\<exists>s c m. channel_run interest_list_ctl demo_channel_ops (net_init Map.empty) = Some s \<and> nt_log s = [] \<and>
     nt_heap s 1 = Some c \<and> nt_kernel s 7 = Some (m, 1) \<and> m \<in> {ch_events c, ch_events c OR EPOLLET} \<and>
     channel_update interest_list_ctl (\<lambda>e. e OR kWriteEvent) 1 s \<noteq> None"
proof -
  define c :: Channel where
    "c = \<lparr>ch_fd = 7, ch_events = 3, ch_revents = 0, ch_index = kAdded, ch_eventHandling = False, ch_addedToLoop = True\<rparr>"
  obtain s where run: "channel_run interest_list_ctl demo_channel_ops (net_init Map.empty) = Some s"
    and heap: "nt_heap s = [1 \<mapsto> c]"
    by (simp add: demo_channel_ops_def net_init_def EpollPoller_init_def new_channel_def delete_channel_def channel_ops
        channel_update_def updateChannel_def setIndex_def epoll_update_def set_channel_def isNoneEvent_def
        setUseEdgeTrigger_def channel_remove_def removeChannel_def Channel_init_def poll_bits c_def)
  have "ch_fd c = 7" "ch_addedToLoop c" "ch_events c \<noteq> 0" by (simp_all add: c_def)
  note c = this
  note sync = interest_in_sync [OF interest_list.epoll_kernel_axioms refl run]
  have h: "nt_heap s 1 = Some c" "\<And>q d. nt_heap s q = Some d \<Longrightarrow> q = 1" using heap by (auto split: if_splits)
  then have "\<exists>m. nt_kernel s (ch_fd c) = Some (m, 1)" using sync c by blast
  then obtain m where m: "nt_kernel s 7 = Some (m, 1)" using c by auto
  then have "m \<in> {ch_events c, ch_events c OR EPOLLET}" using sync h(1) by fastforce
  moreover have "channel_update interest_list_ctl (\<lambda>e. e OR kWriteEvent) 1 s \<noteq> None" using sync h by blast
  ultimately show ?thesis using run h(1) m sync [THEN conjunct1] by blast
qed

end
