(* ===== verification/EventLoop.thy ===== *)
theory EventLoop
  imports Channel
begin

text \<open>
  \<open>src/net/eventLoop.cpp\<close>: the loop's thread and the threads that hand it functors. A step is an access
  that the mutex or an atomic makes indivisible: pushing a functor, writing the eventfd, one return of
  \<open>poll\<close>, reading the eventfd, taking over the pending functors, running one of them, ending a turn.
  Threads that have pushed and not yet written are counted. \<open>el_pushed\<close> and \<open>el_done\<close> record the functors
  in the order in which they were pushed and run.
\<close>

section \<open>The loop\<close>

datatype 'f phase = Idle | Polling | Handling bool | Calling "'f list"

record 'f EventLoop =
  el_phase :: "'f phase"
  el_quit :: bool
  el_pendingFunctors :: "'f list"
  el_eventfd :: nat
  el_writers :: nat
  el_ownWrite :: bool
  el_pushed :: "'f list"
  el_done :: "'f list"

definition EventLoop_init :: "'f EventLoop" where
  "EventLoop_init =
     \<lparr>el_phase = Idle, el_quit = False, el_pendingFunctors = [], el_eventfd = 0, el_writers = 0, el_ownWrite = False,
      el_pushed = [], el_done = []\<rparr>"

definition m_callingPendingFunctors :: "'f EventLoop \<Rightarrow> bool" where
  "m_callingPendingFunctors s \<longleftrightarrow> (case el_phase s of Calling _ \<Rightarrow> True | _ \<Rightarrow> False)"

text \<open>The counter of the eventfd does not pass \<open>2 ^ 64 - 2\<close>: the write fails and is logged.\<close>

definition wakeup :: "'f EventLoop \<Rightarrow> 'f EventLoop" where
  "wakeup s = (if el_eventfd s < 2 ^ 64 - 2 then s\<lparr>el_eventfd := el_eventfd s + 1\<rparr> else s)"

definition queueInLoop :: "bool \<Rightarrow> 'f \<Rightarrow> 'f EventLoop \<Rightarrow> 'f EventLoop" where
  "queueInLoop inLoop f s =
     (let s = s\<lparr>el_pendingFunctors := el_pendingFunctors s @ [f], el_pushed := el_pushed s @ [f]\<rparr> in
      if \<not> inLoop then s\<lparr>el_writers := el_writers s + 1\<rparr>
      else if m_callingPendingFunctors s then s\<lparr>el_ownWrite := True\<rparr> else s)"

definition quit :: "bool \<Rightarrow> 'f EventLoop \<Rightarrow> 'f EventLoop" where
  "quit inLoop s =
     (let s = s\<lparr>el_quit := True\<rparr> in if inLoop then s else s\<lparr>el_writers := el_writers s + 1\<rparr>)"

definition loop_start :: "'f EventLoop \<Rightarrow> 'f EventLoop" where
  "loop_start s = s\<lparr>el_quit := False, el_phase := Polling\<rparr>"

definition poll_return :: "'f EventLoop \<Rightarrow> 'f EventLoop" where
  "poll_return s = s\<lparr>el_phase := Handling (0 < el_eventfd s)\<rparr>"

definition handle_wakeup :: "'f EventLoop \<Rightarrow> 'f EventLoop" where
  "handle_wakeup s = s\<lparr>el_eventfd := 0, el_phase := Handling False\<rparr>"

definition take_pending :: "'f EventLoop \<Rightarrow> 'f EventLoop" where
  "take_pending s = s\<lparr>el_phase := Calling (el_pendingFunctors s), el_pendingFunctors := []\<rparr>"

definition end_turn :: "'f EventLoop \<Rightarrow> 'f EventLoop" where
  "end_turn s = s\<lparr>el_phase := (if el_quit s then Idle else Polling)\<rparr>"

section \<open>Steps\<close>

datatype 'f loop_step =
    Push 'f | Write | Quit
  | Start | PollReturn | ReadWakeup | TakePending | RunNext | EndTurn
  | OwnPush 'f | OwnWrite | OwnQuit

fun loop_do :: "'f loop_step \<Rightarrow> 'f EventLoop \<Rightarrow> 'f EventLoop option" where
  "loop_do (Push f) s = Some (queueInLoop False f s)"
| "loop_do Quit s = Some (quit False s)"
| "loop_do Write s =
     (if 0 < el_writers s then Some (wakeup (s\<lparr>el_writers := el_writers s - 1\<rparr>)) else None)"
| "loop_do OwnWrite s = (if el_ownWrite s then Some (wakeup (s\<lparr>el_ownWrite := False\<rparr>)) else None)"
| "loop_do a s =
     (if el_ownWrite s then None
      else case (a, el_phase s) of
        (Start, Idle) \<Rightarrow> Some (loop_start s)
      | (PollReturn, Polling) \<Rightarrow> Some (poll_return s)
      | (ReadWakeup, Handling True) \<Rightarrow> Some (handle_wakeup s)
      | (TakePending, Handling False) \<Rightarrow> Some (take_pending s)
      | (RunNext, Calling (f # fs)) \<Rightarrow> Some (s\<lparr>el_phase := Calling fs, el_done := el_done s @ [f]\<rparr>)
      | (EndTurn, Calling []) \<Rightarrow> Some (end_turn s)
      | (OwnPush f, Handling w) \<Rightarrow> Some (queueInLoop True f s)
      | (OwnPush f, Calling fs) \<Rightarrow> Some (queueInLoop True f s)
      | (OwnQuit, Handling w) \<Rightarrow> Some (quit True s)
      | (OwnQuit, Calling fs) \<Rightarrow> Some (quit True s)
      | _ \<Rightarrow> None)"

primrec loop_run :: "'f loop_step list \<Rightarrow> 'f EventLoop \<Rightarrow> 'f EventLoop option" where
  "loop_run [] s = Some s"
| "loop_run (a # as) s = Option.bind (loop_do a s) (loop_run as)"

text \<open>The steps of the loop's own thread that follow from its code alone, without a functor's wishes.\<close>

definition machinery :: "'f loop_step \<Rightarrow> bool" where
  "machinery a \<longleftrightarrow> a \<in> {PollReturn, ReadWakeup, TakePending, RunNext, EndTurn, OwnWrite}"

section \<open>Every functor runs once, in order\<close>

definition calling_now :: "'f EventLoop \<Rightarrow> 'f list" where
  "calling_now s = (case el_phase s of Calling fs \<Rightarrow> fs | _ \<Rightarrow> [])"

definition wake_due :: "'f EventLoop \<Rightarrow> bool" where
  "wake_due s \<longleftrightarrow> 0 < el_eventfd s \<or> 0 < el_writers s \<or> el_ownWrite s"

definition loop_inv :: "'f EventLoop \<Rightarrow> bool" where
  "loop_inv s \<longleftrightarrow>
     el_pushed s = el_done s @ calling_now s @ el_pendingFunctors s \<and>
     ((case el_phase s of Handling _ \<Rightarrow> False | _ \<Rightarrow> True) \<and> el_pendingFunctors s \<noteq> [] \<longrightarrow> wake_due s) \<and>
     (el_ownWrite s \<longrightarrow> m_callingPendingFunctors s)"

lemmas loop_defs =
  calling_now_def wake_due_def m_callingPendingFunctors_def queueInLoop_def quit_def wakeup_def loop_start_def
  poll_return_def handle_wakeup_def take_pending_def end_turn_def

lemma loop_inv_init: "loop_inv EventLoop_init"
  by (simp add: loop_inv_def EventLoop_init_def loop_defs)

lemma loop_do_inv:
  assumes "loop_inv s" "loop_do a s = Some s'"
  shows "loop_inv s'"
  using assms
  by (cases a) (auto simp: loop_inv_def loop_defs split: phase.splits if_splits list.splits bool.splits)

lemma loop_run_inv: "loop_inv s \<Longrightarrow> loop_run as s = Some s' \<Longrightarrow> loop_inv s'"
  by (induction as arbitrary: s) (auto simp: bind_eq_Some_conv dest: loop_do_inv)

lemma loop_run_append: "loop_run (as @ bs) s = Option.bind (loop_run as s) (loop_run bs)"
  by (induction as arbitrary: s) (auto simp: Option.bind_assoc intro: Option.bind_cong)

lemma run_called:
  assumes "el_phase s = Calling fs" "\<not> el_ownWrite s"
  shows "loop_run (replicate (length fs) RunNext) s = Some (s\<lparr>el_phase := Calling [], el_done := el_done s @ fs\<rparr>)"
  using assms
proof (induction fs arbitrary: s)
  case Nil
  then show ?case by (simp add: EventLoop.equality)
next
  case (Cons f fs)
  then show ?case by simp
qed

text \<open>The machinery alone brings a running loop to the end of a turn that has run everything pushed so far.\<close>

definition drains :: "'f EventLoop \<Rightarrow> bool" where
  "drains s \<longleftrightarrow> (\<exists>as s'. list_all machinery as \<and> loop_run as s = Some s' \<and> el_done s' = el_pushed s)"

lemma drains_step:
  assumes "machinery a" "loop_do a s = Some t" "drains t" "el_pushed t = el_pushed s"
  shows "drains s"
proof -
  from assms(3) obtain as s' where "list_all machinery as" "loop_run as t = Some s'" "el_done s' = el_pushed t"
    by (auto simp: drains_def)
  with assms(1,2,4) show ?thesis
    unfolding drains_def by (intro exI [of _ "a # as"] exI [of _ s']) simp
qed

lemma drains_calling:
  assumes "loop_inv s" "el_phase s = Calling fs" "\<not> el_ownWrite s" "el_pendingFunctors s = []"
  shows "drains s"
proof -
  have "el_pushed s = el_done s @ fs" using assms by (simp add: loop_inv_def calling_now_def)
  with run_called [OF assms(2,3)] show ?thesis
    unfolding drains_def
    by (intro exI [of _ "replicate (length fs) RunNext"]) (auto simp: list_all_iff machinery_def)
qed

lemma drains_handled:
  assumes "loop_inv s" "el_phase s = Handling False"
  shows "drains s"
proof -
  have step: "loop_do TakePending s = Some (take_pending s)"
    using assms by (auto simp: loop_inv_def m_callingPendingFunctors_def)
  moreover have "drains (take_pending s)"
    using loop_do_inv [OF assms(1) step] assms
    by (intro drains_calling) (auto simp: take_pending_def loop_inv_def m_callingPendingFunctors_def)
  ultimately show ?thesis by (rule drains_step [rotated]) (simp_all add: machinery_def take_pending_def)
qed

lemma drains_handling:
  assumes "loop_inv s" "el_phase s = Handling w"
  shows "drains s"
proof (cases w)
  case True
  then have step: "loop_do ReadWakeup s = Some (handle_wakeup s)"
    using assms by (auto simp: loop_inv_def m_callingPendingFunctors_def)
  moreover have "drains (handle_wakeup s)"
    by (rule drains_handled [OF loop_do_inv [OF assms(1) step]]) (simp add: handle_wakeup_def)
  ultimately show ?thesis by (rule drains_step [rotated]) (simp_all add: machinery_def handle_wakeup_def)
qed (use assms drains_handled in simp)

lemma drains_polling:
  assumes "loop_inv s" "el_phase s = Polling"
  shows "drains s"
proof -
  have step: "loop_do PollReturn s = Some (poll_return s)"
    using assms by (auto simp: loop_inv_def m_callingPendingFunctors_def)
  moreover have "drains (poll_return s)"
    by (rule drains_handling [OF loop_do_inv [OF assms(1) step]]) (simp add: poll_return_def)
  ultimately show ?thesis by (rule drains_step [rotated]) (simp_all add: machinery_def poll_return_def)
qed

lemma drains_called:
  assumes "loop_inv s" "el_phase s = Calling fs" "\<not> el_ownWrite s" "\<not> el_quit s"
  shows "drains s"
proof -
  define t where "t = s\<lparr>el_phase := Calling [], el_done := el_done s @ fs\<rparr>"
  have run: "loop_run (replicate (length fs) RunNext) s = Some t"
    unfolding t_def by (rule run_called [OF assms(2,3)])
  have t: "loop_inv t" by (rule loop_run_inv [OF assms(1) run])
  have step: "loop_do EndTurn t = Some (end_turn t)"
    using assms by (simp add: t_def)
  moreover have "drains (end_turn t)"
    by (rule drains_polling [OF loop_do_inv [OF t step]]) (simp add: end_turn_def t_def assms(4))
  ultimately have "drains t" by (rule drains_step [rotated]) (simp_all add: machinery_def end_turn_def)
  then obtain as s' where "list_all machinery as" "loop_run as t = Some s'" "el_done s' = el_pushed s"
    by (auto simp: drains_def t_def)
  with run show ?thesis
    unfolding drains_def
    by (intro exI [of _ "replicate (length fs) RunNext @ as"] exI [of _ s'])
      (auto simp: loop_run_append list_all_iff machinery_def)
qed

lemma drains_running:
  assumes "loop_inv s" "el_phase s \<noteq> Idle" "\<not> el_quit s"
  shows "drains s"
proof (cases "el_ownWrite s")
  case True
  then obtain fs where fs: "el_phase s = Calling fs"
    using assms(1) by (auto simp: loop_inv_def m_callingPendingFunctors_def split: phase.splits)
  from True have step: "loop_do OwnWrite s = Some (wakeup (s\<lparr>el_ownWrite := False\<rparr>))" by simp
  moreover have "drains (wakeup (s\<lparr>el_ownWrite := False\<rparr>))"
    using fs assms(3) by (intro drains_called [OF loop_do_inv [OF assms(1) step], of fs]) (simp_all add: wakeup_def)
  ultimately show ?thesis by (rule drains_step [rotated]) (simp_all add: machinery_def wakeup_def)
next
  case False
  with assms show ?thesis
    by (cases "el_phase s") (auto intro: drains_polling drains_handling drains_called)
qed


text \<open>Pushed by another thread while the loop waits, and by a functor while the functors are called.\<close>

definition demo_loop_steps :: "nat loop_step list" where
  "demo_loop_steps = [Start, Push 1, PollReturn, TakePending, RunNext, OwnPush 2, OwnWrite, EndTurn]"


text \<open>
  Claim C29 (turn_ends). One turn of the loop runs at most the functors that were pending when it took
  them: whatever they queue while they run, themselves included, waits for the next turn, so a functor
  that keeps queueing itself cannot keep the loop from polling its descriptors.
\<close>

theorem turn_ends:
  assumes "el_phase s = Calling fs" "loop_run as s = Some s'" "EndTurn \<notin> set as"
  shows "length (filter (\<lambda>a. a = RunNext) as) + length (calling_now s') = length fs"
  using assms
proof (induction as arbitrary: s fs)
  case Nil
  then show ?case by (simp add: calling_now_def)
next
  case (Cons a as)
  from Cons.prems obtain t where t: "loop_do a s = Some t" "loop_run as t = Some s'"
    by (auto simp: bind_eq_Some_conv)
  have "\<exists>gs. el_phase t = Calling gs \<and> length gs + (if a = RunNext then 1 else 0) = length fs"
    using t(1) Cons.prems(1,3)
    by (cases a) (auto simp: loop_defs split: if_splits list.splits)
  with Cons.IH [OF _ t(2)] Cons.prems(3) show ?case by fastforce
qed

definition demo_turn :: "nat EventLoop" where
  "demo_turn = EventLoop_init\<lparr>el_phase := Calling [5, 6], el_pushed := [5, 6]\<rparr>"

theorem turn_ends_witness:
  "\<exists>s'. loop_run [RunNext, OwnPush 5, OwnWrite, RunNext, OwnPush 6] demo_turn = Some s' \<and> calling_now s' = [] \<and>
     el_pendingFunctors s' = [5, 6]"
proof -
  obtain s' where run: "loop_run [RunNext, OwnPush 5, OwnWrite, RunNext, OwnPush 6] demo_turn = Some s'"
    and "el_pendingFunctors s' = [5, 6]"
    by (simp add: demo_turn_def EventLoop_init_def loop_defs)
  with turn_ends [OF _ run, of "[5, 6]"] show ?thesis by (simp add: demo_turn_def)
qed

end
