(* ===== verification/TcpServer.thy ===== *)
theory TcpServer
  imports EventLoop
begin

text \<open>
  \<open>src/net/tcpServer.cpp\<close>: accepting connections, the table of connections by name, and the tasks that the
  server and its connections queue on the loop, which runs them in order. A connection object is named
  by the number it was accepted under (an \<open>int\<close> in the code, whose overflow is undefined: the theorem
  assumes less than \<open>2 ^ 31\<close> connections); it is kept in \<open>ts_conns\<close> together with its trace.
\<close>

section \<open>State\<close>

record TcpServer =
  srv_name :: string
  srv_started :: bool
  srv_accepting :: bool
  srv_nextConnId :: nat
  srv_connections :: "string \<rightharpoonup> nat"
  srv_hasConnectionCallback :: bool
  srv_hasMessageCallback :: bool

record server_conn =
  sc_name :: string
  sc_fd :: int
  sc_conn :: TcpConnection
  sc_log :: "tcp_event list"

datatype server_task = EstablishTask nat | DestroyTask nat | ConnTask nat tcp_task

record tcp_server_sys =
  ts_server :: TcpServer
  ts_conns :: "nat \<rightharpoonup> server_conn"
  ts_queue :: "server_task list"

definition TcpServer_init :: "string \<Rightarrow> bool \<Rightarrow> bool \<Rightarrow> TcpServer" where
  "TcpServer_init name hasConnectionCallback hasMessageCallback =
     \<lparr>srv_name = name, srv_started = False, srv_accepting = False, srv_nextConnId = 1, srv_connections = Map.empty,
      srv_hasConnectionCallback = hasConnectionCallback, srv_hasMessageCallback = hasMessageCallback\<rparr>"

definition server_sys_init :: "string \<Rightarrow> bool \<Rightarrow> bool \<Rightarrow> tcp_server_sys" where
  "server_sys_init name c m = \<lparr>ts_server = TcpServer_init name c m, ts_conns = Map.empty, ts_queue = []\<rparr>"

section \<open>Operations\<close>

definition setThreadNum :: "int \<Rightarrow> TcpServer \<Rightarrow> TcpServer" where
  "setThreadNum numThreads s = s"

definition start :: "bool \<Rightarrow> TcpServer \<Rightarrow> TcpServer" where
  "start listenOk s =
     (if srv_started s then s
      else let s = s\<lparr>srv_started := True\<rparr> in if listenOk then s\<lparr>srv_accepting := True\<rparr> else s)"

text \<open>\<open>snprintf\<close> into 64 bytes keeps the first 63.\<close>

definition conn_name :: "string \<Rightarrow> nat \<Rightarrow> string" where
  "conn_name name i = take 63 ('':'' @ c_str name @ ''#'' @ dec i)"

definition new_conn :: "TcpServer \<Rightarrow> TcpConnection" where
  "new_conn s =
     TcpConnection_init\<lparr>tc_hasConnectionCallback := srv_hasConnectionCallback s,
       tc_hasMessageCallback := srv_hasMessageCallback s, tc_hasCloseCallback := True\<rparr>"

datatype accept_result = Accepted int | AcceptErr errno

text \<open>One accepted descriptor: the object, the table entry and the queued \<open>connectEstablished\<close>.\<close>

definition accept_one :: "int \<Rightarrow> tcp_server_sys \<Rightarrow> tcp_server_sys" where
  "accept_one connfd s =
     (let v = ts_server s; i = srv_nextConnId v; name = conn_name (srv_name v) i in
      s\<lparr>ts_server := v\<lparr>srv_nextConnId := i + 1, srv_connections := (srv_connections v)(name \<mapsto> i)\<rparr>,
        ts_conns := (ts_conns s)(i \<mapsto> \<lparr>sc_name = name, sc_fd = connfd, sc_conn = new_conn v, sc_log = []\<rparr>),
        ts_queue := ts_queue s @ [EstablishTask i]\<rparr>)"

fun newConnection :: "accept_result list \<Rightarrow> tcp_server_sys \<Rightarrow> tcp_server_sys" where
  "newConnection [] s = s"
| "newConnection (AcceptErr e # rs) s = (if e = EINTR then newConnection rs s else s)"
| "newConnection (Accepted connfd # rs) s = newConnection rs (accept_one connfd s)"

definition removeConnection :: "nat \<Rightarrow> string \<Rightarrow> tcp_server_sys \<Rightarrow> tcp_server_sys" where
  "removeConnection p name s =
     s\<lparr>ts_server := (ts_server s)\<lparr>srv_connections := (srv_connections (ts_server s))(name := None)\<rparr>,
       ts_queue := ts_queue s @ [DestroyTask p]\<rparr>"

fun on_event :: "nat \<Rightarrow> string \<Rightarrow> tcp_event \<Rightarrow> tcp_server_sys \<Rightarrow> tcp_server_sys" where
  "on_event p name (Queue t) s = s\<lparr>ts_queue := ts_queue s @ [ConnTask p t]\<rparr>"
| "on_event p name CloseCb s = removeConnection p name s"
| "on_event p name e s = s"

text \<open>An operation on a connection; its queued tasks and its close callback reach the server.\<close>

definition conn_do ::
    "(TcpConnection \<Rightarrow> (TcpConnection \<times> tcp_event list) option) \<Rightarrow> nat \<Rightarrow> tcp_server_sys \<Rightarrow> tcp_server_sys option" where
  "conn_do f p s =
     (case ts_conns s p of
        None \<Rightarrow> Some s
      | Some sc \<Rightarrow> do {
          (c, ev) \<leftarrow> f (sc_conn sc);
          Some (fold (on_event p (sc_name sc)) ev
            (s\<lparr>ts_conns := (ts_conns s)(p \<mapsto> sc\<lparr>sc_conn := c, sc_log := sc_log sc @ ev\<rparr>)\<rparr>)) })"

definition run_queued :: "write_result \<Rightarrow> tcp_server_sys \<Rightarrow> tcp_server_sys option" where
  "run_queued r s =
     (case ts_queue s of
        [] \<Rightarrow> Some s
      | t # q \<Rightarrow>
          let s = s\<lparr>ts_queue := q\<rparr> in
          (case t of
             EstablishTask p \<Rightarrow> conn_do (\<lambda>c. Some (connectEstablished c)) p s
           | DestroyTask p \<Rightarrow> conn_do connectDestroyed p s
           | ConnTask p t \<Rightarrow> conn_do (run_task r t) p s))"

primrec force_close_all :: "nat list \<Rightarrow> tcp_server_sys \<Rightarrow> tcp_server_sys option" where
  "force_close_all [] s = Some s"
| "force_close_all (p # ps) s = Option.bind (conn_do (\<lambda>c. Some (forceClose c)) p s) (force_close_all ps)"

text \<open>The destructor walks the table in the order of the hash map, here the argument \<open>order\<close>.\<close>

definition TcpServer_destroy :: "nat list \<Rightarrow> tcp_server_sys \<Rightarrow> tcp_server_sys option" where
  "TcpServer_destroy order s =
     force_close_all order (s\<lparr>ts_server := (ts_server s)\<lparr>srv_accepting := False\<rparr>\<rparr>)"

section \<open>Histories\<close>

datatype server_event =
    StartServer bool
  | AcceptReady "accept_result list"
  | ConnReadable nat "readv_result list"
  | ConnWritable nat "write_result list"
  | ConnHangUp nat
  | ConnSend nat bool write_result string
  | ConnShutdown nat bool
  | ConnForceClose nat
  | RunQueued write_result
  | DestroyServer "nat list"

fun server_do_event :: "server_event \<Rightarrow> tcp_server_sys \<Rightarrow> tcp_server_sys option" where
  "server_do_event (StartServer ok) s = Some (s\<lparr>ts_server := start ok (ts_server s)\<rparr>)"
| "server_do_event (AcceptReady rs) s = Some (if srv_accepting (ts_server s) then newConnection rs s else s)"
| "server_do_event (ConnReadable p rs) s = conn_do (handleRead rs) p s"
| "server_do_event (ConnWritable p rs) s = conn_do (handleWrite rs) p s"
| "server_do_event (ConnHangUp p) s = conn_do (\<lambda>c. Some (handleClose c)) p s"
| "server_do_event (ConnSend p inLoop r data) s = conn_do (send inLoop r data) p s"
| "server_do_event (ConnShutdown p inLoop) s = conn_do (\<lambda>c. Some (shutdown inLoop c)) p s"
| "server_do_event (ConnForceClose p) s = conn_do (\<lambda>c. Some (forceClose c)) p s"
| "server_do_event (RunQueued r) s = run_queued r s"
| "server_do_event (DestroyServer order) s = TcpServer_destroy order s"

primrec server_run_events :: "server_event list \<Rightarrow> tcp_server_sys \<Rightarrow> tcp_server_sys option" where
  "server_run_events [] s = Some s"
| "server_run_events (e # es) s = Option.bind (server_do_event e s) (server_run_events es)"

section \<open>How a connection closes\<close>

text \<open>What one operation may do: close once, with the callback, and leave \<open>kConnecting\<close> by being established.\<close>

definition closes_well :: "TcpConnection \<Rightarrow> (TcpConnection \<times> tcp_event list) option \<Rightarrow> bool" where
  "closes_well c res \<longleftrightarrow>
     (case res of
        None \<Rightarrow> True
      | Some (c', ev) \<Rightarrow> tc_hasCloseCallback c \<longrightarrow>
          tc_hasCloseCallback c' \<and> tc_hasConnectionCallback c' = tc_hasConnectionCallback c \<and>
          (CloseCb \<in> set ev \<longrightarrow> tc_state c \<noteq> kDisconnected) \<and>
          (tc_state c' = kDisconnected \<longleftrightarrow> tc_state c = kDisconnected \<or> CloseCb \<in> set ev) \<and>
          (tc_state c' = kConnecting \<longrightarrow> tc_state c = kConnecting))"

lemma closes_well_same: "closes_well c (Some (c, ev)) \<longleftrightarrow> (tc_hasCloseCallback c \<longrightarrow> CloseCb \<notin> set ev)"
  by (auto simp: closes_well_def)

lemma handleClose_well:
  "closes_well c (Some (handleClose (c\<lparr>tc_inputBuffer := b\<rparr>)))" "closes_well c (Some (handleClose c))"
  by (cases "tc_state c"; simp add: closes_well_def handleClose_def disableAll_def)+

lemma handleRead_well: "closes_well c (handleRead rs c)"
proof (cases "read_loop rs False (tc_inputBuffer c)")
  case None
  then show ?thesis by (simp add: handleRead_def closes_well_def)
next
  case (Some x)
  moreover obtain b received stop where "x = (b, received, stop)" by (cases x)
  ultimately show ?thesis
    using handleClose_well(1) [of c b] by (cases stop) (simp_all add: handleRead_def closes_well_def)
qed

lemma sendInLoop_well: "closes_well c (sendInLoop r data c)"
proof (cases "tc_state c = kDisconnected")
  case True
  then show ?thesis by (simp add: sendInLoop_def closes_well_same)
next
  case False
  define direct where "direct = (\<not> tc_writing c \<and> readableBytes (tc_outputBuffer c) = 0)"
  define n where "n = (case r of WriteOk n \<Rightarrow> if direct then n else 0 | WriteErr _ \<Rightarrow> 0)"
  define ev where "ev = Sending data # (if n > 0 then [Wrote (take n data)] else []) @
      (if direct \<and> (case r of WriteOk _ \<Rightarrow> True | WriteErr _ \<Rightarrow> False) \<and> length data - n = 0 \<and> tc_hasWriteCompleteCallback c
       then [WriteCompleteCb] else [])"
  have quiet: "CloseCb \<notin> set ev" by (simp add: ev_def)
  from False have "sendInLoop r data c =
      (if direct \<and> (r = WriteErr EPIPE \<or> r = WriteErr ECONNRESET) then Some (c, ev @ [Faulted data])
       else if length data - n = 0 then Some (c, ev)
       else if readableBytes (tc_outputBuffer c) + (length data - n) > tc_maxOutputBufferBytes c
       then Some (c\<lparr>tc_backPressured := True\<rparr>, ev @ [Dropped (drop n data)])
       else do {
          b \<leftarrow> append (drop n data) (tc_outputBuffer c);
          let high = (\<not> tc_backPressured c \<and> readableBytes b \<ge> tc_highWaterMark c);
          Some (c\<lparr>tc_outputBuffer := b, tc_backPressured := (tc_backPressured c \<or> high), tc_writing := True\<rparr>,
                ev @ (if high \<and> tc_hasHighWaterMarkCallback c then [HighWaterCb (readableBytes b)] else []))
        })"
    unfolding sendInLoop_def Let_def direct_def n_def ev_def by (simp only: if_False)
  then show ?thesis
    using quiet by (cases "append (drop n data) (tc_outputBuffer c)") (simp_all add: closes_well_def Let_def)
qed

lemma handleWrite_well:
  assumes "buffer_inv (tc_outputBuffer c)"
  shows "closes_well c (handleWrite rs c)"
proof -
  from write_loop_spec [OF assms, of rs] obtain b bp ev where
    w: "write_loop rs c = Some (c\<lparr>tc_outputBuffer := b, tc_backPressured := bp\<rparr>, ev)"
    "ev = map Wrote (map (\<lambda>e. wrote [e]) ev)" by blast
  from only_writes(3) [OF w(2)] w(1) show ?thesis
    by (simp add: closes_well_def handleWrite_def shutdownInLoop_def Let_def)
qed

lemma run_task_well: "closes_well c (run_task r t c)"
proof -
  have "forceCloseInLoop c = handleClose c" by (simp add: forceCloseInLoop_def handleClose_def)
  then show ?thesis
    by (cases t) (simp_all add: run_task_def sendInLoop_well handleClose_well(2) closes_well_same shutdownInLoop_def)
qed

lemma state_ops_well:
  "closes_well c (Some (connectEstablished c))" "closes_well c (Some (shutdown inLoop c))"
  "closes_well c (Some (forceClose c))" "tc_state c = kDisconnected \<Longrightarrow> closes_well c (connectDestroyed c)"
  by (simp_all add: closes_well_def connectEstablished_def shutdown_def forceClose_def shutdownInLoop_def
      connectDestroyed_def Let_def)

lemma send_well: "closes_well c (send inLoop r data c)"
  using sendInLoop_well [of c r data] by (simp add: send_def closes_well_same)

section \<open>Names\<close>

lemma length_digits: "n < 10 ^ Suc k \<Longrightarrow> length (digits 10 n) \<le> Suc k"
proof (induction k arbitrary: n)
  case 0
  then show ?case by (subst digits.simps) simp
next
  case (Suc k)
  have "length (digits 10 (n div 10)) \<le> Suc k"
    by (rule Suc.IH) (use Suc.prems in \<open>simp add: less_mult_imp_div_less\<close>)
  then show ?case by (subst digits.simps) simp
qed

lemma length_dec: "n < 10 ^ Suc k \<Longrightarrow> length (dec n) \<le> Suc k"
  by (simp add: dec_def length_digits)

lemma conn_name_inj:
  assumes "length (c_str name) \<le> 51"
  shows "inj_on (conn_name name) {..<2 ^ 31}"
proof (rule inj_onI)
  have "conn_name name i = '':'' @ c_str name @ ''#'' @ dec i" if "i < 2 ^ 31" for i
  proof -
    have "length (dec i) \<le> 10" using length_dec [of i 9] that by simp
    with assms show ?thesis by (simp add: conn_name_def)
  qed
  then show "i = j" if "i \<in> {..<2 ^ 31}" "j \<in> {..<2 ^ 31}" "conn_name name i = conn_name name j" for i j
    using that by simp
qed

section \<open>The table\<close>

definition conn_ok :: "TcpServer \<Rightarrow> nat \<Rightarrow> server_conn \<Rightarrow> bool" where
  "conn_ok v p sc \<longleftrightarrow>
     tcp_inv (sc_conn sc, [], sc_log sc) \<and> tc_hasCloseCallback (sc_conn sc) \<and>
     tc_hasConnectionCallback (sc_conn sc) = srv_hasConnectionCallback v \<and>
     sc_name sc = conn_name (srv_name v) p \<and> p < srv_nextConnId v \<and>
     (tc_state (sc_conn sc) = kDisconnected \<longrightarrow> CloseCb \<in> set (sc_log sc))"

definition in_state :: "tcp_server_sys \<Rightarrow> nat \<Rightarrow> tcp_state set \<Rightarrow> bool" where
  "in_state s p S \<longleftrightarrow> (\<exists>sc. ts_conns s p = Some sc \<and> tc_state (sc_conn sc) \<in> S)"

text \<open>The invariant, apart from the connections that still wait to be established.\<close>

definition server_inv :: "tcp_server_sys \<Rightarrow> bool" where
  "server_inv s \<longleftrightarrow>
     (\<forall>p sc. ts_conns s p = Some sc \<longrightarrow> conn_ok (ts_server s) p sc) \<and>
     (\<forall>n p. srv_connections (ts_server s) n = Some p \<longleftrightarrow>
        in_state s p (- {kDisconnected}) \<and> n = conn_name (srv_name (ts_server s)) p) \<and>
     (\<forall>p. DestroyTask p \<in> set (ts_queue s) \<longrightarrow> in_state s p {kDisconnected})"

definition awaits :: "nat \<Rightarrow> tcp_server_sys \<Rightarrow> bool" where
  "awaits p s \<longleftrightarrow> (in_state s p {kConnecting} \<longrightarrow> EstablishTask p \<in> set (ts_queue s))"

abbreviation names_distinct :: "TcpServer \<Rightarrow> bool" where
  "names_distinct v \<equiv> inj_on (conn_name (srv_name v)) {..<srv_nextConnId v}"

lemma fold_on_event [simp]:
  "ts_conns (fold (on_event p n) ev s) = ts_conns s"
  "srv_name (ts_server (fold (on_event p n) ev s)) = srv_name (ts_server s)"
  "srv_nextConnId (ts_server (fold (on_event p n) ev s)) = srv_nextConnId (ts_server s)"
  "srv_hasConnectionCallback (ts_server (fold (on_event p n) ev s)) = srv_hasConnectionCallback (ts_server s)"
  "srv_connections (ts_server (fold (on_event p n) ev s)) =
     (if CloseCb \<in> set ev then (srv_connections (ts_server s))(n := None) else srv_connections (ts_server s))"
  "set (ts_queue (fold (on_event p n) ev s)) =
     set (ts_queue s) \<union> {ConnTask p t | t. Queue t \<in> set ev} \<union> (if CloseCb \<in> set ev then {DestroyTask p} else {})"
proof (induction ev arbitrary: s)
  case (Cons e ev)
  {
    case 1
    show ?case using Cons by (cases e) (simp_all add: removeConnection_def)
  next
    case 2
    show ?case using Cons by (cases e) (simp_all add: removeConnection_def)
  next
    case 3
    show ?case using Cons by (cases e) (simp_all add: removeConnection_def)
  next
    case 4
    show ?case using Cons by (cases e) (simp_all add: removeConnection_def)
  next
    case 5
    show ?case using Cons by (cases e) (auto simp: removeConnection_def fun_eq_iff)
  next
    case 6
    show ?case using Cons by (cases e) (auto simp: removeConnection_def)
  }
qed simp_all

lemma conn_do_inv:
  assumes "server_inv s" "names_distinct (ts_server s)"
    and f: "\<And>sc. ts_conns s p = Some sc \<Longrightarrow>
      keeps (sc_conn sc, [], sc_log sc) (f (sc_conn sc)) \<and> closes_well (sc_conn sc) (f (sc_conn sc))"
  shows "\<exists>s'. conn_do f p s = Some s' \<and> server_inv s' \<and> srv_name (ts_server s') = srv_name (ts_server s) \<and>
    srv_nextConnId (ts_server s') = srv_nextConnId (ts_server s) \<and> (\<forall>q. awaits q s \<longrightarrow> awaits q s')"
proof (cases "ts_conns s p")
  case None
  with assms(1) show ?thesis by (simp add: conn_do_def)
next
  case (Some sc)
  let ?v = "ts_server s"
  from f [OF Some] obtain c ev where c: "f (sc_conn sc) = Some (c, ev)" "tcp_inv (c, [], sc_log sc @ ev)"
    and w: "closes_well (sc_conn sc) (Some (c, ev))"
    by (auto simp: keeps_def)
  define s' where "s' = fold (on_event p (sc_name sc)) ev
    (s\<lparr>ts_conns := (ts_conns s)(p \<mapsto> sc\<lparr>sc_conn := c, sc_log := sc_log sc @ ev\<rparr>)\<rparr>)"
  have run: "conn_do f p s = Some s'" by (simp add: conn_do_def Some c s'_def)
  have ok: "conn_ok ?v p sc" using assms(1) Some by (simp add: server_inv_def)
  with w have w': "tc_hasCloseCallback c" "tc_hasConnectionCallback c = tc_hasConnectionCallback (sc_conn sc)"
    "CloseCb \<in> set ev \<Longrightarrow> tc_state (sc_conn sc) \<noteq> kDisconnected"
    "tc_state c = kDisconnected \<longleftrightarrow> tc_state (sc_conn sc) = kDisconnected \<or> CloseCb \<in> set ev"
    "tc_state c = kConnecting \<Longrightarrow> tc_state (sc_conn sc) = kConnecting"
    by (simp_all add: closes_well_def conn_ok_def)
  have other: "q = p" if "in_state s q S" "conn_name (srv_name ?v) q = conn_name (srv_name ?v) p" for q S
    using that assms(1,2) ok inj_onD [OF assms(2)] by (fastforce simp: in_state_def server_inv_def conn_ok_def)
  have old: "in_state s p S \<longleftrightarrow> tc_state (sc_conn sc) \<in> S" for S by (simp add: in_state_def Some)
  have new: "in_state s' q S \<longleftrightarrow> (if q = p then tc_state c \<in> S else in_state s q S)" for q S
    by (simp add: in_state_def s'_def)
  have name: "sc_name sc = conn_name (srv_name ?v) p" using ok by (simp add: conn_ok_def)
  have "conn_ok (ts_server s') q sc'" if "ts_conns s' q = Some sc'" for q sc'
    using that assms(1) ok c(2) w' by (auto simp: s'_def server_inv_def conn_ok_def split: if_splits)
  moreover have "srv_connections (ts_server s') n = Some q \<longleftrightarrow>
      in_state s' q (- {kDisconnected}) \<and> n = conn_name (srv_name (ts_server s')) q" for n q
  proof -
    have "srv_connections ?v n = Some q \<longleftrightarrow> in_state s q (- {kDisconnected}) \<and> n = conn_name (srv_name ?v) q"
      using assms(1) by (simp add: server_inv_def)
    moreover have "srv_connections (ts_server s') = (if CloseCb \<in> set ev
        then (srv_connections ?v)(sc_name sc := None) else srv_connections ?v)" "srv_name (ts_server s') = srv_name ?v"
      by (simp_all add: s'_def)
    ultimately show ?thesis
      using new [of q] old other [of q] name w'(3,4) by (cases "q = p"; cases "CloseCb \<in> set ev") auto
  qed
  moreover have "in_state s' q {kDisconnected}" if "DestroyTask q \<in> set (ts_queue s')" for q
    using that assms(1) new old w'(4) by (auto simp: s'_def server_inv_def split: if_splits)
  moreover have "awaits q s'" if "awaits q s" for q
    using that new [of q] old w'(5) by (auto simp: awaits_def s'_def split: if_splits)
  ultimately show ?thesis using run by (simp add: server_inv_def s'_def)
qed

definition srv_ok :: "string \<Rightarrow> nat \<Rightarrow> tcp_server_sys \<Rightarrow> bool" where
  "srv_ok name n s \<longleftrightarrow> server_inv s \<and> (\<forall>p. awaits p s) \<and> srv_name (ts_server s) = name \<and> srv_nextConnId (ts_server s) \<le> n"

lemma srv_ok_distinct:
  "srv_ok name n s \<Longrightarrow> n \<le> 2 ^ 31 \<Longrightarrow> length (c_str name) \<le> 51 \<Longrightarrow> names_distinct (ts_server s)"
  by (rule inj_on_subset [OF conn_name_inj]) (auto simp: srv_ok_def)

lemma srv_ok_mono: "srv_ok name m s \<Longrightarrow> m \<le> n \<Longrightarrow> srv_ok name n s"
  by (simp add: srv_ok_def)

lemma srv_ok_init: "srv_ok name 1 (server_sys_init name c m)"
  by (simp add: srv_ok_def server_inv_def awaits_def in_state_def server_sys_init_def TcpServer_init_def)

lemma in_state_cong: "ts_conns s' = ts_conns s \<Longrightarrow> in_state s' p S = in_state s p S"
  by (simp add: in_state_def)

lemma start_ok: "srv_ok name n s \<Longrightarrow> srv_ok name n (s\<lparr>ts_server := start b (ts_server s)\<rparr>)"
  by (auto simp: srv_ok_def server_inv_def awaits_def conn_ok_def start_def Let_def
      in_state_cong [of "s\<lparr>ts_server := _\<rparr>" s])

lemma accept_one_ok:
  assumes "srv_ok name n s" "n < 2 ^ 31" "length (c_str name) \<le> 51"
  shows "srv_ok name (Suc n) (accept_one fd s)"
proof -
  let ?v = "ts_server s" and ?i = "srv_nextConnId (ts_server s)"
  define s' where "s' = accept_one fd s"
  have s: "server_inv s" "srv_name ?v = name" "?i \<le> n" "\<And>p. awaits p s" using assms(1) by (simp_all add: srv_ok_def)
  have fresh: "tcp_inv (new_conn ?v, [], [])"
    by (auto simp: tcp_inv_def new_conn_def TcpConnection_init_def intended_def life_def)
  have none: "ts_conns s ?i = None"
    using s(1) by (cases "ts_conns s ?i") (auto simp: server_inv_def conn_ok_def)
  have state: "in_state s' p S \<longleftrightarrow> (if p = ?i then kConnecting \<in> S else in_state s p S)" for p S
    by (simp add: s'_def accept_one_def in_state_def Let_def new_conn_def TcpConnection_init_def)
  have other: "conn_name name p \<noteq> conn_name name ?i" if "in_state s p S" for p S
    using inj_onD [OF conn_name_inj [OF assms(3)], of p ?i] that s assms(2)
    by (fastforce simp: in_state_def server_inv_def conn_ok_def)
  have not_i: "\<not> in_state s ?i S" for S by (simp add: in_state_def none)
  have "conn_ok (ts_server s') p sc" if "ts_conns s' p = Some sc" for p sc
  proof (cases "p = ?i")
    case True
    with that fresh s(2) show ?thesis
      by (auto simp: s'_def accept_one_def conn_ok_def Let_def new_conn_def TcpConnection_init_def)
  next
    case False
    with that have "ts_conns s p = Some sc" by (simp add: s'_def accept_one_def Let_def)
    with s(1) have "conn_ok ?v p sc" by (simp add: server_inv_def)
    then show ?thesis by (simp add: s'_def accept_one_def conn_ok_def Let_def)
  qed
  moreover have "srv_connections (ts_server s') m = Some p \<longleftrightarrow>
      in_state s' p (- {kDisconnected}) \<and> m = conn_name (srv_name (ts_server s')) p" for m p
  proof -
    have "srv_connections ?v m = Some p \<longleftrightarrow> in_state s p (- {kDisconnected}) \<and> m = conn_name name p"
      using s(1,2) by (simp add: server_inv_def)
    moreover have "srv_connections (ts_server s') = (srv_connections ?v)(conn_name name ?i \<mapsto> ?i)"
      "srv_name (ts_server s') = name"
      by (simp_all add: s'_def accept_one_def Let_def s(2))
    ultimately show ?thesis using state [of p] other [of p] not_i by auto
  qed
  moreover have "in_state s' p {kDisconnected}" if "DestroyTask p \<in> set (ts_queue s')" for p
    using that s(1) state [of p] not_i by (auto simp: s'_def accept_one_def server_inv_def Let_def)
  moreover have "awaits p s'" for p
    using s(4) [of p] state [of p] by (auto simp: awaits_def s'_def accept_one_def Let_def)
  ultimately show ?thesis
    using s(2,3) by (simp add: srv_ok_def server_inv_def) (simp add: s'_def accept_one_def Let_def)
qed

lemma newConnection_ok:
  assumes "srv_ok name n s" "n + length rs \<le> 2 ^ 31" "length (c_str name) \<le> 51"
  shows "srv_ok name (n + length rs) (newConnection rs s)"
  using assms
proof (induction rs s arbitrary: n rule: newConnection.induct)
  case (2 e rs s)
  then show ?case
    using srv_ok_mono [OF 2(1), of n "Suc (n + length rs)"] srv_ok_mono [OF 2(2), of "Suc (n + length rs)"] by simp
next
  case (3 fd rs s)
  from accept_one_ok [OF 3(2), of fd] 3(1) [of "Suc n"] 3(3,4) show ?case by simp
qed simp

lemma conn_do_ok:
  assumes "srv_ok name n s" "n \<le> 2 ^ 31" "length (c_str name) \<le> 51"
    and f: "\<And>c log. tcp_inv (c, [], log) \<Longrightarrow> keeps (c, [], log) (f c) \<and> closes_well c (f c)"
  shows "\<exists>s'. conn_do f p s = Some s' \<and> srv_ok name n s'"
proof -
  have g: "keeps (sc_conn sc, [], sc_log sc) (f (sc_conn sc)) \<and> closes_well (sc_conn sc) (f (sc_conn sc))"
    if "ts_conns s p = Some sc" for sc
    using that assms(1) f [of "sc_conn sc" "sc_log sc"] by (auto simp: srv_ok_def server_inv_def conn_ok_def)
  have "server_inv s" using assms(1) by (simp add: srv_ok_def)
  from conn_do_inv [of s p f, OF this srv_ok_distinct [OF assms(1-3)] g] assms(1) show ?thesis
    by (auto simp: srv_ok_def)
qed

lemma run_queued_ok:
  assumes "srv_ok name n s" "n \<le> 2 ^ 31" "length (c_str name) \<le> 51"
  shows "\<exists>s'. run_queued r s = Some s' \<and> srv_ok name n s'"
proof (cases "ts_queue s")
  case Nil
  with assms(1) show ?thesis by (simp add: run_queued_def)
next
  case (Cons t q)
  define s1 where "s1 = s\<lparr>ts_queue := q\<rparr>"
  have s1: "server_inv s1" "names_distinct (ts_server s1)" "ts_server s1 = ts_server s" "ts_conns s1 = ts_conns s"
    using assms(1) srv_ok_distinct [OF assms]
    by (auto simp: s1_def srv_ok_def server_inv_def Cons in_state_cong [of "s\<lparr>ts_queue := q\<rparr>" s])
  have waits: "awaits p s1" if "t \<noteq> EstablishTask p" for p
    using assms(1) that by (auto simp: srv_ok_def awaits_def s1_def Cons in_state_cong [of "s\<lparr>ts_queue := q\<rparr>" s])
  have ok: "conn_ok (ts_server s) p sc" if "ts_conns s p = Some sc" for p sc
    using that assms(1) by (auto simp: srv_ok_def server_inv_def)
  have finish: "\<exists>s'. conn_do f p s1 = Some s' \<and> srv_ok name n s'"
    if "\<And>sc. ts_conns s p = Some sc \<Longrightarrow>
      keeps (sc_conn sc, [], sc_log sc) (f (sc_conn sc)) \<and> closes_well (sc_conn sc) (f (sc_conn sc))"
      and "\<And>s' x. conn_do f p s1 = Some s' \<Longrightarrow> t = EstablishTask x \<Longrightarrow> awaits x s'" for f p
  proof -
    from conn_do_inv [of s1 p f, OF s1(1,2)] that(1) s1(4) obtain s' where
      s': "conn_do f p s1 = Some s'" "server_inv s'" "srv_name (ts_server s') = srv_name (ts_server s1)"
      "srv_nextConnId (ts_server s') = srv_nextConnId (ts_server s1)" "\<And>q. awaits q s1 \<Longrightarrow> awaits q s'"
      by auto
    have "awaits q s'" for q
      using that(2) [OF s'(1), of q] waits [of q] s'(5) [of q] by blast
    with s' s1(3) assms(1) show ?thesis by (simp add: srv_ok_def)
  qed
  show ?thesis
  proof (cases t)
    case (EstablishTask p)
    have "awaits p s'" if "conn_do (\<lambda>c. Some (connectEstablished c)) p s1 = Some s'" for s'
      using that s1(4) by (auto simp: conn_do_def awaits_def in_state_def connectEstablished_def split: option.splits if_splits)
    then show ?thesis
      using EstablishTask Cons finish [of p "\<lambda>c. Some (connectEstablished c)"] ok state_ops_keep(1) state_ops_well(1)
      by (auto simp: run_queued_def s1_def conn_ok_def)
  next
    case (DestroyTask p)
    then have "in_state s p {kDisconnected}" using assms(1) Cons by (auto simp: srv_ok_def server_inv_def)
    then have "keeps (sc_conn sc, [], sc_log sc) (connectDestroyed (sc_conn sc)) \<and> closes_well (sc_conn sc) (connectDestroyed (sc_conn sc))"
      if "ts_conns s p = Some sc" for sc
      using that ok [OF that] destroy_keeps [of "sc_conn sc" "[]" "sc_log sc"] state_ops_well(4)
      by (auto simp: in_state_def conn_ok_def)
    then show ?thesis
      using DestroyTask Cons finish [of p connectDestroyed] by (simp add: run_queued_def s1_def)
  next
    case (ConnTask p u)
    then show ?thesis
      using Cons finish [of p "run_task r u"] ok run_task_keeps run_task_well
      by (auto simp: run_queued_def s1_def conn_ok_def)
  qed
qed

lemma force_close_all_ok:
  assumes "n \<le> 2 ^ 31" "length (c_str name) \<le> 51"
  shows "srv_ok name n s \<Longrightarrow> \<exists>s'. force_close_all ps s = Some s' \<and> srv_ok name n s'"
proof (induction ps arbitrary: s)
  case (Cons p ps)
  from conn_do_ok [OF Cons.prems assms, of "\<lambda>c. Some (forceClose c)" p]
  obtain t where "conn_do (\<lambda>c. Some (forceClose c)) p s = Some t" "srv_ok name n t"
    using state_ops_keep(3) state_ops_well(3) by blast
  with Cons.IH show ?case by simp
qed simp

definition accept_load :: "server_event \<Rightarrow> nat" where
  "accept_load e = (case e of AcceptReady rs \<Rightarrow> length rs | _ \<Rightarrow> 0)"

lemma server_do_event_ok:
  assumes "srv_ok name n s" "n + accept_load e \<le> 2 ^ 31" "length (c_str name) \<le> 51"
  shows "\<exists>s'. server_do_event e s = Some s' \<and> srv_ok name (n + accept_load e) s'"
proof -
  have n: "n \<le> 2 ^ 31" using assms(2) by simp
  note conn = conn_do_ok [OF assms(1) n assms(3)]
  show ?thesis
  proof (cases e)
    case (StartServer ok)
    with start_ok [OF assms(1)] show ?thesis by (simp add: accept_load_def)
  next
    case (AcceptReady rs)
    with newConnection_ok [OF assms(1), of rs] assms(2,3) srv_ok_mono [OF assms(1), of "n + length rs"]
    show ?thesis by (simp add: accept_load_def)
  next
    case (ConnReadable p rs)
    with conn [of "handleRead rs" p] show ?thesis by (simp add: accept_load_def handleRead_keeps handleRead_well)
  next
    case (ConnWritable p rs)
    with conn [of "handleWrite rs" p] show ?thesis
      by (simp add: accept_load_def handleWrite_keeps handleWrite_well tcp_inv_def)
  next
    case (ConnHangUp p)
    with conn [of "\<lambda>c. Some (handleClose c)" p] show ?thesis
      by (simp add: accept_load_def handleClose_keeps handleClose_well)
  next
    case (ConnSend p inLoop r data)
    with conn [of "send inLoop r data" p] show ?thesis by (simp add: accept_load_def send_keeps send_well)
  next
    case (ConnShutdown p inLoop)
    with conn [of "\<lambda>c. Some (shutdown inLoop c)" p] show ?thesis
      by (simp add: accept_load_def state_ops_keep state_ops_well)
  next
    case (ConnForceClose p)
    with conn [of "\<lambda>c. Some (forceClose c)" p] show ?thesis
      by (simp add: accept_load_def state_ops_keep state_ops_well)
  next
    case (RunQueued r)
    with run_queued_ok [OF assms(1) n assms(3)] show ?thesis by (simp add: accept_load_def)
  next
    case (DestroyServer order)
    have "srv_ok name n (s\<lparr>ts_server := (ts_server s)\<lparr>srv_accepting := False\<rparr>\<rparr>)"
      using assms(1) by (simp add: srv_ok_def server_inv_def awaits_def conn_ok_def in_state_def)
    with force_close_all_ok [OF n assms(3)] DestroyServer show ?thesis
      by (simp add: accept_load_def TcpServer_destroy_def)
  qed
qed

lemma server_run_events_ok:
  assumes "srv_ok name n s" "n + sum_list (map accept_load es) \<le> 2 ^ 31" "length (c_str name) \<le> 51"
  shows "\<exists>s'. server_run_events es s = Some s' \<and> srv_ok name (2 ^ 31) s'"
  using assms(1,2)
proof (induction es arbitrary: s n)
  case Nil
  then show ?case by (auto intro: srv_ok_mono)
next
  case (Cons e es)
  from server_do_event_ok [OF Cons.prems(1) _ assms(3), of e] Cons.prems(2)
  obtain t where "server_do_event e s = Some t" "srv_ok name (n + accept_load e) t" by auto
  with Cons.IH [of "n + accept_load e" t] Cons.prems(2) show ?case by (simp add: add.assoc)
qed


definition demo_server_events :: "server_event list" where
  "demo_server_events =
     [StartServer True, AcceptReady [Accepted 5, AcceptErr EINTR, Accepted 6, AcceptErr EAGAIN], RunQueued (WriteOk 0),
      RunQueued (WriteOk 0), ConnHangUp 1, RunQueued (WriteOk 0)]"


text \<open>
  A name of 62 characters or more leaves no room for the number: all connections share one name, and
  accepting a connection throws the entry of the one before out of the table.
\<close>

lemma long_name_collides:
  assumes "62 \<le> length (c_str name)"
  shows "conn_name name i = conn_name name j"
  using assms by (simp add: conn_name_def)

end
