(* ===== verification/StoreSpec.thy ===== *)
theory StoreSpec
  imports MessageStore "HOL-Library.Monad_Syntax"
begin

text \<open>
  What \<open>IMessageStore\<close> promises, as a specification both stores implement: a table of messages by id, the
  operations of the interface as events on it, and what each outcome may do to the table. User and
  client ids are compared up to a function \<open>collate\<close>: the in-memory store compares them byte by byte,
  a database by the collation of its columns. The locale \<open>message_table\<close> is the refinement: a store
  whose every step does what the specification allows. Its lemmas hold for every such store.
\<close>

section \<open>The specification\<close>

type_synonym msg_table = "u64 \<rightharpoonup> StoredMessage"

text \<open>The clock readings that only a database stores are part of the operations.\<close>

datatype table_op =
    TSave CreateMessageRequest
  | TAttempt ms string u64 DeliveryStatus ms u32
  | TAck ms string u64 u64 u32 ms
  | TLoad string u64 u64

datatype table_event =
    Saved StoredMessage
  | Duplicate StoredMessage
  | Tried
  | Acked
  | Loaded "StoredMessage list"
  | Refused

definition matches :: "CreateMessageRequest \<Rightarrow> StoredMessage \<Rightarrow> bool" where
  "matches r m \<longleftrightarrow>
     sm_receiverId m = cr_toUserId r \<and> n_toUserId (sm_notify m) = cr_toUserId r \<and>
     n_fromUserId (sm_notify m) = cr_fromUserId r \<and> n_clientMsgId (sm_notify m) = cr_clientMsgId r \<and>
     n_content (sm_notify m) = cr_content r \<and> n_timestamp (sm_notify m) = cr_timestamp r"

text \<open>A new entry: nobody's id, and a number no other message of the receiver has.\<close>

definition enters :: "(string \<Rightarrow> string) \<Rightarrow> CreateMessageRequest \<Rightarrow> StoredMessage \<Rightarrow> msg_table \<Rightarrow> msg_table \<Rightarrow> bool" where
  "enters collate r m T T' \<longleftrightarrow>
     matches r m \<and> sm_status m = DeliveryPersisted \<and> T (id_of m) = None \<and>
     (\<forall>i m'. T i = Some m' \<and> collate (sm_receiverId m') = collate (sm_receiverId m) \<longrightarrow> seq_of m' \<noteq> seq_of m) \<and>
     T' = T(id_of m \<mapsto> m)"

definition acks :: "(string \<Rightarrow> string) \<Rightarrow> string \<Rightarrow> u64 \<Rightarrow> u64 \<Rightarrow> u32 \<Rightarrow> ms \<Rightarrow> msg_table \<Rightarrow> msg_table \<Rightarrow> bool" where
  "acks collate u i q code t T T' \<longleftrightarrow>
     (\<exists>m. T i = Some m \<and> collate (sm_receiverId m) = collate u \<and> seq_of m = q \<and>
        T' = T(i \<mapsto> m\<lparr>sm_ackedAt := t, sm_status := (if code = AckRead then DeliveryRead else DeliveryDelivered)\<rparr>))"

text \<open>An attempt on a message that is not there, or not the receiver's, may report success without effect.\<close>

definition tries ::
    "(string \<Rightarrow> string) \<Rightarrow> string \<Rightarrow> u64 \<Rightarrow> DeliveryStatus \<Rightarrow> ms \<Rightarrow> u32 \<Rightarrow> msg_table \<Rightarrow> msg_table \<Rightarrow> bool" where
  "tries collate u i st t rc T T' \<longleftrightarrow>
     (case T i of
        None \<Rightarrow> T' = T
      | Some m \<Rightarrow>
          if collate (sm_receiverId m) = collate u
          then \<exists>a. T' = T(i \<mapsto> m\<lparr>sm_status := st, sm_lastDeliverAt := t, sm_retryCount := rc, sm_ackedAt := a\<rparr>)
          else T' = T)"

fun spec_ok :: "(string \<Rightarrow> string) \<Rightarrow> msg_table \<Rightarrow> table_op \<Rightarrow> table_event \<Rightarrow> msg_table \<Rightarrow> bool" where
  "spec_ok collate T (TSave r) (Saved m) T' \<longleftrightarrow> enters collate r m T T'"
| "spec_ok collate T (TSave r) (Duplicate m) T' \<longleftrightarrow>
     T' = T \<and> T (id_of m) = Some m \<and> cr_clientMsgId r \<noteq> [] \<and>
     collate (n_fromUserId (sm_notify m)) @ ''#'' @ collate (n_clientMsgId (sm_notify m)) =
       collate (cr_fromUserId r) @ ''#'' @ collate (cr_clientMsgId r)"
| "spec_ok collate T (TSave r) Refused T' \<longleftrightarrow> T' = T \<or> (\<exists>m. enters collate r m T T')"
| "spec_ok collate T (TAttempt now u i st t rc) Tried T' \<longleftrightarrow> tries collate u i st t rc T T'"
| "spec_ok collate T (TAttempt now u i st t rc) Refused T' \<longleftrightarrow> T' = T"
| "spec_ok collate T (TAck now u i q code t) Acked T' \<longleftrightarrow> acks collate u i q code t T T'"
| "spec_ok collate T (TAck now u i q code t) Refused T' \<longleftrightarrow> T' = T \<or> acks collate u i q code t T T'"
| "spec_ok collate T (TLoad u a limit) (Loaded ms) T' \<longleftrightarrow>
     T' = T \<and> length ms \<le> max 1 (unat limit) \<and> sorted_wrt (<) (map seq_of ms) \<and>
     list_all (\<lambda>m. T (id_of m) = Some m \<and> collate (sm_receiverId m) = collate u \<and> deliverable a m) ms"
| "spec_ok collate T (TLoad u a limit) Refused T' \<longleftrightarrow> T' = T"
| "spec_ok collate T op ev T' \<longleftrightarrow> False"

text \<open>What a step leaves of the table, and where its entries come from.\<close>

definition keeps_notes :: "msg_table \<Rightarrow> msg_table \<Rightarrow> bool" where
  "keeps_notes T T' \<longleftrightarrow>
     (\<forall>i m. T i = Some m \<longrightarrow>
        (\<exists>m'. T' i = Some m' \<and> sm_notify m' = sm_notify m \<and> sm_receiverId m' = sm_receiverId m))"

definition from_save :: "table_op list \<Rightarrow> msg_table \<Rightarrow> msg_table \<Rightarrow> bool" where
  "from_save as T T' \<longleftrightarrow>
     (\<forall>i m'. T' i = Some m' \<longrightarrow>
        (\<exists>m. T i = Some m \<and> sm_notify m' = sm_notify m \<and> sm_receiverId m' = sm_receiverId m) \<or>
        (\<exists>r. TSave r \<in> set as \<and> matches r m'))"

lemma enters_effect: "enters collate r m T T' \<Longrightarrow> keeps_notes T T' \<and> from_save [TSave r] T T'"
  by (auto simp: enters_def keeps_notes_def from_save_def)

lemma spec_effect:
  assumes "spec_ok collate T a ev T'"
  shows "keeps_notes T T'" "from_save [a] T T'"
proof -
  have same: "keeps_notes T T \<and> from_save [a] T T" by (auto simp: keeps_notes_def from_save_def)
  have upd: "keeps_notes T (T(i \<mapsto> m')) \<and> from_save [a] T (T(i \<mapsto> m'))"
    if "T i = Some m" "sm_notify m' = sm_notify m" "sm_receiverId m' = sm_receiverId m" for i m m'
    using that by (auto simp: keeps_notes_def from_save_def)
  have "keeps_notes T T' \<and> from_save [a] T T'"
    using assms
  proof (cases "(collate, T, a, ev, T')" rule: spec_ok.cases)
    case (3 _ _ r _)
    with assms same enters_effect [of collate r _ T T'] show ?thesis by auto
  next
    case (7 _ _ now u i q code t _)
    with assms same upd show ?thesis by (auto simp: acks_def)
  qed (use assms same upd enters_effect in \<open>auto simp: acks_def tries_def split: option.splits if_splits\<close>)
  then show "keeps_notes T T'" "from_save [a] T T'" by auto
qed

section \<open>Refinement\<close>

locale message_table =
  fixes step :: "'s \<Rightarrow> table_op \<Rightarrow> (table_event \<times> 's) option"
    and table :: "'s \<Rightarrow> msg_table"
    and collate :: "string \<Rightarrow> string"
    and inv :: "nat \<Rightarrow> 's \<Rightarrow> bool"
    and bound :: nat
    and allowed :: "table_op \<Rightarrow> bool"
  assumes simulates: "inv n s \<Longrightarrow> n < bound \<Longrightarrow> allowed a \<Longrightarrow>
    \<exists>ev s'. step s a = Some (ev, s') \<and> inv (Suc n) s' \<and> spec_ok collate (table s) a ev (table s')"
begin

primrec table_run :: "table_op list \<Rightarrow> 's \<Rightarrow> (table_event list \<times> 's) option" where
  "table_run [] s = Some ([], s)"
| "table_run (a # as) s = do { (ev, s) \<leftarrow> step s a; (evs, s) \<leftarrow> table_run as s; Some (ev # evs, s) }"

lemma table_run_simulates:
  assumes "inv n s" "n + length as \<le> bound" "list_all allowed as"
  shows "\<exists>evs s'. table_run as s = Some (evs, s') \<and> inv (n + length as) s' \<and> length evs = length as \<and>
    keeps_notes (table s) (table s') \<and> from_save as (table s) (table s')"
  using assms
proof (induction as arbitrary: n s)
  case Nil
  then show ?case by (auto simp: keeps_notes_def from_save_def)
next
  case (Cons a as)
  from simulates [of n s a] Cons.prems obtain ev t where
    t: "step s a = Some (ev, t)" "inv (Suc n) t" "spec_ok collate (table s) a ev (table t)" by auto
  from Cons.IH [OF t(2)] Cons.prems obtain evs s' where
    s': "table_run as t = Some (evs, s')" "inv (n + length (a # as)) s'" "length evs = length as"
    "keeps_notes (table t) (table s')" "from_save as (table t) (table s')" by auto
  have "keeps_notes (table s) (table s')"
    using spec_effect(1) [OF t(3)] s'(4) unfolding keeps_notes_def by metis
  moreover have "from_save (a # as) (table s) (table s')"
    unfolding from_save_def
  proof (intro allI impI)
    fix i m'
    assume m': "table s' i = Some m'"
    show "(\<exists>m. table s i = Some m \<and> sm_notify m' = sm_notify m \<and> sm_receiverId m' = sm_receiverId m) \<or>
        (\<exists>r. TSave r \<in> set (a # as) \<and> matches r m')"
    proof (cases "\<exists>r. TSave r \<in> set as \<and> matches r m'")
      case False
      with s'(5) m' obtain m where m: "table t i = Some m" "sm_notify m' = sm_notify m" "sm_receiverId m' = sm_receiverId m"
        unfolding from_save_def by blast
      with spec_effect(2) [OF t(3)] show ?thesis by (fastforce simp: from_save_def matches_def)
    qed auto
  qed
  ultimately show ?case using t(1) s'(1-3) by auto
qed

text \<open>Whatever a store hands out for delivery was handed in by an earlier call, unchanged and for this receiver.\<close>

lemma loaded_was_saved:
  assumes "inv 0 s" "table s = Map.empty" "Suc (length as) \<le> bound" "list_all allowed as" "allowed (TLoad u a limit)"
    and "table_run as s = Some (evs, s')" "step s' (TLoad u a limit) = Some (Loaded ms, s'')" "m \<in> set ms"
  shows "\<exists>r. TSave r \<in> set as \<and> matches r m \<and> collate (cr_toUserId r) = collate u"
proof -
  from table_run_simulates [OF assms(1) _ assms(4)] assms(3,6)
  have s': "inv (length as) s'" "from_save as (table s) (table s')" by auto
  from simulates [OF s'(1) _ assms(5)] assms(3,7)
  have "spec_ok collate (table s') (TLoad u a limit) (Loaded ms) (table s'')" by auto
  with assms(8) have m: "table s' (id_of m) = Some m" "collate (sm_receiverId m) = collate u"
    by (auto simp: list_all_iff)
  with s'(2) assms(2) obtain r where "TSave r \<in> set as" "matches r m" by (auto simp: from_save_def)
  with m(2) show ?thesis by (auto simp: matches_def)
qed

end

section \<open>The in-memory store\<close>

definition memory_step :: "InMemoryMessageStore \<Rightarrow> table_op \<Rightarrow> (table_event \<times> InMemoryMessageStore) option" where
  "memory_step s a =
     Some (case a of
        TSave r \<Rightarrow> (case saveMessageAndDelivery r s of
            (Inl e, s) \<Rightarrow> (Refused, s)
          | (Inr (m, dup), s) \<Rightarrow> (if dup then Duplicate m else Saved m, s))
      | TAttempt now u i st t rc \<Rightarrow> (case markDeliveryAttempt u i st t rc s of
            (Inl e, s) \<Rightarrow> (Refused, s) | (Inr _, s) \<Rightarrow> (Tried, s))
      | TAck now u i q code t \<Rightarrow> (case markAcked u i q code t s of
            (Inl e, n, s) \<Rightarrow> (Refused, s) | (Inr _, n, s) \<Rightarrow> (Acked, s))
      | TLoad u a limit \<Rightarrow> (case loadPendingMessages u a (unat limit) s of
            ((ms, nx, e), s) \<Rightarrow> (Loaded ms, s)))"

lemma memory_save_enters:
  assumes inv: "store_inv n s" and n: "n < store_bound" and new: "find_duplicate (key_req r) s = None"
  shows "enters id r (new_message r s) (im_messages s) (im_messages (snd (saveMessageAndDelivery r s)))"
proof -
  have "noted s (im_nextMsgId s) = None" by (rule next_not_noted [OF inv])
  then have free: "im_messages s (im_nextMsgId s) = None" by (simp add: noted_def)
  have "unat (cur_seq s (cr_toUserId r)) \<le> n" using inv by (simp add: store_inv_def counters_ok_def)
  with n have c: "Suc (unat (cur_seq s (cr_toUserId r))) < 2 ^ 64" by (simp add: store_bound_def)
  have "seq_of m' \<noteq> cur_seq s (cr_toUserId r) + 1"
    if "im_messages s i = Some m'" "sm_receiverId m' = cr_toUserId r" for i m'
  proof -
    have "noted s i = Some (sm_notify m', cr_toUserId r)" using that by (simp add: noted_def)
    with inv have "seq_of m' \<le> cur_seq s (cr_toUserId r)" by (simp add: store_inv_def notes_ok_def)
    then show ?thesis using less_Suc_u64 [OF c, of "seq_of m'"] by auto
  qed
  then show ?thesis
    using free saved_views(2) [OF new refl] by (auto simp: enters_def matches_def new_message_def)
qed

lemma memory_duplicate:
  assumes inv: "store_inv n s" and dup: "find_duplicate (key_req r) s = Some m"
  shows "im_messages s (id_of m) = Some m" "key_of (sm_notify m) = key_req r" "key_req r \<noteq> []"
proof -
  from dup obtain i where i: "key_req r \<noteq> []" "im_clientMsgDedupIndex s (key_req r) = Some i" "im_messages s i = Some m"
    by (auto simp: find_duplicate_def split: if_splits option.splits)
  then have "noted s i = Some (sm_notify m, sm_receiverId m)" by (simp add: noted_def)
  with inv i show "im_messages s (id_of m) = Some m" "key_of (sm_notify m) = key_req r" "key_req r \<noteq> []"
    by (auto simp: store_inv_def notes_ok_def dedup_ok_def)
qed

lemma memory_loads:
  assumes inv: "store_inv n s"
  shows "spec_ok id (im_messages s) (TLoad u a limit) (Loaded (page u a (unat limit) s)) (im_messages s)"
proof -
  have "im_messages s (id_of m) = Some m \<and> sm_receiverId m = u \<and> deliverable a m" if "m \<in> set (page u a (unat limit) s)" for m
  proof -
    from that have "m \<in> set (eligible (im_messages s) a (pending s u))" by (auto simp: page_def dest: in_set_takeD)
    then obtain i where i: "i \<in> set (pending s u)" "im_messages s i = Some m" "deliverable a m" by (auto simp: in_eligible)
    with inv have "noted s i = Some (sm_notify m, u)" "sm_receiverId m = u"
      by (fastforce simp: store_inv_def pending_ok_def noted_def)+
    with inv i show ?thesis by (auto simp: store_inv_def notes_ok_def)
  qed
  moreover have "length (page u a (unat limit) s) \<le> max 1 (unat limit)" by (simp add: page_def)
  ultimately show ?thesis
    using loadPendingMessages_page(2) [OF inv] by (simp add: list_all_iff)
qed

lemma memory_simulates:
  assumes inv: "store_inv n s" and n: "n < store_bound"
  shows "\<exists>ev s'. memory_step s a = Some (ev, s') \<and> store_inv (Suc n) s' \<and> spec_ok id (im_messages s) a ev (im_messages s')"
proof (cases a)
  case (TSave r)
  show ?thesis
  proof (cases "find_duplicate (key_req r) s")
    case None
    with TSave memory_save_enters [OF inv n None] store_inv_save_new [OF inv n None] saved_views(1) [OF None refl]
    show ?thesis by (cases "saveMessageAndDelivery r s") (simp add: memory_step_def)
  next
    case (Some m)
    from memory_duplicate [OF inv Some] TSave Some store_inv_mono [OF inv] show ?thesis
      by (simp add: memory_step_def save_duplicate makeDedupKey_def split: if_splits)
  qed
next
  case (TAttempt now u i st t rc)
  have "store_inv (Suc n) (snd (markDeliveryAttempt u i st t rc s))"
    by (rule store_inv_mono [OF store_inv_attempt [OF inv]])
  moreover have "m\<lparr>sm_status := st, sm_lastDeliverAt := t, sm_retryCount := rc, sm_ackedAt := sm_ackedAt m\<rparr> =
      m\<lparr>sm_status := st, sm_lastDeliverAt := t, sm_retryCount := rc\<rparr>" for m by simp
  then have "tries id (sm_receiverId m) i st t rc (im_messages s)
      ((im_messages s)(i \<mapsto> m\<lparr>sm_status := st, sm_lastDeliverAt := t, sm_retryCount := rc\<rparr>))"
    if "im_messages s i = Some m" for m
    using that unfolding tries_def by (simp, intro exI [of _ "sm_ackedAt m"]) simp
  ultimately show ?thesis
    using TAttempt
    by (auto simp: memory_step_def MessageStore.markDeliveryAttempt_def tries_def split: option.splits if_splits)
next
  case (TAck now u i q code t)
  have "store_inv (Suc n) (snd (snd (markAcked u i q code t s)))"
    by (rule store_inv_mono [OF store_inv_ack [OF inv]])
  with TAck show ?thesis
    by (auto simp: memory_step_def markAcked_def acks_def touch_lastAcked_def Let_def split: option.splits)
next
  case (TLoad u a limit)
  with memory_loads [OF inv, of u a limit] loadPendingMessages_page(1) [OF inv, of u a "unat limit"] store_inv_mono [OF inv]
  show ?thesis by (simp add: memory_step_def)
qed

interpretation memory_spec: message_table memory_step im_messages id store_inv store_bound "\<lambda>_. True"
  by unfold_locales (rule memory_simulates)

text \<open>
  Claim C27 (memory_refines). The in-memory store implements the specification: from every state its
  operations reach, within the width of its counters, each operation returns and does to the table of
  messages what its answer allows.
\<close>

theorem memory_refines:
  assumes "Suc (length as) \<le> store_bound"
  shows "\<exists>evs s ev s'. memory_spec.table_run as InMemoryMessageStore_init = Some (evs, s) \<and>
    memory_step s a = Some (ev, s') \<and> spec_ok id (im_messages s) a ev (im_messages s')"
proof -
  from memory_spec.table_run_simulates [OF store_inv_init, of as] assms obtain evs s where
    s: "memory_spec.table_run as InMemoryMessageStore_init = Some (evs, s)" "store_inv (length as) s"
    by (auto simp: list_all_iff)
  with memory_simulates [OF s(2), of a] assms show ?thesis by auto
qed

theorem memory_refines_witness:
  "\<exists>evs s ev s'. memory_spec.table_run [TSave req_a, TSave req_b] InMemoryMessageStore_init = Some (evs, s) \<and>
    memory_step s (TLoad ''bob'' 0 10) = Some (ev, s') \<and> spec_ok id (im_messages s) (TLoad ''bob'' 0 10) ev (im_messages s')"
  using memory_refines [of "[TSave req_a, TSave req_b]" "TLoad ''bob'' 0 10"] by (simp add: store_bound_def)

end
