(* ===== verification/MySqlMessageStore.thy ===== *)
theory MySqlMessageStore
  imports Repositories MessageStore
begin

text \<open>
  The other half of \<open>src/storage/messageStore.cpp\<close>: the message store over MySQL. Its state is the client,
  whether the repositories exist, the counter of message ids, and the two caches per receiver; the
  database is in the world \<open>'w\<close> that the client's library transforms. An operation is \<open>None\<close> where the code
  throws or follows a null repository pointer. \<open>Inl e\<close> is \<open>false\<close> with \<open>errorMsg = e\<close>. A status column
  outside the enumeration, which the store never writes, is outside the model and also \<open>None\<close>. The
  operations hold the mutex; the clock that \<open>updateDeliveryStatus\<close> reads is the argument \<open>now\<close>.
\<close>

section \<open>State\<close>

record MySqlStoreOptions =
  mo_enabled :: bool
  mo_host :: string
  mo_port :: int
  mo_user :: string
  mo_password :: string
  mo_database :: string
  mo_connectTimeoutMs :: int

record 'h MySqlMessageStore =
  my_options :: MySqlStoreOptions
  my_client :: "'h MySqlClient"
  my_repositories :: bool
  my_nextMsgId :: u64
  my_nextServerSeqByUser :: "string \<rightharpoonup> u64"
  my_lastAckedSeqCache :: "string \<rightharpoonup> u64"

definition MySqlMessageStore_init :: "MySqlStoreOptions \<Rightarrow> 'h MySqlMessageStore" where
  "MySqlMessageStore_init options =
     \<lparr>my_options = options, my_client = MySqlClient_init, my_repositories = False, my_nextMsgId = 1,
      my_nextServerSeqByUser = Map.empty, my_lastAckedSeqCache = Map.empty\<rparr>"

type_synonym ('h, 'w) store_world = "'h MySqlMessageStore \<times> 'w"

definition status_of :: "u8 \<Rightarrow> DeliveryStatus option" where
  "status_of v =
     (if v = 0 then Some DeliveryCreated else if v = 1 then Some DeliveryPersisted
      else if v = 2 then Some DeliveryDelivering else if v = 3 then Some DeliveryDelivered
      else if v = 4 then Some DeliveryFailed else if v = 5 then Some DeliveryRead else None)"

lemma status_of_value [simp]: "status_of (delivery_value st) = Some st"
  by (cases st) (simp_all add: status_of_def)

text \<open>A repository's operation through \<open>m_messageRepository\<close> or \<open>m_deliveryRepository\<close>.\<close>

definition with_read ::
    "('h MySqlClient \<times> 'w \<Rightarrow> ('r \<times> string \<times> 'h MySqlClient \<times> 'w) option) \<Rightarrow> ('h, 'w) store_world \<Rightarrow>
     ('r \<times> string \<times> ('h, 'w) store_world) option" where
  "with_read f = (\<lambda>(s, w).
     if \<not> my_repositories s then None
     else do { (r, e, c, w) \<leftarrow> f (my_client s, w); Some (r, e, s\<lparr>my_client := c\<rparr>, w) })"

definition with_write ::
    "('h MySqlClient \<times> 'w \<Rightarrow> bool \<times> string \<times> 'h MySqlClient \<times> 'w) \<Rightarrow> ('h, 'w) store_world \<Rightarrow>
     (bool \<times> string \<times> ('h, 'w) store_world) option" where
  "with_write f = with_read (\<lambda>cw. Some (f cw))"

definition with_client ::
    "('h MySqlClient \<times> 'w \<Rightarrow> bool \<times> 'h MySqlClient \<times> 'w) \<Rightarrow> ('h, 'w) store_world \<Rightarrow> bool \<times> ('h, 'w) store_world" where
  "with_client f = (\<lambda>(s, w). case f (my_client s, w) of (ok, c, w) \<Rightarrow> (ok, s\<lparr>my_client := c\<rparr>, w))"

abbreviation last_error :: "('h, 'w) store_world \<Rightarrow> string" where
  "last_error sw \<equiv> mc_lastError (my_client (fst sw))"

section \<open>Private operations\<close>

definition loadMaxMessageId ::
    "('h, 'w) mysql_lib \<Rightarrow> ('h, 'w) store_world \<Rightarrow> ((string + unit) \<times> ('h, 'w) store_world) option" where
  "loadMaxMessageId lib sw = do {
     (maxId, e, s, w) \<leftarrow> with_read (getMaxMessageId lib) sw;
     Some (if e \<noteq> [] then (Inl e, s, w) else (Inr (), s\<lparr>my_nextMsgId := maxId + 1\<rparr>, w))
   }"

definition ensureServerSeqCursor ::
    "('h, 'w) mysql_lib \<Rightarrow> string \<Rightarrow> ('h, 'w) store_world \<Rightarrow> ((string + unit) \<times> ('h, 'w) store_world) option" where
  "ensureServerSeqCursor lib receiverId sw =
     (if my_nextServerSeqByUser (fst sw) receiverId \<noteq> None then Some (Inr (), sw)
      else do {
        (n, e, s, w) \<leftarrow> with_read (getMaxServerSeq lib receiverId) sw;
        let s = s\<lparr>my_nextServerSeqByUser := (my_nextServerSeqByUser s)(receiverId \<mapsto> n)\<rparr>;
        Some (if e \<noteq> [] then Inl e else Inr (), s, w)
      })"

definition stored_message :: "MessageRecord \<Rightarrow> DeliveryRecord \<Rightarrow> StoredMessage option" where
  "stored_message m d = do {
     st \<leftarrow> status_of (dr_status d);
     Some \<lparr>sm_notify =
         \<lparr>n_msgId = mg_messageId m, n_serverSeq = dr_serverSeq d, n_fromUserId = mg_fromUserId m,
          n_toUserId = mg_toUserId m, n_clientMsgId = mg_clientMsgId m, n_content = mg_content m,
          n_timestamp = mg_createdAtMs m\<rparr>,
       sm_status = st, sm_receiverId = dr_receiverUserId d, sm_createdAt = mg_createdAtMs m,
       sm_lastDeliverAt = dr_deliveredAtMs d, sm_ackedAt = dr_ackedAtMs d, sm_retryCount = dr_retryCount d\<rparr>
   }"

text \<open>The second component is \<open>errorMsg\<close>: no message with an empty error is no duplicate.\<close>

definition findDuplicateMessage ::
    "('h, 'w) mysql_lib \<Rightarrow> CreateMessageRequest \<Rightarrow> ('h, 'w) store_world \<Rightarrow>
     (StoredMessage option \<times> string \<times> ('h, 'w) store_world) option" where
  "findDuplicateMessage lib request sw =
     (if cr_clientMsgId request = [] then Some (None, [], sw)
      else do {
        (message, e, sw) \<leftarrow> with_read (findBySenderClientMsgId lib (cr_fromUserId request) (cr_clientMsgId request)) sw;
        (case message of
           None \<Rightarrow> Some (None, e, sw)
         | Some m \<Rightarrow> do {
             (delivery, e, sw) \<leftarrow> with_read (findByMessageAndReceiver lib (mg_messageId m) (cr_toUserId request)) sw;
             (case delivery of
                None \<Rightarrow> Some (None, e, sw)
              | Some d \<Rightarrow> do { sm \<leftarrow> stored_message m d; Some (Some sm, [], sw) }) })
      })"

definition message_row :: "StoredMessage \<Rightarrow> MessageRecord" where
  "message_row m =
     \<lparr>mg_messageId = id_of m, mg_clientMsgId = n_clientMsgId (sm_notify m), mg_fromUserId = n_fromUserId (sm_notify m),
      mg_toUserId = n_toUserId (sm_notify m),
      mg_conversationId = n_fromUserId (sm_notify m) @ '':'' @ n_toUserId (sm_notify m), mg_payloadFormat = 0,
      mg_content = n_content (sm_notify m), mg_messageType = ''text'', mg_status = delivery_value (sm_status m),
      mg_createdAtMs = sm_createdAt m, mg_updatedAtMs = sm_createdAt m\<rparr>"

definition executeInsertMessage where
  "executeInsertMessage lib m = with_write (createMessage lib (message_row m))"

definition delivery_row :: "StoredMessage \<Rightarrow> DeliveryRecord" where
  "delivery_row m =
     \<lparr>dr_messageId = id_of m, dr_receiverUserId = sm_receiverId m, dr_serverSeq = seq_of m,
      dr_status = delivery_value (sm_status m), dr_retryCount = sm_retryCount m, dr_lastError = [],
      dr_deliveredAtMs = sm_lastDeliverAt m, dr_ackedAtMs = sm_ackedAt m, dr_createdAtMs = sm_createdAt m,
      dr_updatedAtMs = sm_createdAt m\<rparr>"

definition executeInsertDelivery where
  "executeInsertDelivery lib m = with_write (createDelivery lib (delivery_row m))"

section \<open>The interface\<close>

definition store_init ::
    "('h, 'w) mysql_lib \<Rightarrow> ('h, 'w) store_world \<Rightarrow> ((string + unit) \<times> ('h, 'w) store_world) option" where
  "store_init lib sw =
     (let o' = my_options (fst sw);
          (ok, s, w) = with_client (connect lib (mo_host o') (mo_port o') (mo_user o') (mo_password o') (mo_database o')
            (mo_connectTimeoutMs o')) sw in
      if \<not> ok then Some (Inl (mc_lastError (my_client s)), s, w)
      else loadMaxMessageId lib (s\<lparr>my_repositories := True\<rparr>, w))"

text \<open>\<open>m_nextMsgId++\<close> and \<open>++m_nextServerSeqByUser[...]\<close> and the new message.\<close>

definition next_message :: "CreateMessageRequest \<Rightarrow> 'h MySqlMessageStore \<Rightarrow> StoredMessage \<times> 'h MySqlMessageStore" where
  "next_message request s =
     (let to = cr_toUserId request;
          serverSeq = opt_default 0 (my_nextServerSeqByUser s to) + 1 in
      (\<lparr>sm_notify =
          \<lparr>n_msgId = my_nextMsgId s, n_serverSeq = serverSeq, n_fromUserId = cr_fromUserId request,
           n_toUserId = to, n_clientMsgId = cr_clientMsgId request, n_content = cr_content request,
           n_timestamp = cr_timestamp request\<rparr>,
        sm_status = DeliveryPersisted, sm_receiverId = to, sm_createdAt = cr_timestamp request,
        sm_lastDeliverAt = 0, sm_ackedAt = 0, sm_retryCount = 0\<rparr>,
       s\<lparr>my_nextMsgId := my_nextMsgId s + 1,
         my_nextServerSeqByUser := (my_nextServerSeqByUser s)(to \<mapsto> serverSeq)\<rparr>))"

definition insert_both ::
    "('h, 'w) mysql_lib \<Rightarrow> StoredMessage \<Rightarrow> ('h, 'w) store_world \<Rightarrow>
     (bool \<times> string \<times> ('h, 'w) store_world) option" where
  "insert_both lib m sw = do {
     (ok, e, sw) \<leftarrow> executeInsertMessage lib m sw;
     if \<not> ok then Some (False, e, sw) else executeInsertDelivery lib m sw
   }"

definition saveMessageAndDelivery ::
    "('h, 'w) mysql_lib \<Rightarrow> CreateMessageRequest \<Rightarrow> ('h, 'w) store_world \<Rightarrow>
     ((string + StoredMessage \<times> bool) \<times> ('h, 'w) store_world) option" where
  "saveMessageAndDelivery lib request sw = do {
     (existing, e, sw) \<leftarrow> findDuplicateMessage lib request sw;
     case existing of
       Some m \<Rightarrow> Some (Inr (m, True), sw)
     | None \<Rightarrow>
         if e \<noteq> [] then Some (Inl e, sw)
         else do {
           (r, sw) \<leftarrow> ensureServerSeqCursor lib (cr_toUserId request) sw;
           case r of
             Inl e \<Rightarrow> Some (Inl e, sw)
           | Inr _ \<Rightarrow>
               let (message, s) = next_message request (fst sw);
                   (ok, sw) = with_client (begin_tx lib) (s, snd sw) in
               if \<not> ok then Some (Inl (last_error sw), sw)
               else do {
                 (ok, e, sw) \<leftarrow> insert_both lib message sw;
                 if \<not> ok then Some (Inl e, snd (with_client (rollback lib) sw))
                 else let (ok, sw) = with_client (commit lib) sw in
                   if \<not> ok then Some (Inl (last_error sw), snd (with_client (rollback lib) sw))
                   else Some (Inr (message, False), sw)
               }
         }
   }"

definition markDeliveryAttempt ::
    "('h, 'w) mysql_lib \<Rightarrow> ms \<Rightarrow> string \<Rightarrow> u64 \<Rightarrow> DeliveryStatus \<Rightarrow> ms \<Rightarrow> u32 \<Rightarrow> ('h, 'w) store_world \<Rightarrow>
     ((string + unit) \<times> ('h, 'w) store_world) option" where
  "markDeliveryAttempt lib now receiverId msgId status deliverAt retryCount sw = do {
     (ok, e, sw) \<leftarrow> with_write
       (updateDeliveryStatus lib now msgId receiverId (delivery_value status) retryCount deliverAt 0) sw;
     Some (if ok then Inr () else Inl e, sw)
   }"

definition getLastAckedSeq ::
    "('h, 'w) mysql_lib \<Rightarrow> string \<Rightarrow> ('h, 'w) store_world \<Rightarrow> (u64 \<times> ('h, 'w) store_world) option" where
  "getLastAckedSeq lib receiverId sw =
     (case my_lastAckedSeqCache (fst sw) receiverId of
        Some n \<Rightarrow> Some (n, sw)
      | None \<Rightarrow> do {
          (n, e, s, w) \<leftarrow>
            (if my_repositories (fst sw) then with_read (Repositories.getLastAckedSeq lib receiverId) sw
             else Some (0, [], sw));
          Some (if e \<noteq> [] then (0, s, w)
            else (n, s\<lparr>my_lastAckedSeqCache := (my_lastAckedSeqCache s)(receiverId \<mapsto> n)\<rparr>, w))
        })"

text \<open>The early returns of \<open>markAcked\<close>, which report the number known so far.\<close>

definition ack_refused ::
    "('h, 'w) mysql_lib \<Rightarrow> string \<Rightarrow> string \<Rightarrow> ('h, 'w) store_world \<Rightarrow>
     ((string + unit) \<times> u64 \<times> ('h, 'w) store_world) option" where
  "ack_refused lib receiverId e sw = do {
     (n, sw) \<leftarrow> getLastAckedSeq lib receiverId sw;
     Some (Inl e, n, sw)
   }"

definition ack_both ::
    "('h, 'w) mysql_lib \<Rightarrow> ms \<Rightarrow> DeliveryRecord \<Rightarrow> string \<Rightarrow> u64 \<Rightarrow> u64 \<Rightarrow> u32 \<Rightarrow> ms \<Rightarrow> ('h, 'w) store_world \<Rightarrow>
     (bool \<times> string \<times> ('h, 'w) store_world) option" where
  "ack_both lib now d receiverId msgId serverSeq ackCode ackedAt sw = do {
     let ackStatus = (if ackCode = AckRead then DeliveryRead else DeliveryDelivered);
     (ok, e, sw) \<leftarrow> with_write (updateDeliveryStatus lib now msgId receiverId (delivery_value ackStatus)
       (dr_retryCount d) (dr_deliveredAtMs d) ackedAt) sw;
     if \<not> ok then Some (False, e, sw)
     else with_write (appendAckLog lib msgId receiverId serverSeq ackCode ackedAt) sw
   }"

definition markAcked ::
    "('h, 'w) mysql_lib \<Rightarrow> ms \<Rightarrow> string \<Rightarrow> u64 \<Rightarrow> u64 \<Rightarrow> u32 \<Rightarrow> ms \<Rightarrow> ('h, 'w) store_world \<Rightarrow>
     ((string + unit) \<times> u64 \<times> ('h, 'w) store_world) option" where
  "markAcked lib now receiverId msgId serverSeq ackCode ackedAt sw = do {
     (delivery, e, sw) \<leftarrow> with_read (findByMessageAndReceiver lib msgId receiverId) sw;
     case delivery of
       None \<Rightarrow> ack_refused lib receiverId (if e = [] then ''message not found'' else e) sw
     | Some d \<Rightarrow>
         if dr_serverSeq d \<noteq> serverSeq then ack_refused lib receiverId ''server_seq mismatch'' sw
         else
           let (ok, sw) = with_client (begin_tx lib) sw in
           if \<not> ok then ack_refused lib receiverId (last_error sw) sw
           else do {
             (ok, e, sw) \<leftarrow> ack_both lib now d receiverId msgId serverSeq ackCode ackedAt sw;
             if \<not> ok then ack_refused lib receiverId e (snd (with_client (rollback lib) sw))
             else
               let (ok, sw) = with_client (commit lib) sw in
               if \<not> ok then ack_refused lib receiverId (last_error sw) (snd (with_client (rollback lib) sw))
               else
                 let (s, w) = sw; last = max (opt_default 0 (my_lastAckedSeqCache s receiverId)) serverSeq in
                 Some (Inr (), last, s\<lparr>my_lastAckedSeqCache := (my_lastAckedSeqCache s)(receiverId \<mapsto> last)\<rparr>, w)
           }
   }"

text \<open>The loop over the deliveries; \<open>Inl\<close> is the early return with an error.\<close>

primrec fetch_loop ::
    "('h, 'w) mysql_lib \<Rightarrow> DeliveryRecord list \<Rightarrow> StoredMessage list \<Rightarrow> u64 \<Rightarrow> ('h, 'w) store_world \<Rightarrow>
     ((string + StoredMessage list \<times> u64) \<times> ('h, 'w) store_world) option" where
  "fetch_loop lib [] result nextBeginSeq sw = Some (Inr (result, nextBeginSeq), sw)"
| "fetch_loop lib (d # ds) result nextBeginSeq sw = do {
     (message, e, sw) \<leftarrow> with_read (findByMessageId lib (dr_messageId d)) sw;
     case message of
       None \<Rightarrow> if e \<noteq> [] then Some (Inl e, sw) else fetch_loop lib ds result nextBeginSeq sw
     | Some m \<Rightarrow> do {
         item \<leftarrow> stored_message m d;
         fetch_loop lib ds (result @ [item]) (max nextBeginSeq (dr_serverSeq d)) sw }
   }"

definition loadPendingMessages ::
    "('h, 'w) mysql_lib \<Rightarrow> string \<Rightarrow> u64 \<Rightarrow> u64 \<Rightarrow> ('h, 'w) store_world \<Rightarrow>
     ((StoredMessage list \<times> u64 \<times> string) \<times> ('h, 'w) store_world) option" where
  "loadPendingMessages lib receiverId afterServerSeq limit sw = do {
     (deliveries, e, sw) \<leftarrow> with_read (listPendingByReceiver lib receiverId afterServerSeq limit) sw;
     if e \<noteq> [] then Some (([], afterServerSeq, e), sw)
     else do {
       (r, sw) \<leftarrow> fetch_loop lib deliveries [] afterServerSeq sw;
       Some (case r of
           Inl e \<Rightarrow> (([], afterServerSeq, e), sw)
         | Inr (result, nx) \<Rightarrow> ((result, if result \<noteq> [] then nx + 1 else nx, []), sw))
     }
   }"

end
