(* ===== verification/Database.thy ===== *)
theory Database
  imports Repositories
begin

text \<open>
  The database as the message store uses it: the tables of \<open>sql/001_m2_reliable_message.sql\<close> that hold
  messages, deliveries and acknowledgements, with their keys; what the statements of the repositories do
  to them; and the laws that a MySQL server behind the client library is expected to satisfy, as the
  locale \<open>mysql_database\<close>. A statement is recognised by its text around the literals and by the values of
  the literals. Every statement may fail with an error text (a lost connection, a value too long), without
  effect or with the loss of the open transaction; a \<open>COMMIT\<close> that fails may have taken effect, and a
  \<open>ROLLBACK\<close> fails only with its connection, whose transaction the server then rolls back. The store is
  the only writer of the tables. Ids are compared by the collation of their columns, the function
  \<open>collate\<close> (the schema sets a case-insensitive one).
\<close>

section \<open>Tables\<close>

type_synonym AckRow = "u64 \<times> string \<times> u64 \<times> u32 \<times> int"

record tables =
  tb_messages :: "MessageRecord list"
  tb_deliveries :: "DeliveryRecord list"
  tb_acks :: "AckRow list"

record database =
  db_now :: tables
  db_saved :: tables
  db_open :: bool

definition has_message :: "u64 \<Rightarrow> tables \<Rightarrow> bool" where
  "has_message i t \<longleftrightarrow> list_ex (\<lambda>m. mg_messageId m = i) (tb_messages t)"

definition update_row :: "u8 \<Rightarrow> u32 \<Rightarrow> int \<Rightarrow> int \<Rightarrow> int \<Rightarrow> DeliveryRecord \<Rightarrow> DeliveryRecord" where
  "update_row status retry delivered acked now d =
     d\<lparr>dr_status := status, dr_retryCount := retry, dr_deliveredAtMs := delivered, dr_ackedAtMs := acked, dr_updatedAtMs := now\<rparr>"

text \<open>The writing statements; \<open>None\<close> is a violated key.\<close>

fun apply_write :: "(string \<Rightarrow> string) \<Rightarrow> statement \<Rightarrow> tables \<Rightarrow> tables option" where
  "apply_write collate (CreateMessage r) t =
     (if list_ex (\<lambda>m. mg_messageId m = mg_messageId r \<or>
           collate (mg_fromUserId m) = collate (mg_fromUserId r) \<and> collate (mg_clientMsgId m) = collate (mg_clientMsgId r))
         (tb_messages t)
      then None else Some (t\<lparr>tb_messages := tb_messages t @ [r]\<rparr>))"
| "apply_write collate (CreateDelivery r) t =
     (if list_ex (\<lambda>d. collate (dr_receiverUserId d) = collate (dr_receiverUserId r) \<and>
           (dr_serverSeq d = dr_serverSeq r \<or> dr_messageId d = dr_messageId r)) (tb_deliveries t) \<or>
         \<not> has_message (dr_messageId r) t
      then None else Some (t\<lparr>tb_deliveries := tb_deliveries t @ [r]\<rparr>))"
| "apply_write collate (UpdateDelivery i receiver status retry delivered acked now) t =
     Some (t\<lparr>tb_deliveries := map (\<lambda>d. if dr_messageId d = i \<and> collate (dr_receiverUserId d) = collate receiver
         then update_row status retry delivered acked now d else d) (tb_deliveries t)\<rparr>)"
| "apply_write collate (AppendAckLog i receiver sq code acked) t =
     (if \<not> has_message i t then None else Some (t\<lparr>tb_acks := tb_acks t @ [(i, receiver, sq, code, acked)]\<rparr>))"
| "apply_write collate st t = None"

definition message_result :: "MessageRecord list \<Rightarrow> MYSQL_RES" where
  "message_result rs =
     \<lparr>res_fields = map Some [''id'', ''client_msg_id'', ''from_user_id'', ''to_user_id'', ''conversation_id'',
        ''payload_format'', ''content'', ''message_type'', ''status'', ''created_at_ms'', ''updated_at_ms''],
      res_rows = map (\<lambda>r. map Some [num64 (mg_messageId r), mg_clientMsgId r, mg_fromUserId r, mg_toUserId r,
        mg_conversationId r, num32 (mg_payloadFormat r), mg_content r, mg_messageType r, num8 (mg_status r),
        show_int (mg_createdAtMs r), show_int (mg_updatedAtMs r)]) rs\<rparr>"

definition delivery_result :: "DeliveryRecord list \<Rightarrow> MYSQL_RES" where
  "delivery_result rs =
     \<lparr>res_fields = map Some [''message_id'', ''receiver_user_id'', ''server_seq'', ''status'', ''retry_count'',
        ''last_error'', ''delivered_at_ms'', ''acked_at_ms'', ''created_at_ms'', ''updated_at_ms''],
      res_rows = map (\<lambda>r. map Some [num64 (dr_messageId r), dr_receiverUserId r, num64 (dr_serverSeq r),
        num8 (dr_status r), num32 (dr_retryCount r), dr_lastError r, show_int (dr_deliveredAtMs r),
        show_int (dr_ackedAtMs r), show_int (dr_createdAtMs r), show_int (dr_updatedAtMs r)]) rs\<rparr>"

definition number_result :: "string \<Rightarrow> u64 list \<Rightarrow> MYSQL_RES" where
  "number_result column ns = \<lparr>res_fields = [Some column], res_rows = [[Some (num64 (fold max ns 0))]]\<rparr>"

definition of_receiver :: "(string \<Rightarrow> string) \<Rightarrow> string \<Rightarrow> tables \<Rightarrow> DeliveryRecord list" where
  "of_receiver collate u t = filter (\<lambda>d. collate (dr_receiverUserId d) = collate u) (tb_deliveries t)"

definition pending_rows :: "(string \<Rightarrow> string) \<Rightarrow> string \<Rightarrow> u64 \<Rightarrow> u64 \<Rightarrow> tables \<Rightarrow> DeliveryRecord list" where
  "pending_rows collate u a limit t =
     take (unat limit) (sort_key dr_serverSeq
       (filter (\<lambda>d. a < dr_serverSeq d \<and> (dr_status d = 1 \<or> dr_status d = 2)) (of_receiver collate u t)))"

fun select_rows :: "(string \<Rightarrow> string) \<Rightarrow> statement \<Rightarrow> tables \<Rightarrow> MYSQL_RES" where
  "select_rows collate (FindMessage i) t = message_result (take 1 (filter (\<lambda>m. mg_messageId m = i) (tb_messages t)))"
| "select_rows collate (FindBySenderClient sender client) t =
     message_result (take 1 (filter (\<lambda>m. collate (mg_fromUserId m) = collate sender \<and>
       collate (mg_clientMsgId m) = collate client) (tb_messages t)))"
| "select_rows collate MaxMessageId t = number_result ''max_id'' (map mg_messageId (tb_messages t))"
| "select_rows collate (FindDelivery i receiver) t =
     delivery_result (take 1 (filter (\<lambda>d. dr_messageId d = i) (of_receiver collate receiver t)))"
| "select_rows collate (ListPending receiver a limit) t = delivery_result (pending_rows collate receiver a limit t)"
| "select_rows collate (MaxServerSeq receiver) t =
     number_result ''max_server_seq'' (map dr_serverSeq (of_receiver collate receiver t))"
| "select_rows collate (LastAckedSeq receiver) t =
     number_result ''last_acked_seq'' (map dr_serverSeq
       (filter (\<lambda>d. dr_status d = 3 \<or> dr_status d = 5) (of_receiver collate receiver t)))"
| "select_rows collate st t = \<lparr>res_fields = [], res_rows = []\<rparr>"

fun is_write :: "statement \<Rightarrow> bool" where
  "is_write (CreateMessage r) = True"
| "is_write (CreateDelivery r) = True"
| "is_write (UpdateDelivery _ _ _ _ _ _ _) = True"
| "is_write (AppendAckLog _ _ _ _ _) = True"
| "is_write st = False"

fun is_read :: "statement \<Rightarrow> bool" where
  "is_read (FindMessage _) = True"
| "is_read (FindBySenderClient _ _) = True"
| "is_read MaxMessageId = True"
| "is_read (FindDelivery _ _) = True"
| "is_read (ListPending _ _ _) = True"
| "is_read (MaxServerSeq _) = True"
| "is_read (LastAckedSeq _) = True"
| "is_read st = False"

text \<open>Rows as the client hands them over, and read back as records.\<close>

definition rows_of :: "MYSQL_RES \<Rightarrow> Row list" where
  "rows_of res = map (fetch_row (res_fields res)) (res_rows res)"

definition in64 :: "int \<Rightarrow> bool" where
  "in64 i \<longleftrightarrow> - (2 ^ 63) \<le> i \<and> i < 2 ^ 63"

definition message_fits :: "MessageRecord \<Rightarrow> bool" where
  "message_fits r \<longleftrightarrow> in64 (mg_createdAtMs r) \<and> in64 (mg_updatedAtMs r)"

definition delivery_fits :: "DeliveryRecord \<Rightarrow> bool" where
  "delivery_fits d \<longleftrightarrow>
     in64 (dr_deliveredAtMs d) \<and> in64 (dr_ackedAtMs d) \<and> in64 (dr_createdAtMs d) \<and> in64 (dr_updatedAtMs d)"

definition message_view :: "MessageRecord \<Rightarrow> Row" where
  "message_view r = hd (rows_of (message_result [r]))"

definition delivery_view :: "DeliveryRecord \<Rightarrow> Row" where
  "delivery_view r = hd (rows_of (delivery_result [r]))"

lemma rows_of_results:
  "rows_of (message_result rs) = map message_view rs" "rows_of (delivery_result ds) = map delivery_view ds"
  by (simp_all add: rows_of_def message_view_def delivery_view_def message_result_def delivery_result_def)

lemma stoull_num [simp]: "stoull (num64 n) = Some n" "stoull (num32 k) = Some (ucast k)" "stoull (num8 b) = Some (ucast b)"
proof -
  show "stoull (num64 n) = Some n" by simp
  have "unat k < 2 ^ 64" "unat b < 2 ^ 64"
    using unsigned_less [of k, where ?'a = nat] unsigned_less [of b, where ?'a = nat] by simp_all
  then have "num32 k = num64 (ucast k)" "num8 b = num64 (ucast b)" by (simp_all add: unsigned_ucast_eq take_bit_eq_mod)
  then show "stoull (num32 k) = Some (ucast k)" "stoull (num8 b) = Some (ucast b)" by (simp_all only: stoull_dec)
qed

lemma ucast_back [simp]: "ucast (ucast k :: u64) = (k :: u32)" "ucast (ucast b :: u64) = (b :: u8)"
  by (transfer, simp add: take_bit_take_bit)+

lemma stoll_show [simp]: "in64 i \<Longrightarrow> stoll (show_int i) = Some i"
  by (simp add: in64_def)

lemma message_view_build: "message_fits r \<Longrightarrow> BuildMessageRecord (message_view r) = Some r"
  by (simp add: message_view_def rows_of_def message_result_def fetch_row_def BuildMessageRecord_def ToUint64_def message_fits_def)

lemma delivery_view_build: "delivery_fits d \<Longrightarrow> BuildDeliveryRecord (delivery_view d) = Some d"
  by (simp add: delivery_view_def rows_of_def delivery_result_def fetch_row_def BuildDeliveryRecord_def ToUint64_def
      ToInt64_def delivery_fits_def)

lemma build_all_views: "list_all delivery_fits ds \<Longrightarrow> build_all (map delivery_view ds) = Some ds"
  by (induction ds) (simp_all add: delivery_view_build)

lemma number_view: "rows_of (number_result column ns) = [[column \<mapsto> num64 (fold max ns 0)]]"
  by (simp add: rows_of_def number_result_def fetch_row_def)

section \<open>The laws\<close>

definition reads_statement :: "string \<Rightarrow> statement \<Rightarrow> bool" where
  "reads_statement sql st \<longleftrightarrow> sql_scan sql = Some (skeleton (statement_parts (blank st)), statement_values st)"

definition write_now :: "tables \<Rightarrow> database \<Rightarrow> database" where
  "write_now t d = (if db_open d then d\<lparr>db_now := t\<rparr> else d\<lparr>db_now := t, db_saved := t\<rparr>)"

definition begun :: "database \<Rightarrow> database" where
  "begun d = d\<lparr>db_saved := db_now d, db_open := True\<rparr>"

definition committed :: "database \<Rightarrow> database" where
  "committed d = d\<lparr>db_saved := db_now d, db_open := False\<rparr>"

definition rolled_back :: "database \<Rightarrow> database" where
  "rolled_back d = d\<lparr>db_now := db_saved d, db_open := False\<rparr>"

text \<open>A step that fails leaves an error text and the database as it was, or without its open transaction.\<close>

definition fails :: "('h, 'w) mysql_lib \<Rightarrow> 'h \<Rightarrow> 'w \<Rightarrow> database \<Rightarrow> database \<Rightarrow> bool" where
  "fails lib h w d d' \<longleftrightarrow> ml_error lib h w \<noteq> [] \<and> (d' = d \<or> d' = rolled_back d)"

definition write_law :: "('h, 'w) mysql_lib \<Rightarrow> (string \<Rightarrow> string) \<Rightarrow> ('w \<Rightarrow> database) \<Rightarrow> bool" where
  "write_law lib collate db \<longleftrightarrow>
     (\<forall>h sql st w ok w'. is_write st \<and> reads_statement sql st \<and> ml_query lib h sql w = (ok, w') \<longrightarrow>
        (if ok then \<exists>t. apply_write collate st (db_now (db w)) = Some t \<and> db w' = write_now t (db w)
         else fails lib h w' (db w) (db w')))"

definition read_law :: "('h, 'w) mysql_lib \<Rightarrow> (string \<Rightarrow> string) \<Rightarrow> ('w \<Rightarrow> database) \<Rightarrow> bool" where
  "read_law lib collate db \<longleftrightarrow>
     (\<forall>h sql st w ok w'. is_read st \<and> reads_statement sql st \<and> ml_query lib h sql w = (ok, w') \<longrightarrow>
        (if ok
         then db w' = db w \<and>
           (\<forall>res w''. ml_store_result lib h w' = (res, w'') \<longrightarrow>
              (case res of
                 Some r \<Rightarrow> r = select_rows collate st (db_now (db w)) \<and> db w'' = db w
               | None \<Rightarrow> ml_field_count lib h w'' \<noteq> 0 \<and> fails lib h w'' (db w) (db w'')))
         else fails lib h w' (db w) (db w')))"

definition transaction_law :: "('h, 'w) mysql_lib \<Rightarrow> ('w \<Rightarrow> database) \<Rightarrow> bool" where
  "transaction_law lib db \<longleftrightarrow>
     (\<forall>h w ok w'. ml_query lib h ''BEGIN'' w = (ok, w') \<longrightarrow>
        (if ok then db w' = begun (db w) else fails lib h w' (db w) (db w'))) \<and>
     (\<forall>h w ok w'. ml_query lib h ''COMMIT'' w = (ok, w') \<longrightarrow>
        (if ok then db w' = committed (db w)
         else fails lib h w' (db w) (db w') \<or> ml_error lib h w' \<noteq> [] \<and> db w' = committed (db w))) \<and>
     (\<forall>h w ok w'. ml_query lib h ''ROLLBACK'' w = (ok, w') \<longrightarrow>
        db w' = rolled_back (db w))"

locale mysql_database =
  fixes lib :: "('h, 'w) mysql_lib"
    and collate :: "string \<Rightarrow> string"
    and db :: "'w \<Rightarrow> database"
  assumes escapes: "escape_law lib"
    and writes: "write_law lib collate db"
    and reads: "read_law lib collate db"
    and transactions: "transaction_law lib db"
begin

lemma write_statement:
  assumes "mc_impl c = Some h" "is_write st" "execute_statement lib st (c, w) = (ok, e, c', w')"
  shows "mc_impl c' = Some h \<and>
    (if ok then e = [] \<and> (\<exists>t. apply_write collate st (db_now (db w)) = Some t \<and> db w' = write_now t (db w))
     else e \<noteq> [] \<and> (db w' = db w \<or> db w' = rolled_back (db w)))"
proof -
  from statement_sent [OF escapes assms(1), of st w] obtain sql where sql: "reads_statement sql st"
    and x: "execute_statement lib st (c, w) =
      (case ml_query lib h sql w of
         (True, w') \<Rightarrow> (True, [], c\<lparr>mc_lastError := []\<rparr>, w')
       | (False, w') \<Rightarrow> (False, ml_error lib h w', c\<lparr>mc_lastError := ml_error lib h w'\<rparr>, w'))"
    by (auto simp: reads_statement_def)
  obtain ok' v where q: "ml_query lib h sql w = (ok', v)" by (cases "ml_query lib h sql w")
  from writes assms(2) sql q
  have "if ok' then \<exists>t. apply_write collate st (db_now (db w)) = Some t \<and> db v = write_now t (db w)
      else fails lib h v (db w) (db v)"
    unfolding write_law_def by blast
  with x q assms(1,3) show ?thesis by (cases ok') (auto simp: fails_def)
qed

lemma read_statement:
  assumes "mc_impl c = Some h" "is_read st" "query_statement lib st (c, w) = (ok, rows, e, c', w')"
  shows "mc_impl c' = Some h \<and>
    (if ok then e = [] \<and> rows = rows_of (select_rows collate st (db_now (db w))) \<and> db w' = db w
     else e \<noteq> [] \<and> (db w' = db w \<or> db w' = rolled_back (db w)))"
proof -
  from statement_sent [OF escapes assms(1), of st w] obtain sql where sql: "reads_statement sql st" "c_str sql = sql"
    and x: "query_statement lib st (c, w) =
      (case query lib sql (c, w) of
         (ok, rows, c', w') \<Rightarrow> if ok then (True, rows, [], c', w') else (False, [], mc_lastError c', c', w'))"
    by (auto simp: reads_statement_def)
  obtain ok' v where q: "ml_query lib h sql w = (ok', v)" by (cases "ml_query lib h sql w")
  obtain res v' where r: "ml_store_result lib h v = (res, v')" by (cases "ml_store_result lib h v")
  from reads assms(2) sql(1) q
  have "if ok' then db v = db w \<and>
      (\<forall>res w''. ml_store_result lib h v = (res, w'') \<longrightarrow>
         (case res of
            Some r \<Rightarrow> r = select_rows collate st (db_now (db w)) \<and> db w'' = db w
          | None \<Rightarrow> ml_field_count lib h w'' \<noteq> 0 \<and> fails lib h w'' (db w) (db w'')))
      else fails lib h v (db w) (db v)"
    unfolding read_law_def by blast
  with x q r sql(2) assms(1,3) show ?thesis
    by (cases ok'; cases res) (auto simp: query_def setLastError_def fails_def rows_of_def)
qed

lemma first_record_read:
  assumes "mc_impl c = Some h" "is_read st" "rows_of (select_rows collate st (db_now (db w))) = map view rs"
    and "\<And>r. r \<in> set rs \<Longrightarrow> build (view r) = Some r" "rolled_back (db w) = db w"
  shows "\<exists>r e c' w'. first_record lib build st (c, w) = Some (r, e, c', w') \<and> mc_impl c' = Some h \<and> db w' = db w \<and>
    (e = [] \<and> r = (case rs of [] \<Rightarrow> None | x # _ \<Rightarrow> Some x) \<or> e \<noteq> [] \<and> r = None)"
proof -
  obtain ok rows e c' w' where q: "query_statement lib st (c, w) = (ok, rows, e, c', w')" by (metis prod_cases5)
  from read_statement [OF assms(1,2) q] q assms(3-) show ?thesis
    by (cases ok; cases rs) (auto simp: first_record_def)
qed

lemma first_number_read:
  assumes "mc_impl c = Some h" "is_read st" "select_rows collate st (db_now (db w)) = number_result column ns"
    and "rolled_back (db w) = db w"
  shows "\<exists>n e c' w'. first_number lib column st (c, w) = Some (n, e, c', w') \<and> mc_impl c' = Some h \<and> db w' = db w \<and>
    (e = [] \<and> n = fold max ns 0 \<or> e \<noteq> [] \<and> n = 0)"
proof -
  obtain ok rows e c' w' where q: "query_statement lib st (c, w) = (ok, rows, e, c', w')" by (metis prod_cases5)
  from read_statement [OF assms(1,2) q] q assms(3-) show ?thesis
    by (cases ok) (auto simp: first_number_def number_view ToUint64_def)
qed

lemma listPending_read:
  assumes "mc_impl c = Some h" "list_all delivery_fits (pending_rows collate u a limit (db_now (db w)))"
    and "rolled_back (db w) = db w"
  shows "\<exists>ds e c' w'. listPendingByReceiver lib u a limit (c, w) = Some (ds, e, c', w') \<and> mc_impl c' = Some h \<and> db w' = db w \<and>
    (e = [] \<and> ds = pending_rows collate u a limit (db_now (db w)) \<or> e \<noteq> [] \<and> ds = [])"
proof -
  obtain ok rows e c' w' where q: "query_statement lib (ListPending u a limit) (c, w) = (ok, rows, e, c', w')"
    by (metis prod_cases5)
  from read_statement [OF assms(1) _ q] q assms(2,3) show ?thesis
    by (cases ok) (auto simp: listPendingByReceiver_def rows_of_results build_all_views)
qed

lemma transaction_step:
  assumes "mc_impl c = Some h" "sql \<in> {''BEGIN'', ''COMMIT'', ''ROLLBACK''}" "execute lib sql (c, w) = (ok, c', w')"
  shows "mc_impl c' = Some h \<and> ml_query lib h sql w = (ok, w') \<and> (\<not> ok \<longrightarrow> mc_lastError c' = ml_error lib h w')"
proof -
  have "c_str sql = sql" using assms(2) by (auto simp: c_str_def)
  then show ?thesis
    using assms(1,3) by (auto simp: execute_def setLastError_def split: prod.splits if_splits)
qed

end

end
