(* ===== verification/SqlEngine.thy ===== *)
theory SqlEngine
  imports Database
begin

text \<open>
  A small engine behind the client library's interface: it reads a statement back from its text (the
  fixed text without its numbers tells which statement it is, the runs of digits are its numbers and the
  literals its texts), executes it on the tables and keeps the result for \<open>mysql_store_result\<close>. It satisfies
  the laws of \<open>mysql_database\<close>, for every collation.
\<close>

section \<open>Reading a statement back\<close>

definition num_char :: "char \<Rightarrow> bool" where
  "num_char c \<longleftrightarrow> c \<in> set ''0123456789-''"

primrec fixed_text :: "string \<Rightarrow> string" where
  "fixed_text [] = []"
| "fixed_text (c # s) = (if num_char c then fixed_text s else c # fixed_text s)"

primrec number_runs :: "string \<Rightarrow> string \<Rightarrow> string list" where
  "number_runs cur [] = (if cur = [] then [] else [cur])"
| "number_runs cur (c # s) =
     (if num_char c then number_runs (cur @ [c]) s else (if cur = [] then [] else [cur]) @ number_runs [] s)"

definition read_int :: "string \<Rightarrow> int" where
  "read_int s = (case s of [] \<Rightarrow> 0 | c # r \<Rightarrow> if c = CHR ''-'' then - int (digits_value_of r) else int (digits_value_of s))"

abbreviation read_word :: "string \<Rightarrow> 'a::len word" where
  "read_word s \<equiv> word_of_int (read_int s)"

text \<open>The statements of the message store, with what their numbers and texts are.\<close>

definition readers :: "(statement \<times> (string list \<Rightarrow> string list \<Rightarrow> statement option)) list" where
  "readers =
     [(CreateMessage \<lparr>mg_messageId = 0, mg_clientMsgId = [], mg_fromUserId = [], mg_toUserId = [], mg_conversationId = [],
         mg_payloadFormat = 0, mg_content = [], mg_messageType = [], mg_status = 0, mg_createdAtMs = 0, mg_updatedAtMs = 0\<rparr>,
       \<lambda>ns vs. case (ns, vs) of
         ([i, f, st, c, u], [client, from, to, conv, content, ty]) \<Rightarrow>
           Some (CreateMessage \<lparr>mg_messageId = read_word i, mg_clientMsgId = client, mg_fromUserId = from, mg_toUserId = to,
             mg_conversationId = conv, mg_payloadFormat = read_word f, mg_content = content, mg_messageType = ty,
             mg_status = read_word st, mg_createdAtMs = read_int c, mg_updatedAtMs = read_int u\<rparr>)
       | _ \<Rightarrow> None),
      (FindMessage 0, \<lambda>ns vs. case (ns, vs) of ([i, one], []) \<Rightarrow> Some (FindMessage (read_word i)) | _ \<Rightarrow> None),
      (FindBySenderClient [] [], \<lambda>ns vs. case vs of [sender, client] \<Rightarrow> Some (FindBySenderClient sender client) | _ \<Rightarrow> None),
      (MaxMessageId, \<lambda>ns vs. Some MaxMessageId),
      (CreateDelivery \<lparr>dr_messageId = 0, dr_receiverUserId = [], dr_serverSeq = 0, dr_status = 0, dr_retryCount = 0,
         dr_lastError = [], dr_deliveredAtMs = 0, dr_ackedAtMs = 0, dr_createdAtMs = 0, dr_updatedAtMs = 0\<rparr>,
       \<lambda>ns vs. case (ns, vs) of
         ([i, q, st, rc, dl, ak, c, u], [receiver, err]) \<Rightarrow>
           Some (CreateDelivery \<lparr>dr_messageId = read_word i, dr_receiverUserId = receiver, dr_serverSeq = read_word q,
             dr_status = read_word st, dr_retryCount = read_word rc, dr_lastError = err, dr_deliveredAtMs = read_int dl,
             dr_ackedAtMs = read_int ak, dr_createdAtMs = read_int c, dr_updatedAtMs = read_int u\<rparr>)
       | _ \<Rightarrow> None),
      (UpdateDelivery 0 [] 0 0 0 0 0,
       \<lambda>ns vs. case (ns, vs) of
         ([st, rc, dl, ak, now, i], [receiver]) \<Rightarrow>
           Some (UpdateDelivery (read_word i) receiver (read_word st) (read_word rc) (read_int dl) (read_int ak) (read_int now))
       | _ \<Rightarrow> None),
      (FindDelivery 0 [],
       \<lambda>ns vs. case (ns, vs) of ([i, one], [receiver]) \<Rightarrow> Some (FindDelivery (read_word i) receiver) | _ \<Rightarrow> None),
      (ListPending [] 0 0,
       \<lambda>ns vs. case (ns, vs) of
         ([a, p, d, limit], [receiver]) \<Rightarrow> Some (ListPending receiver (read_word a) (read_word limit)) | _ \<Rightarrow> None),
      (MaxServerSeq [], \<lambda>ns vs. case vs of [receiver] \<Rightarrow> Some (MaxServerSeq receiver) | _ \<Rightarrow> None),
      (LastAckedSeq [], \<lambda>ns vs. case vs of [receiver] \<Rightarrow> Some (LastAckedSeq receiver) | _ \<Rightarrow> None),
      (AppendAckLog 0 [] 0 0 0,
       \<lambda>ns vs. case (ns, vs) of
         ([i, q, code, t], [receiver]) \<Rightarrow>
           Some (AppendAckLog (read_word i) receiver (read_word q) (read_word code) (read_int t)) | _ \<Rightarrow> None)]"

definition template :: "statement \<Rightarrow> string" where
  "template st = fixed_text (skeleton (statement_parts st))"

definition decode :: "string \<Rightarrow> string list \<Rightarrow> statement option" where
  "decode sk vs =
     (case map_of (map (\<lambda>(st, f). (template st, f)) readers) (fixed_text sk) of
        None \<Rightarrow> None
      | Some f \<Rightarrow> f (number_runs [] sk) vs)"

lemma fixed_text_append [simp]: "fixed_text (s @ t) = fixed_text s @ fixed_text t"
  by (induction s) simp_all

lemma digit_chars_list: "map digit_char [0..<10] = ''0123456789''"
  by code_simp

lemma dec_num_chars: "c \<in> set (dec n) \<Longrightarrow> num_char c"
proof -
  assume "c \<in> set (dec n)"
  then obtain e where "c = digit_char e" "e < 10" using digits_less [of 10 _ n] by (auto simp: dec_def)
  then have "c \<in> set (map digit_char [0..<10])" by simp
  then show "num_char c" unfolding digit_chars_list num_char_def by auto
qed

lemma show_int_num_chars: "c \<in> set (show_int i) \<Longrightarrow> num_char c"
  by (auto simp: show_int_def dec_num_chars split: if_splits) (simp add: num_char_def)

lemma fixed_text_numbers: "(\<And>c. c \<in> set s \<Longrightarrow> num_char c) \<Longrightarrow> fixed_text s = []"
  by (induction s) simp_all

lemma fixed_numbers [simp]: "fixed_text (dec n) = []" "fixed_text (show_int i) = []"
  by (simp_all add: fixed_text_numbers dec_num_chars show_int_num_chars)

lemma number_runs_text:
  "t \<noteq> [] \<Longrightarrow> list_all (\<lambda>c. \<not> num_char c) t \<Longrightarrow> number_runs cur (t @ s) = (if cur = [] then [] else [cur]) @ number_runs [] s"
proof (induction t arbitrary: cur)
  case (Cons c t)
  then show ?case by (cases "t = []") auto
qed simp

lemma number_runs_all: "(\<And>c. c \<in> set n \<Longrightarrow> num_char c) \<Longrightarrow> number_runs cur (n @ s) = number_runs (cur @ n) s"
  by (induction n arbitrary: cur) simp_all

lemma number_runs_numbers [simp]:
  "number_runs cur (dec n @ s) = number_runs (cur @ dec n) s"
  "number_runs cur (show_int i @ s) = number_runs (cur @ show_int i) s"
  by (simp_all add: number_runs_all dec_num_chars show_int_num_chars)

lemma read_int_dec [simp]: "read_int (dec n) = int n"
proof -
  obtain c r where d: "dec n = c # r" by (cases "dec n") auto
  then have "is_digit c" using dec_all_digits [of c n] by simp
  with digit_not_special [of c] digits_value_of_dec [of n] show ?thesis by (simp add: read_int_def d)
qed

lemma read_int_show [simp]: "read_int (show_int i) = i"
  by (auto simp: show_int_def) (simp add: read_int_def digits_value_of_dec)

lemma distinct_templates: "distinct (map fst (map (\<lambda>(st, f). (template st, f)) readers))"
  by code_simp

lemma decode_nth:
  assumes "k < length readers" "fixed_text (skeleton (statement_parts st)) = template (fst (readers ! k))"
    "snd (readers ! k) (number_runs [] (skeleton (statement_parts st))) (statement_values st) = Some st"
  shows "decode (skeleton (statement_parts st)) (statement_values st) = Some st"
proof -
  let ?rs = "map (\<lambda>(st, f). (template st, f)) readers"
  have "(template (fst (readers ! k)), snd (readers ! k)) \<in> set ?rs"
    using assms(1) nth_mem [of k readers] by (force simp: case_prod_beta)
  then have "map_of ?rs (template (fst (readers ! k))) = Some (snd (readers ! k))"
    by (rule map_of_is_SomeI [OF distinct_templates])
  with assms(2,3) show ?thesis by (simp add: decode_def)
qed

text \<open>The numbers of the statements, in the order of the text.\<close>

lemma statement_runs:
  "number_runs [] (skeleton (statement_parts (CreateMessage r))) =
     [num64 (mg_messageId r), num32 (mg_payloadFormat r), num8 (mg_status r), show_int (mg_createdAtMs r), show_int (mg_updatedAtMs r)]"
  "number_runs [] (skeleton (statement_parts (FindMessage i))) = [num64 i, ''1'']"
  "number_runs [] (skeleton (statement_parts (CreateDelivery d))) =
     [num64 (dr_messageId d), num64 (dr_serverSeq d), num8 (dr_status d), num32 (dr_retryCount d), show_int (dr_deliveredAtMs d),
      show_int (dr_ackedAtMs d), show_int (dr_createdAtMs d), show_int (dr_updatedAtMs d)]"
  "number_runs [] (skeleton (statement_parts (UpdateDelivery i u st rc dl ak now))) =
     [num8 st, num32 rc, show_int dl, show_int ak, show_int now, num64 i]"
  "number_runs [] (skeleton (statement_parts (FindDelivery i u))) = [num64 i, ''1'']"
  "number_runs [] (skeleton (statement_parts (ListPending u a limit))) = [num64 a, num8 1, num8 2, num64 limit]"
  "number_runs [] (skeleton (statement_parts (AppendAckLog i u q code t))) = [num64 i, num64 q, num32 code, show_int t]"
  by (simp_all add: num_char_def message_columns_def delivery_columns_def number_runs_numbers(1) [where s = "[]", simplified])

lemma statement_text:
  "template (CreateMessage r) = template (CreateMessage r')" "template (FindMessage i) = template (FindMessage i')"
  "template (FindBySenderClient x y) = template (FindBySenderClient x' y')"
  "template (CreateDelivery d) = template (CreateDelivery d')"
  "template (UpdateDelivery i u st rc dl ak now) = template (UpdateDelivery i' u' st' rc' dl' ak' now')"
  "template (FindDelivery i u) = template (FindDelivery i' u')"
  "template (ListPending u a limit) = template (ListPending u' a' limit')"
  "template (MaxServerSeq u) = template (MaxServerSeq u')" "template (LastAckedSeq u) = template (LastAckedSeq u')"
  "template (AppendAckLog i u q code t) = template (AppendAckLog i' u' q' code' t')"
  by (simp_all add: template_def num_char_def)

lemma read_words [simp]: "read_word (num64 n) = n" "read_word (num32 k) = k" "read_word (num8 b) = b"
  by simp_all

lemma decode_statement:
  assumes "is_write st \<or> is_read st"
  shows "decode (skeleton (statement_parts st)) (statement_values st) = Some st"
proof -
  have "fixed_text (skeleton (statement_parts st)) = template st" by (simp add: template_def)
  note decode = decode_nth [of _ st, unfolded this]
  show ?thesis
  proof (cases st)
    case (CreateMessage r)
    then show ?thesis by (intro decode [of 0]) (auto simp: readers_def statement_runs simp del: statement_parts.simps intro: statement_text)
  next
    case (FindMessage i)
    then show ?thesis by (intro decode [of 1]) (auto simp: readers_def statement_runs simp del: statement_parts.simps intro: statement_text)
  next
    case (FindBySenderClient x y)
    then show ?thesis by (intro decode [of 2]) (auto simp: readers_def statement_runs simp del: statement_parts.simps intro: statement_text)
  next
    case MaxMessageId
    then show ?thesis by (intro decode [of 3]) (auto simp: readers_def statement_runs simp del: statement_parts.simps intro: statement_text)
  next
    case (CreateDelivery d)
    then show ?thesis by (intro decode [of 4]) (auto simp: readers_def statement_runs simp del: statement_parts.simps intro: statement_text)
  next
    case (UpdateDelivery i u s rc dl ak now)
    then show ?thesis by (intro decode [of 5]) (auto simp: readers_def statement_runs simp del: statement_parts.simps intro: statement_text)
  next
    case (FindDelivery i u)
    then show ?thesis by (intro decode [of 6]) (auto simp: readers_def statement_runs simp del: statement_parts.simps intro: statement_text)
  next
    case (ListPending u a limit)
    then show ?thesis by (intro decode [of 7]) (auto simp: readers_def statement_runs simp del: statement_parts.simps intro: statement_text)
  next
    case (MaxServerSeq u)
    then show ?thesis by (intro decode [of 8]) (auto simp: readers_def statement_runs simp del: statement_parts.simps intro: statement_text)
  next
    case (LastAckedSeq u)
    then show ?thesis by (intro decode [of 9]) (auto simp: readers_def statement_runs simp del: statement_parts.simps intro: statement_text)
  next
    case (AppendAckLog i u q code t)
    then show ?thesis by (intro decode [of 10]) (auto simp: readers_def statement_runs simp del: statement_parts.simps intro: statement_text)
  qed (use assms in auto)
qed

section \<open>The engine\<close>

record engine =
  eng_db :: database
  eng_result :: "MYSQL_RES option"

definition engine_query :: "(string \<Rightarrow> string) \<Rightarrow> string \<Rightarrow> engine \<Rightarrow> bool \<times> engine" where
  "engine_query collate sql w =
     (case Option.bind (sql_scan sql) (\<lambda>(sk, vs). decode sk vs) of
        Some st \<Rightarrow>
          if is_write st
          then (case apply_write collate st (db_now (eng_db w)) of
              None \<Rightarrow> (False, w)
            | Some t \<Rightarrow> (True, w\<lparr>eng_db := write_now t (eng_db w)\<rparr>))
          else if is_read st then (True, w\<lparr>eng_result := Some (select_rows collate st (db_now (eng_db w)))\<rparr>)
          else (False, w)
      | None \<Rightarrow>
          if sql = ''BEGIN'' then (True, w\<lparr>eng_db := begun (eng_db w)\<rparr>)
          else if sql = ''COMMIT'' then (True, w\<lparr>eng_db := committed (eng_db w)\<rparr>)
          else if sql = ''ROLLBACK'' then (True, w\<lparr>eng_db := rolled_back (eng_db w)\<rparr>)
          else (False, w))"

definition engine_lib :: "(string \<Rightarrow> string) \<Rightarrow> (unit, engine) mysql_lib" where
  "engine_lib collate =
     \<lparr>ml_init = (\<lambda>w. (Some (), w)), ml_connect_timeout = (\<lambda>_ _ w. w), ml_real_connect = (\<lambda>_ _ _ _ _ _ w. (True, w)),
      ml_error = (\<lambda>_ _. ''statement failed''), ml_close = (\<lambda>_ w. w), ml_query = (\<lambda>_. engine_query collate),
      ml_store_result = (\<lambda>_ w. (eng_result w, w)), ml_field_count = (\<lambda>_ _. 1),
      ml_real_escape_string = (\<lambda>_ v _. full_escape v)\<rparr>"

lemma engine_reads:
  "reads_statement sql st \<Longrightarrow> is_write st \<or> is_read st \<Longrightarrow>
     Option.bind (sql_scan sql) (\<lambda>(sk, vs). decode sk vs) = Some st"
  by (simp add: reads_statement_def statement_skeleton_blank decode_statement)

lemma engine_transaction_text:
  "sql \<in> {''BEGIN'', ''COMMIT'', ''ROLLBACK''} \<Longrightarrow> Option.bind (sql_scan sql) (\<lambda>(sk, vs). decode sk vs) = None"
proof -
  have "sql_scan ''BEGIN'' = Some (''BEGIN'', [])" "sql_scan ''COMMIT'' = Some (''COMMIT'', [])"
    "sql_scan ''ROLLBACK'' = Some (''ROLLBACK'', [])" by code_simp+
  moreover have "decode ''BEGIN'' [] = None" "decode ''COMMIT'' [] = None" "decode ''ROLLBACK'' [] = None" by code_simp+
  ultimately show "sql \<in> {''BEGIN'', ''COMMIT'', ''ROLLBACK''} \<Longrightarrow> Option.bind (sql_scan sql) (\<lambda>(sk, vs). decode sk vs) = None"
    by auto
qed

lemma read_not_write: "is_read st \<Longrightarrow> \<not> is_write st"
  by (cases st) auto

lemma engine_write_law: "write_law (engine_lib collate) collate eng_db"
  unfolding write_law_def
proof (intro allI impI)
  fix h sql st w ok w'
  assume "is_write st \<and> reads_statement sql st \<and> ml_query (engine_lib collate) h sql w = (ok, w')"
  then show "if ok then \<exists>t. apply_write collate st (db_now (eng_db w)) = Some t \<and> eng_db w' = write_now t (eng_db w)
      else fails (engine_lib collate) h w' (eng_db w) (eng_db w')"
    by (cases "apply_write collate st (db_now (eng_db w))")
      (auto simp: engine_lib_def engine_query_def engine_reads fails_def)
qed

lemma engine_read_law: "read_law (engine_lib collate) collate eng_db"
  by (auto simp: read_law_def engine_lib_def engine_query_def engine_reads read_not_write)

lemma engine_transaction_law: "transaction_law (engine_lib collate) eng_db"
  by (auto simp: transaction_law_def engine_lib_def engine_query_def engine_transaction_text)

lemma engine_escape_law: "escape_law (engine_lib collate)"
  by (simp add: escape_law_def engine_lib_def full_escape_reads)

interpretation engine: mysql_database "engine_lib collate" collate eng_db for collate
  by unfold_locales (rule engine_escape_law engine_write_law engine_read_law engine_transaction_law)+

end
