(* ===== verification/MySqlRefinement.thy ===== *)
theory MySqlRefinement
  imports MySqlMessageStore SqlEngine StoreSpec
begin

text \<open>
  The message store over MySQL implements the same specification as the in-memory store: under the laws
  of the database every operation returns, whatever statement fails, and does to the table of messages,
  the join of the message and the delivery rows, what its answer allows. The caches of the store do not
  matter for this: the keys of the tables are what keeps ids and sequence numbers apart.
\<close>

section \<open>The table in the database\<close>

definition table_of :: "tables \<Rightarrow> msg_table" where
  "table_of t i = do {
     m \<leftarrow> find (\<lambda>m. mg_messageId m = i) (tb_messages t);
     d \<leftarrow> find (\<lambda>d. dr_messageId d = i) (tb_deliveries t);
     stored_message m d }"

definition tables_ok :: "(string \<Rightarrow> string) \<Rightarrow> tables \<Rightarrow> bool" where
  "tables_ok collate t \<longleftrightarrow>
     distinct (map mg_messageId (tb_messages t)) \<and> distinct (map dr_messageId (tb_deliveries t)) \<and>
     dr_messageId ` set (tb_deliveries t) = mg_messageId ` set (tb_messages t) \<and>
     distinct (map (\<lambda>d. (collate (dr_receiverUserId d), dr_serverSeq d)) (tb_deliveries t)) \<and>
     list_all message_fits (tb_messages t) \<and>
     list_all (\<lambda>d. delivery_fits d \<and> status_of (dr_status d) \<noteq> None) (tb_deliveries t)"

definition settled :: "database \<Rightarrow> bool" where
  "settled d \<longleftrightarrow> \<not> db_open d \<and> db_now d = db_saved d"

lemma settled_rolled: "settled d \<Longrightarrow> rolled_back d = d"
  by (simp add: settled_def rolled_back_def)

lemma rolled_settled [simp]: "settled (rolled_back d)" "db_now (rolled_back d) = db_saved d" "db_saved (rolled_back d) = db_saved d"
  by (simp_all add: settled_def rolled_back_def)

lemma find_distinct:
  assumes "distinct (map f xs)" "x \<in> set xs"
  shows "find (\<lambda>y. f y = f x) xs = Some x"
  using assms by (induction xs) auto

lemma filter_find: "(case take (Suc 0) (filter P xs) of [] \<Rightarrow> None | x # _ \<Rightarrow> Some x) = find P xs"
  by (induction xs) auto

lemma find_SomeD: "find P xs = Some x \<Longrightarrow> x \<in> set xs \<and> P x"
  by (auto simp: find_Some_iff)

lemma find_append: "find P (xs @ ys) = (case find P xs of None \<Rightarrow> find P ys | Some x \<Rightarrow> Some x)"
  by (induction xs) auto

lemma find_map: "find P (map f xs) = map_option f (find (\<lambda>x. P (f x)) xs)"
  by (induction xs) auto

lemma table_of_row:
  assumes "tables_ok collate t" "m \<in> set (tb_messages t)" "d \<in> set (tb_deliveries t)" "dr_messageId d = mg_messageId m"
  shows "table_of t (mg_messageId m) = stored_message m d"
proof -
  have "find (\<lambda>x. mg_messageId x = mg_messageId m) (tb_messages t) = Some m"
    "find (\<lambda>x. dr_messageId x = mg_messageId m) (tb_deliveries t) = Some d"
    using assms find_distinct [of mg_messageId "tb_messages t" m] find_distinct [of dr_messageId "tb_deliveries t" d]
    by (auto simp: tables_ok_def)
  then show ?thesis by (simp add: table_of_def)
qed

lemma stored_message_rows:
  "stored_message m d = Some sm \<Longrightarrow> id_of sm = mg_messageId m \<and> seq_of sm = dr_serverSeq d \<and>
    sm_receiverId sm = dr_receiverUserId d \<and> n_fromUserId (sm_notify sm) = mg_fromUserId m \<and>
    n_clientMsgId (sm_notify sm) = mg_clientMsgId m \<and> status_of (dr_status d) = Some (sm_status sm)"
  by (auto simp: stored_message_def bind_eq_Some_conv)

text \<open>Every entry of the table is a pair of rows.\<close>

lemma table_of_entry:
  assumes "table_of t i = Some sm"
  obtains m d where "m \<in> set (tb_messages t)" "d \<in> set (tb_deliveries t)" "mg_messageId m = i" "dr_messageId d = i"
    "stored_message m d = Some sm"
proof -
  from assms obtain m d where md: "find (\<lambda>m. mg_messageId m = i) (tb_messages t) = Some m"
    "find (\<lambda>d. dr_messageId d = i) (tb_deliveries t) = Some d" "stored_message m d = Some sm"
    by (auto simp: table_of_def bind_eq_Some_conv)
  from find_SomeD [OF md(1)] find_SomeD [OF md(2)] md(3) show ?thesis using that by blast
qed

text \<open>A delivery row of a well-formed database belongs to an entry.\<close>

lemma delivery_entry:
  assumes "tables_ok collate t" "d \<in> set (tb_deliveries t)"
  obtains m sm where "m \<in> set (tb_messages t)" "mg_messageId m = dr_messageId d" "stored_message m d = Some sm"
    "table_of t (dr_messageId d) = Some sm" "find (\<lambda>x. mg_messageId x = dr_messageId d) (tb_messages t) = Some m"
proof -
  from assms have "dr_messageId d \<in> mg_messageId ` set (tb_messages t)" by (auto simp: tables_ok_def)
  then obtain m where m: "m \<in> set (tb_messages t)" "mg_messageId m = dr_messageId d" by auto
  from assms obtain st where "status_of (dr_status d) = Some st" by (auto simp: tables_ok_def list_all_iff)
  then obtain sm where sm: "stored_message m d = Some sm" by (simp add: stored_message_def)
  moreover have "table_of t (dr_messageId d) = Some sm"
    using table_of_row [OF assms(1) m(1) assms(2)] m(2) sm by simp
  moreover have "find (\<lambda>x. mg_messageId x = dr_messageId d) (tb_messages t) = Some m"
    using assms(1) find_distinct [of mg_messageId "tb_messages t" m] m by (simp add: tables_ok_def)
  ultimately show ?thesis using m that by blast
qed

section \<open>What the writes do to the table\<close>

lemma stored_own_rows: "stored_message (message_row m) (delivery_row m) = Some m"
  if "n_timestamp (sm_notify m) = sm_createdAt m"
  using that by (simp add: stored_message_def message_row_def delivery_row_def)

lemma insert_rows:
  assumes ok: "tables_ok collate t"
    and t1: "apply_write collate (CreateMessage (message_row m)) t = Some t1"
    and t2: "apply_write collate (CreateDelivery (delivery_row m)) t1 = Some t2"
    and m: "n_timestamp (sm_notify m) = sm_createdAt m" "in64 (sm_createdAt m)" "in64 (sm_lastDeliverAt m)" "in64 (sm_ackedAt m)"
  shows "tables_ok collate t2" "table_of t2 = (table_of t)(id_of m \<mapsto> m)" "table_of t (id_of m) = None"
    "\<And>i m'. table_of t i = Some m' \<Longrightarrow> collate (sm_receiverId m') = collate (sm_receiverId m) \<Longrightarrow> seq_of m' \<noteq> seq_of m"
proof -
  have t: "tb_messages t2 = tb_messages t @ [message_row m]" "tb_deliveries t2 = tb_deliveries t @ [delivery_row m]"
    and new: "\<And>x. x \<in> set (tb_messages t) \<Longrightarrow> mg_messageId x \<noteq> id_of m"
    and free: "\<And>d. d \<in> set (tb_deliveries t) \<Longrightarrow> collate (dr_receiverUserId d) = collate (sm_receiverId m) \<Longrightarrow>
      dr_serverSeq d \<noteq> seq_of m"
    using t1 t2 by (auto simp: list_ex_iff message_row_def delivery_row_def split: if_splits)
  have new': "dr_messageId d \<noteq> id_of m" if "d \<in> set (tb_deliveries t)" for d
    using delivery_entry [OF ok that] new by metis
  have "message_fits (message_row m)" "delivery_fits (delivery_row m)"
    using m by (simp_all add: message_fits_def delivery_fits_def message_row_def delivery_row_def)
  moreover have "id_of m \<notin> mg_messageId ` set (tb_messages t)" "id_of m \<notin> dr_messageId ` set (tb_deliveries t)"
    "(collate (sm_receiverId m), seq_of m) \<notin> (\<lambda>d. (collate (dr_receiverUserId d), dr_serverSeq d)) ` set (tb_deliveries t)"
    using new new' free by fastforce+
  moreover have "mg_messageId (message_row m) = id_of m" "dr_messageId (delivery_row m) = id_of m"
    "dr_receiverUserId (delivery_row m) = sm_receiverId m" "dr_serverSeq (delivery_row m) = seq_of m"
    "dr_status (delivery_row m) = delivery_value (sm_status m)"
    by (simp_all add: message_row_def delivery_row_def)
  ultimately show "tables_ok collate t2"
    using ok by (simp add: tables_ok_def t)
  have none: "find (\<lambda>x. mg_messageId x = id_of m) (tb_messages t) = None" using new by (simp add: find_None_iff)
  then show "table_of t (id_of m) = None" by (simp add: table_of_def)
  have "find (\<lambda>d. dr_messageId d = id_of m) (tb_deliveries t) = None" using new' by (simp add: find_None_iff)
  with none stored_own_rows [OF m(1)] have "table_of t2 (id_of m) = Some m"
    by (simp add: table_of_def t find_append) (simp add: message_row_def delivery_row_def)
  moreover have "table_of t2 i = table_of t i" if "i \<noteq> id_of m" for i
    using that by (auto simp: table_of_def t find_append message_row_def delivery_row_def split: option.splits)
  ultimately show "table_of t2 = (table_of t)(id_of m \<mapsto> m)" by (auto simp: fun_eq_iff)
  show "seq_of m' \<noteq> seq_of m" if "table_of t i = Some m'" "collate (sm_receiverId m') = collate (sm_receiverId m)" for i m'
  proof -
    from that(1) obtain x d where "d \<in> set (tb_deliveries t)" "stored_message x d = Some m'"
      by (rule table_of_entry)
    with stored_message_rows [of x d m'] that(2) free [of d] show ?thesis by auto
  qed
qed

text \<open>An update of the delivery rows of one message and receiver.\<close>

lemma update_rows:
  assumes ok: "tables_ok collate t"
    and t2: "apply_write collate (UpdateDelivery i u (delivery_value st) rc dl ak now) t = Some t2"
    and fits: "in64 dl" "in64 ak" "in64 now"
  shows "tables_ok collate t2"
    and "table_of t2 = (\<lambda>j. map_option (\<lambda>m. if j = i \<and> collate (sm_receiverId m) = collate u
      then m\<lparr>sm_status := st, sm_lastDeliverAt := dl, sm_ackedAt := ak, sm_retryCount := rc\<rparr> else m) (table_of t j))"
proof -
  define f where "f = (\<lambda>d. if dr_messageId d = i \<and> collate (dr_receiverUserId d) = collate u
    then update_row (delivery_value st) rc dl ak now d else d)"
  have t: "tb_messages t2 = tb_messages t" "tb_deliveries t2 = map f (tb_deliveries t)"
    using t2 by (auto simp: f_def)
  have f: "dr_messageId (f d) = dr_messageId d" "dr_receiverUserId (f d) = dr_receiverUserId d"
    "dr_serverSeq (f d) = dr_serverSeq d" for d by (simp_all add: f_def update_row_def)
  have "delivery_fits d \<Longrightarrow> delivery_fits (f d)" "status_of (dr_status d) \<noteq> None \<Longrightarrow> status_of (dr_status (f d)) \<noteq> None" for d
    using fits by (auto simp: f_def update_row_def delivery_fits_def)
  then show "tables_ok collate t2"
    using ok by (auto simp: tables_ok_def t f comp_def list_all_iff image_image)
  show "table_of t2 = (\<lambda>j. map_option (\<lambda>m. if j = i \<and> collate (sm_receiverId m) = collate u
      then m\<lparr>sm_status := st, sm_lastDeliverAt := dl, sm_ackedAt := ak, sm_retryCount := rc\<rparr> else m) (table_of t j))"
  proof
    fix j
    have upd: "stored_message m (f d) = map_option (\<lambda>x. if dr_messageId d = i \<and> collate (sm_receiverId x) = collate u
        then x\<lparr>sm_status := st, sm_lastDeliverAt := dl, sm_ackedAt := ak, sm_retryCount := rc\<rparr> else x) (stored_message m d)"
      if "status_of (dr_status d) \<noteq> None" for m d
      using that by (auto simp: stored_message_def f_def update_row_def)
    show "table_of t2 j = map_option (\<lambda>m. if j = i \<and> collate (sm_receiverId m) = collate u
        then m\<lparr>sm_status := st, sm_lastDeliverAt := dl, sm_ackedAt := ak, sm_retryCount := rc\<rparr> else m) (table_of t j)"
    proof (cases "find (\<lambda>d. dr_messageId d = j) (tb_deliveries t)")
      case None
      then show ?thesis by (cases "find (\<lambda>m. mg_messageId m = j) (tb_messages t)") (simp_all add: table_of_def t find_map f)
    next
      case (Some d)
      from find_SomeD [OF Some] ok have "dr_messageId d = j" "status_of (dr_status d) \<noteq> None"
        by (auto simp: tables_ok_def list_all_iff)
      with Some upd [of d] show ?thesis
        by (cases "find (\<lambda>m. mg_messageId m = j) (tb_messages t)") (simp_all add: table_of_def t find_map f)
    qed
  qed
qed

section \<open>The operations\<close>

definition store_ready :: "'h MySqlMessageStore \<Rightarrow> bool" where
  "store_ready s \<longleftrightarrow> my_repositories s \<and> mc_impl (my_client s) \<noteq> None"

definition mysql_step ::
    "('h, 'w) mysql_lib \<Rightarrow> ('h, 'w) store_world \<Rightarrow> table_op \<Rightarrow> (table_event \<times> ('h, 'w) store_world) option" where
  "mysql_step lib sw a =
     (case a of
        TSave r \<Rightarrow> map_option (\<lambda>(res, sw).
          (case res of Inl e \<Rightarrow> Refused | Inr (m, dup) \<Rightarrow> if dup then Duplicate m else Saved m, sw))
          (MySqlMessageStore.saveMessageAndDelivery lib r sw)
      | TAttempt now u i st t rc \<Rightarrow> map_option (\<lambda>(res, sw). (case res of Inl e \<Rightarrow> Refused | Inr _ \<Rightarrow> Tried, sw))
          (MySqlMessageStore.markDeliveryAttempt lib now u i st t rc sw)
      | TAck now u i q code t \<Rightarrow> map_option (\<lambda>(res, n, sw). (case res of Inl e \<Rightarrow> Refused | Inr _ \<Rightarrow> Acked, sw))
          (MySqlMessageStore.markAcked lib now u i q code t sw)
      | TLoad u a limit \<Rightarrow> map_option (\<lambda>((ms, nx, e), sw). (if e = [] then Loaded ms else Refused, sw))
          (MySqlMessageStore.loadPendingMessages lib u a limit sw))"

definition mysql_inv :: "(string \<Rightarrow> string) \<Rightarrow> ('w \<Rightarrow> database) \<Rightarrow> nat \<Rightarrow> ('h, 'w) store_world \<Rightarrow> bool" where
  "mysql_inv collate db n sw \<longleftrightarrow>
     store_ready (fst sw) \<and> settled (db (snd sw)) \<and> tables_ok collate (db_now (db (snd sw)))"

text \<open>Time stamps are \<open>int64_t\<close>.\<close>

definition op_fits :: "table_op \<Rightarrow> bool" where
  "op_fits a =
     (case a of
        TSave r \<Rightarrow> in64 (cr_timestamp r)
      | TAttempt now u i st t rc \<Rightarrow> in64 now \<and> in64 t
      | TAck now u i q code t \<Rightarrow> in64 now \<and> in64 t
      | TLoad u a limit \<Rightarrow> True)"

text \<open>What a writing statement may do to the database, and two of them one after the other.\<close>

definition wrote :: "(string \<Rightarrow> string) \<Rightarrow> statement \<Rightarrow> database \<Rightarrow> bool \<Rightarrow> database \<Rightarrow> bool" where
  "wrote collate st d ok d' \<longleftrightarrow>
     (if ok then \<exists>t. apply_write collate st (db_now d) = Some t \<and> d' = write_now t d else d' = d \<or> d' = rolled_back d)"

definition two_writes ::
    "('h, 'w) mysql_lib \<Rightarrow> statement \<Rightarrow> statement \<Rightarrow> ('h, 'w) store_world \<Rightarrow> (bool \<times> string \<times> ('h, 'w) store_world) option" where
  "two_writes lib st1 st2 sw = do {
     (ok, e, sw) \<leftarrow> with_write (execute_statement lib st1) sw;
     if \<not> ok then Some (False, e, sw) else with_write (execute_statement lib st2) sw
   }"

lemma insert_both_writes:
  "insert_both lib m = two_writes lib (CreateMessage (message_row m)) (CreateDelivery (delivery_row m))"
  unfolding fun_eq_iff insert_both_def two_writes_def executeInsertMessage_def executeInsertDelivery_def
    createMessage_def createDelivery_def by simp

lemma ack_both_writes:
  "ack_both lib now d u i q code t =
     two_writes lib (UpdateDelivery i u (delivery_value (if code = AckRead then DeliveryRead else DeliveryDelivered))
       (dr_retryCount d) (dr_deliveredAtMs d) t now) (AppendAckLog i u q code t)"
  unfolding fun_eq_iff ack_both_def two_writes_def updateDeliveryStatus_def appendAckLog_def Let_def by simp

text \<open>The transaction that saving and acknowledging share.\<close>

definition transact ::
    "('h, 'w) mysql_lib \<Rightarrow> statement \<Rightarrow> statement \<Rightarrow> ('h, 'w) store_world \<Rightarrow> ((string + unit) \<times> ('h, 'w) store_world) option" where
  "transact lib st1 st2 sw =
     (let (ok, sw) = with_client (begin_tx lib) sw in
      if \<not> ok then Some (Inl (last_error sw), sw)
      else do {
        (ok, e, sw) \<leftarrow> two_writes lib st1 st2 sw;
        if \<not> ok then Some (Inl e, snd (with_client (rollback lib) sw))
        else let (ok, sw) = with_client (commit lib) sw in
          if \<not> ok then Some (Inl (last_error sw), snd (with_client (rollback lib) sw))
          else Some (Inr (), sw)
      })"

lemma save_transact:
  "MySqlMessageStore.saveMessageAndDelivery lib request sw = do {
     (existing, e, sw) \<leftarrow> findDuplicateMessage lib request sw;
     case existing of
       Some m \<Rightarrow> Some (Inr (m, True), sw)
     | None \<Rightarrow>
         if e \<noteq> [] then Some (Inl e, sw)
         else do {
           (r, sw) \<leftarrow> ensureServerSeqCursor lib (cr_toUserId request) sw;
           case r of
             Inl e \<Rightarrow> Some (Inl e, sw)
           | Inr _ \<Rightarrow> do {
               let (m, s) = next_message request (fst sw);
               (r, sw) \<leftarrow> transact lib (CreateMessage (message_row m)) (CreateDelivery (delivery_row m)) (s, snd sw);
               Some (map_sum id (\<lambda>_. (m, False)) r, sw) } } }"
  unfolding MySqlMessageStore.saveMessageAndDelivery_def transact_def insert_both_writes
  by (intro arg_cong2 [where f = Option.bind] refl ext)
    (auto simp: Let_def split: prod.splits option.splits sum.splits if_splits bind_splits)

lemma ack_transact:
  "MySqlMessageStore.markAcked lib now u i q code t sw = do {
     (delivery, e, sw) \<leftarrow> with_read (findByMessageAndReceiver lib i u) sw;
     case delivery of
       None \<Rightarrow> ack_refused lib u (if e = [] then ''message not found'' else e) sw
     | Some d \<Rightarrow>
         if dr_serverSeq d \<noteq> q then ack_refused lib u ''server_seq mismatch'' sw
         else do {
           (r, sw) \<leftarrow> transact lib (UpdateDelivery i u (delivery_value (if code = AckRead then DeliveryRead else DeliveryDelivered))
             (dr_retryCount d) (dr_deliveredAtMs d) t now) (AppendAckLog i u q code t) sw;
           case r of
             Inl e \<Rightarrow> ack_refused lib u e sw
           | Inr _ \<Rightarrow>
               let (s, w) = sw; last = max (opt_default 0 (my_lastAckedSeqCache s u)) q in
               Some (Inr (), last, s\<lparr>my_lastAckedSeqCache := (my_lastAckedSeqCache s)(u \<mapsto> last)\<rparr>, w) } }"
  unfolding MySqlMessageStore.markAcked_def transact_def ack_both_writes
  by (intro arg_cong2 [where f = Option.bind] refl ext)
    (auto simp: Let_def split: prod.splits option.splits sum.splits if_splits bind_splits)

text \<open>What the two transactions do to the table.\<close>

lemma entry_update:
  "(\<lambda>j. map_option (\<lambda>m. if j = i \<and> P m then f m else m) (T j)) =
     (case T i of None \<Rightarrow> T | Some m \<Rightarrow> if P m then T(i \<mapsto> f m) else T)"
proof
  fix j
  show "map_option (\<lambda>m. if j = i \<and> P m then f m else m) (T j) =
      (case T i of None \<Rightarrow> T | Some m \<Rightarrow> if P m then T(i \<mapsto> f m) else T) j"
    by (cases "T j"; cases "j = i") (auto split: option.splits)
qed

lemma new_message_rows:
  assumes ok: "tables_ok collate t" and m: "next_message r s = (m, s')" "in64 (cr_timestamp r)"
    and t1: "apply_write collate (CreateMessage (message_row m)) t = Some t1"
    and t2: "apply_write collate (CreateDelivery (delivery_row m)) t1 = Some t2"
  shows "tables_ok collate t2 \<and> enters collate r m (table_of t) (table_of t2)"
proof -
  have "n_timestamp (sm_notify m) = sm_createdAt m" "in64 (sm_createdAt m)" "in64 (sm_lastDeliverAt m)" "in64 (sm_ackedAt m)"
    "matches r m" "sm_status m = DeliveryPersisted"
    using m by (auto simp: next_message_def Let_def in64_def matches_def)
  with insert_rows [OF ok t1 t2] show ?thesis by (auto simp: enters_def)
qed

lemma acked_rows:
  assumes ok: "tables_ok collate t" and d: "d \<in> set (of_receiver collate u t)" "dr_messageId d = i" "dr_serverSeq d = q"
    and st: "st = (if code = AckRead then DeliveryRead else DeliveryDelivered)" and fits: "in64 ackedAt" "in64 now"
    and t1: "apply_write collate (UpdateDelivery i u (delivery_value st) (dr_retryCount d) (dr_deliveredAtMs d) ackedAt now) t = Some t1"
    and t2: "apply_write collate (AppendAckLog i u q code ackedAt) t1 = Some t2"
  shows "tables_ok collate t2 \<and> acks collate u i q code ackedAt (table_of t) (table_of t2)"
proof -
  have dl: "in64 (dr_deliveredAtMs d)" and dt: "d \<in> set (tb_deliveries t)" "collate (dr_receiverUserId d) = collate u"
    using ok d by (auto simp: tables_ok_def list_all_iff delivery_fits_def of_receiver_def)
  from delivery_entry [OF ok dt(1)] d(2) obtain m sm where sm: "stored_message m d = Some sm" "table_of t i = Some sm" by metis
  then have f: "sm_retryCount sm = dr_retryCount d" "sm_lastDeliverAt sm = dr_deliveredAtMs d" "seq_of sm = q"
    "collate (sm_receiverId sm) = collate u"
    using d(3) dt(2) by (auto simp: stored_message_def bind_eq_Some_conv)
  have "t2 = t1\<lparr>tb_acks := tb_acks t1 @ [(i, u, q, code, ackedAt)]\<rparr>" using t2 by (auto split: if_splits)
  then have same: "tables_ok collate t2 = tables_ok collate t1" "table_of t2 = table_of t1"
    by (simp_all add: tables_ok_def table_of_def fun_eq_iff)
  have "table_of t1 = (table_of t)(i \<mapsto> sm\<lparr>sm_ackedAt := ackedAt, sm_status := st\<rparr>)"
    using update_rows(2) [OF ok t1 dl fits] sm(2) f by (cases sm) (simp add: entry_update)
  with update_rows(1) [OF ok t1 dl fits] same sm(2) f st show ?thesis by (auto simp: acks_def)
qed

text \<open>The rows that wait for a receiver, as entries of the table.\<close>

definition entry :: "tables \<Rightarrow> DeliveryRecord \<Rightarrow> StoredMessage" where
  "entry t d = the (table_of t (dr_messageId d))"

lemma entry_row:
  assumes ok: "tables_ok collate t" "d \<in> set (tb_deliveries t)"
  shows "table_of t (id_of (entry t d)) = Some (entry t d)" "seq_of (entry t d) = dr_serverSeq d"
    "sm_receiverId (entry t d) = dr_receiverUserId d" "status_of (dr_status d) = Some (sm_status (entry t d))"
proof -
  from delivery_entry [OF ok] obtain m sm where
    sm: "mg_messageId m = dr_messageId d" "stored_message m d = Some sm" "table_of t (dr_messageId d) = Some sm" by metis
  from stored_message_rows [OF sm(2)] sm show "table_of t (id_of (entry t d)) = Some (entry t d)"
    "seq_of (entry t d) = dr_serverSeq d" "sm_receiverId (entry t d) = dr_receiverUserId d"
    "status_of (dr_status d) = Some (sm_status (entry t d))" by (simp_all add: entry_def)
qed

lemma distinct_seqs:
  assumes "distinct (map (\<lambda>d. (g d, f d)) ds)"
  shows "distinct (map f (filter (\<lambda>d. g d = x \<and> P d) ds))"
  using assms by (auto simp: distinct_map inj_on_def)

lemma pending_rows_page:
  assumes ok: "tables_ok collate t"
  shows "set (pending_rows collate u a limit t) \<subseteq> set (tb_deliveries t)"
    and "spec_ok collate (table_of t) (TLoad u a limit) (Loaded (map (entry t) (pending_rows collate u a limit t))) (table_of t)"
proof -
  let ?ds = "filter (\<lambda>d. collate (dr_receiverUserId d) = collate u \<and> a < dr_serverSeq d \<and> (dr_status d = 1 \<or> dr_status d = 2))
    (tb_deliveries t)"
  have rows: "pending_rows collate u a limit t = take (unat limit) (sort_key dr_serverSeq ?ds)"
    by (simp add: pending_rows_def of_receiver_def conj_ac)
  have mem: "d \<in> set (tb_deliveries t) \<and> collate (dr_receiverUserId d) = collate u \<and> a < dr_serverSeq d \<and>
      (dr_status d = 1 \<or> dr_status d = 2)" if "d \<in> set (pending_rows collate u a limit t)" for d
    using that by (auto simp: rows dest: in_set_takeD)
  then show sub: "set (pending_rows collate u a limit t) \<subseteq> set (tb_deliveries t)" by blast
  have "distinct (map dr_serverSeq ?ds)"
    using ok by (auto simp: tables_ok_def intro: distinct_seqs)
  then have "distinct (map dr_serverSeq (sort_key dr_serverSeq ?ds))"
    by (simp add: distinct_map)
  then have "sorted_wrt (<) (map dr_serverSeq (sort_key dr_serverSeq ?ds))"
    by (simp add: strict_sorted_iff)
  then have "sorted_wrt (<) (map dr_serverSeq (pending_rows collate u a limit t))"
    by (simp add: rows sorted_wrt_take flip: take_map)
  moreover have "map seq_of (map (entry t) (pending_rows collate u a limit t)) = map dr_serverSeq (pending_rows collate u a limit t)"
    using sub entry_row(2) [OF ok] by auto
  moreover have "table_of t (id_of (entry t d)) = Some (entry t d) \<and> collate (sm_receiverId (entry t d)) = collate u \<and>
      deliverable a (entry t d)" if "d \<in> set (pending_rows collate u a limit t)" for d
    using mem [OF that] entry_row [OF ok, of d] by (auto simp: deliverable_def status_of_def)
  moreover have "length (pending_rows collate u a limit t) \<le> max 1 (unat limit)" by (simp add: rows)
  ultimately show "spec_ok collate (table_of t) (TLoad u a limit) (Loaded (map (entry t) (pending_rows collate u a limit t))) (table_of t)"
    by (simp only: spec_ok.simps list_all_iff list.set_map length_map ball_simps) blast
qed

context mysql_database
begin

lemma with_read_step:
  assumes "store_ready s" "f (my_client s, w) = Some (r, e, c', w')" "mc_impl c' = mc_impl (my_client s)"
  shows "\<exists>s'. with_read f (s, w) = Some (r, e, s', w') \<and> store_ready s'"
  using assms by (auto simp: with_read_def store_ready_def)

lemma message_read:
  assumes "store_ready s" "settled (db w)" "tables_ok collate (db_now (db w))" "is_read st"
    and "select_rows collate st (db_now (db w)) = message_result (take 1 (filter P (tb_messages (db_now (db w)))))"
  shows "\<exists>r e s' w'. with_read (first_record lib BuildMessageRecord st) (s, w) = Some (r, e, s', w') \<and> store_ready s' \<and>
    db w' = db w \<and> (e = [] \<and> r = find P (tb_messages (db_now (db w))) \<or> e \<noteq> [] \<and> r = None)"
proof -
  let ?rs = "take 1 (filter P (tb_messages (db_now (db w))))"
  obtain h where h: "mc_impl (my_client s) = Some h" using assms(1) by (auto simp: store_ready_def)
  have fits: "BuildMessageRecord (message_view r) = Some r" if "r \<in> set ?rs" for r
    using that assms(3) by (intro message_view_build) (auto simp: tables_ok_def list_all_iff dest: in_set_takeD)
  from first_record_read [OF h assms(4), of w message_view ?rs BuildMessageRecord] fits assms(2,5)
  obtain r e c' w' where "first_record lib BuildMessageRecord st (my_client s, w) = Some (r, e, c', w')"
    "mc_impl c' = Some h" "db w' = db w"
    "e = [] \<and> r = find P (tb_messages (db_now (db w))) \<or> e \<noteq> [] \<and> r = None"
    by (auto simp: rows_of_results settled_rolled filter_find)
  with with_read_step [OF assms(1), of "first_record lib BuildMessageRecord st" w r e c' w'] h show ?thesis by auto
qed

lemma delivery_read:
  assumes "store_ready s" "settled (db w)" "tables_ok collate (db_now (db w))"
  shows "\<exists>r e s' w'. with_read (findByMessageAndReceiver lib i u) (s, w) = Some (r, e, s', w') \<and> store_ready s' \<and>
    db w' = db w \<and> (e = [] \<and> r = find (\<lambda>d. dr_messageId d = i) (of_receiver collate u (db_now (db w))) \<or> e \<noteq> [] \<and> r = None)"
proof -
  let ?rs = "take 1 (filter (\<lambda>d. dr_messageId d = i) (of_receiver collate u (db_now (db w))))"
  obtain h where h: "mc_impl (my_client s) = Some h" using assms(1) by (auto simp: store_ready_def)
  have fits: "BuildDeliveryRecord (delivery_view r) = Some r" if "r \<in> set ?rs" for r
    using that assms(3)
    by (intro delivery_view_build) (auto simp: tables_ok_def list_all_iff of_receiver_def dest: in_set_takeD)
  from first_record_read [OF h, of "FindDelivery i u" w delivery_view ?rs BuildDeliveryRecord] fits assms(2)
  obtain r e c' w' where "findByMessageAndReceiver lib i u (my_client s, w) = Some (r, e, c', w')"
    "mc_impl c' = Some h" "db w' = db w"
    "e = [] \<and> r = find (\<lambda>d. dr_messageId d = i) (of_receiver collate u (db_now (db w))) \<or> e \<noteq> [] \<and> r = None"
    by (auto simp: rows_of_results settled_rolled filter_find findByMessageAndReceiver_def)
  with with_read_step [OF assms(1), of "findByMessageAndReceiver lib i u" w r e c' w'] h show ?thesis by auto
qed

lemma number_read:
  assumes "store_ready s" "settled (db w)" "is_read st"
    and "select_rows collate st (db_now (db w)) = number_result column ns"
  shows "\<exists>n e s' w'. with_read (first_number lib column st) (s, w) = Some (n, e, s', w') \<and> store_ready s' \<and> db w' = db w \<and>
    (e = [] \<and> n = fold max ns 0 \<or> e \<noteq> [] \<and> n = 0)"
proof -
  obtain h where h: "mc_impl (my_client s) = Some h" using assms(1) by (auto simp: store_ready_def)
  from first_number_read [OF h assms(3,4)] assms(2)
  obtain n e c' w' where "first_number lib column st (my_client s, w) = Some (n, e, c', w')"
    "mc_impl c' = Some h" "db w' = db w" "e = [] \<and> n = fold max ns 0 \<or> e \<noteq> [] \<and> n = 0"
    by (auto simp: settled_rolled)
  with with_read_step [OF assms(1), of "first_number lib column st" w n e c' w'] h show ?thesis by auto
qed

lemma write_step:
  assumes "store_ready s" "is_write st"
  shows "\<exists>ok e s' w'. with_write (execute_statement lib st) (s, w) = Some (ok, e, s', w') \<and> store_ready s' \<and>
    wrote collate st (db w) ok (db w')"
proof -
  obtain h where h: "mc_impl (my_client s) = Some h" using assms(1) by (auto simp: store_ready_def)
  obtain ok e c' w' where x: "execute_statement lib st (my_client s, w) = (ok, e, c', w')" by (metis prod_cases4)
  from write_statement [OF h assms(2) x] have "mc_impl c' = Some h" "wrote collate st (db w) ok (db w')"
    by (auto simp: wrote_def)
  with with_read_step [OF assms(1), of "\<lambda>cw. Some (execute_statement lib st cw)" w ok e c' w'] h x show ?thesis
    by (auto simp: with_write_def)
qed

lemma two_writes_step:
  assumes "store_ready s" "is_write st1" "is_write st2" "db_open (db w)" "db_saved (db w) = db_now (db w)"
  shows "\<exists>ok e s' w'. two_writes lib st1 st2 (s, w) = Some (ok, e, s', w') \<and> store_ready s' \<and> db_saved (db w') = db_now (db w) \<and>
    (ok \<longrightarrow> (\<exists>t1. apply_write collate st1 (db_now (db w)) = Some t1 \<and> apply_write collate st2 t1 = Some (db_now (db w'))))"
proof -
  from write_step [OF assms(1,2), of w] obtain ok e s1 w1 where
    a: "with_write (execute_statement lib st1) (s, w) = Some (ok, e, s1, w1)" "store_ready s1" "wrote collate st1 (db w) ok (db w1)"
    by auto
  show ?thesis
  proof (cases ok)
    case False
    with a(1) have "two_writes lib st1 st2 (s, w) = Some (False, e, s1, w1)" by (simp add: two_writes_def)
    moreover from False a(3) assms(5) have "db_saved (db w1) = db_now (db w)" by (auto simp: wrote_def)
    ultimately show ?thesis using a(2) by blast
  next
    case True
    with a(3) assms(4) obtain t1 where t1: "apply_write collate st1 (db_now (db w)) = Some t1" "db w1 = (db w)\<lparr>db_now := t1\<rparr>"
      by (auto simp: wrote_def write_now_def)
    from write_step [OF a(2) assms(3), of w1] obtain ok2 e2 s2 w2 where
      b: "with_write (execute_statement lib st2) (s1, w1) = Some (ok2, e2, s2, w2)" "store_ready s2"
        "wrote collate st2 (db w1) ok2 (db w2)" by auto
    from a(1) True b(1) have "two_writes lib st1 st2 (s, w) = Some (ok2, e2, s2, w2)" by (simp add: two_writes_def)
    moreover from t1(2) b(3) assms(4,5) have "db_saved (db w2) = db_now (db w)"
      "ok2 \<longrightarrow> apply_write collate st2 t1 = Some (db_now (db w2))"
      by (auto simp: wrote_def write_now_def split: if_splits)
    ultimately show ?thesis using b(2) t1(1) by blast
  qed
qed

lemma client_step:
  assumes "store_ready s" "sql \<in> {''BEGIN'', ''COMMIT'', ''ROLLBACK''}"
  shows "\<exists>ok s' w' h. with_client (execute lib sql) (s, w) = (ok, s', w') \<and> store_ready s' \<and> ml_query lib h sql w = (ok, w')"
proof -
  obtain h where h: "mc_impl (my_client s) = Some h" using assms(1) by (auto simp: store_ready_def)
  obtain ok c' w' where x: "execute lib sql (my_client s, w) = (ok, c', w')" by (metis prod_cases3)
  from transaction_step [OF h assms(2) x] assms(1) h x show ?thesis
    by (auto simp: with_client_def store_ready_def)
qed

lemma begin_step:
  assumes "store_ready s" "settled (db w)"
  shows "\<exists>ok s' w'. with_client (begin_tx lib) (s, w) = (ok, s', w') \<and> store_ready s' \<and>
    (if ok then db_open (db w') \<and> db_now (db w') = db_now (db w) \<and> db_saved (db w') = db_now (db w) else db w' = db w)"
proof -
  from client_step [OF assms(1), of "''BEGIN''" w] obtain ok s' w' h where
    x: "with_client (execute lib ''BEGIN'') (s, w) = (ok, s', w')" "store_ready s'" "ml_query lib h ''BEGIN'' w = (ok, w')"
    by auto
  from transactions x(3) have "if ok then db w' = begun (db w) else fails lib h w' (db w) (db w')"
    unfolding transaction_law_def by blast
  with x assms(2) show ?thesis
    by (cases ok) (auto simp: begin_tx_def begun_def fails_def settled_rolled)
qed

lemma rollback_step:
  assumes "store_ready s"
  shows "\<exists>s' w'. snd (with_client (rollback lib) (s, w)) = (s', w') \<and> store_ready s' \<and> db w' = rolled_back (db w)"
proof -
  from client_step [OF assms, of "''ROLLBACK''" w] obtain ok s' w' h where
    x: "with_client (execute lib ''ROLLBACK'') (s, w) = (ok, s', w')" "store_ready s'" "ml_query lib h ''ROLLBACK'' w = (ok, w')"
    by auto
  from transactions x(3) have "db w' = rolled_back (db w)" unfolding transaction_law_def by blast
  with x show ?thesis by (auto simp: rollback_def)
qed

lemma commit_step:
  assumes "store_ready s"
  shows "\<exists>ok s' w'. with_client (commit lib) (s, w) = (ok, s', w') \<and> store_ready s' \<and>
    (if ok then db w' = committed (db w) else db w' = db w \<or> db w' = rolled_back (db w) \<or> db w' = committed (db w))"
proof -
  from client_step [OF assms, of "''COMMIT''" w] obtain ok s' w' h where
    x: "with_client (execute lib ''COMMIT'') (s, w) = (ok, s', w')" "store_ready s'" "ml_query lib h ''COMMIT'' w = (ok, w')"
    by auto
  from transactions x(3) have "if ok then db w' = committed (db w)
      else fails lib h w' (db w) (db w') \<or> ml_error lib h w' \<noteq> [] \<and> db w' = committed (db w)"
    unfolding transaction_law_def by blast
  with x show ?thesis by (cases ok) (auto simp: commit_def fails_def)
qed

lemma commit_or_rollback:
  assumes "store_ready s"
  obtains s1 w1 where "with_client (commit lib) (s, w) = (True, s1, w1)" "store_ready s1" "db w1 = committed (db w)"
  | s1 w1 s2 w2 where "with_client (commit lib) (s, w) = (False, s1, w1)"
      "with_client (rollback lib) (s1, w1) = (fst (with_client (rollback lib) (s1, w1)), s2, w2)" "store_ready s2"
      "settled (db w2)" "db_now (db w2) = db_saved (db w) \<or> db_now (db w2) = db_now (db w)"
proof -
  from commit_step [OF assms, of w] obtain ok s1 w1 where
    c: "with_client (commit lib) (s, w) = (ok, s1, w1)" "store_ready s1"
      "if ok then db w1 = committed (db w) else db w1 = db w \<or> db w1 = rolled_back (db w) \<or> db w1 = committed (db w)"
    by blast
  from rollback_step [OF c(2), of w1] obtain s2 w2 where
    r: "snd (with_client (rollback lib) (s1, w1)) = (s2, w2)" "store_ready s2" "db w2 = rolled_back (db w1)" by auto
  from r(1) have r1: "with_client (rollback lib) (s1, w1) = (fst (with_client (rollback lib) (s1, w1)), s2, w2)"
    by (metis prod.collapse)
  show ?thesis
  proof (cases ok)
    case True
    with c that(1) show ?thesis by auto
  next
    case False
    with c(3) r(3) have "settled (db w2)" "db_now (db w2) = db_saved (db w) \<or> db_now (db w2) = db_now (db w)"
      by (auto simp: committed_def)
    with False c(1) r1 r(2) that(2) show ?thesis by simp
  qed
qed

lemma transact_step:
  assumes "store_ready s" "settled (db w)" "is_write st1" "is_write st2"
  shows "\<exists>r s' w'. transact lib st1 st2 (s, w) = Some (r, s', w') \<and> store_ready s' \<and> settled (db w') \<and>
    (r \<noteq> Inr () \<and> db_now (db w') = db_now (db w) \<or>
     (\<exists>t1. apply_write collate st1 (db_now (db w)) = Some t1 \<and> apply_write collate st2 t1 = Some (db_now (db w'))))"
proof -
  from begin_step [OF assms(1,2)] obtain ok s1 w1 where
    b: "with_client (begin_tx lib) (s, w) = (ok, s1, w1)" "store_ready s1"
      "if ok then db_open (db w1) \<and> db_now (db w1) = db_now (db w) \<and> db_saved (db w1) = db_now (db w) else db w1 = db w"
    by blast
  show ?thesis
  proof (cases ok)
    case False
    with b assms(2) show ?thesis by (simp add: transact_def)
  next
    case True
    with b(3) have o: "db_open (db w1)" "db_now (db w1) = db_now (db w)" "db_saved (db w1) = db_now (db w)" by auto
    from two_writes_step [OF b(2) assms(3,4) o(1)] o obtain ok2 e s2 w2 where
      t: "two_writes lib st1 st2 (s1, w1) = Some (ok2, e, s2, w2)" "store_ready s2" "db_saved (db w2) = db_now (db w)"
        "ok2 \<longrightarrow> (\<exists>t1. apply_write collate st1 (db_now (db w)) = Some t1 \<and> apply_write collate st2 t1 = Some (db_now (db w2)))"
      by auto
    show ?thesis
    proof (cases ok2)
      case False
      from rollback_step [OF t(2), of w2] obtain s3 w3 where
        "snd (with_client (rollback lib) (s2, w2)) = (s3, w3)" "store_ready s3" "db w3 = rolled_back (db w2)" by auto
      with False True b(1) t(1,3) show ?thesis by (simp add: transact_def)
    next
      case ok2: True
      from t(2) show ?thesis
      proof (rule commit_or_rollback [where w = w2])
        fix s3 w3
        assume "with_client (commit lib) (s2, w2) = (True, s3, w3)" "store_ready s3" "db w3 = committed (db w2)"
        with ok2 True b(1) t(1,4) show ?thesis by (simp add: transact_def committed_def settled_def)
      next
        fix s3 w3 s4 w4
        assume c: "with_client (commit lib) (s2, w2) = (False, s3, w3)"
          "with_client (rollback lib) (s3, w3) = (fst (with_client (rollback lib) (s3, w3)), s4, w4)"
          "store_ready s4" "settled (db w4)" "db_now (db w4) = db_saved (db w2) \<or> db_now (db w4) = db_now (db w2)"
        from c(2) have "snd (with_client (rollback lib) (s3, w3)) = (s4, w4)" by (metis snd_conv)
        with ok2 True b(1) t(1) c(1) have "transact lib st1 st2 (s, w) = Some (Inl (last_error (s3, w3)), s4, w4)"
          by (simp add: transact_def)
        with c(3-5) t(3,4) ok2 show ?thesis by auto
      qed
    qed
  qed
qed

lemma find_duplicate_step:
  assumes "store_ready s" "settled (db w)" "tables_ok collate (db_now (db w))"
  shows "\<exists>r e s' w'. findDuplicateMessage lib req (s, w) = Some (r, e, s', w') \<and> store_ready s' \<and> db w' = db w \<and>
    (\<forall>sm. r = Some sm \<longrightarrow> spec_ok collate (table_of (db_now (db w))) (TSave req) (Duplicate sm) (table_of (db_now (db w))))"
proof (cases "cr_clientMsgId req = []")
  case True
  with assms(1) show ?thesis by (simp add: findDuplicateMessage_def)
next
  case False
  let ?t = "db_now (db w)"
  define P where "P = (\<lambda>m :: MessageRecord. collate (mg_fromUserId m) = collate (cr_fromUserId req) \<and>
    collate (mg_clientMsgId m) = collate (cr_clientMsgId req))"
  from message_read [OF assms, of "FindBySenderClient (cr_fromUserId req) (cr_clientMsgId req)" P]
  obtain r e s1 w1 where
    r: "with_read (findBySenderClientMsgId lib (cr_fromUserId req) (cr_clientMsgId req)) (s, w) = Some (r, e, s1, w1)"
    "store_ready s1" "db w1 = db w" "e = [] \<and> r = find P (tb_messages ?t) \<or> e \<noteq> [] \<and> r = None"
    by (auto simp: findBySenderClientMsgId_def P_def)
  show ?thesis
  proof (cases r)
    case None
    with False r(1-3) show ?thesis by (simp add: findDuplicateMessage_def)
  next
    case (Some m)
    with r(1) have r1: "with_read (findBySenderClientMsgId lib (cr_fromUserId req) (cr_clientMsgId req)) (s, w) = Some (Some m, e, s1, w1)"
      by simp
    from Some r(4) have "find P (tb_messages ?t) = Some m" by auto
    from find_SomeD [OF this] have m: "m \<in> set (tb_messages ?t)" "P m" by auto
    from delivery_read [OF r(2), of w1 "mg_messageId m" "cr_toUserId req"] assms(2,3) r(3)
    obtain d e' s2 w2 where
      d: "with_read (findByMessageAndReceiver lib (mg_messageId m) (cr_toUserId req)) (s1, w1) = Some (d, e', s2, w2)"
      "store_ready s2" "db w2 = db w"
      "e' = [] \<and> d = find (\<lambda>d. dr_messageId d = mg_messageId m) (of_receiver collate (cr_toUserId req) ?t) \<or> e' \<noteq> [] \<and> d = None"
      by auto
    show ?thesis
    proof (cases d)
      case None
      with False r1 d(1-3) show ?thesis by (simp add: findDuplicateMessage_def)
    next
      case (Some x)
      with d(4) have "find (\<lambda>d. dr_messageId d = mg_messageId m) (of_receiver collate (cr_toUserId req) ?t) = Some x" by auto
      from find_SomeD [OF this] have x: "x \<in> set (tb_deliveries ?t)" "dr_messageId x = mg_messageId m"
        by (auto simp: of_receiver_def)
      from assms(3) x(1) obtain st where "status_of (dr_status x) = Some st" by (auto simp: tables_ok_def list_all_iff)
      then obtain sm where sm: "stored_message m x = Some sm" by (simp add: stored_message_def)
      with table_of_row [OF assms(3) m(1) x] stored_message_rows [OF sm] m(2)
      have "spec_ok collate (table_of ?t) (TSave req) (Duplicate sm) (table_of ?t)"
        by (auto simp: P_def False)
      with False r1 d(1-3) Some sm show ?thesis by (simp add: findDuplicateMessage_def del: spec_ok.simps)
    qed
  qed
qed

lemma ensure_step:
  assumes "store_ready s" "settled (db w)"
  shows "\<exists>r s' w'. ensureServerSeqCursor lib u (s, w) = Some (r, s', w') \<and> store_ready s' \<and> db w' = db w"
proof -
  from number_read [OF assms, of "MaxServerSeq u" "''max_server_seq''" "map dr_serverSeq (of_receiver collate u (db_now (db w)))"] obtain n e s1 w1 where
    "with_read (getMaxServerSeq lib u) (s, w) = Some (n, e, s1, w1)" "store_ready s1" "db w1 = db w"
    by (auto simp: getMaxServerSeq_def)
  with assms(1) show ?thesis
    by (auto simp: ensureServerSeqCursor_def store_ready_def)
qed

lemma save_step:
  assumes "store_ready s" "settled (db w)" "tables_ok collate (db_now (db w))" "in64 (cr_timestamp r)"
  shows "\<exists>res s' w'. MySqlMessageStore.saveMessageAndDelivery lib r (s, w) = Some (res, s', w') \<and>
    store_ready s' \<and> settled (db w') \<and> tables_ok collate (db_now (db w')) \<and>
    spec_ok collate (table_of (db_now (db w))) (TSave r)
      (case res of Inl e \<Rightarrow> Refused | Inr (m, dup) \<Rightarrow> if dup then Duplicate m else Saved m) (table_of (db_now (db w')))"
proof -
  from find_duplicate_step [OF assms(1-3), of r] obtain f e s1 w1 where
    f: "findDuplicateMessage lib r (s, w) = Some (f, e, s1, w1)" "store_ready s1" "db w1 = db w"
      "\<forall>sm. f = Some sm \<longrightarrow> spec_ok collate (table_of (db_now (db w))) (TSave r) (Duplicate sm) (table_of (db_now (db w)))"
    by blast
  from ensure_step [OF f(2), of w1 "cr_toUserId r"] assms(2) f(3) obtain q s2 w2 where
    q: "ensureServerSeqCursor lib (cr_toUserId r) (s1, w1) = Some (q, s2, w2)" "store_ready s2" "db w2 = db w" by auto
  obtain m s3 where m: "next_message r s2 = (m, s3)" by (cases "next_message r s2")
  with q(2) have "store_ready s3" by (auto simp: next_message_def Let_def store_ready_def)
  from transact_step [OF this, of w2 "CreateMessage (message_row m)" "CreateDelivery (delivery_row m)"] q(3) assms(2)
  obtain x s4 w4 where
    x: "transact lib (CreateMessage (message_row m)) (CreateDelivery (delivery_row m)) (s3, w2) = Some (x, s4, w4)"
      "store_ready s4" "settled (db w4)"
      "x \<noteq> Inr () \<and> db_now (db w4) = db_now (db w) \<or>
       (\<exists>t1. apply_write collate (CreateMessage (message_row m)) (db_now (db w)) = Some t1 \<and>
          apply_write collate (CreateDelivery (delivery_row m)) t1 = Some (db_now (db w4)))"
    by (auto simp del: apply_write.simps)
  show ?thesis
  proof (cases "f \<noteq> None \<or> e \<noteq> [] \<or> (\<exists>e. q = Inl e)")
    case True
    with f q assms(2,3) show ?thesis
      by (cases f; cases "e = []") (auto simp: save_transact simp del: spec_ok.simps(2))
  next
    case False
    then have "MySqlMessageStore.saveMessageAndDelivery lib r (s, w) = Some (map_sum id (\<lambda>_. (m, False)) x, s4, w4)"
      using f(1) q(1) m x(1) by (cases q) (auto simp: save_transact)
    moreover from x(4) new_message_rows [OF assms(3) m assms(4)] assms(3)
    have "x \<noteq> Inr () \<and> db_now (db w4) = db_now (db w) \<or>
        tables_ok collate (db_now (db w4)) \<and> enters collate r m (table_of (db_now (db w))) (table_of (db_now (db w4)))"
      by blast
    ultimately show ?thesis using x(2,3) assms(3) by (cases x) auto
  qed
qed

lemma attempt_step:
  assumes "store_ready s" "settled (db w)" "tables_ok collate (db_now (db w))" "in64 now" "in64 t"
  shows "\<exists>res s' w'. MySqlMessageStore.markDeliveryAttempt lib now u i st t rc (s, w) = Some (res, s', w') \<and>
    store_ready s' \<and> settled (db w') \<and> tables_ok collate (db_now (db w')) \<and>
    spec_ok collate (table_of (db_now (db w))) (TAttempt now u i st t rc)
      (case res of Inl e \<Rightarrow> Refused | Inr _ \<Rightarrow> Tried) (table_of (db_now (db w')))"
proof -
  let ?st = "UpdateDelivery i u (delivery_value st) rc t 0 now"
  from write_step [OF assms(1), of ?st w] obtain ok e s' w' where
    x: "with_write (execute_statement lib ?st) (s, w) = Some (ok, e, s', w')" "store_ready s'" "wrote collate ?st (db w) ok (db w')"
    by auto
  have res: "MySqlMessageStore.markDeliveryAttempt lib now u i st t rc (s, w) = Some (if ok then Inr () else Inl e, s', w')"
    using x(1) by (simp add: MySqlMessageStore.markDeliveryAttempt_def updateDeliveryStatus_def)
  show ?thesis
  proof (cases ok)
    case False
    with x(3) settled_rolled [OF assms(2)] have "db w' = db w" by (auto simp: wrote_def)
    with False res x(2) assms(2,3) show ?thesis by simp
  next
    case True
    with x(3) obtain t2 where t2: "apply_write collate ?st (db_now (db w)) = Some t2" "db w' = write_now t2 (db w)"
      by (auto simp: wrote_def simp del: apply_write.simps)
    with assms(2) have "settled (db w')" "db_now (db w') = t2" by (auto simp: settled_def write_now_def)
    moreover have "in64 0" by (simp add: in64_def)
    note update_rows [OF assms(3) t2(1) assms(5) this assms(4)]
    moreover from this(2) have "tries collate u i st t rc (table_of (db_now (db w))) (table_of t2)"
      by (auto simp: tries_def entry_update split: option.splits intro!: exI [of _ 0] arg_cong [where f = "fun_upd _ _"])
    ultimately show ?thesis using True res x(2) by simp
  qed
qed

lemma refused_step:
  assumes "store_ready s" "settled (db w)"
  shows "\<exists>n s' w'. ack_refused lib u e (s, w) = Some (Inl e, n, s', w') \<and> store_ready s' \<and> db w' = db w"
proof -
  from number_read [OF assms, of "LastAckedSeq u" "''last_acked_seq''" "map dr_serverSeq
      (filter (\<lambda>d. dr_status d = 3 \<or> dr_status d = 5) (of_receiver collate u (db_now (db w))))"] obtain n e' s1 w1 where
    "with_read (Repositories.getLastAckedSeq lib u) (s, w) = Some (n, e', s1, w1)" "store_ready s1" "db w1 = db w"
    by (auto simp: Repositories.getLastAckedSeq_def)
  with assms(1) show ?thesis
    by (cases "my_lastAckedSeqCache s u")
      (auto simp: ack_refused_def MySqlMessageStore.getLastAckedSeq_def store_ready_def)
qed

lemma ack_step:
  assumes "store_ready s" "settled (db w)" "tables_ok collate (db_now (db w))" "in64 now" "in64 t"
  shows "\<exists>res n s' w'. MySqlMessageStore.markAcked lib now u i q code t (s, w) = Some (res, n, s', w') \<and>
    store_ready s' \<and> settled (db w') \<and> tables_ok collate (db_now (db w')) \<and>
    spec_ok collate (table_of (db_now (db w))) (TAck now u i q code t)
      (case res of Inl e \<Rightarrow> Refused | Inr _ \<Rightarrow> Acked) (table_of (db_now (db w')))"
proof -
  let ?st = "if code = AckRead then DeliveryRead else DeliveryDelivered"
  from delivery_read [OF assms(1-3), of i u] obtain r e s1 w1 where
    r: "with_read (findByMessageAndReceiver lib i u) (s, w) = Some (r, e, s1, w1)" "store_ready s1" "db w1 = db w"
      "e = [] \<and> r = find (\<lambda>d. dr_messageId d = i) (of_receiver collate u (db_now (db w))) \<or> e \<noteq> [] \<and> r = None"
    by blast
  show ?thesis
  proof (cases "\<exists>d. r = Some d \<and> dr_serverSeq d = q")
    case False
    define e' where "e' = (if r \<noteq> None then ''server_seq mismatch'' else if e = [] then ''message not found'' else e)"
    from False r(1) have "MySqlMessageStore.markAcked lib now u i q code t (s, w) = ack_refused lib u e' (s1, w1)"
      by (cases r) (auto simp: ack_transact e'_def)
    with refused_step [OF r(2), of w1 u e'] r(3) assms(2,3) show ?thesis by auto
  next
    case True
    then obtain d where d: "r = Some d" "dr_serverSeq d = q" by blast
    with r(4) have "find (\<lambda>d. dr_messageId d = i) (of_receiver collate u (db_now (db w))) = Some d" by auto
    note dr = find_SomeD [OF this]
    let ?w1 = "UpdateDelivery i u (delivery_value ?st) (dr_retryCount d) (dr_deliveredAtMs d) t now"
    from transact_step [OF r(2), of w1 ?w1 "AppendAckLog i u q code t"] r(3) assms(2) obtain x s2 w2 where
      x: "transact lib ?w1 (AppendAckLog i u q code t) (s1, w1) = Some (x, s2, w2)" "store_ready s2" "settled (db w2)"
        "x \<noteq> Inr () \<and> db_now (db w2) = db_now (db w) \<or>
         (\<exists>t1. apply_write collate ?w1 (db_now (db w)) = Some t1 \<and>
            apply_write collate (AppendAckLog i u q code t) t1 = Some (db_now (db w2)))"
      by (auto simp del: apply_write.simps)
    from x(4) dr d(2) acked_rows [OF assms(3) _ _ d(2) refl assms(5,4)] assms(3)
    have ok: "tables_ok collate (db_now (db w2))"
      "x \<noteq> Inr () \<and> db_now (db w2) = db_now (db w) \<or> acks collate u i q code t (table_of (db_now (db w))) (table_of (db_now (db w2)))"
      by auto
    show ?thesis
    proof (cases x)
      case (Inl e')
      with r(1) d x(1) have "MySqlMessageStore.markAcked lib now u i q code t (s, w) = ack_refused lib u e' (s2, w2)"
        by (simp add: ack_transact)
      with refused_step [OF x(2,3), of u e'] x(3) ok show ?thesis by auto
    next
      case (Inr y)
      with r(1) d x(1) obtain n s3 where
        "MySqlMessageStore.markAcked lib now u i q code t (s, w) = Some (Inr (), n, s3, w2)" "store_ready s3"
        using x(2) by (auto simp: ack_transact Let_def store_ready_def)
      with x(3) ok Inr show ?thesis by auto
    qed
  qed
qed

lemma fetch_loop_step:
  assumes "store_ready s" "settled (db w)" "tables_ok collate (db_now (db w))" "set ds \<subseteq> set (tb_deliveries (db_now (db w)))"
  shows "\<exists>r s' w'. fetch_loop lib ds acc nx (s, w) = Some (r, s', w') \<and> store_ready s' \<and> db w' = db w \<and>
    (\<forall>e. r = Inl e \<longrightarrow> e \<noteq> []) \<and> (\<forall>ms nx'. r = Inr (ms, nx') \<longrightarrow> ms = acc @ map (entry (db_now (db w))) ds)"
  using assms
proof (induction ds arbitrary: acc nx s w)
  case Nil
  then show ?case by simp
next
  case (Cons d ds)
  from Cons.prems(4) have d: "d \<in> set (tb_deliveries (db_now (db w)))" by simp
  from delivery_entry [OF Cons.prems(3) d] obtain m sm where
    m: "stored_message m d = Some sm" "table_of (db_now (db w)) (dr_messageId d) = Some sm"
      "find (\<lambda>x. mg_messageId x = dr_messageId d) (tb_messages (db_now (db w))) = Some m" by metis
  from message_read [OF Cons.prems(1-3), of "FindMessage (dr_messageId d)" "\<lambda>x. mg_messageId x = dr_messageId d"] m(3)
  obtain r e s1 w1 where
    r: "with_read (findByMessageId lib (dr_messageId d)) (s, w) = Some (r, e, s1, w1)" "store_ready s1" "db w1 = db w"
      "e = [] \<and> r = Some m \<or> e \<noteq> [] \<and> r = None"
    by (auto simp: findByMessageId_def)
  show ?case
  proof (cases "e = []")
    case True
    with r(4) have "r = Some m" by simp
    with Cons.IH [OF r(2), of w1 "acc @ [sm]" "max nx (dr_serverSeq d)"] Cons.prems r(1,3) m show ?thesis
      by (auto simp: entry_def)
  next
    case False
    with r show ?thesis by auto
  qed
qed

lemma load_step:
  assumes "store_ready s" "settled (db w)" "tables_ok collate (db_now (db w))"
  shows "\<exists>ms nx e s' w'. MySqlMessageStore.loadPendingMessages lib u a limit (s, w) = Some ((ms, nx, e), s', w') \<and>
    store_ready s' \<and> db w' = db w \<and>
    (e = [] \<longrightarrow> ms = map (entry (db_now (db w))) (pending_rows collate u a limit (db_now (db w))))"
proof -
  let ?rows = "pending_rows collate u a limit (db_now (db w))"
  obtain h where h: "mc_impl (my_client s) = Some h" using assms(1) by (auto simp: store_ready_def)
  note sub = pending_rows_page(1) [OF assms(3), of u a limit]
  with assms(3) have "list_all delivery_fits ?rows" by (auto simp: tables_ok_def list_all_iff)
  from listPending_read [OF h this settled_rolled [OF assms(2)]] obtain ds e c' w1 where
    l: "listPendingByReceiver lib u a limit (my_client s, w) = Some (ds, e, c', w1)" "mc_impl c' = Some h" "db w1 = db w"
      "e = [] \<and> ds = ?rows \<or> e \<noteq> [] \<and> ds = []"
    by blast
  from with_read_step [OF assms(1), of "listPendingByReceiver lib u a limit" w ds e c' w1] l(1,2) h obtain s1 where
    r: "with_read (listPendingByReceiver lib u a limit) (s, w) = Some (ds, e, s1, w1)" "store_ready s1" by auto
  show ?thesis
  proof (cases "e = []")
    case False
    with r l(3) show ?thesis by (simp add: MySqlMessageStore.loadPendingMessages_def)
  next
    case True
    with l(4) have "ds = ?rows" by simp
    with fetch_loop_step [OF r(2), of w1 ds "[]" a] l(3) sub assms(2,3) obtain x s2 w2 where
      x: "fetch_loop lib ds [] a (s1, w1) = Some (x, s2, w2)" "store_ready s2" "db w2 = db w"
        "\<forall>e. x = Inl e \<longrightarrow> e \<noteq> []" "\<forall>ms nx'. x = Inr (ms, nx') \<longrightarrow> ms = map (entry (db_now (db w))) ?rows"
      by auto
    with True r(1) show ?thesis
      by (cases x) (auto simp: MySqlMessageStore.loadPendingMessages_def)
  qed
qed

text \<open>All four together.\<close>

lemma mysql_simulates:
  assumes inv: "mysql_inv collate db n sw" and fits: "op_fits a"
  shows "\<exists>ev sw'. mysql_step lib sw a = Some (ev, sw') \<and> mysql_inv collate db (Suc n) sw' \<and>
    spec_ok collate (table_of (db_now (db (snd sw)))) a ev (table_of (db_now (db (snd sw'))))"
proof -
  obtain s w where sw: "sw = (s, w)" by (cases sw)
  with inv have i: "store_ready s" "settled (db w)" "tables_ok collate (db_now (db w))" by (simp_all add: mysql_inv_def)
  show ?thesis
  proof (cases a)
    case (TSave r)
    with save_step [OF i, of r] fits sw show ?thesis
      by (auto simp: mysql_step_def mysql_inv_def op_fits_def simp del: spec_ok.simps)
  next
    case (TAttempt now u i' st t rc)
    with attempt_step [OF i, of now t u i' st rc] fits sw show ?thesis
      by (auto simp: mysql_step_def mysql_inv_def op_fits_def simp del: spec_ok.simps)
  next
    case (TAck now u i' q code t)
    with ack_step [OF i, of now t u i' q code] fits sw show ?thesis
      by (auto simp: mysql_step_def mysql_inv_def op_fits_def simp del: spec_ok.simps)
  next
    case (TLoad u b limit)
    from load_step [OF i, of u b limit] obtain ms nx e s' w' where
      l: "MySqlMessageStore.loadPendingMessages lib u b limit (s, w) = Some ((ms, nx, e), s', w')" "store_ready s'" "db w' = db w"
        "e = [] \<longrightarrow> ms = map (entry (db_now (db w))) (pending_rows collate u b limit (db_now (db w)))" by blast
    with TLoad sw i pending_rows_page(2) [OF i(3), of u b limit] show ?thesis
      by (cases "e = []") (auto simp: mysql_step_def mysql_inv_def)
  qed
qed

lemma mysql_table:
  "message_table (mysql_step lib) (\<lambda>sw. table_of (db_now (db (snd sw)))) collate (mysql_inv collate db) bound op_fits"
  by unfold_locales (rule mysql_simulates)

end

sublocale mysql_database \<subseteq> mysql_spec: message_table "mysql_step lib" "\<lambda>sw. table_of (db_now (db (snd sw)))" collate
  "mysql_inv collate db" store_bound op_fits
  by (rule mysql_table)

text \<open>
  Claim C33 (mysql_refines). The MySQL store implements the same specification as the in-memory store.
  Over any database that satisfies the laws, from a connected store and well-formed tables, whatever
  operations are called and whatever statements fail: every operation returns; what the next one does to
  the table of messages is what its answer allows; no message disappears from the table or changes its
  content or receiver; and every message in it was there before or comes from one of the calls.
\<close>

theorem mysql_refines:
  assumes "mysql_database lib collate db" "store_ready s" "settled (db w)" "tables_ok collate (db_now (db w))"
    and "list_all op_fits as" "op_fits a"
  shows "\<exists>evs s1 w1 ev s2 w2.
    message_table.table_run (mysql_step lib) as (s, w) = Some (evs, s1, w1) \<and>
    keeps_notes (table_of (db_now (db w))) (table_of (db_now (db w1))) \<and>
    from_save as (table_of (db_now (db w))) (table_of (db_now (db w1))) \<and>
    mysql_step lib (s1, w1) a = Some (ev, s2, w2) \<and>
    spec_ok collate (table_of (db_now (db w1))) a ev (table_of (db_now (db w2)))"
proof -
  note table = mysql_database.mysql_table [OF assms(1)]
  have "mysql_inv collate db 0 (s, w)" using assms(2-4) by (simp add: mysql_inv_def)
  from message_table.table_run_simulates [OF table this, of as "length as"] assms(5) obtain evs s1 w1 where
    run: "message_table.table_run (mysql_step lib) as (s, w) = Some (evs, s1, w1)" "mysql_inv collate db (length as) (s1, w1)"
      "keeps_notes (table_of (db_now (db w))) (table_of (db_now (db w1)))"
      "from_save as (table_of (db_now (db w))) (table_of (db_now (db w1)))"
    by auto
  from mysql_database.mysql_simulates [OF assms(1) run(2) assms(6)] run show ?thesis by auto
qed

definition empty_engine :: engine where
  "empty_engine =
     \<lparr>eng_db = (let t = \<lparr>tb_messages = [], tb_deliveries = [], tb_acks = []\<rparr> in \<lparr>db_now = t, db_saved = t, db_open = False\<rparr>),
      eng_result = None\<rparr>"

definition connected_store :: "unit MySqlMessageStore" where
  "connected_store =
     (MySqlMessageStore_init \<lparr>mo_enabled = True, mo_host = ''127.0.0.1'', mo_port = 3306, mo_user = ''im'', mo_password = [],
        mo_database = ''im_server'', mo_connectTimeoutMs = 2000\<rparr>)
       \<lparr>my_client := \<lparr>mc_impl = Some (), mc_lastError = []\<rparr>, my_repositories := True\<rparr>"

theorem mysql_refines_witness:
  "\<exists>evs s1 w1 ev s2 w2.
     message_table.table_run (mysql_step (engine_lib id)) [TSave req_a, TSave req_b] (connected_store, empty_engine) = Some (evs, s1, w1) \<and>
     mysql_step (engine_lib id) (s1, w1) (TLoad ''bob'' 0 10) = Some (ev, s2, w2) \<and>
     spec_ok id (table_of (db_now (eng_db w1))) (TLoad ''bob'' 0 10) ev (table_of (db_now (eng_db w2)))"
  using mysql_refines [OF engine.mysql_database_axioms [of id], of connected_store empty_engine "[TSave req_a, TSave req_b]" "TLoad ''bob'' 0 10"]
  by (auto simp: store_ready_def connected_store_def empty_engine_def MySqlMessageStore_init_def settled_def tables_ok_def
      op_fits_def in64_def req_a_def req_b_def Let_def)

end
