(* ===== verification/Config.thy ===== *)
theory Config
  imports Util TextNumbers
begin

text \<open>
  \<open>src/base/config.cpp\<close>: the settings of an INI file, by section and key. A file is the text it holds, the
  file system a map from paths to files; \<open>std::getline\<close> is that of \<open>SplitString\<close>. \<open>std::isspace\<close> is that of
  the C locale.
\<close>

section \<open>State\<close>

record Config =
  cfg_data :: "string \<rightharpoonup> (string \<rightharpoonup> string)"

definition Config_init :: Config where
  "Config_init = \<lparr>cfg_data = Map.empty\<rparr>"

section \<open>Loading\<close>

definition trim :: "string \<Rightarrow> string" where
  "trim s = rev (dropWhile is_blank (rev (dropWhile is_blank s)))"

text \<open>\<open>m_data[section][key] = value\<close> creates the section where it is new.\<close>

definition put :: "string \<Rightarrow> string \<Rightarrow> string \<Rightarrow> (string \<rightharpoonup> (string \<rightharpoonup> string)) \<Rightarrow> (string \<rightharpoonup> (string \<rightharpoonup> string))" where
  "put s k v m = m(s \<mapsto> (opt_default Map.empty (m s))(k \<mapsto> v))"

text \<open>One turn of the loop, on the current section and the data.\<close>

definition load_line ::
    "string \<Rightarrow> string \<times> (string \<rightharpoonup> (string \<rightharpoonup> string)) \<Rightarrow> string \<times> (string \<rightharpoonup> (string \<rightharpoonup> string))" where
  "load_line raw = (\<lambda>(currentSection, m).
     let line = trim raw in
     if line = [] \<or> hd line = CHR ''#'' \<or> hd line = CHR '';'' then (currentSection, m)
     else if hd line = CHR ''['' \<and> last line = CHR '']''
     then (trim (substr 1 (length line - 2) line), m)
     else if CHR ''='' \<in> set line
     then let key = trim (takeWhile (\<lambda>c. c \<noteq> CHR ''='') line);
              val = trim (tl (dropWhile (\<lambda>c. c \<noteq> CHR ''='') line)) in
          if currentSection \<noteq> [] \<and> key \<noteq> [] then (currentSection, put currentSection key val m) else (currentSection, m)
     else (currentSection, m))"

definition load :: "(string \<rightharpoonup> string) \<Rightarrow> string \<Rightarrow> Config \<Rightarrow> bool \<times> Config" where
  "load files filePath c =
     (case files filePath of
        None \<Rightarrow> (False, c\<lparr>cfg_data := Map.empty\<rparr>)
      | Some text \<Rightarrow>
          (True, c\<lparr>cfg_data := snd (fold load_line (SplitString text (CHR 0x0A)) ([], Map.empty))\<rparr>))"

section \<open>Reading\<close>

definition getString :: "string \<Rightarrow> string \<Rightarrow> string \<Rightarrow> Config \<Rightarrow> string" where
  "getString sec key defaultValue c =
     (case cfg_data c sec of
        None \<Rightarrow> defaultValue
      | Some keys \<Rightarrow> opt_default defaultValue (keys key))"

definition getInt :: "string \<Rightarrow> string \<Rightarrow> int \<Rightarrow> Config \<Rightarrow> int" where
  "getInt sec key defaultValue c =
     (let val = getString sec key [] c in
      if val \<noteq> [] then opt_default defaultValue (stoi val) else defaultValue)"

definition getBool :: "string \<Rightarrow> string \<Rightarrow> bool \<Rightarrow> Config \<Rightarrow> bool" where
  "getBool sec key defaultValue c =
     (let val = getString sec key [] c in
      if val = ''true'' \<or> val = ''1'' \<or> val = ''yes'' \<or> val = ''on'' then True
      else if val = ''false'' \<or> val = ''0'' \<or> val = ''no'' \<or> val = ''off'' then False
      else defaultValue)"

text \<open>\<open>std::stod\<close> is an argument; its exceptions are \<open>None\<close>.\<close>

definition getDouble :: "(string \<Rightarrow> 'd option) \<Rightarrow> string \<Rightarrow> string \<Rightarrow> 'd \<Rightarrow> Config \<Rightarrow> 'd" where
  "getDouble stod sec key defaultValue c =
     (let val = getString sec key [] c in
      if val \<noteq> [] then opt_default defaultValue (stod val) else defaultValue)"

section \<open>INI files\<close>

text \<open>
  The grammar the parser is meant to read: blank lines, comments, section headers and assignments, with
  any padding (a carriage return at the end of the line is padding).
\<close>

datatype ini_item =
    Blank string
  | Comment string char string
  | Header string string string string string
  | Entry string string string string string string

primrec ini_line :: "ini_item \<Rightarrow> string" where
  "ini_line (Blank p) = p"
| "ini_line (Comment p c t) = p @ [c] @ t"
| "ini_line (Header p q name r s) = p @ ''['' @ q @ name @ r @ '']'' @ s"
| "ini_line (Entry p key q r val s) = p @ key @ q @ ''='' @ r @ val @ s"

definition ini_text :: "ini_item list \<Rightarrow> string" where
  "ini_text items = concat (map (\<lambda>i. ini_line i @ [CHR 0x0A]) items)"

definition padding :: "string \<Rightarrow> bool" where
  "padding p \<longleftrightarrow> list_all (\<lambda>c. is_blank c \<and> c \<noteq> CHR 0x0A) p"

definition trimmed :: "string \<Rightarrow> bool" where
  "trimmed s \<longleftrightarrow> CHR 0x0A \<notin> set s \<and> (s \<noteq> [] \<longrightarrow> \<not> is_blank (hd s) \<and> \<not> is_blank (last s))"

primrec ini_ok :: "ini_item \<Rightarrow> bool" where
  "ini_ok (Blank p) = padding p"
| "ini_ok (Comment p c t) \<longleftrightarrow> padding p \<and> (c = CHR ''#'' \<or> c = CHR '';'') \<and> CHR 0x0A \<notin> set t"
| "ini_ok (Header p q name r s) \<longleftrightarrow> padding p \<and> padding q \<and> padding r \<and> padding s \<and> trimmed name"
| "ini_ok (Entry p key q r val s) \<longleftrightarrow> padding p \<and> padding q \<and> padding r \<and> padding s \<and> trimmed key \<and> trimmed val \<and>
     key \<noteq> [] \<and> CHR ''='' \<notin> set key \<and> hd key \<noteq> CHR ''#'' \<and> hd key \<noteq> CHR '';'' \<and> hd key \<noteq> CHR ''[''"

text \<open>What a file says: the assignments with the section they stand in, in order.\<close>

fun ini_entries :: "string \<Rightarrow> ini_item list \<Rightarrow> ((string \<times> string) \<times> string) list" where
  "ini_entries sec [] = []"
| "ini_entries sec (Header p q name r s # items) = ini_entries name items"
| "ini_entries sec (Entry p key q r val s # items) =
     (if sec = [] then [] else [((sec, key), val)]) @ ini_entries sec items"
| "ini_entries sec (Blank p # items) = ini_entries sec items"
| "ini_entries sec (Comment p c t # items) = ini_entries sec items"

lemma dropWhile_padded: "list_all P p \<Longrightarrow> t \<noteq> [] \<longrightarrow> \<not> P (hd t) \<Longrightarrow> dropWhile P (p @ t) = t"
  by (induction p) (cases t, auto)+

lemma trim_blank: "list_all is_blank p \<Longrightarrow> trim p = []"
  using dropWhile_padded [of is_blank p "[]"] by (simp only: trim_def append_Nil2 simp_thms) simp

lemma trim_padded:
  assumes "list_all is_blank p" "list_all is_blank q" "t \<noteq> []" "\<not> is_blank (hd t)" "\<not> is_blank (last t)"
  shows "trim (p @ t @ q) = t"
proof -
  have "dropWhile is_blank (p @ t @ q) = t @ q" using assms by (intro dropWhile_padded) auto
  moreover have "dropWhile is_blank (rev q @ rev t) = rev t"
    using assms by (intro dropWhile_padded) (auto simp: hd_rev)
  ultimately show ?thesis by (simp add: trim_def)
qed

lemma padding_blank: "padding p \<Longrightarrow> list_all is_blank p"
  by (simp add: padding_def list_all_iff)

lemma trim_pad_trimmed: "padding p \<Longrightarrow> padding q \<Longrightarrow> trimmed t \<Longrightarrow> trim (p @ t @ q) = t"
  by (cases "t = []") (simp_all add: trimmed_def trim_padded padding_blank trim_blank)

lemma no_line_break: "padding p \<Longrightarrow> CHR 0x0A \<notin> set p" "trimmed t \<Longrightarrow> CHR 0x0A \<notin> set t"
  unfolding padding_def trimmed_def list_all_iff by blast+

lemma line_break_free: "ini_ok i \<Longrightarrow> CHR 0x0A \<notin> set (ini_line i)"
  by (cases i) (auto dest: no_line_break)

lemma until_first:
  "d \<notin> set l \<Longrightarrow> takeWhile (\<lambda>c. c \<noteq> d) (l @ d # r) = l" "d \<notin> set l \<Longrightarrow> dropWhile (\<lambda>c. c \<noteq> d) (l @ d # r) = d # r"
  by (induction l) auto

lemma SplitString_lines:
  "list_all (\<lambda>l. d \<notin> set l) ls \<Longrightarrow> SplitString (concat (map (\<lambda>l. l @ [d]) ls)) d = ls"
proof (induction ls)
  case Nil
  then show ?case by (simp add: SplitString.simps)
next
  case (Cons l ls)
  from Cons show ?case by (subst SplitString.simps) (simp add: until_first)
qed

lemma ini_lines: "list_all ini_ok items \<Longrightarrow> SplitString (ini_text items) (CHR 0x0A) = map ini_line items"
  using SplitString_lines [of "CHR 0x0A" "map ini_line items"]
  by (simp add: ini_text_def list_all_iff line_break_free comp_def)

section \<open>One line\<close>

lemma load_blank: "padding p \<Longrightarrow> load_line p (sec, m) = (sec, m)"
  by (simp add: load_line_def trim_blank padding_blank)

lemma dropWhile_snoc: "\<not> P c \<Longrightarrow> dropWhile P (xs @ [c]) = dropWhile P xs @ [c]"
  by (induction xs) auto

lemma trim_line:
  assumes "padding p" "\<not> is_blank c"
  shows "\<exists>u. trim (p @ c # t) = c # u"
proof -
  have "dropWhile is_blank (p @ c # t) = c # t" using assms by (intro dropWhile_padded padding_blank) auto
  with assms(2) show ?thesis by (simp add: trim_def dropWhile_snoc)
qed

lemma load_comment: "padding p \<Longrightarrow> c = CHR ''#'' \<or> c = CHR '';'' \<Longrightarrow> load_line (p @ [c] @ t) (sec, m) = (sec, m)"
  using trim_line [of p c t] by (auto simp: load_line_def is_blank_def)

lemma load_header:
  assumes "padding p" "padding q" "padding r" "padding s" "trimmed name"
  shows "load_line (p @ ''['' @ q @ name @ r @ '']'' @ s) (sec, m) = (name, m)"
proof -
  let ?line = "''['' @ (q @ name @ r) @ '']''"
  have "trim (p @ ?line @ s) = ?line" using assms by (intro trim_padded padding_blank) (auto simp: is_blank_def)
  moreover have "substr 1 (length ?line - 2) ?line = q @ name @ r" by (simp add: substr_def)
  ultimately show ?thesis using trim_pad_trimmed [OF assms(2,3,5)] by (simp add: load_line_def)
qed

lemma load_entry:
  assumes "ini_ok (Entry p key q r val s)"
  shows "load_line (ini_line (Entry p key q r val s)) (sec, m) = (sec, if sec = [] then m else put sec key val m)"
proof -
  let ?v = "if val = [] then [] else r @ val" and ?s = "if val = [] then r @ s else s"
  let ?line = "key @ q @ ''='' @ ?v"
  have pads: "list_all is_blank p" "list_all is_blank q" "list_all is_blank r" "list_all is_blank s"
    using assms by (auto dest: padding_blank)
  have "trim (p @ ?line @ ?s) = ?line"
    using assms pads by (intro trim_padded) (auto simp: trimmed_def is_blank_def)
  moreover have "trim (key @ q) = key" "trim ?v = val"
    using assms trim_pad_trimmed [of "[]" q key] trim_pad_trimmed [of r "[]" val] trim_blank [of "[]"]
    by (auto simp: padding_def)
  moreover have "\<not> is_blank (CHR ''='')" by (simp add: is_blank_def)
  with pads(2) assms have "CHR ''='' \<notin> set (key @ q)" by (auto simp: list_all_iff)
  from until_first [OF this, of ?v]
  have "takeWhile (\<lambda>c. c \<noteq> CHR ''='') ?line = key @ q" "dropWhile (\<lambda>c. c \<noteq> CHR ''='') ?line = ''='' @ ?v" by simp_all
  ultimately have "load_line (p @ ?line @ ?s) (sec, m) = (sec, if sec = [] then m else put sec key val m)"
    using assms by (auto simp: load_line_def Let_def)
  then show ?thesis by (cases "val = []") simp_all
qed

section \<open>Whole files\<close>

text \<open>The data as one map from section and key.\<close>

definition setting :: "(string \<rightharpoonup> (string \<rightharpoonup> string)) \<Rightarrow> string \<times> string \<rightharpoonup> string" where
  "setting m = (\<lambda>(s, k). Option.bind (m s) (\<lambda>keys. keys k))"

lemma setting_put: "setting (put s k v m) = (setting m)((s, k) \<mapsto> v)"
  by (auto simp: setting_def put_def opt_default_def fun_eq_iff split: option.splits)

lemma setting_load:
  "list_all ini_ok items \<Longrightarrow>
   setting (snd (fold load_line (map ini_line items) (sec, m))) = setting m ++ map_of (rev (ini_entries sec items))"
proof (induction items arbitrary: sec m)
  case (Cons i items)
  then show ?case
    by (cases i) (simp_all add: load_blank load_comment [simplified] load_header [simplified] load_entry [simplified] setting_put)
qed simp

lemma getString_setting: "getString s k d c = opt_default d (setting (cfg_data c) (s, k))"
  by (simp add: getString_def setting_def split: option.splits)

lemma load_setting:
  assumes "files path = Some (ini_text items)" "list_all ini_ok items"
  shows "fst (load files path c)" "setting (cfg_data (snd (load files path c))) = map_of (rev (ini_entries [] items))"
  using setting_load [OF assms(2), of "[]" Map.empty]
  by (simp_all add: load_def assms ini_lines) (simp add: setting_def case_prod_unfold fun_eq_iff map_add_def split: option.splits)

text \<open>
  Claim C36 (config_roundtrip). Loading a file of the INI grammar, whatever its padding, comments, line
  endings and order, gives back what the file says: a key of a section has the value of its last
  assignment there, and the caller's default when there is none; a number that was written in decimal and
  fits an \<open>int\<close> is read back as this number.
\<close>

theorem config_roundtrip:
  assumes "files path = Some (ini_text items)" "list_all ini_ok items"
  shows "\<exists>c'. load files path c = (True, c') \<and>
    (\<forall>s k d. getString s k d c' = opt_default d (map_of (rev (ini_entries [] items)) (s, k))) \<and>
    (\<forall>s k i n. map_of (rev (ini_entries [] items)) (s, k) = Some (show_int i) \<longrightarrow> - (2 ^ 31) \<le> i \<longrightarrow> i < 2 ^ 31 \<longrightarrow>
       getInt s k n c' = i)"
proof -
  obtain c' where c': "load files path c = (True, c')" using load_setting(1) [of files path items c] assms by (metis prod.collapse)
  have "setting (cfg_data c') = map_of (rev (ini_entries [] items))" using load_setting(2) [of files path items c] assms c' by simp
  then show ?thesis by (auto simp: c' getString_setting getInt_def stoi_show_int)
qed

text \<open>A file with a comment, carriage returns, an assignment outside any section and one that is overridden.\<close>

definition demo_ini :: "ini_item list" where
  "demo_ini = [Entry [] ''port'' [] [] ''1'' [], Comment '' '' (CHR ''#'') ''the listener'', Header [] '' '' ''server'' [] [CHR 0x0D],
     Entry '' '' ''port'' '' '' '' '' ''8888'' [CHR 0x0D], Blank [], Entry [] ''port'' [] [] ''-5'' []]"

theorem config_roundtrip_witness:
  "\<exists>c'. load [''server.ini'' \<mapsto> ini_text demo_ini] ''server.ini'' Config_init = (True, c') \<and>
     getString ''server'' ''host'' ''any'' c' = ''any'' \<and> getInt ''server'' ''port'' 0 c' = - 5"
proof -
  have ok: "list_all ini_ok demo_ini" by (simp add: demo_ini_def padding_def trimmed_def is_blank_def)
  have n: "show_int (- 5) = ''-5''" by code_simp
  have "map_of (rev (ini_entries [] demo_ini)) (''server'', ''port'') = Some (show_int (- 5))"
    "map_of (rev (ini_entries [] demo_ini)) (''server'', ''host'') = None"
    by (simp_all add: demo_ini_def n)
  with config_roundtrip [of "[''server.ini'' \<mapsto> ini_text demo_ini]" "''server.ini''" demo_ini Config_init, OF _ ok]
  show ?thesis by fastforce
qed

end
