(* ===== verification/Addresses.thy ===== *)
theory Addresses
  imports Util TextNumbers "HOL-Library.Signed_Division"
begin

text \<open>
  \<open>src/net/timestamp.*\<close> and \<open>src/net/inetAddress.h\<close>: points in time with their order, and IPv4 addresses with
  their text. What the C library does to times and addresses is written out, but for the local calendar
  of \<open>toFormattedString\<close>, which is an argument.
\<close>

section \<open>Time stamps\<close>

datatype Timestamp = Timestamp (microSecondsSinceEpoch: int)

definition kMicroSecondsPerSecond :: int where "kMicroSecondsPerSecond = 1000 * 1000"

definition now :: "timeval \<Rightarrow> Timestamp" where
  "now tv = Timestamp (tv_sec tv * kMicroSecondsPerSecond + tv_usec tv)"

definition invalid :: Timestamp where "invalid = Timestamp 0"

definition valid :: "Timestamp \<Rightarrow> bool" where
  "valid t \<longleftrightarrow> microSecondsSinceEpoch t > 0"

definition secondsSinceEpoch :: "Timestamp \<Rightarrow> int" where
  "secondsSinceEpoch t = microSecondsSinceEpoch t sdiv kMicroSecondsPerSecond"

text \<open>The two operators of the class are the order of the microseconds.\<close>

instantiation Timestamp :: linorder
begin

definition less_eq_Timestamp :: "Timestamp \<Rightarrow> Timestamp \<Rightarrow> bool" where
  "less_eq_Timestamp a b \<longleftrightarrow> microSecondsSinceEpoch a \<le> microSecondsSinceEpoch b"

definition less_Timestamp :: "Timestamp \<Rightarrow> Timestamp \<Rightarrow> bool" where
  "less_Timestamp a b \<longleftrightarrow> microSecondsSinceEpoch a < microSecondsSinceEpoch b"

instance
  by standard (auto simp: less_eq_Timestamp_def less_Timestamp_def Timestamp.expand)

end

text \<open>\<open>%0nd\<close>: at least \<open>n\<close> characters, filled with zeros after the sign.\<close>

definition zero_padded :: "nat \<Rightarrow> int \<Rightarrow> string" where
  "zero_padded n i =
     (let sign = (if i < 0 then ''-'' else []); ds = dec (nat \<bar>i\<bar>) in
      sign @ replicate (n - length sign - length ds) (CHR ''0'') @ ds)"

text \<open>\<open>snprintf\<close> into a buffer of \<open>n\<close> bytes.\<close>

definition snprintf :: "nat \<Rightarrow> string \<Rightarrow> string" where
  "snprintf n s = take (n - 1) s"

definition toString :: "Timestamp \<Rightarrow> string" where
  "toString t =
     (let seconds = microSecondsSinceEpoch t sdiv kMicroSecondsPerSecond;
          microseconds = microSecondsSinceEpoch t smod kMicroSecondsPerSecond in
      snprintf 32 (show_int seconds @ ''.'' @ zero_padded 6 microseconds))"

text \<open>The local calendar gives year, month, day, hour, minute and second, as printed.\<close>

definition toFormattedString :: "(int \<Rightarrow> int \<times> int \<times> int \<times> int \<times> int \<times> int) \<Rightarrow> bool \<Rightarrow> Timestamp \<Rightarrow> string" where
  "toFormattedString local_calendar showMicroseconds t =
     (case local_calendar (microSecondsSinceEpoch t sdiv kMicroSecondsPerSecond) of (y, mo, d, h, mi, s) \<Rightarrow>
        let year = show_int y;
            date = replicate (4 - length year) (CHR '' '') @ year @ zero_padded 2 mo @ zero_padded 2 d @ '' '' @
              zero_padded 2 h @ '':'' @ zero_padded 2 mi @ '':'' @ zero_padded 2 s in
        snprintf 64 (if showMicroseconds
          then date @ ''.'' @ zero_padded 6 (microSecondsSinceEpoch t smod kMicroSecondsPerSecond) else date))"

section \<open>Addresses\<close>

type_synonym in_addr = "u8 \<times> u8 \<times> u8 \<times> u8"

record InetAddress =
  sin_addr :: in_addr
  sin_port :: u16

definition INADDR_ANY :: in_addr where "INADDR_ANY = (0, 0, 0, 0)"

fun inet_ntop :: "in_addr \<Rightarrow> string" where
  "inet_ntop (a, b, c, d) = dec (unat a) @ ''.'' @ dec (unat b) @ ''.'' @ dec (unat c) @ ''.'' @ dec (unat d)"

fun split_on :: "char \<Rightarrow> string \<Rightarrow> string list" where
  "split_on d [] = [[]]"
| "split_on d (c # cs) =
     (if c = d then [] # split_on d cs
      else case split_on d cs of [] \<Rightarrow> [[c]] | x # xs \<Rightarrow> (c # x) # xs)"

definition octet :: "string \<Rightarrow> u8 option" where
  "octet s =
     (if s \<noteq> [] \<and> list_all is_digit s \<and> (hd s = CHR ''0'' \<longrightarrow> length s = 1) \<and> digits_value_of s < 256
      then Some (of_nat (digits_value_of s)) else None)"

definition inet_pton :: "string \<Rightarrow> in_addr option" where
  "inet_pton s =
     (case map octet (split_on (CHR ''.'') s) of
        [Some a, Some b, Some c, Some d] \<Rightarrow> Some (a, b, c, d)
      | _ \<Rightarrow> None)"

definition InetAddress_port :: "u16 \<Rightarrow> InetAddress" where
  "InetAddress_port p = \<lparr>sin_addr = INADDR_ANY, sin_port = htons p\<rparr>"

text \<open>An address that does not parse is left as \<open>memset\<close> made it.\<close>

definition InetAddress_ip :: "string \<Rightarrow> u16 \<Rightarrow> InetAddress" where
  "InetAddress_ip ip p = \<lparr>sin_addr = opt_default (0, 0, 0, 0) (inet_pton (c_str ip)), sin_port = htons p\<rparr>"

definition toIp :: "InetAddress \<Rightarrow> string" where
  "toIp a = inet_ntop (sin_addr a)"

definition port :: "InetAddress \<Rightarrow> u16" where
  "port a = htons (sin_port a)"

definition toIpPort :: "InetAddress \<Rightarrow> string" where
  "toIpPort a = snprintf 128 (inet_ntop (sin_addr a) @ '':'' @ dec (unat (port a)))"

section \<open>The text of an address determines it\<close>

lemma split_on_join: "d \<notin> set x \<Longrightarrow> split_on d (x @ d # y) = x # split_on d y"
  by (induction x) auto

lemma split_on_last: "d \<notin> set x \<Longrightarrow> split_on d x = [x]"
  by (induction x) auto

lemma dec_no_char: "\<not> is_digit c \<Longrightarrow> c \<notin> set (dec n)"
  using dec_all_digits by blast

lemma dec_leading: "hd (dec n) = CHR ''0'' \<Longrightarrow> length (dec n) = 1" if "n < 256" for n
proof -
  have "list_all (\<lambda>n. hd (dec n) = CHR ''0'' \<longrightarrow> length (dec n) = 1) [0..<256]" by code_simp
  with that show "hd (dec n) = CHR ''0'' \<Longrightarrow> length (dec n) = 1" by (simp add: list_all_iff)
qed

lemma octet_dec: "octet (dec (unat (b :: u8))) = Some b"
proof -
  have b: "unat b < 256" using unsigned_less [of b, where ?'a = nat] by simp
  have "list_all is_digit (dec (unat b))" using dec_all_digits by (simp add: list_all_iff)
  then show ?thesis using b dec_leading [OF b] by (simp add: octet_def digits_value_of_dec)
qed

lemma pton_ntop: "inet_pton (inet_ntop a) = Some a"
proof (cases a)
  case (fields a1 a2 a3 a4)
  have "CHR ''.'' \<notin> set (dec n)" for n by (rule dec_no_char) (simp add: is_digit_def)
  then show ?thesis by (simp add: fields inet_pton_def split_on_join split_on_last octet_dec)
qed

lemma ntop_no_zero: "CHR 0x00 \<notin> set (inet_ntop a)"
  by (cases a) (simp add: dec_no_char is_digit_def)

lemma htons_htons: "htons (htons x) = x"
  by (simp only: htons_def [of "htons x"] unat_htons) (simp add: le_bytes_be_nat flip: be_bytes_def)

theorem address_roundtrip: "InetAddress_ip (toIp a) (port a) = a"
  by (simp add: InetAddress_ip_def toIp_def port_def c_str_id ntop_no_zero pton_ntop htons_htons)

text \<open>
  So the rate limiter that keeps a bucket per address text keeps one per address. An address that does not
  parse is not refused: it becomes the address that means every interface.
\<close>

theorem bad_address_listens_everywhere: "inet_pton (c_str ip) = None \<Longrightarrow> InetAddress_ip ip p = InetAddress_port p"
  by (simp add: InetAddress_ip_def InetAddress_port_def INADDR_ANY_def)

end
