(* ===== verification/Startup.thy ===== *)
theory Startup
  imports Config ServerSafety MySqlRefinement
begin

text \<open>
  \<open>src/server_full.cpp\<close>, the first part of \<open>main\<close>: the command line, the settings read from the
  configuration file with their defaults, the choice of the message store, the clients of MySQL and Redis,
  and the wiring of the services, up to the server that the packet and connection callbacks act on. The
  build's options are an argument, as are the file system and the libraries. An exception that leaves
  \<open>main\<close> is \<open>None\<close>. Log lines are left out.
\<close>

section \<open>The command line and the settings\<close>

text \<open>The path of the configuration, or \<open>None\<close> where the usage is printed.\<close>

fun parse_args :: "string list \<Rightarrow> string \<Rightarrow> string option" where
  "parse_args [] configPath = Some configPath"
| "parse_args [arg] configPath = (if arg = ''--help'' \<or> arg = ''-h'' then None else Some configPath)"
| "parse_args (arg # next # rest) configPath =
     (if arg = ''--config'' \<or> arg = ''-c'' then parse_args rest next
      else if arg = ''--help'' \<or> arg = ''-h'' then None
      else parse_args (next # rest) configPath)"

datatype log_level = Trace | Debug | Info | Warn | Err | Critical

definition parseLogLevel :: "string \<Rightarrow> log_level" where
  "parseLogLevel levelName =
     (let lowered = ToLower levelName in
      if lowered = ''trace'' then Trace
      else if lowered = ''debug'' then Debug
      else if lowered = ''warn'' \<or> lowered = ''warning'' then Warn
      else if lowered = ''error'' then Err
      else if lowered = ''critical'' \<or> lowered = ''fatal'' then Critical
      else Info)"

record log_settings =
  st_logPath :: string
  st_logLevel :: log_level
  st_logMaxFileSize :: u64
  st_logMaxFiles :: u64

definition read_log_settings :: "Config \<Rightarrow> log_settings" where
  "read_log_settings config =
     \<lparr>st_logPath = getString ''log'' ''path'' ''logs/server_full.log'' config,
      st_logLevel = parseLogLevel (getString ''log'' ''level'' ''info'' config),
      st_logMaxFileSize = word_of_int (getInt ''log'' ''max_file_size'' (100 * 1024 * 1024) config),
      st_logMaxFiles = word_of_int (getInt ''log'' ''max_files'' 3 config)\<rparr>"

record settings =
  st_port :: int
  st_workerThreads :: int
  st_heartbeatTimeout :: int
  st_heartbeatInterval :: int
  st_maxConnections :: int
  st_maxQps :: int
  st_epollMode :: string
  st_tcpNoDelay :: bool
  st_highWaterMarkBytes :: int
  st_lowWaterMarkBytes :: int
  st_maxOutputBufferBytes :: int
  st_payloadFormatStr :: string
  st_compatibleJson :: bool
  st_protocolVersion :: int
  st_clusterEnabled :: bool
  st_nodeId :: string
  st_nodeAliveTtlSeconds :: int
  st_routeTtlSeconds :: int
  st_mysqlEnabled :: bool
  st_mysql :: MySqlStoreOptions
  st_reliableRetryIntervalMs :: int
  st_reliableAckTimeoutMs :: int
  st_reliableRetryBackoffMs :: int
  st_reliableMaxRetryCount :: int
  st_reliableRetryBatchSize :: int
  st_rateLimitEnabled :: bool
  st_maxConnectPerIpPerSec :: int
  st_loginQps :: int
  st_p2pQps :: int
  st_broadcastQps :: int
  st_userSendPerSec :: int
  st_circuitBreakerEnabled :: bool
  st_threadPoolFailureThreshold :: int
  st_halfOpenAfterMs :: int
  st_authTimeoutSeconds :: int
  st_idleTimeoutSeconds :: int
  st_slowConsumerKickSeconds :: int
  st_metricsEnabled :: bool
  st_metricsBind :: string
  st_metricsPort :: int
  st_metricsPath :: string
  st_businessMaxQueueSize :: int

definition read_settings :: "Config \<Rightarrow> settings" where
  "read_settings config =
     \<lparr>st_port = getInt ''server'' ''port'' 8888 config,
      st_workerThreads = getInt ''server'' ''worker_threads'' 4 config,
      st_heartbeatTimeout = getInt ''heartbeat'' ''timeout'' 30 config,
      st_heartbeatInterval = getInt ''heartbeat'' ''interval'' 10 config,
      st_maxConnections = getInt ''overload'' ''max_connections'' 10000 config,
      st_maxQps = getInt ''overload'' ''max_qps'' 100000 config,
      st_epollMode = getString ''net'' ''epoll_mode'' ''lt'' config,
      st_tcpNoDelay = getBool ''net'' ''tcp_nodelay'' True config,
      st_highWaterMarkBytes = getInt ''net'' ''high_water_mark_bytes'' (1024 * 1024) config,
      st_lowWaterMarkBytes = getInt ''net'' ''low_water_mark_bytes'' (256 * 1024) config,
      st_maxOutputBufferBytes = getInt ''net'' ''max_output_buffer_bytes'' (4 * 1024 * 1024) config,
      st_payloadFormatStr = getString ''protocol'' ''payload_format'' ''json'' config,
      st_compatibleJson = getBool ''protocol'' ''compatible_json'' True config,
      st_protocolVersion = getInt ''protocol'' ''version'' (uint kProtocolVersionV1) config,
      st_clusterEnabled = getBool ''cluster'' ''enabled'' False config,
      st_nodeId = getString ''cluster'' ''node_id'' ''node-1'' config,
      st_nodeAliveTtlSeconds = getInt ''cluster'' ''node_alive_ttl_seconds'' 15 config,
      st_routeTtlSeconds = getInt ''cluster'' ''route_ttl_seconds'' 30 config,
      st_mysqlEnabled = getBool ''mysql'' ''enabled'' False config,
      st_mysql = \<lparr>mo_enabled = True, mo_host = getString ''mysql'' ''host'' ''127.0.0.1'' config,
        mo_port = getInt ''mysql'' ''port'' 3306 config, mo_user = getString ''mysql'' ''user'' ''root'' config,
        mo_password = getString ''mysql'' ''password'' [] config,
        mo_database = getString ''mysql'' ''database'' ''im_server'' config,
        mo_connectTimeoutMs = getInt ''mysql'' ''connect_timeout_ms'' 2000 config\<rparr>,
      st_reliableRetryIntervalMs = getInt ''reliable'' ''retry_interval_ms'' 5000 config,
      st_reliableAckTimeoutMs = getInt ''reliable'' ''ack_timeout_ms'' 15000 config,
      st_reliableRetryBackoffMs = getInt ''reliable'' ''retry_backoff_ms'' 3000 config,
      st_reliableMaxRetryCount = getInt ''reliable'' ''max_retry_count'' 5 config,
      st_reliableRetryBatchSize = getInt ''reliable'' ''retry_batch_size'' 200 config,
      st_rateLimitEnabled = getBool ''rate_limit'' ''enable'' False config,
      st_maxConnectPerIpPerSec = getInt ''rate_limit'' ''max_connect_per_ip_per_sec'' 20 config,
      st_loginQps = getInt ''rate_limit'' ''login_qps'' 2000 config,
      st_p2pQps = getInt ''rate_limit'' ''p2p_qps'' 10000 config,
      st_broadcastQps = getInt ''rate_limit'' ''broadcast_qps'' 200 config,
      st_userSendPerSec = getInt ''rate_limit'' ''user_send_per_sec'' 50 config,
      st_circuitBreakerEnabled = getBool ''circuit_breaker'' ''enable'' True config,
      st_threadPoolFailureThreshold = getInt ''circuit_breaker'' ''thread_pool_failure_threshold'' 10 config,
      st_halfOpenAfterMs = getInt ''circuit_breaker'' ''half_open_after_ms'' 5000 config,
      st_authTimeoutSeconds = getInt ''connection'' ''auth_timeout_seconds'' 10 config,
      st_idleTimeoutSeconds = getInt ''connection'' ''idle_timeout_seconds'' 300 config,
      st_slowConsumerKickSeconds = getInt ''connection'' ''slow_consumer_kick_seconds'' 30 config,
      st_metricsEnabled = getBool ''metrics'' ''enable'' False config,
      st_metricsBind = getString ''metrics'' ''bind'' ''0.0.0.0'' config,
      st_metricsPort = getInt ''metrics'' ''port'' 9100 config,
      st_metricsPath = getString ''metrics'' ''path'' ''/metrics'' config,
      st_businessMaxQueueSize = getInt ''thread_pool'' ''max_queue_size'' 10000 config\<rparr>"

text \<open>A conversion from \<open>int\<close> to \<open>size_t\<close>: a negative number becomes a huge one.\<close>

definition size_of_int :: "int \<Rightarrow> nat" where
  "size_of_int i = unat (word_of_int i :: u64)"

definition payload_format :: "bool \<Rightarrow> settings \<Rightarrow> PayloadFormat" where
  "payload_format protobufAvailable st =
     (let f = parsePayloadFormat (st_payloadFormatStr st) in
      if f = Protobuf \<and> \<not> protobufAvailable then Json else f)"

section \<open>The stores and the clients\<close>

text \<open>
  The message store and the client of the session repository. A store that fails to initialise is
  released at the end of the block, after the session client has connected, and its client disconnects.
\<close>

definition choose_store ::
    "('h, 'w) mysql_lib \<Rightarrow> settings \<Rightarrow> 'w \<Rightarrow>
     ((InMemoryMessageStore + 'h MySqlMessageStore) \<times> 'h MySqlClient option \<times> 'w) option" where
  "choose_store lib st w =
     (if \<not> st_mysqlEnabled st then Some (Inl InMemoryMessageStore_init, None, w)
      else do {
        (res, store, w) \<leftarrow> store_init lib (MySqlMessageStore_init (st_mysql st), w);
        let (ok, client, w) = MySqlClient.connect lib (mo_host (st_mysql st)) (mo_port (st_mysql st)) (mo_user (st_mysql st))
          (mo_password (st_mysql st)) (mo_database (st_mysql st)) (mo_connectTimeoutMs (st_mysql st)) (MySqlClient_init, w);
        let sessions = (if ok then Some client else None);
        case res of
          Inr _ \<Rightarrow> Some (Inr store, sessions, w)
        | Inl _ \<Rightarrow> Some (Inl InMemoryMessageStore_init, sessions, snd (MySqlClient.disconnect lib (my_client store, w)))
      })"

definition open_redis :: "bool \<Rightarrow> 'w hiredis \<Rightarrow> Config \<Rightarrow> 'w \<Rightarrow> RedisClient option \<times> 'w" where
  "open_redis useRedis lib config w =
     (if useRedis \<and> getBool ''redis'' ''enabled'' False config
      then case RedisClient.connect lib (getString ''redis'' ''host'' ''127.0.0.1'' config) (getInt ''redis'' ''port'' 6379 config)
             (getInt ''redis'' ''timeout_ms'' 2000 config) (RedisClient_init, w) of
           (ok, c, w) \<Rightarrow> if ok then (Some c, w) else (None, snd (RedisClient.disconnect lib (c, w)))
      else (None, w))"

section \<open>Wiring\<close>

definition wire_auth :: "Config \<Rightarrow> settings \<Rightarrow> 'h MySqlClient option \<Rightarrow> RedisClient option \<Rightarrow> AuthService" where
  "wire_auth config st sessions redis =
     (let a = AuthService.setNodeId (st_nodeId st) AuthService_init;
          a = (if sessions \<noteq> None then AuthService.setSessionRepository True a else a) in
      case redis of
        None \<Rightarrow> a
      | Some c \<Rightarrow> setSessionExpire (getInt ''redis'' ''session_expire'' 86400 config) (AuthService.setRedisClient (Some c) a))"

definition wire_routing :: "settings \<Rightarrow> RedisClient option \<Rightarrow> RoutingService" where
  "wire_routing st redis =
     (case redis of
        None \<Rightarrow> RoutingService_init
      | Some _ \<Rightarrow> setRouteTtlSeconds (st_routeTtlSeconds st)
          (RoutingService.setNodeId (st_nodeId st) (RoutingService.setRedisClient True RoutingService_init)))"

definition wire_overload :: "ms \<Rightarrow> ms \<Rightarrow> settings \<Rightarrow> OverloadProtectService" where
  "wire_overload t1 t2 st =
     (let s = OverloadProtectService_init t1 (word_of_int (st_maxConnections st)) (word_of_int (st_maxQps st));
          s = configureIpConnectRate (of_int (st_maxConnectPerIpPerSec st)) (setRateLimitEnabled (st_rateLimitEnabled st) s);
          s = configureCommandRates t2 (of_int (st_loginQps st)) (of_int (st_p2pQps st)) (of_int (st_broadcastQps st)) s in
      configureUserSendRate (of_int (st_userSendPerSec st)) s)"

definition wire_breaker :: "settings \<Rightarrow> CircuitBreaker" where
  "wire_breaker st =
     CircuitBreaker_init (st_circuitBreakerEnabled st) (word_of_int (st_threadPoolFailureThreshold st)) (st_halfOpenAfterMs st)"

definition wire_message ::
    "settings \<Rightarrow> bool \<Rightarrow> (P2PMsgNotify \<Rightarrow> string) \<Rightarrow> (BroadcastMsgNotify \<Rightarrow> string) \<Rightarrow> conn_ref MessageService" where
  "wire_message st sessions encP encB =
     (let m = MessageService.setSessionRepository sessions (setMessageStore True MessageService_init);
          m = setRetryConfig (st_reliableRetryIntervalMs st) (size_of_int (st_reliableRetryBatchSize st)) m;
          m = setRetryPolicy (st_reliableAckTimeoutMs st) (st_reliableRetryBackoffMs st)
                (word_of_int (st_reliableMaxRetryCount st)) m in
      setBroadcastNotifyEncoder encB (setP2PNotifyEncoder encP m))"

definition wire_heartbeat :: "settings \<Rightarrow> RedisClient option \<Rightarrow> HeartbeatService" where
  "wire_heartbeat st redis =
     (let h = HeartbeatService_init (st_heartbeatTimeout st) (st_heartbeatInterval st);
          h = (case redis of
                 None \<Rightarrow> h
               | Some c \<Rightarrow> setThreadPool True (HeartbeatService.setRedisClient (Some (isConnected c)) h));
          h = setNodeAliveTtlSeconds (st_nodeAliveTtlSeconds st) (HeartbeatService.setNodeId (st_nodeId st) h) in
      setKickCallback
        (setConnectionGovernance (st_authTimeoutSeconds st) (st_idleTimeoutSeconds st) (st_slowConsumerKickSeconds st) h))"

definition wire_metrics :: "settings \<Rightarrow> MetricsRegistry" where
  "wire_metrics st =
     (let r = setEnabled (st_metricsEnabled st) MetricsRegistry_init;
          r = setGauge ''im_online_connections'' 0 ''Current accepted connections'' r;
          r = setGauge ''im_threadpool_queue_size'' 0 ''Current thread pool queue size'' r in
      setGauge ''im_output_buffer_bytes'' 0 ''Latest observed connection output buffer bytes'' r)"

record ('h, 'w) wiring =
  wr_settings :: settings
  wr_payloadFormat :: PayloadFormat
  wr_metricsServer :: "(string \<times> int \<times> string) option"
  wr_auth :: AuthService
  wr_backend :: "('h, 'w) backend"
  wr_routing :: RoutingService
  wr_overload :: OverloadProtectService
  wr_breaker :: CircuitBreaker
  wr_heartbeat :: HeartbeatService
  wr_message :: "conn_ref MessageService"
  wr_metrics :: MetricsRegistry
  wr_store :: "InMemoryMessageStore + 'h MySqlMessageStore"
  wr_edgeTrigger :: bool
  wr_listenPort :: u16

datatype ('h, 'w) outcome = Exit int | Running "('h, 'w) wiring"

text \<open>The server the callbacks act on, when the threads of the services have been started.\<close>

definition serve :: "('h, 'w) wiring \<Rightarrow> 's \<Rightarrow> ('h, 'w, 's) server" where
  "serve wr store =
     \<lparr>sv_auth = wr_auth wr, sv_backend = wr_backend wr, sv_routing = wr_routing wr, sv_overload = wr_overload wr,
      sv_breaker = wr_breaker wr, sv_heartbeat = snd (HeartbeatService.start (wr_heartbeat wr)),
      sv_message = snd (MessageService.start (wr_message wr)), sv_store = store, sv_world = \<lparr>w_tick = 0, w_log = []\<rparr>,
      sv_metrics = wr_metrics wr, sv_poolRunning = True,
      sv_maxQueueSize = size_of_int (st_businessMaxQueueSize (wr_settings wr)), sv_queue = [],
      sv_forceClosed = [], sv_limits = []\<rparr>"

text \<open>The environment of the handlers: the libraries and the settings they capture.\<close>

definition handler_env ::
    "('h, 'w, 'j) auth_env \<Rightarrow> conn_ref env \<Rightarrow> (nat \<Rightarrow> u64) \<Rightarrow> 's IMessageStore \<Rightarrow> pb_lib \<Rightarrow> ('h, 'w) wiring \<Rightarrow>
     ('h, 'w, 'j, 's) server_env" where
  "handler_env libs outside random store pb wr =
     (let st = wr_settings wr in
      \<lparr>sn_auth = libs, sn_outside = outside, sn_random = random, sn_store = store, sn_pb = pb,
       sn_payloadFormat = wr_payloadFormat wr, sn_compatibleJson = st_compatibleJson st, sn_nodeId = st_nodeId st,
       sn_clusterEnabled = st_clusterEnabled st, sn_highWaterMark = size_of_int (st_highWaterMarkBytes st),
       sn_lowWaterMark = size_of_int (st_lowWaterMarkBytes st),
       sn_maxOutputBufferBytes = size_of_int (st_maxOutputBufferBytes st)\<rparr>)"

record build =
  bd_useRedis :: bool
  bd_haveProtobuf :: bool

definition assemble ::
    "build \<Rightarrow> (P2PMsgNotify \<Rightarrow> string) \<Rightarrow> (BroadcastMsgNotify \<Rightarrow> string) \<Rightarrow> ms \<Rightarrow> ms \<Rightarrow> Config \<Rightarrow>
     InMemoryMessageStore + 'h MySqlMessageStore \<Rightarrow> 'h MySqlClient option \<Rightarrow> RedisClient option \<Rightarrow> 'w \<Rightarrow> ('h, 'w) wiring" where
  "assemble bd encP encB t1 t2 config store sessions redis w =
     (let st = read_settings config in
      \<lparr>wr_settings = st, wr_payloadFormat = payload_format (bd_haveProtobuf bd) st,
       wr_metricsServer = (if st_metricsEnabled st then Some (st_metricsBind st, st_metricsPort st, st_metricsPath st) else None),
       wr_auth = wire_auth config st sessions redis,
       wr_backend = \<lparr>be_redis = (case redis of None \<Rightarrow> RedisClient_init | Some c \<Rightarrow> c),
         be_mysql = (case sessions of None \<Rightarrow> MySqlClient_init | Some c \<Rightarrow> c), be_world = w\<rparr>,
       wr_routing = wire_routing st redis, wr_overload = wire_overload t1 t2 st, wr_breaker = wire_breaker st,
       wr_heartbeat = wire_heartbeat st redis, wr_message = wire_message st (sessions \<noteq> None) encP encB,
       wr_metrics = wire_metrics st, wr_store = store, wr_edgeTrigger = (ToLower (st_epollMode st) = ''et''),
       wr_listenPort = word_of_int (st_port st)\<rparr>)"

definition wire ::
    "build \<Rightarrow> ('h, 'w, 'j) auth_env \<Rightarrow> (P2PMsgNotify \<Rightarrow> string) \<Rightarrow> (BroadcastMsgNotify \<Rightarrow> string) \<Rightarrow> ms \<Rightarrow> ms \<Rightarrow>
     Config \<Rightarrow> 'w \<Rightarrow> ('h, 'w) wiring option" where
  "wire bd libs encP encB t1 t2 config w = do {
     (store, sessions, w) \<leftarrow> choose_store (ae_mysql libs) (read_settings config) w;
     let (redis, w) = open_redis (bd_useRedis bd) (ae_redis libs) config w;
     Some (assemble bd encP encB t1 t2 config store sessions redis w)
   }"

definition startup ::
    "build \<Rightarrow> ('h, 'w, 'j) auth_env \<Rightarrow> (P2PMsgNotify \<Rightarrow> string) \<Rightarrow> (BroadcastMsgNotify \<Rightarrow> string) \<Rightarrow> ms \<Rightarrow> ms \<Rightarrow>
     (string \<rightharpoonup> string) \<Rightarrow> string list \<Rightarrow> 'w \<Rightarrow> ('h, 'w) outcome option" where
  "startup bd libs encP encB t1 t2 files args w =
     (case parse_args args ''conf/server.ini'' of
        None \<Rightarrow> Some (Exit 0)
      | Some configPath \<Rightarrow>
          (case load files configPath Config_init of
             (ok, config) \<Rightarrow>
               if \<not> ok then Some (Exit (- 1))
               else map_option Running (wire bd libs encP encB t1 t2 config w)))"

section \<open>What the services are wired to\<close>

lemma mysql_connect_ok: "MySqlClient.connect lib h p u pw d t cw = (ok, c, w) \<Longrightarrow> mc_impl (fst cw) = None \<Longrightarrow> ok \<longleftrightarrow> MySqlClient.connected c"
  by (cases cw) (auto simp: MySqlClient.connect_def MySqlClient.disconnect_def MySqlClient.connected_def setLastError_def Let_def
      split: option.splits prod.splits if_splits)

lemma redis_connect_ok: "RedisClient.connect lib h p t cw = (ok, c, w) \<Longrightarrow> ok \<Longrightarrow> isConnected c"
  by (cases cw) (auto simp: RedisClient.connect_def isConnected_def Let_def split: option.splits prod.splits if_splits)

lemma query_keeps_impl: "query lib sql cw = (ok, rows, c, w) \<Longrightarrow> mc_impl c = mc_impl (fst cw)"
  by (cases cw) (auto simp: query_def setLastError_def split: option.splits prod.splits if_splits)

lemma query_statement_connected:
  assumes "query_statement lib st (c, w) = (ok, rows, e, c', w')" "MySqlClient.connected c"
  shows "MySqlClient.connected c'"
proof -
  obtain h where h: "mc_impl c = Some h" using assms(2) by (auto simp: MySqlClient.connected_def)
  have "\<exists>sql ok' rows' w''. query lib sql (c, w) = (ok', rows', c', w'')"
    using assms(1) sql_text_connected [OF h, of lib "statement_parts st" w]
    by (auto simp: query_statement_def Let_def split: prod.splits if_splits)
  then show ?thesis using assms(2) query_keeps_impl by (fastforce simp: MySqlClient.connected_def)
qed

lemma max_id_connected:
  assumes "getMaxMessageId lib (c, w) = Some (n, e, c', w')" "MySqlClient.connected c"
  shows "MySqlClient.connected c'"
proof -
  obtain ok rows e0 c1 w1 where q: "query_statement lib MaxMessageId (c, w) = (ok, rows, e0, c1, w1)"
    by (metis prod_cases5)
  with assms(1) have "c' = c1" by (auto simp: getMaxMessageId_def first_number_def bind_eq_Some_conv split: if_splits list.splits)
  with query_statement_connected [OF q assms(2)] show ?thesis by simp
qed

lemma store_init_ready:
  assumes "store_init lib (MySqlMessageStore_init opts, w) = Some (Inr (), s, w')"
  shows "store_ready s"
proof -
  let ?o = "MySqlMessageStore_init opts"
  obtain ok c w1 where k: "MySqlClient.connect lib (mo_host opts) (mo_port opts) (mo_user opts) (mo_password opts)
      (mo_database opts) (mo_connectTimeoutMs opts) (my_client ?o, w) = (ok, c, w1)" by (metis prod_cases3)
  with assms have ok: "ok" and l: "loadMaxMessageId lib (?o\<lparr>my_client := c, my_repositories := True\<rparr>, w1) = Some (Inr (), s, w')"
    by (auto simp: store_init_def with_client_def MySqlMessageStore_init_def split: if_splits)
  have "MySqlClient.connected c" using mysql_connect_ok [OF k] ok by (simp add: MySqlMessageStore_init_def MySqlClient_init_def)
  with l show ?thesis
    by (auto simp: loadMaxMessageId_def with_read_def bind_eq_Some_conv store_ready_def split: if_splits
        dest!: max_id_connected simp: MySqlClient.connected_def)
qed

lemma open_redis_connected: "open_redis b lib config w = (Some c, w') \<Longrightarrow> isConnected c"
  by (auto simp: open_redis_def dest: redis_connect_ok split: if_splits prod.splits)

lemma choose_store_cases:
  assumes "choose_store lib st w = Some (store, sessions, w')"
  obtains (memory) "\<not> st_mysqlEnabled st" "store = Inl InMemoryMessageStore_init" "sessions = None"
  | (mysql) res s w1 ok c w2 where "st_mysqlEnabled st" "store_init lib (MySqlMessageStore_init (st_mysql st), w) = Some (res, s, w1)"
      "MySqlClient.connect lib (mo_host (st_mysql st)) (mo_port (st_mysql st)) (mo_user (st_mysql st))
        (mo_password (st_mysql st)) (mo_database (st_mysql st)) (mo_connectTimeoutMs (st_mysql st)) (MySqlClient_init, w1) = (ok, c, w2)"
      "sessions = (if ok then Some c else None)" "store = (case res of Inl _ \<Rightarrow> Inl InMemoryMessageStore_init | Inr _ \<Rightarrow> Inr s)"
proof (cases "st_mysqlEnabled st")
  case True
  with assms obtain res s w1 where i: "store_init lib (MySqlMessageStore_init (st_mysql st), w) = Some (res, s, w1)"
    by (auto simp: choose_store_def bind_eq_Some_conv)
  obtain ok c w2 where k: "MySqlClient.connect lib (mo_host (st_mysql st)) (mo_port (st_mysql st)) (mo_user (st_mysql st))
      (mo_password (st_mysql st)) (mo_database (st_mysql st)) (mo_connectTimeoutMs (st_mysql st)) (MySqlClient_init, w1) = (ok, c, w2)"
    by (metis prod_cases3)
  show ?thesis using assms True i k by (intro mysql [OF True i k]) (auto simp: choose_store_def Let_def split: sum.splits)
qed (use assms in \<open>simp add: choose_store_def memory\<close>)

lemma choose_store_sessions:
  assumes "choose_store lib st w = Some (store, sessions, w')"
  shows "case sessions of None \<Rightarrow> True | Some c \<Rightarrow> MySqlClient.connected c"
  using assms by (cases rule: choose_store_cases) (auto simp: MySqlClient_init_def dest: mysql_connect_ok split: if_splits)

lemma choose_store_ready:
  assumes "choose_store lib st w = Some (store, sessions, w')"
  shows "case store of Inl m \<Rightarrow> m = InMemoryMessageStore_init | Inr s \<Rightarrow> st_mysqlEnabled st \<and> store_ready s"
  using assms by (cases rule: choose_store_cases) (auto split: sum.splits dest: store_init_ready)

lemmas wire_defs = wire_auth_def AuthService.setNodeId_def AuthService_init_def AuthService.setSessionRepository_def
  AuthService.setRedisClient_def setSessionExpire_def wire_routing_def RoutingService_init_def RoutingService.setNodeId_def
  RoutingService.setRedisClient_def setRouteTtlSeconds_def wire_message_def MessageService_init_def setMessageStore_def
  MessageService.setSessionRepository_def setRetryConfig_def setRetryPolicy_def setP2PNotifyEncoder_def
  setBroadcastNotifyEncoder_def wire_heartbeat_def HeartbeatService_init_def setThreadPool_def
  HeartbeatService.setRedisClient_def HeartbeatService.setNodeId_def setNodeAliveTtlSeconds_def
  setConnectionGovernance_def setKickCallback_def

text \<open>The clients a wired server has are the ones its services believe they have.\<close>

definition wired_ok :: "('h, 'w) wiring \<Rightarrow> bool" where
  "wired_ok wr \<longleftrightarrow>
     (let mysql = MySqlClient.connected (be_mysql (wr_backend wr)); redis = isConnected (be_redis (wr_backend wr)) in
      as_hasSessionRepository (wr_auth wr) = mysql \<and> ms_hasSessionRepository (wr_message wr) = mysql \<and>
      as_hasRedisClient (wr_auth wr) = redis \<and> as_useRedis (wr_auth wr) = redis \<and> rs_hasRedisClient (wr_routing wr) = redis \<and>
      hb_useRedis (wr_heartbeat wr) = redis \<and> hb_hasThreadPool (wr_heartbeat wr) = redis \<and> ms_hasStore (wr_message wr))"

lemma wireE:
  assumes "wire bd libs encP encB t1 t2 config w = Some wr"
  obtains store sessions w1 redis w2 where "choose_store (ae_mysql libs) (read_settings config) w = Some (store, sessions, w1)"
    "open_redis (bd_useRedis bd) (ae_redis libs) config w1 = (redis, w2)"
    "wr = assemble bd encP encB t1 t2 config store sessions redis w2"
proof -
  from assms obtain store sessions w1 where c: "choose_store (ae_mysql libs) (read_settings config) w = Some (store, sessions, w1)"
    by (auto simp: wire_def bind_eq_Some_conv)
  obtain redis w2 where r: "open_redis (bd_useRedis bd) (ae_redis libs) config w1 = (redis, w2)" by fastforce
  show ?thesis using assms by (intro that [OF c r]) (simp add: wire_def c r)
qed

lemma wire_ok:
  assumes "wire bd libs encP encB t1 t2 config w = Some wr"
  shows "wired_ok wr"
  using assms
proof (cases rule: wireE)
  case (1 store sessions w1 redis w2)
  have m: "MySqlClient.connected (be_mysql (wr_backend wr)) \<longleftrightarrow> sessions \<noteq> None"
    using choose_store_sessions [OF 1(1)]
    by (auto simp: 1(3) assemble_def Let_def MySqlClient_init_def MySqlClient.connected_def split: option.splits)
  have c: "case redis of None \<Rightarrow> True | Some c \<Rightarrow> isConnected c"
    using open_redis_connected 1(2) by (fastforce split: option.splits)
  then have d: "isConnected (be_redis (wr_backend wr)) \<longleftrightarrow> redis \<noteq> None"
    by (auto simp: 1(3) assemble_def Let_def RedisClient_init_def isConnected_def split: option.splits)
  show ?thesis unfolding wired_ok_def m d Let_def
    using c by (auto simp: 1(3) assemble_def Let_def wire_defs split: option.splits)
qed

lemma wire_store:
  assumes "wire bd libs encP encB t1 t2 config w = Some wr"
  shows "case wr_store wr of Inl m \<Rightarrow> fresh_server (serve wr m) | Inr s \<Rightarrow> st_mysqlEnabled (wr_settings wr) \<and> store_ready s"
  using assms
proof (cases rule: wireE)
  case (1 store sessions w1 redis w2)
  have "as_connToUser (wr_auth wr) = []" "ms_userToConn (wr_message wr) = []"
    by (simp_all add: 1(3) assemble_def Let_def wire_defs split: option.splits)
  with choose_store_ready [OF 1(1)] show ?thesis
    by (auto simp: 1(3) assemble_def Let_def fresh_server_def serve_def MessageService.start_def split: sum.splits)
qed


text \<open>A file that sets two limits, read by a build without libraries.\<close>

definition small_ini :: "ini_item list" where
  "small_ini = [Header [] [] ''overload'' [] [], Entry [] ''max_connections'' '' '' '' '' ''5'' []]"

lemma small_file:
  "setting (cfg_data (snd (load [''a.ini'' \<mapsto> ini_text small_ini] ''a.ini'' Config_init))) = [(''overload'', ''max_connections'') \<mapsto> ''5'']"
  "fst (load [''a.ini'' \<mapsto> ini_text small_ini] ''a.ini'' Config_init)"
proof -
  have ok: "list_all ini_ok small_ini" by (simp add: small_ini_def padding_def Config.trimmed_def is_blank_def)
  have f: "[''a.ini'' \<mapsto> ini_text small_ini] ''a.ini'' = Some (ini_text small_ini)" by simp
  show "setting (cfg_data (snd (load [''a.ini'' \<mapsto> ini_text small_ini] ''a.ini'' Config_init))) = [(''overload'', ''max_connections'') \<mapsto> ''5'']"
    using load_setting(2) [of "[''a.ini'' \<mapsto> ini_text small_ini]", OF f ok] by (simp add: small_ini_def)
  show "fst (load [''a.ini'' \<mapsto> ini_text small_ini] ''a.ini'' Config_init)"
    using load_setting(1) [of "[''a.ini'' \<mapsto> ini_text small_ini]", OF f ok] by simp
qed


end
