(* ===== verification/SmallServer.thy ===== *)
theory SmallServer
  imports ServerReplies Startup
begin

text \<open>
  \<open>src/server.cpp\<close>: the first, smaller server. It answers log-ins and heartbeats on the loop thread itself,
  with JSON payloads only, and has no message service, rate limiter or breaker. Its state is that of the
  full server, of which it uses the authentication, overload and heartbeat services, the backends, the
  pool (whose queue has no limit) and the log of sent packets. A handler is \<open>None\<close> where the code throws.
\<close>

section \<open>The message callback\<close>

text \<open>
  The request after \<open>serializer::Deserialize\<close>, whose result the callback does not look at: the fields
  assigned before the first one that fails.
\<close>

definition read_LoginReq :: "('j, string) json_lib \<Rightarrow> string \<Rightarrow> LoginReq" where
  "read_LoginReq lib message =
     (let fresh = \<lparr>lreq_userId = [], lreq_token = [], lreq_deviceId = []\<rparr> in
      case jl_parse lib message of
        None \<Rightarrow> fresh
      | Some j \<Rightarrow> (case get_field lib (jl_get_str lib) j ''user_id'' of
          None \<Rightarrow> fresh
        | Some userId \<Rightarrow> (case get_field lib (jl_get_str lib) j ''token'' of
            None \<Rightarrow> fresh\<lparr>lreq_userId := userId\<rparr>
          | Some token \<Rightarrow> \<lparr>lreq_userId = userId, lreq_token = token,
              lreq_deviceId = opt_default [] (contains_field lib (jl_get_str lib) j ''device_id'' [])\<rparr>)))"

text \<open>\<open>Codec::pack\<close> with a command and a sequence number, and \<open>send\<close>.\<close>

definition command_header :: "u16 \<Rightarrow> u32 \<Rightarrow> PacketHeader" where
  "command_header command seqId =
     PacketHeader_default\<lparr>h_command := command, h_flags := GuessFlagsFromCommand command, h_requestId := seqId,
       h_clientSeq := ucast seqId\<rparr>"

definition send_command :: "conn_ref \<Rightarrow> u16 \<Rightarrow> u32 \<Rightarrow> string \<Rightarrow> ('h, 'w, 's) server \<Rightarrow> ('h, 'w, 's) server" where
  "send_command conn command seqId respMsg sv =
     sv\<lparr>sv_world := emit (Sent conn (packed_bytes (command_header command seqId) respMsg)) (sv_world sv)\<rparr>"

definition small_login ::
    "bool \<Rightarrow> ('h, 'w, 'j, 's) server_env \<Rightarrow> conn_ref \<Rightarrow> u32 \<Rightarrow> string \<Rightarrow> ('h, 'w, 's) server \<Rightarrow> ('h, 'w, 's) server option" where
  "small_login useRedis env conn seqId message sv = do {
     let req = read_LoginReq (sn_json env) message;
     let r = sn_random env (w_tick (sv_world sv));
     let (t1, sv) = clock env sv;
     let (t2, sv) = clock env sv;
     ((success, sessionId, errorMsg), au, b) \<leftarrow>
       login (sn_auth env) r t1 t2 conn (lreq_userId req) (lreq_token req) (lreq_deviceId req) (sv_auth sv, sv_backend sv);
     respMsg \<leftarrow> Serialize_LoginResp (sn_json env)
       (login_resp (if success then 0 else 1) (if success then ''success'' else errorMsg) sessionId);
     let sv = send_command conn CmdLoginResp seqId respMsg (sv\<lparr>sv_auth := au, sv_backend := b\<rparr>);
     if success \<and> useRedis
     then (case registerUserId (connId conn) (lreq_userId req) (sv_heartbeat sv) of
       (hb, ev) \<Rightarrow> apply_effects env ev (sv\<lparr>sv_heartbeat := hb\<rparr>))
     else Some sv
   }"

definition small_heartbeat ::
    "('h, 'w, 'j, 's) server_env \<Rightarrow> conn_ref \<Rightarrow> u32 \<Rightarrow> ('h, 'w, 's) server \<Rightarrow> ('h, 'w, 's) server option" where
  "small_heartbeat env conn seqId sv = do {
     let (t1, sv) = clock env sv;
     let (t2, sv) = clock env sv;
     let (hb, ev) = onHeartbeat t1 t2 conn (sv_heartbeat sv);
     sv \<leftarrow> apply_effects env ev (sv\<lparr>sv_heartbeat := hb\<rparr>);
     let (t3, sv) = clock env sv;
     respMsg \<leftarrow> Serialize_HeartbeatResp (sn_json env) \<lparr>hresp_serverTime = t3\<rparr>;
     Some (send_command conn CmdHeartbeatResp seqId respMsg sv)
   }"

definition small_message ::
    "bool \<Rightarrow> ('h, 'w, 'j, 's) server_env \<Rightarrow> conn_ref \<Rightarrow> u16 \<Rightarrow> u32 \<Rightarrow> string \<Rightarrow> ('h, 'w, 's) server \<Rightarrow> ('h, 'w, 's) server option" where
  "small_message useRedis env conn command seqId message sv =
     (if command = CmdLoginReq then small_login useRedis env conn seqId message sv
      else if command = CmdHeartbeatReq then small_heartbeat env conn seqId sv
      else Some sv)"

section \<open>The connection callback\<close>

definition small_up ::
    "('h, 'w, 'j, 's) server_env \<Rightarrow> conn_ref \<Rightarrow> ('h, 'w, 's) server \<Rightarrow> ('h, 'w, 's) server option" where
  "small_up env conn sv =
     (if \<not> canAcceptConnection (sv_overload sv)
      then Some (sv\<lparr>sv_forceClosed := sv_forceClosed sv @ [conn]\<rparr>)
      else
        let sv = sv\<lparr>sv_overload := onConnectionAccepted (sv_overload sv)\<rparr>;
            (t1, sv) = clock env sv; (t2, sv) = clock env sv;
            (hb, ev) = onConnection t1 t2 conn True (sv_heartbeat sv) in
        apply_effects env ev (sv\<lparr>sv_heartbeat := hb\<rparr>))"

definition small_down ::
    "('h, 'w, 'j, 's) server_env \<Rightarrow> conn_ref \<Rightarrow> ('h, 'w, 's) server \<Rightarrow> ('h, 'w, 's) server option" where
  "small_down env conn sv = do {
     let sv = sv\<lparr>sv_overload := onConnectionClosed (sv_overload sv)\<rparr>;
     let (t1, sv) = clock env sv;
     let (t2, sv) = clock env sv;
     let (hb, ev) = onConnection t1 t2 conn False (sv_heartbeat sv);
     sv \<leftarrow> apply_effects env ev (sv\<lparr>sv_heartbeat := hb\<rparr>);
     (au, b) \<leftarrow> logout (sn_auth env) conn (sv_auth sv, sv_backend sv);
     Some (sv\<lparr>sv_auth := au, sv_backend := b\<rparr>)
   }"

section \<open>Histories\<close>

datatype small_op =
    SMessage conn_ref u16 u32 string
  | SUp conn_ref
  | SDown conn_ref
  | STask
  | SHeartbeat

fun small_do :: "bool \<Rightarrow> ('h, 'w, 'j, 's) server_env \<Rightarrow> ('h, 'w, 's) server option \<Rightarrow> small_op \<Rightarrow> ('h, 'w, 's) server option" where
  "small_do useRedis env None a = None"
| "small_do useRedis env (Some sv) (SMessage conn command seqId message) = small_message useRedis env conn command seqId message sv"
| "small_do useRedis env (Some sv) (SUp conn) = small_up env conn sv"
| "small_do useRedis env (Some sv) (SDown conn) = small_down env conn sv"
| "small_do useRedis env (Some sv) STask =
     (case sv_queue sv of [] \<Rightarrow> Some sv | task # queue \<Rightarrow> run_business env task (sv\<lparr>sv_queue := queue\<rparr>))"
| "small_do useRedis env (Some sv) SHeartbeat = heartbeat_thread env sv"

section \<open>Starting\<close>

text \<open>\<open>main\<close> up to the loop; \<open>None\<close> where it returns -1. The components the small server does not have are left as created.\<close>

definition small_start ::
    "bool \<Rightarrow> 'w hiredis \<Rightarrow> ms \<Rightarrow> (string \<rightharpoonup> string) \<Rightarrow> 'w \<Rightarrow> ('h, 'w, InMemoryMessageStore) server option" where
  "small_start useRedis lib t files w =
     (case load files ''conf/server.ini'' Config_init of (ok, config) \<Rightarrow>
        if \<not> ok then None
        else
          let (redis, w) = open_redis useRedis lib config w;
              auth = (case redis of
                 None \<Rightarrow> AuthService_init
               | Some c \<Rightarrow> setSessionExpire (getInt ''redis'' ''session_expire'' 86400 config)
                   (AuthService.setRedisClient (Some c) AuthService_init));
              hb = HeartbeatService_init (getInt ''heartbeat'' ''timeout'' 30 config) (getInt ''heartbeat'' ''interval'' 10 config);
              hb = (case redis of
                 None \<Rightarrow> hb
               | Some c \<Rightarrow> setThreadPool True (HeartbeatService.setRedisClient (Some (isConnected c)) hb)) in
          Some \<lparr>sv_auth = auth,
            sv_backend = \<lparr>be_redis = (case redis of None \<Rightarrow> RedisClient_init | Some c \<Rightarrow> c), be_mysql = MySqlClient_init, be_world = w\<rparr>,
            sv_routing = RoutingService_init,
            sv_overload = OverloadProtectService_init t (word_of_int (getInt ''overload'' ''max_connections'' 10000 config))
              (word_of_int (getInt ''overload'' ''max_qps'' 100000 config)),
            sv_breaker = CircuitBreaker_init True 10 5000, sv_heartbeat = snd (HeartbeatService.start (setKickCallback hb)),
            sv_message = MessageService_init, sv_store = InMemoryMessageStore_init, sv_world = \<lparr>w_tick = 0, w_log = []\<rparr>,
            sv_metrics = MetricsRegistry_init, sv_poolRunning = True, sv_maxQueueSize = 0, sv_queue = [],
            sv_forceClosed = [], sv_limits = []\<rparr>)"

section \<open>What the server owes\<close>

text \<open>The user of every connection, and the replies, as the requests alone determine them.\<close>

fun small_owner :: "('j, string) json_lib \<Rightarrow> small_op \<Rightarrow> (string \<rightharpoonup> string) \<Rightarrow> (string \<rightharpoonup> string)" where
  "small_owner lib (SMessage conn command seqId message) f =
     (let req = read_LoginReq lib message in
      if command = CmdLoginReq \<and> validateToken (lreq_userId req) (lreq_token req)
      then f(connId conn \<mapsto> lreq_userId req) else f)"
| "small_owner lib (SDown conn) f = f(connId conn := None)"
| "small_owner lib _ f = f"

fun small_replies :: "small_op \<Rightarrow> (conn_ref \<times> u16 \<times> u32) list" where
  "small_replies (SMessage conn command seqId message) =
     (if command = CmdLoginReq then [(conn, CmdLoginResp, seqId)]
      else if command = CmdHeartbeatReq then [(conn, CmdHeartbeatResp, seqId)] else [])"
| "small_replies _ = []"

definition is_reply :: "conn_ref \<times> u16 \<times> u32 \<Rightarrow> conn_ref \<times> string \<Rightarrow> bool" where
  "is_reply r p \<longleftrightarrow> (case r of (conn, command, seqId) \<Rightarrow> \<exists>payload. p = (conn, packet_bytes (command_header command seqId) payload))"

fun is_presence :: "business_task \<Rightarrow> bool" where
  "is_presence (PresenceTask cmds) = True"
| "is_presence _ = False"

definition small_ok :: "(string \<rightharpoonup> string) \<Rightarrow> (conn_ref \<times> u16 \<times> u32) list \<Rightarrow> ('h, 'w, 's) server \<Rightarrow> bool" where
  "small_ok f rs sv \<longleftrightarrow> auth_inv f (sv_auth sv) \<and> list_all is_presence (sv_queue sv) \<and> list_all2 is_reply rs (sent sv)"

lemma small_ok_cong:
  "small_ok f rs sv \<Longrightarrow> sv_auth sv' = sv_auth sv \<Longrightarrow> sv_queue sv' = sv_queue sv \<Longrightarrow> sent sv' = sent sv \<Longrightarrow> small_ok f rs sv'"
  by (simp add: small_ok_def)

lemma small_ok_auth: "small_ok f rs sv \<Longrightarrow> auth_inv g au \<Longrightarrow> small_ok g rs (sv\<lparr>sv_auth := au, sv_backend := b\<rparr>)"
  by (simp add: small_ok_def)

lemma small_ok_command: "small_ok f rs sv \<Longrightarrow> redis_command env cmd sv = Some sv' \<Longrightarrow> small_ok f rs sv'"
  by (cases cmd) (auto elim: small_ok_cong)

lemma small_ok_commands: "small_ok f rs sv \<Longrightarrow> redis_commands env cmds sv = Some sv' \<Longrightarrow> small_ok f rs sv'"
  by (induction cmds arbitrary: sv) (auto simp: bind_eq_Some_conv dest: small_ok_command)

lemma small_ok_effect: "small_ok f rs sv \<Longrightarrow> apply_effect env e sv = Some sv' \<Longrightarrow> small_ok f rs sv'"
proof (cases e)
  case (Redis cmd)
  then show "small_ok f rs sv \<Longrightarrow> apply_effect env e sv = Some sv' \<Longrightarrow> small_ok f rs sv'" by (simp add: small_ok_command)
qed (auto simp: pool_submit_def count_metric_def small_ok_def split: if_splits)

lemma small_ok_effects: "small_ok f rs sv \<Longrightarrow> apply_effects env es sv = Some sv' \<Longrightarrow> small_ok f rs sv'"
  by (induction es arbitrary: sv) (auto simp: bind_eq_Some_conv dest: small_ok_effect)

lemma small_ok_send:
  "small_ok f rs sv \<Longrightarrow> small_ok f (rs @ [(conn, command, seqId)]) (send_command conn command seqId respMsg sv)"
  by (auto simp: small_ok_def send_command_def is_reply_def intro!: list_all2_appendI)

lemma small_ok_task:
  assumes "small_ok f rs sv" "sv_queue sv = task # queue" "run_business env task (sv\<lparr>sv_queue := queue\<rparr>) = Some sv'"
  shows "small_ok f rs sv'"
proof -
  from assms(1,2) obtain cmds where "task = PresenceTask cmds" by (cases task) (simp_all add: small_ok_def)
  moreover have "small_ok f rs (sv\<lparr>sv_queue := queue\<rparr>)" using assms(1,2) by (simp add: small_ok_def)
  ultimately show ?thesis using assms(3) by (simp add: run_business_def small_ok_commands)
qed

lemma small_ok_clock: "small_ok f rs sv \<Longrightarrow> clock env sv = (t, sv') \<Longrightarrow> small_ok f rs sv'"
  by (auto simp: clock_def GetTimestamp_def small_ok_def)

lemma small_ok_updates [simp]:
  "small_ok f rs (sv\<lparr>sv_heartbeat := hb\<rparr>) = small_ok f rs sv" "small_ok f rs (sv\<lparr>sv_overload := ov\<rparr>) = small_ok f rs sv"
  "small_ok f rs (sv\<lparr>sv_forceClosed := cs\<rparr>) = small_ok f rs sv"
  by (simp_all add: small_ok_def)

lemma small_login_ok:
  assumes "small_login useRedis env conn seqId message sv = Some sv'" "small_ok f rs sv"
  shows "small_ok (small_owner (sn_json env) (SMessage conn CmdLoginReq seqId message) f) (rs @ [(conn, CmdLoginResp, seqId)]) sv'"
proof -
  let ?req = "read_LoginReq (sn_json env) message" and ?r = "sn_random env (w_tick (sv_world sv))"
  obtain t1 sv1 where c1: "clock env sv = (t1, sv1)" by fastforce
  obtain t2 sv2 where c2: "clock env sv1 = (t2, sv2)" by fastforce
  obtain ok sid err au b respMsg where l: "login (sn_auth env) ?r t1 t2 conn (lreq_userId ?req) (lreq_token ?req)
      (lreq_deviceId ?req) (sv_auth sv2, sv_backend sv2) = Some ((ok, sid, err), au, b)"
    and tail: "(if ok \<and> useRedis
       then (case registerUserId (connId conn) (lreq_userId ?req)
           (sv_heartbeat (send_command conn CmdLoginResp seqId respMsg (sv2\<lparr>sv_auth := au, sv_backend := b\<rparr>))) of (hb, ev) \<Rightarrow>
         apply_effects env ev (send_command conn CmdLoginResp seqId respMsg (sv2\<lparr>sv_auth := au, sv_backend := b\<rparr>)\<lparr>sv_heartbeat := hb\<rparr>))
       else Some (send_command conn CmdLoginResp seqId respMsg (sv2\<lparr>sv_auth := au, sv_backend := b\<rparr>))) = Some sv'"
    using assms(1) by (auto simp: small_login_def c1 c2 bind_eq_Some_conv Let_def simp del: packed_bytes_eq)
  let ?op = "Login ?r t1 t2 conn (lreq_userId ?req) (lreq_token ?req) (lreq_deviceId ?req)"
  have sv2: "small_ok f rs sv2" using assms(2) c1 c2 by (blast intro: small_ok_clock)
  have "auth_step (sn_auth env) (Some (sv_auth sv2, sv_backend sv2)) ?op = Some (au, b)" using l by simp
  with sv2 have "auth_inv (owner_step f ?op) au" unfolding small_ok_def by (blast intro: auth_inv_step)
  moreover have "owner_step f ?op = small_owner (sn_json env) (SMessage conn CmdLoginReq seqId message) f"
    by (auto simp: validateToken_def Let_def)
  ultimately have "small_ok (small_owner (sn_json env) (SMessage conn CmdLoginReq seqId message) f) (rs @ [(conn, CmdLoginResp, seqId)])
      (send_command conn CmdLoginResp seqId respMsg (sv2\<lparr>sv_auth := au, sv_backend := b\<rparr>))"
    using sv2 by (intro small_ok_send small_ok_auth) simp_all
  with tail show ?thesis by (auto split: if_splits prod.splits elim!: small_ok_effects [rotated] simp del: small_owner.simps)
qed

lemma small_heartbeat_ok:
  assumes "small_heartbeat env conn seqId sv = Some sv'" "small_ok f rs sv"
  shows "small_ok f (rs @ [(conn, CmdHeartbeatResp, seqId)]) sv'"
proof -
  obtain t1 sv1 where c1: "clock env sv = (t1, sv1)" by fastforce
  obtain t2 sv2 where c2: "clock env sv1 = (t2, sv2)" by fastforce
  obtain hb ev where h: "onHeartbeat t1 t2 conn (sv_heartbeat sv2) = (hb, ev)" by fastforce
  obtain sv3 where e: "apply_effects env ev (sv2\<lparr>sv_heartbeat := hb\<rparr>) = Some sv3"
    using assms(1) by (auto simp: small_heartbeat_def c1 c2 h bind_eq_Some_conv)
  obtain t3 sv4 where c3: "clock env sv3 = (t3, sv4)" by fastforce
  obtain respMsg where r: "sv' = send_command conn CmdHeartbeatResp seqId respMsg sv4"
    using assms(1) by (auto simp: small_heartbeat_def c1 c2 h e c3 bind_eq_Some_conv)
  have "small_ok f rs sv2" using assms(2) c1 c2 by (blast intro: small_ok_clock)
  then have "small_ok f rs sv3" using small_ok_effects [OF _ e] by simp
  then show ?thesis using c3 unfolding r by (blast intro: small_ok_send small_ok_clock)
qed

lemma small_up_ok:
  assumes "small_up env conn sv = Some sv'" "small_ok f rs sv"
  shows "small_ok f rs sv'"
  using assms by (auto simp: small_up_def Let_def split: if_splits prod.splits elim!: small_ok_effects [rotated] dest!: small_ok_clock [rotated])

lemma small_down_ok:
  assumes "small_down env conn sv = Some sv'" "small_ok f rs sv"
  shows "small_ok (f(connId conn := None)) rs sv'"
proof -
  let ?sv = "sv\<lparr>sv_overload := onConnectionClosed (sv_overload sv)\<rparr>"
  obtain t1 sv1 where c1: "clock env ?sv = (t1, sv1)" by fastforce
  obtain t2 sv2 where c2: "clock env sv1 = (t2, sv2)" by fastforce
  obtain hb ev where h: "onConnection t1 t2 conn False (sv_heartbeat sv2) = (hb, ev)" by fastforce
  obtain sv3 au b where e: "apply_effects env ev (sv2\<lparr>sv_heartbeat := hb\<rparr>) = Some sv3"
    and l: "logout (sn_auth env) conn (sv_auth sv3, sv_backend sv3) = Some (au, b)" "sv' = sv3\<lparr>sv_auth := au, sv_backend := b\<rparr>"
    using assms(1) by (auto simp: small_down_def c1 c2 h bind_eq_Some_conv)
  have "small_ok f rs ?sv" using assms(2) by simp
  then have "small_ok f rs sv2" using c1 c2 by (blast intro: small_ok_clock)
  then have sv3: "small_ok f rs sv3" using small_ok_effects [OF _ e] by simp
  have "auth_step (sn_auth env) (Some (sv_auth sv3, sv_backend sv3)) (Logout conn) = Some (au, b)" using l by simp
  with sv3 have "auth_inv (owner_step f (Logout conn)) au" unfolding small_ok_def by (blast intro: auth_inv_step)
  with sv3 show ?thesis unfolding l(2) by (auto intro: small_ok_auth)
qed

lemma small_do_ok:
  assumes "small_do useRedis env (Some sv) a = Some sv'" "small_ok f rs sv"
  shows "small_ok (small_owner (sn_json env) a f) (rs @ small_replies a) sv'"
proof (cases a)
  case (SMessage conn command seqId message)
  then show ?thesis
    using assms small_login_ok [of useRedis env conn seqId message sv sv' f rs] small_heartbeat_ok [of env conn seqId sv sv' f rs]
    by (auto simp: small_message_def CmdLoginReq_def CmdHeartbeatReq_def split: if_splits)
next
  case SHeartbeat
  then show ?thesis
    using assms by (auto simp: heartbeat_thread_def Let_def split: prod.splits elim!: small_ok_effects [rotated] dest!: small_ok_clock [rotated])
qed (use assms small_up_ok small_down_ok small_ok_task in \<open>auto split: list.splits\<close>)

fun small_system ::
    "bool \<Rightarrow> ('h, 'w, 'j, 's) server_env \<Rightarrow> ('h, 'w, 's) server option \<times> (string \<rightharpoonup> string) \<times> (conn_ref \<times> u16 \<times> u32) list \<Rightarrow> small_op \<Rightarrow>
     ('h, 'w, 's) server option \<times> (string \<rightharpoonup> string) \<times> (conn_ref \<times> u16 \<times> u32) list" where
  "small_system useRedis env (x, f, rs) a = (small_do useRedis env x a, small_owner (sn_json env) a f, rs @ small_replies a)"

fun small_inv :: "('h, 'w, 's) server option \<times> (string \<rightharpoonup> string) \<times> (conn_ref \<times> u16 \<times> u32) list \<Rightarrow> bool" where
  "small_inv (x, f, rs) = (case x of None \<Rightarrow> True | Some sv \<Rightarrow> small_ok f rs sv)"

fun small_init :: "('h, 'w, 's) server option \<times> (string \<rightharpoonup> string) \<times> (conn_ref \<times> u16 \<times> u32) list \<Rightarrow> bool" where
  "small_init (x, f, rs) \<longleftrightarrow> f = Map.empty \<and> rs = [] \<and>
     (case x of None \<Rightarrow> True | Some sv \<Rightarrow> as_connToUser (sv_auth sv) = [] \<and> sv_queue sv = [] \<and> sent sv = [])"

lemma small_start: "small_init p \<Longrightarrow> small_inv p"
  by (cases p) (auto simp: small_ok_def auth_inv_def split: option.splits)

lemma small_keeps: "small_inv p \<Longrightarrow> small_inv (small_system useRedis env p a)"
proof (cases p)
  case (fields x f rs)
  assume "small_inv p"
  then show ?thesis
    by (cases x) (auto simp: fields simp del: small_do.simps(2-) split: option.splits intro: small_do_ok)
qed

interpretation small: invariant_system small_init "small_system useRedis env" small_inv for useRedis env
  by unfold_locales (fact small_start, fact small_keeps)

lemma run_small_system:
  "run (small_system useRedis env) (x, f, rs) ops =
   (run (small_do useRedis env) x ops, fold (small_owner (sn_json env)) ops f, rs @ concat (map small_replies ops))"
  by (induction ops arbitrary: x f rs) simp_all

lemma small_history:
  assumes "as_connToUser (sv_auth sv0) = []" "sv_queue sv0 = []" "sent sv0 = []"
    and "run (small_do useRedis env) (Some sv0) ops = Some sv"
  shows "list_all2 is_reply (concat (map small_replies ops)) (sent sv)"
    "current_user conn sv = fold (small_owner (sn_json env)) ops Map.empty (connId conn)"
proof -
  have "small_inv (run (small_system useRedis env) (Some sv0, Map.empty, []) ops)"
    by (rule small.inv_reached) (simp add: assms)
  then have ok: "small_ok (fold (small_owner (sn_json env)) ops Map.empty) (concat (map small_replies ops)) sv"
    by (simp add: run_small_system assms)
  then have "entry_ok (as_heap (sv_auth sv)) (map_of (as_connToUser (sv_auth sv)) (connId conn))
      (fold (small_owner (sn_json env)) ops Map.empty (connId conn))" by (simp add: small_ok_def auth_inv_def)
  then show "current_user conn sv = fold (small_owner (sn_json env)) ops Map.empty (connId conn)"
    by (cases "map_of (as_connToUser (sv_auth sv)) (connId conn)") (simp_all add: current_user_def getUserContext_def)
  show "list_all2 is_reply (concat (map small_replies ops)) (sent sv)" using ok by (simp add: small_ok_def)
qed

lemma small_start_fresh:
  "small_start useRedis lib t files w = Some sv \<Longrightarrow> as_connToUser (sv_auth sv) = [] \<and> sv_queue sv = [] \<and> sent sv = []"
  by (auto simp: small_start_def Let_def AuthService_init_def AuthService.setRedisClient_def setSessionExpire_def
      split: prod.splits if_splits option.splits)

text \<open>
  Claim C39 (small_server_history). Over every history of the small server from its start, the packets it
  has sent are exactly the replies to the log-in and heartbeat requests, one each, in the order of the
  requests, on their connections and with their sequence numbers; and the user of a connection is the one
  whose valid token it presented last, until it closes. What was presented is what the parser assigned
  before it gave up: a payload the parser rejects still logs a user in when both fields come before the
  fault.
\<close>

theorem small_server_history:
  assumes "small_start useRedis lib t files w = Some sv0" "run (small_do useRedis env) (Some sv0) ops = Some sv"
  shows "list_all2 is_reply (concat (map small_replies ops)) (sent sv) \<and>
    current_user conn sv = fold (small_owner (sn_json env)) ops Map.empty (connId conn)"
  using small_history [OF _ _ _ assms(2)] small_start_fresh [OF assms(1)] by blast

text \<open>Bob's token with a device number where a text belongs: not a log-in request, and yet a log-in.\<close>

definition odd_request :: jvalue where
  "odd_request = JObj [(''user_id'', JStr ''bob''), (''token'', JStr ''valid_token_bob''), (''device_id'', JNum 5)]"

definition odd_env :: "(unit, string \<rightharpoonup> string, jvalue, InMemoryMessageStore) server_env" where
  "odd_env = demo_env\<lparr>sn_auth := small_env\<lparr>ae_json := (one_document odd_request)\<lparr>jl_dump := \<lambda>_. Some ''ok''\<rparr>\<rparr>\<rparr>"

lemma odd_login_runs:
  assumes "\<not> as_useRedis (sv_auth sv)" "\<not> as_hasSessionRepository (sv_auth sv)"
  shows "\<exists>sv'. small_login False odd_env conn seqId message sv = Some sv'"
proof -
  have d: "Serialize_LoginResp (sn_json odd_env) m = Some ''ok''" for m by (simp add: Serialize_LoginResp_def odd_env_def)
  obtain t1 sv1 where c1: "clock odd_env sv = (t1, sv1)" by fastforce
  obtain t2 sv2 where c2: "clock odd_env sv1 = (t2, sv2)" by fastforce
  have "sv_auth sv2 = sv_auth sv" using c1 c2 by (auto simp: clock_def GetTimestamp_def)
  with assms login_local [of "sv_auth sv2"]
  obtain x au where "login (sn_auth odd_env) (sn_random odd_env (w_tick (sv_world sv))) t1 t2 conn
      (lreq_userId (read_LoginReq (sn_json odd_env) message)) (lreq_token (read_LoginReq (sn_json odd_env) message))
      (lreq_deviceId (read_LoginReq (sn_json odd_env) message)) (sv_auth sv2, sv_backend sv2) = Some (x, au, sv_backend sv2)"
    by metis
  then show ?thesis by (cases x) (simp add: small_login_def c1 c2 d Let_def)
qed

theorem small_server_history_witness:
  "Deserialize_LoginReq (sn_json odd_env) ''doc'' \<lparr>lreq_userId = [], lreq_token = [], lreq_deviceId = []\<rparr> = None \<and>
   (\<exists>sv0 sv. small_start False table_server 0 [''conf/server.ini'' \<mapsto> ini_text small_ini] Map.empty = Some sv0 \<and>
      run (small_do False odd_env) (Some sv0) [SMessage conn_a CmdLoginReq 7 ''doc''] = Some sv \<and>
      length (sent sv) = 1 \<and> current_user conn_a sv = Some ''bob'')"
proof -
  have r: "read_LoginReq (sn_json odd_env) ''doc'' = \<lparr>lreq_userId = ''bob'', lreq_token = ''valid_token_bob'', lreq_deviceId = []\<rparr>"
    by (simp add: read_LoginReq_def odd_env_def small_env_def one_document_def tree_lib_def odd_request_def get_field_def
        contains_field_def demo_env_def)
  have d: "Deserialize_LoginReq (sn_json odd_env) ''doc'' \<lparr>lreq_userId = [], lreq_token = [], lreq_deviceId = []\<rparr> = None"
    by (simp add: Deserialize_LoginReq_def odd_env_def small_env_def one_document_def tree_lib_def odd_request_def get_field_def
        contains_field_def demo_env_def)
  obtain config where l: "load [''conf/server.ini'' \<mapsto> ini_text small_ini] ''conf/server.ini'' Config_init = (True, config)"
    by (simp add: load_def)
  obtain sv0 :: "(unit, string \<rightharpoonup> string, InMemoryMessageStore) server" where
    sv0: "small_start False table_server 0 [''conf/server.ini'' \<mapsto> ini_text small_ini] Map.empty = Some sv0" "sv_auth sv0 = AuthService_init"
    by (simp add: small_start_def l open_redis_def)
  then obtain sv where sv: "run (small_do False odd_env) (Some sv0) [SMessage conn_a CmdLoginReq 7 ''doc''] = Some sv"
    using odd_login_runs [of sv0 conn_a 7 "''doc''"] by (auto simp: small_message_def AuthService_init_def)
  from small_server_history [OF sv0(1) sv, of conn_a] have "list_all2 is_reply [(conn_a, CmdLoginResp, 7)] (sent sv)"
    "current_user conn_a sv = Some ''bob''"
    by (simp_all add: r validateToken_def)
  moreover from this(1) have "length (sent sv) = 1" by (auto dest: list_all2_lengthD)
  ultimately show ?thesis using d sv0(1) sv by blast
qed

end
