(* ===== verification/MetricsServer.thy ===== *)
theory MetricsServer
  imports MetricsRegistry TextNumbers
begin

text \<open>
  \<open>src/http/metricsServer.cpp\<close>: a thread that serves the registry's text over HTTP, one client after the
  other. The results of the socket calls are arguments of the steps; the descriptors that are closed and
  the bytes handed to \<open>send\<close> are recorded. \<open>None\<close> is \<open>std::terminate\<close>, which a \<open>std::thread\<close> calls that is
  assigned to or destroyed while it is joinable.
\<close>

section \<open>A response\<close>

definition crlf :: string where "crlf = [CHR 0x0D, CHR 0x0A]"

text \<open>The request is what one \<open>recv\<close> of at most 4095 bytes returned, \<open>None\<close> when it returned nothing.\<close>

definition response_parts :: "string \<Rightarrow> string \<Rightarrow> string option \<Rightarrow> string \<times> string" where
  "response_parts path text request =
     (case request of
        None \<Rightarrow> (''HTTP/1.1 404 Not Found'' @ crlf, ''not found'' @ [CHR 0x0A])
      | Some r \<Rightarrow>
          let expectedPrefix = ''GET '' @ path @ '' '' in
          if take (length expectedPrefix) r = expectedPrefix then (''HTTP/1.1 200 OK'' @ crlf, text)
          else (''HTTP/1.1 404 Not Found'' @ crlf, ''not found'' @ [CHR 0x0A]))"

definition response :: "string \<Rightarrow> string \<Rightarrow> string option \<Rightarrow> string" where
  "response path text request =
     (let (statusLine, responseBody) = response_parts path text request in
      statusLine @ ''Content-Type: text/plain; version=0.0.4; charset=utf-8'' @ crlf @
      ''Content-Length: '' @ dec (length responseBody) @ crlf @
      ''Connection: close'' @ crlf @ crlf @ responseBody)"

section \<open>State\<close>

datatype server_thread = NoThread | Starting | Serving int | Ended

record MetricsServer =
  mt_bindAddress :: string
  mt_port :: int
  mt_path :: string
  mt_running :: bool
  mt_listenFd :: int
  mt_joinable :: bool
  mt_thread :: server_thread
  mt_closed :: "int list"
  mt_sent :: "(int \<times> string) list"

definition MetricsServer_init :: "string \<Rightarrow> int \<Rightarrow> string \<Rightarrow> MetricsServer" where
  "MetricsServer_init bindAddress port path =
     \<lparr>mt_bindAddress = bindAddress, mt_port = port, mt_path = path, mt_running = False, mt_listenFd = - 1,
      mt_joinable = False, mt_thread = NoThread, mt_closed = [], mt_sent = []\<rparr>"

definition CloseSocket :: "int \<Rightarrow> MetricsServer \<Rightarrow> MetricsServer" where
  "CloseSocket fd s = (if fd = - 1 then s else s\<lparr>mt_closed := mt_closed s @ [fd]\<rparr>)"

section \<open>The caller's side\<close>

definition start :: "MetricsServer \<Rightarrow> MetricsServer option" where
  "start s =
     (if mt_running s then Some s
      else if mt_joinable s then None
      else Some (s\<lparr>mt_running := True, mt_joinable := True, mt_thread := Starting\<rparr>))"

text \<open>\<open>stop\<close> up to the join, which waits for the thread to end, and the join.\<close>

definition stop_request :: "MetricsServer \<Rightarrow> bool \<times> MetricsServer" where
  "stop_request s =
     (if \<not> mt_running s then (False, s)
      else (True, (CloseSocket (mt_listenFd s) (s\<lparr>mt_running := False\<rparr>))\<lparr>mt_listenFd := - 1\<rparr>))"

definition join :: "MetricsServer \<Rightarrow> MetricsServer" where
  "join s = (if mt_joinable s \<and> mt_thread s = Ended then s\<lparr>mt_joinable := False\<rparr> else s)"

text \<open>The end of the destructor, after its \<open>stop\<close>.\<close>

definition destroy_thread :: "MetricsServer \<Rightarrow> MetricsServer option" where
  "destroy_thread s = (if mt_joinable s then None else Some s)"

section \<open>The thread's side\<close>

text \<open>\<open>serveLoop\<close> up to the loop: what \<open>socket\<close>, \<open>bind\<close> and \<open>listen\<close> answer.\<close>

definition open_listener :: "int \<Rightarrow> bool \<Rightarrow> bool \<Rightarrow> MetricsServer \<Rightarrow> MetricsServer" where
  "open_listener listenFd bound listening s =
     (if listenFd = - 1 then s\<lparr>mt_running := False, mt_thread := Ended\<rparr>
      else
        let s = s\<lparr>mt_listenFd := listenFd\<rparr> in
        if \<not> bound \<or> \<not> listening
        then (CloseSocket listenFd s)\<lparr>mt_listenFd := - 1, mt_running := False, mt_thread := Ended\<rparr>
        else s\<lparr>mt_thread := Serving listenFd\<rparr>)"

text \<open>One turn: \<open>select\<close>, \<open>accept\<close> and \<open>recv\<close>; the loop's test of \<open>m_running\<close> and what follows the loop.\<close>

definition serve_turn :: "string \<Rightarrow> bool \<Rightarrow> int \<Rightarrow> string option \<Rightarrow> MetricsServer \<Rightarrow> MetricsServer" where
  "serve_turn text ready clientFd request s =
     (if \<not> ready \<or> clientFd = - 1 then s
      else CloseSocket clientFd (s\<lparr>mt_sent := mt_sent s @ [(clientFd, response (mt_path s) text request)]\<rparr>))"

definition leave_loop :: "int \<Rightarrow> MetricsServer \<Rightarrow> MetricsServer" where
  "leave_loop listenFd s = (CloseSocket listenFd s)\<lparr>mt_listenFd := - 1, mt_thread := Ended\<rparr>"

datatype metrics_step =
    Open int bool bool
  | Turn string bool int "string option"

fun thread_step :: "metrics_step \<Rightarrow> MetricsServer \<Rightarrow> MetricsServer" where
  "thread_step (Open fd bound listening) s = (if mt_thread s = Starting then open_listener fd bound listening s else s)"
| "thread_step (Turn text ready fd request) s =
     (case mt_thread s of
        Serving listenFd \<Rightarrow> if mt_running s then serve_turn text ready fd request s else leave_loop listenFd s
      | _ \<Rightarrow> s)"

section \<open>A client that reads the response\<close>

text \<open>Lines up to an empty one, then as many bytes as \<open>Content-Length\<close> says.\<close>

function header_lines :: "string \<Rightarrow> (string list \<times> string) option" where
  "header_lines s =
     (let line = takeWhile (\<lambda>c. c \<noteq> CHR 0x0D) s; rest = dropWhile (\<lambda>c. c \<noteq> CHR 0x0D) s in
      if take 2 rest \<noteq> crlf then None
      else if line = [] then Some ([], drop 2 rest)
      else map_option (\<lambda>(ls, body). (line # ls, body)) (header_lines (drop 2 rest)))"
  by pat_completeness auto
termination
proof (relation "measure length")
  fix s :: string and line rest :: string
  assume "line = takeWhile (\<lambda>c. c \<noteq> CHR 0x0D) s" and rest: "rest = dropWhile (\<lambda>c. c \<noteq> CHR 0x0D) s" and c: "\<not> take 2 rest \<noteq> crlf"
  have "length rest \<le> length s" unfolding rest by (rule length_dropWhile_le)
  moreover from c have "rest \<noteq> []" by (auto simp: crlf_def)
  ultimately show "(drop 2 rest, s) \<in> measure length" by (cases rest) auto
qed simp

declare header_lines.simps [simp del]

definition content_length :: "string list \<Rightarrow> nat option" where
  "content_length ls =
     (case filter (\<lambda>l. take 16 l = ''Content-Length: '') ls of
        [l] \<Rightarrow> map_option snd (scan_number (drop 16 l))
      | _ \<Rightarrow> None)"

definition read_response :: "string \<Rightarrow> (string \<times> string) option" where
  "read_response s =
     (case header_lines s of
        Some (status # ls, body) \<Rightarrow> if content_length ls = Some (length body) then Some (status, body) else None
      | _ \<Rightarrow> None)"

lemma header_line:
  assumes "CHR 0x0D \<notin> set line"
  shows "header_lines (line @ crlf @ rest) =
    (if line = [] then Some ([], rest) else map_option (\<lambda>(ls, body). (line # ls, body)) (header_lines rest))"
proof -
  have "takeWhile (\<lambda>c. c \<noteq> CHR 0x0D) (line @ crlf @ rest) = line" "dropWhile (\<lambda>c. c \<noteq> CHR 0x0D) (line @ crlf @ rest) = crlf @ rest"
    using assms by (induction line) (auto simp: crlf_def)
  then show ?thesis by (subst header_lines.simps) (simp add: crlf_def)
qed

lemma header_lines_all:
  "list_all (\<lambda>l. l \<noteq> [] \<and> CHR 0x0D \<notin> set l) ls \<Longrightarrow> header_lines (concat (map (\<lambda>l. l @ crlf) ls) @ crlf @ body) = Some (ls, body)"
proof (induction ls)
  case Nil
  show ?case using header_line [of "[]" body] by simp
next
  case (Cons l ls)
  then show ?case by (simp add: header_line)
qed

lemma dec_no_cr: "CHR 0x0D \<notin> set (dec n)"
  using digit_chars(2) [of "CHR 0x0D" n] by auto

lemma response_read:
  assumes "CHR 0x0D \<notin> set status" "status \<noteq> []"
  shows "read_response (status @ crlf @ ''Content-Type: text/plain; version=0.0.4; charset=utf-8'' @ crlf @
     ''Content-Length: '' @ dec (length body) @ crlf @ ''Connection: close'' @ crlf @ crlf @ body) = Some (status, body)"
proof -
  let ?ls = "[''Content-Type: text/plain; version=0.0.4; charset=utf-8'', ''Content-Length: '' @ dec (length body), ''Connection: close'']"
  have "list_all (\<lambda>l. l \<noteq> [] \<and> CHR 0x0D \<notin> set l) (status # ?ls)" using assms dec_no_cr by simp
  from header_lines_all [OF this, of body]
  have "header_lines (status @ crlf @ ''Content-Type: text/plain; version=0.0.4; charset=utf-8'' @ crlf @
     ''Content-Length: '' @ dec (length body) @ crlf @ ''Connection: close'' @ crlf @ crlf @ body) = Some (status # ?ls, body)"
    by simp
  moreover have "content_length ?ls = Some (length body)" by (simp add: content_length_def scan_number_dec)
  ultimately show ?thesis unfolding read_response_def by simp
qed

text \<open>
  Claim C40 (metrics_response). What a client gets is a well-formed response: read by HTTP's rules, with the
  number of body bytes its header announces, it gives back the registry's text with status 200 when the
  request asks for the configured path, and the not-found page with status 404 for any other request, an
  empty one included.
\<close>

theorem metrics_response:
  "read_response (response path page request) =
     Some (if \<exists>rest. request = Some (''GET '' @ path @ '' '' @ rest) then (''HTTP/1.1 200 OK'', page)
           else (''HTTP/1.1 404 Not Found'', ''not found'' @ [CHR 0x0A]))"
proof -
  have "(\<exists>rest. request = Some (''GET '' @ path @ '' '' @ rest)) \<longleftrightarrow>
      (case request of None \<Rightarrow> False | Some r \<Rightarrow> take (length (''GET '' @ path @ '' '')) r = ''GET '' @ path @ '' '')"
    by (cases request) (auto, metis append.assoc append_Cons append_Nil append_take_drop_id)
  then show ?thesis
    using response_read [of "''HTTP/1.1 200 OK''" page] response_read [of "''HTTP/1.1 404 Not Found''" "''not found'' @ [CHR 0x0A]"]
    by (auto simp: response_def response_parts_def Let_def simp del: append_Cons split: option.splits)
qed

section \<open>The end of the server\<close>

text \<open>
  A metrics server whose port is taken ends its thread by itself. The \<open>stop\<close> at shutdown then returns at once
  and never joins the thread, and the destructor's thread is still joinable: the program aborts.
\<close>

theorem bind_failure_aborts:
  assumes "start (MetricsServer_init addr port path) = Some s" "fd \<noteq> - 1" "\<not> bound \<or> \<not> listening"
    and "s1 = thread_step (Open fd bound listening) s"
  shows "stop_request s1 = (False, s1) \<and> destroy_thread s1 = None"
  using assms by (auto simp: start_def MetricsServer_init_def open_listener_def CloseSocket_def Let_def stop_request_def destroy_thread_def
      split: if_splits)

text \<open>An orderly stop closes the listening descriptor twice, once by the caller and once by the thread.\<close>

theorem stop_closes_twice:
  assumes "mt_thread s = Serving fd" "mt_listenFd s = fd" "fd \<noteq> - 1" "mt_running s"
    and "stop_request s = (True, s1)" "s2 = thread_step (Turn text ready cfd request) s1"
  shows "mt_closed s2 = mt_closed s @ [fd, fd] \<and> destroy_thread (join s2) \<noteq> None"
  using assms by (auto simp: stop_request_def CloseSocket_def leave_loop_def join_def destroy_thread_def)

end
