(* ===== verification/Delivery.thy ===== *)
theory Delivery
  imports MessageService
begin

text \<open>
  The deliveries of \<open>src/service/messageService.cpp\<close> over time, with the in-memory store: what exactly one
  call of \<open>deliverPendingMessages\<close> sends and stores on a connection that is up, and what becomes of a
  message that nobody acknowledges over any number of rounds of the retry thread.
\<close>

section \<open>One round\<close>

text \<open>Whether the loop sends a message it has loaded, and the message as it leaves it.\<close>

definition due :: "'c MessageService \<Rightarrow> ms \<Rightarrow> StoredMessage \<Rightarrow> bool" where
  "due svc now m \<longleftrightarrow> sm_retryCount m < ms_maxRetryCount svc \<and>
     ShouldRetryMessage m now (ms_ackTimeoutMs svc) (ms_retryBackoffMs svc)"

definition attempted :: "'c MessageService \<Rightarrow> ms \<Rightarrow> ms \<Rightarrow> StoredMessage \<Rightarrow> StoredMessage" where
  "attempted svc now t m =
     (if ms_maxRetryCount svc \<le> sm_retryCount m then m\<lparr>sm_status := DeliveryFailed\<rparr>
      else if due svc now m
      then m\<lparr>sm_status := DeliveryDelivering, sm_lastDeliverAt := t, sm_retryCount := sm_retryCount m + 1\<rparr>
      else m)"

lemma attempted_note [simp]:
  "sm_notify (attempted svc now t m) = sm_notify m" "sm_receiverId (attempted svc now t m) = sm_receiverId m"
  by (simp_all add: attempted_def)

lemma deliver_turn_memory:
  assumes "ms_hasStore svc" "\<And>k. e_connected env k conn" "im_messages s (id_of m) = Some m"
  obtains k w1 where "w_tick w \<le> k" "k \<le> w_tick w1"
    "deliver_loop env memory_store svc conn now (m # ms) s w =
       deliver_loop env memory_store svc conn now ms
         (s\<lparr>im_messages := (im_messages s)(id_of m \<mapsto> attempted svc now (e_clock env k) m)\<rparr>) w1"
    "sends (w_log w1) = sends (w_log w) @ (if due svc now m then [(conn, notify_packet env svc m)] else [])"
proof -
  consider (spent) "ms_maxRetryCount svc \<le> sm_retryCount m"
    | (early) "sm_retryCount m < ms_maxRetryCount svc" "\<not> due svc now m"
    | (due) "due svc now m" "\<not> ms_maxRetryCount svc \<le> sm_retryCount m"
    by (fastforce simp: due_def)
  then show ?thesis
  proof cases
    case spent
    have "deliver_loop env memory_store svc conn now (m # ms) s w = deliver_loop env memory_store svc conn now ms
        (s\<lparr>im_messages := (im_messages s)(id_of m \<mapsto> attempted svc now (e_clock env (w_tick w)) m)\<rparr>) w"
      using spent assms(3) by (simp add: attempted_def markDeliveryAttempt_def)
    moreover have "\<not> due svc now m" using spent by (auto simp: due_def)
    ultimately show ?thesis by (intro that [of "w_tick w" w]) auto
  next
    case early
    have "s\<lparr>im_messages := (im_messages s)(id_of m \<mapsto> attempted svc now (e_clock env (w_tick w)) m)\<rparr> = s"
      using early assms(3) by (simp add: attempted_def fun_upd_idem)
    with early show ?thesis by (intro that [of "w_tick w" w]) (auto simp: due_def)
  next
    case due
    define w0 where "w0 = (if sm_status m = DeliveryDelivering
        then emit (IncCounter ''im_message_ack_timeout_total'') w else w)"
    define d where "d = deliverLocked env memory_store svc conn m s w0"
    have w0: "sends (w_log w0) = sends (w_log w)" "w_tick w0 = w_tick w" by (simp_all add: w0_def emit_def)
    have "fst (snd (snd d)) = s\<lparr>im_messages := (im_messages s)(id_of m \<mapsto>
          attempted svc now (e_clock env (Suc (Suc (w_tick w)))) m)\<rparr>"
        "w_tick (snd (snd (snd d))) = Suc (Suc (Suc (w_tick w)))"
        "sends (w_log (snd (snd (snd d)))) = sends (w_log w) @ [(conn, notify_packet env svc m)]"
      using due assms w0
      by (simp_all add: d_def deliverLocked_def connected_def GetTimestamp_def emit_def markDeliveryAttempt_def
          attempted_def notify_packet_def Let_def)
    moreover have "deliver_loop env memory_store svc conn now (m # ms) s w =
        deliver_loop env memory_store svc conn now ms (fst (snd (snd d))) (snd (snd (snd d)))"
      using due by (simp add: d_def w0_def due_def Let_def split_def)
    ultimately show ?thesis using due by (intro that [of "Suc (Suc (w_tick w))" "snd (snd (snd d))"]) auto
  qed
qed

text \<open>The whole loop, on messages as the store holds them.\<close>

lemma deliver_loop_memory:
  assumes "ms_hasStore svc" "\<And>k. e_connected env k conn"
    and "distinct (map id_of ms)" "\<forall>m \<in> set ms. im_messages s (id_of m) = Some m"
    and "deliver_loop env memory_store svc conn now ms s w = (s', w')"
  shows "w_tick w \<le> w_tick w' \<and>
    sends (w_log w') = sends (w_log w) @ map (\<lambda>m. (conn, notify_packet env svc m)) (filter (due svc now) ms) \<and>
    (\<exists>f. s' = s\<lparr>im_messages := f\<rparr> \<and> (\<forall>i. i \<notin> id_of ` set ms \<longrightarrow> f i = im_messages s i) \<and>
      (\<forall>m \<in> set ms. \<exists>k. w_tick w \<le> k \<and> k \<le> w_tick w' \<and> f (id_of m) = Some (attempted svc now (e_clock env k) m)))"
  using assms(3-5)
proof (induction ms arbitrary: s w)
  case Nil
  then show ?case by (auto intro!: exI [of _ "im_messages s"])
next
  case (Cons m ms)
  from Cons.prems(2) have m: "im_messages s (id_of m) = Some m" by simp
  from assms(1,2) m obtain k w1 where t: "w_tick w \<le> k" "k \<le> w_tick w1"
    "deliver_loop env memory_store svc conn now (m # ms) s w = deliver_loop env memory_store svc conn now ms
       (s\<lparr>im_messages := (im_messages s)(id_of m \<mapsto> attempted svc now (e_clock env k) m)\<rparr>) w1"
    "sends (w_log w1) = sends (w_log w) @ (if due svc now m then [(conn, notify_packet env svc m)] else [])"
    by (rule deliver_turn_memory [of svc env conn s m w now ms]) (rule that)
  define s1 where "s1 = s\<lparr>im_messages := (im_messages s)(id_of m \<mapsto> attempted svc now (e_clock env k) m)\<rparr>"
  have new: "id_of m \<notin> id_of ` set ms" using Cons.prems(1) by simp
  then have "id_of x \<noteq> id_of m" if "x \<in> set ms" for x using that by (metis imageI)
  with Cons.prems(2) have "\<forall>x \<in> set ms. im_messages s1 (id_of x) = Some x"
    by (simp add: s1_def)
  moreover have "deliver_loop env memory_store svc conn now ms s1 w1 = (s', w')"
    using Cons.prems(3) t(3) by (simp add: s1_def)
  moreover have "distinct (map id_of ms)" using Cons.prems(1) by simp
  ultimately obtain f where f: "w_tick w1 \<le> w_tick w'"
      "sends (w_log w') = sends (w_log w1) @ map (\<lambda>m. (conn, notify_packet env svc m)) (filter (due svc now) ms)"
      "s' = s1\<lparr>im_messages := f\<rparr>" "\<forall>i. i \<notin> id_of ` set ms \<longrightarrow> f i = im_messages s1 i"
      "\<forall>m \<in> set ms. \<exists>k. w_tick w1 \<le> k \<and> k \<le> w_tick w' \<and> f (id_of m) = Some (attempted svc now (e_clock env k) m)"
    using Cons.IH [of s1 w1] by blast
  have "f (id_of m) = Some (attempted svc now (e_clock env k) m)"
    using f(4) new by (simp add: s1_def)
  moreover have "\<exists>k. w_tick w \<le> k \<and> k \<le> w_tick w' \<and> f (id_of x) = Some (attempted svc now (e_clock env k) x)"
    if "x \<in> set ms" for x
    using f(5) that t(1,2) by (meson le_trans)
  moreover have "f i = im_messages s i" if "i \<notin> id_of ` set (m # ms)" for i
    using that f(4) by (simp add: s1_def)
  moreover have "s' = s\<lparr>im_messages := f\<rparr>" using f(3) by (simp add: s1_def)
  moreover have "w_tick w \<le> k" "k \<le> w_tick w'" using t(1,2) f(1) by simp_all
  ultimately show ?case
    using f(2) t(4) by (auto intro!: exI [of _ f])
qed

text \<open>The messages a load returns are those the store holds, each once.\<close>

lemma stored_id:
  assumes "store_inv n s" "im_messages s i = Some m"
  shows "id_of m = i"
proof -
  have "noted s i = Some (sm_notify m, sm_receiverId m)" using assms(2) by (simp add: noted_def)
  with assms(1) show ?thesis unfolding store_inv_def notes_ok_def by blast
qed

lemma page_known:
  assumes "store_inv n s"
  shows "\<forall>m \<in> set (page u a limit s). im_messages s (id_of m) = Some m" "distinct (map id_of (page u a limit s))"
proof -
  show known: "\<forall>m \<in> set (page u a limit s). im_messages s (id_of m) = Some m"
  proof
    fix m
    assume "m \<in> set (page u a limit s)"
    then obtain i where "im_messages s i = Some m"
      by (auto simp: page_def in_eligible dest!: in_set_takeD)
    with stored_id [OF assms this] show "im_messages s (id_of m) = Some m" by simp
  qed
  have "distinct (map seq_of (page u a limit s))"
    using loadPendingMessages_page(2) [OF assms, of u a limit] by (simp add: strict_sorted_iff)
  then have "distinct (page u a limit s)" by (simp add: distinct_map)
  moreover have "inj_on id_of (set (page u a limit s))"
    using known by (intro inj_onI) (metis option.inject)
  ultimately show "distinct (map id_of (page u a limit s))" by (simp add: distinct_map)
qed

lemma deliverPending_memory:
  assumes "store_inv n s" "ms_hasStore svc" "map_of (ms_userToConn svc) u = Some conn" "\<And>k. e_connected env k conn"
    and "ms = page u (last_acked s u) (ms_retryBatchSize svc) s" "now = e_clock env (Suc (w_tick w))"
    and "deliverPendingMessages env memory_store svc u s w = (s', w')"
  shows "w_tick w < w_tick w' \<and>
    sends (w_log w') = sends (w_log w) @ map (\<lambda>m. (conn, notify_packet env svc m)) (filter (due svc now) ms) \<and>
    (\<exists>f. s' = s\<lparr>im_messages := f\<rparr> \<and> (\<forall>i. i \<notin> id_of ` set ms \<longrightarrow> f i = im_messages s i) \<and>
      (\<forall>m \<in> set ms. \<exists>k. w_tick w \<le> k \<and> k \<le> w_tick w' \<and> f (id_of m) = Some (attempted svc now (e_clock env k) m)))"
proof -
  define w2 where "w2 = w\<lparr>w_tick := Suc (Suc (w_tick w))\<rparr>"
  have "deliver_loop env memory_store svc conn now ms s w2 = (s', w')"
    using assms(2-7) loadPendingMessages_page(1) [OF assms(1)]
    by (simp add: deliverPendingMessages_def connected_def GetTimestamp_def getLastAckedSeq_def w2_def
        flip: last_acked_def)
  from deliver_loop_memory [OF assms(2,4) _ _ this] page_known [OF assms(1)] assms(5)
  obtain f where f: "w_tick w2 \<le> w_tick w'" "s' = s\<lparr>im_messages := f\<rparr>"
      "sends (w_log w') = sends (w_log w2) @ map (\<lambda>m. (conn, notify_packet env svc m)) (filter (due svc now) ms)"
      "\<forall>i. i \<notin> id_of ` set ms \<longrightarrow> f i = im_messages s i"
      "\<forall>m \<in> set ms. \<exists>k. w_tick w2 \<le> k \<and> k \<le> w_tick w' \<and> f (id_of m) = Some (attempted svc now (e_clock env k) m)"
    by blast
  have "w_tick w \<le> w_tick w2" by (simp add: w2_def)
  then have "\<forall>m \<in> set ms. \<exists>k. w_tick w \<le> k \<and> k \<le> w_tick w' \<and> f (id_of m) = Some (attempted svc now (e_clock env k) m)"
    using f(5) by (meson le_trans)
  moreover have "w_tick w < w_tick w'" using f(1) by (simp add: w2_def)
  moreover have "w_log w2 = w_log w" by (simp add: w2_def)
  ultimately show ?thesis using f(2-4) by (auto intro!: exI [of _ f])
qed

section \<open>Many rounds\<close>

text \<open>
  A round of the retry thread for one user, after some time has passed: the ticks that go by between
  two rounds are an argument.
\<close>

definition retry_round ::
    "'c env \<Rightarrow> 'c MessageService \<Rightarrow> string \<Rightarrow> nat \<Rightarrow> InMemoryMessageStore \<times> 'c world \<Rightarrow> InMemoryMessageStore \<times> 'c world" where
  "retry_round env svc u gap = (\<lambda>(s, w). deliverPendingMessages env memory_store svc u s (w\<lparr>w_tick := w_tick w + gap\<rparr>))"

abbreviation retry_rounds ::
    "'c env \<Rightarrow> 'c MessageService \<Rightarrow> string \<Rightarrow> nat list \<Rightarrow> InMemoryMessageStore \<times> 'c world \<Rightarrow> InMemoryMessageStore \<times> 'c world" where
  "retry_rounds env svc u gaps \<equiv> fold (retry_round env svc u) gaps"

text \<open>
  The receiver is connected and reachable, the clock does not run backwards, and each pause is at least
  the longest waiting time of the retry policy.
\<close>

definition receiver_up :: "'c env \<Rightarrow> 'c MessageService \<Rightarrow> string \<Rightarrow> 'c \<Rightarrow> bool" where
  "receiver_up env svc u conn \<longleftrightarrow>
     ms_hasStore svc \<and> map_of (ms_userToConn svc) u = Some conn \<and> (\<forall>k. e_connected env k conn)"

definition patient :: "'c env \<Rightarrow> 'c MessageService \<Rightarrow> nat list \<Rightarrow> bool" where
  "patient env svc gaps \<longleftrightarrow>
     mono (e_clock env) \<and> 0 < e_clock env 0 \<and> 0 \<le> ms_retryBackoffMs svc \<and>
     (\<forall>gap \<in> set gaps. \<forall>k. e_clock env k + ms_ackTimeoutMs svc +
        int (unat (ms_maxRetryCount svc)) * ms_retryBackoffMs svc \<le> e_clock env (k + gap))"

text \<open>A message that has been stored or sent and is not acknowledged.\<close>

definition awaiting :: "'c env \<Rightarrow> 'c world \<Rightarrow> StoredMessage \<Rightarrow> bool" where
  "awaiting env w m \<longleftrightarrow> sm_status m = DeliveryPersisted \<or>
     sm_status m = DeliveryDelivering \<and> 0 < sm_lastDeliverAt m \<and> sm_lastDeliverAt m \<le> e_clock env (w_tick w)"

lemma unat_inc_below:
  fixes x y :: u32
  assumes "x < y"
  shows "unat (x + 1) = Suc (unat x)"
proof -
  have "Suc (unat x) < 2 ^ 32"
    using assms unsigned_less [of y, where ?'a = nat] by (simp add: word_less_nat_alt)
  then show ?thesis by (simp add: unat_word_ariths)
qed

lemma awaiting_due:
  assumes "awaiting env w m" "patient env svc (gap # gaps)" "sm_retryCount m < ms_maxRetryCount svc"
  shows "due svc (e_clock env (Suc (w_tick w + gap))) m"
proof (cases "sm_status m = DeliveryPersisted")
  case True
  with assms(3) show ?thesis by (simp add: due_def ShouldRetryMessage_def)
next
  case False
  with assms(1) have m: "sm_status m = DeliveryDelivering" "0 < sm_lastDeliverAt m"
    "sm_lastDeliverAt m \<le> e_clock env (w_tick w)"
    by (auto simp: awaiting_def)
  let ?D = "int (unat (ms_maxRetryCount svc)) * ms_retryBackoffMs svc"
  have p: "mono (e_clock env)" "0 \<le> ms_retryBackoffMs svc"
    "e_clock env (w_tick w) + ms_ackTimeoutMs svc + ?D \<le> e_clock env (w_tick w + gap)"
    using assms(2) by (auto simp: patient_def)
  have "unat (if 0 < sm_retryCount m then sm_retryCount m - 1 else 0) \<le> unat (ms_maxRetryCount svc)" (is "unat ?c \<le> _")
  proof -
    have "unat ?c \<le> unat (sm_retryCount m)" using measure_unat [of "sm_retryCount m"] by (auto simp: word_gt_0)
    with assms(3) show ?thesis by (simp add: word_less_nat_alt)
  qed
  then have "int (unat ?c) * ms_retryBackoffMs svc \<le> ?D"
    using p(2) by (intro mult_right_mono iffD2 [OF of_nat_le_iff])
  moreover have "e_clock env (w_tick w + gap) \<le> e_clock env (Suc (w_tick w + gap))"
    using p(1) by (simp add: monoD)
  ultimately show ?thesis
    using assms(3) m p(3) by (simp add: due_def ShouldRetryMessage_def Let_def)
qed

text \<open>What the rounds keep of the store.\<close>

lemma messages_update_views [simp]:
  "pending (s\<lparr>im_messages := f\<rparr>) = pending s" "last_acked (s\<lparr>im_messages := f\<rparr>) = last_acked s"
  "cur_seq (s\<lparr>im_messages := f\<rparr>) = cur_seq s"
  by (simp_all add: pending_def last_acked_def cur_seq_def fun_eq_iff)

lemma length_eligible: "length (eligible ms a ids) \<le> length ids"
proof -
  have "length (List.map_filter ms ids) \<le> length ids" by (induction ids) (auto split: option.splits)
  then show ?thesis unfolding eligible_def using length_filter_le le_trans by blast
qed

lemma page_all:
  "length (pending s u) \<le> limit \<Longrightarrow> page u a limit s = eligible (im_messages s) a (pending s u)"
  using length_eligible [of "im_messages s" a "pending s u"] by (simp add: page_def)

lemma filter_unique:
  "distinct (map f xs) \<Longrightarrow> x \<in> set xs \<Longrightarrow> filter (\<lambda>y. f y = f x) xs = [x]"
proof (induction xs)
  case (Cons y ys)
  then show ?case by (auto simp: filter_empty_conv) (metis imageI)+
qed simp

lemma retry_round_effect:
  assumes inv: "store_inv n s" and up: "receiver_up env svc u conn"
    and i: "i \<in> set (pending s u)" "im_messages s i = Some m" "length (pending s u) \<le> ms_retryBatchSize svc"
    and r: "retry_round env svc u gap (s, w) = (s', w')"
  obtains ds k where "w_tick w + gap \<le> k" "k \<le> w_tick w'"
    "sends (w_log w') = sends (w_log w) @ map (\<lambda>m. (conn, notify_packet env svc m)) ds"
    "filter (\<lambda>x. id_of x = i) ds =
       (if deliverable (last_acked s u) m \<and> due svc (e_clock env (Suc (w_tick w + gap))) m then [m] else [])"
    "im_messages s' i = Some (if deliverable (last_acked s u) m
       then attempted svc (e_clock env (Suc (w_tick w + gap))) (e_clock env k) m else m)"
    "store_inv n s'" "pending s' = pending s" "last_acked s' = last_acked s"
proof -
  define now where "now = e_clock env (Suc (w_tick w + gap))"
  define w0 where "w0 = w\<lparr>w_tick := w_tick w + gap\<rparr>"
  define ms where "ms = page u (last_acked s u) (ms_retryBatchSize svc) s"
  have call: "deliverPendingMessages env memory_store svc u s w0 = (s', w')" using r by (simp add: retry_round_def w0_def)
  have svc: "ms_hasStore svc" "map_of (ms_userToConn svc) u = Some conn" "\<And>k. e_connected env k conn"
    using up by (auto simp: receiver_up_def)
  have "now = e_clock env (Suc (w_tick w0))" by (simp add: now_def w0_def)
  from deliverPending_memory [OF inv svc ms_def this call]
  obtain f where f: "w_tick w0 < w_tick w'" "s' = s\<lparr>im_messages := f\<rparr>"
      "sends (w_log w') = sends (w_log w0) @ map (\<lambda>m. (conn, notify_packet env svc m)) (filter (due svc now) ms)"
      "\<forall>i. i \<notin> id_of ` set ms \<longrightarrow> f i = im_messages s i"
      "\<forall>m \<in> set ms. \<exists>k. w_tick w0 \<le> k \<and> k \<le> w_tick w' \<and> f (id_of m) = Some (attempted svc now (e_clock env k) m)"
    by blast
  have same: "noted s' = noted s" "pending s' = pending s" "last_acked s' = last_acked s"
    using memory_notes.deliverPending_view [of env svc u s w0] call f(2) by simp_all
  have "store_inv n s'"
    using inv by (subst store_inv_cong [OF _ _ same(1) _ same(3,2)]) (simp_all add: f(2))
  moreover have id: "id_of m = i"
    using stored_id [OF inv i(2)] .
  have mem: "m \<in> set ms \<longleftrightarrow> deliverable (last_acked s u) m" "i \<in> id_of ` set ms \<longleftrightarrow> m \<in> set ms"
  proof -
    show "m \<in> set ms \<longleftrightarrow> deliverable (last_acked s u) m"
      using i by (auto simp: ms_def page_all in_eligible)
    have "x = m" if "x \<in> set ms" "id_of x = i" for x
      using page_known(1) [OF inv, of u "last_acked s u" "ms_retryBatchSize svc"] i(2) that
      unfolding ms_def by (metis option.inject)
    then show "i \<in> id_of ` set ms \<longleftrightarrow> m \<in> set ms" using id by blast
  qed
  have "filter (\<lambda>x. id_of x = i) (filter (due svc now) ms) = (if m \<in> set ms \<and> due svc now m then [m] else [])"
  proof (cases "m \<in> set ms")
    case True
    from filter_unique [OF page_known(2) [OF inv] True [unfolded ms_def]]
    have "filter (\<lambda>x. id_of x = i) ms = [m]" by (simp add: ms_def id)
    moreover have "filter (\<lambda>x. id_of x = i) (filter (due svc now) ms) = filter (due svc now) (filter (\<lambda>x. id_of x = i) ms)"
      by (simp add: filter_filter conj_commute)
    ultimately show ?thesis using True by (simp del: filter_filter)
  next
    case False
    with mem(2) show ?thesis by (auto simp: filter_empty_conv)
  qed
  moreover obtain k where "w_tick w0 \<le> k" "k \<le> w_tick w'"
    "im_messages s' i = Some (if deliverable (last_acked s u) m then attempted svc now (e_clock env k) m else m)"
    using f(1,2,4,5) mem id i(2) by (cases "m \<in> set ms") (auto dest: less_imp_le)
  ultimately show thesis
    using f(3) same mem(1) by (intro that [of k "filter (due svc now) ms"]) (simp_all add: w0_def now_def)
qed

text \<open>
  A message that awaits its acknowledgement is sent in every round until its retries are used up; the
  round after that marks it as failed, and a failed message is never sent again.
\<close>

lemma failed_stays:
  assumes "store_inv n s" "receiver_up env svc u conn" "i \<in> set (pending s u)"
    "im_messages s i = Some m" "length (pending s u) \<le> ms_retryBatchSize svc" "sm_status m = DeliveryFailed"
    "retry_rounds env svc u gaps (s, w) = (s', w')"
  shows "\<exists>ds. sends (w_log w') = sends (w_log w) @ map (\<lambda>m. (conn, notify_packet env svc m)) ds \<and>
    filter (\<lambda>x. id_of x = i) ds = [] \<and> im_messages s' i = Some m"
  using assms
proof (induction gaps arbitrary: s w)
  case (Cons gap gaps)
  obtain s1 w1 where r: "retry_round env svc u gap (s, w) = (s1, w1)" by fastforce
  have nd: "\<not> deliverable (last_acked s u) m" using Cons.prems(6) by (simp add: deliverable_def)
  from Cons.prems(1-5) r obtain ds where d:
    "sends (w_log w1) = sends (w_log w) @ map (\<lambda>m. (conn, notify_packet env svc m)) ds"
    "filter (\<lambda>x. id_of x = i) ds = []" "im_messages s1 i = Some m" "store_inv n s1" "pending s1 = pending s"
    by (rule retry_round_effect) (auto simp: nd intro: that)
  from Cons.IH [OF d(4) Cons.prems(2) _ d(3) _ Cons.prems(6)] Cons.prems r d(5) obtain ds' where
    "sends (w_log w') = sends (w_log w1) @ map (\<lambda>m. (conn, notify_packet env svc m)) ds'"
    "filter (\<lambda>x. id_of x = i) ds' = []" "im_messages s' i = Some m"
    by auto
  with d show ?case by (intro exI [of _ "ds @ ds'"]) simp
qed auto

lemma awaiting_rounds:
  assumes "store_inv n s" "receiver_up env svc u conn" "i \<in> set (pending s u)"
    "im_messages s i = Some m" "length (pending s u) \<le> ms_retryBatchSize svc" "patient env svc gaps"
    "awaiting env w m" "last_acked s u < seq_of m" "sm_retryCount m \<le> ms_maxRetryCount svc"
    "retry_rounds env svc u gaps (s, w) = (s', w')"
  shows "\<exists>ds m'. sends (w_log w') = sends (w_log w) @ map (\<lambda>m. (conn, notify_packet env svc m)) ds \<and>
    map (\<lambda>x. unat (sm_retryCount x)) (filter (\<lambda>x. id_of x = i) ds) =
      [unat (sm_retryCount m)..<min (unat (sm_retryCount m) + length gaps) (unat (ms_maxRetryCount svc))] \<and>
    im_messages s' i = Some m' \<and>
    (sm_status m' = DeliveryFailed \<longleftrightarrow> unat (ms_maxRetryCount svc) < unat (sm_retryCount m) + length gaps)"
  using assms
proof (induction gaps arbitrary: s w m)
  case Nil
  then show ?case by (auto simp: awaiting_def word_le_nat_alt)
next
  case (Cons gap gaps)
  obtain s1 w1 where r: "retry_round env svc u gap (s, w) = (s1, w1)" by fastforce
  define now where "now = e_clock env (Suc (w_tick w + gap))"
  have del: "deliverable (last_acked s u) m" using Cons.prems(7,8) by (auto simp: deliverable_def awaiting_def)
  from Cons.prems(1-5) r obtain ds k where d: "w_tick w + gap \<le> k" "k \<le> w_tick w1"
    "sends (w_log w1) = sends (w_log w) @ map (\<lambda>m. (conn, notify_packet env svc m)) ds"
    "filter (\<lambda>x. id_of x = i) ds = (if due svc now m then [m] else [])"
    "im_messages s1 i = Some (attempted svc now (e_clock env k) m)"
    "store_inv n s1" "pending s1 = pending s" "last_acked s1 = last_acked s"
    by (rule retry_round_effect) (auto simp: del now_def intro: that)
  have rest: "retry_rounds env svc u gaps (s1, w1) = (s', w')" using Cons.prems(10) r by simp
  show ?case
  proof (cases "sm_retryCount m = ms_maxRetryCount svc")
    case True
    then have e: "\<not> due svc now m" "attempted svc now (e_clock env k) m = m\<lparr>sm_status := DeliveryFailed\<rparr>"
      by (simp_all add: due_def attempted_def)
    from failed_stays [OF d(6) Cons.prems(2) _ d(5) _ _ rest] Cons.prems(3,5) d(7) e
    obtain ds' where "sends (w_log w') = sends (w_log w1) @ map (\<lambda>m. (conn, notify_packet env svc m)) ds'"
      "filter (\<lambda>x. id_of x = i) ds' = []" "im_messages s' i = Some (m\<lparr>sm_status := DeliveryFailed\<rparr>)" by auto
    with d(3,4) e(1) True show ?thesis by (intro exI [of _ "ds @ ds'"]) simp
  next
    case False
    with Cons.prems(9) have lt: "sm_retryCount m < ms_maxRetryCount svc" by simp
    let ?m = "m\<lparr>sm_status := DeliveryDelivering, sm_lastDeliverAt := e_clock env k, sm_retryCount := sm_retryCount m + 1\<rparr>"
    have e: "due svc now m" using awaiting_due [OF Cons.prems(7,6) lt] by (simp add: now_def)
    then have m1: "im_messages s1 i = Some ?m" using d(5) lt by (simp add: attempted_def not_le)
    have c: "unat (sm_retryCount m + 1) = Suc (unat (sm_retryCount m))"
      using lt by (rule unat_inc_below)
    have "mono (e_clock env)" "0 < e_clock env 0" using Cons.prems(6) by (auto simp: patient_def)
    then have aw: "awaiting env w1 ?m"
      using d(2) by (auto simp: awaiting_def monoD less_le_trans [OF _ monoD [of "e_clock env" 0 k]])
    have p: "patient env svc gaps" using Cons.prems(6) by (simp add: patient_def)
    from Cons.IH [OF d(6) Cons.prems(2) _ m1 _ p aw _ _ rest] Cons.prems(3,5,8) d(7,8) lt c
    obtain ds' m' where "sends (w_log w') = sends (w_log w1) @ map (\<lambda>m. (conn, notify_packet env svc m)) ds'"
      "map (\<lambda>x. unat (sm_retryCount x)) (filter (\<lambda>x. id_of x = i) ds') =
         [Suc (unat (sm_retryCount m))..<min (Suc (unat (sm_retryCount m)) + length gaps) (unat (ms_maxRetryCount svc))]"
      "im_messages s' i = Some m'"
      "sm_status m' = DeliveryFailed \<longleftrightarrow> unat (ms_maxRetryCount svc) < Suc (unat (sm_retryCount m)) + length gaps"
      by (auto simp: word_le_nat_alt word_less_nat_alt)
    with d(3,4) e lt show ?thesis
      by (intro exI [of _ "ds @ ds'"] exI [of _ m']) (auto simp: word_less_nat_alt upt_conv_Cons)
  qed
qed

text \<open>
  Claim C13 (retries_then_fails). Delivery is repeated, boundedly, until it is acknowledged: a stored message
  whose receiver stays connected and acknowledges nothing is sent to the receiver's connection in each of
  the first rounds, once per round, with retry counts 0, 1, 2 and so on, exactly as often as the policy
  allows; the following round marks it as failed, and it is never sent again. Rounds are calls of
  \<open>deliverPendingMessages\<close> that are at least the longest waiting time of the policy apart, whatever other
  messages are pending, as long as a batch holds them.
\<close>

theorem retries_then_fails:
  assumes "length ops \<le> store_bound" "im_messages (stored ops) i = Some m" "i \<in> set (pending (stored ops) u)"
    and "sm_status m = DeliveryPersisted" "sm_retryCount m = 0" "last_acked (stored ops) u < seq_of m"
    and "length (pending (stored ops) u) \<le> ms_retryBatchSize svc" "receiver_up env svc u conn" "patient env svc gaps"
    and "retry_rounds env svc u gaps (stored ops, w) = (s', w')"
  shows "\<exists>ds m'. sends (w_log w') = sends (w_log w) @ map (\<lambda>m. (conn, notify_packet env svc m)) ds \<and>
    map (\<lambda>x. unat (sm_retryCount x)) (filter (\<lambda>x. id_of x = i) ds) = [0..<min (length gaps) (unat (ms_maxRetryCount svc))] \<and>
    im_messages s' i = Some m' \<and> (sm_status m' = DeliveryFailed \<longleftrightarrow> unat (ms_maxRetryCount svc) < length gaps)"
  using awaiting_rounds [OF stored_inv [OF assms(1)] assms(8,3,2,7,9) _ assms(6) _ assms(10)] assms(4,5)
  by (simp add: awaiting_def)

text \<open>Seven rounds, half a minute apart, with the default policy of five attempts.\<close>

definition slow_clock :: "nat env" where
  "slow_clock = calm\<lparr>e_clock := (\<lambda>k. 1 + 30000 * int k)\<rparr>"

theorem retries_then_fails_witness:
  "\<exists>ds m'. sends (w_log (snd (retry_rounds slow_clock one_user ''bob'' (replicate 7 1) (stored [Save req_a], quiet)))) =
      map (\<lambda>m. (7, notify_packet slow_clock one_user m)) ds \<and>
    map (\<lambda>x. unat (sm_retryCount x)) (filter (\<lambda>x. id_of x = 1) ds) = [0, 1, 2, 3, 4] \<and>
    im_messages (fst (retry_rounds slow_clock one_user ''bob'' (replicate 7 1) (stored [Save req_a], quiet))) 1 = Some m' \<and>
    sm_status m' = DeliveryFailed"
proof -
  have up: "receiver_up slow_clock one_user ''bob'' 7" by (simp add: receiver_up_def slow_clock_def calm_def one_user_def)
  have p: "patient slow_clock one_user (replicate 7 1)"
    by (auto simp: patient_def slow_clock_def one_user_def MessageService_init_def intro!: monoI)
  obtain m where m: "im_messages (stored [Save req_a]) 1 = Some m" "1 \<in> set (pending (stored [Save req_a]) ''bob'')"
      "sm_status m = DeliveryPersisted" "sm_retryCount m = 0" "last_acked (stored [Save req_a]) ''bob'' < seq_of m"
      "length (pending (stored [Save req_a]) ''bob'') \<le> ms_retryBatchSize one_user"
    by (simp add: two_saved_eval pending_def last_acked_def one_user_def MessageService_init_def)
  have b: "length [Save req_a] \<le> store_bound" by (simp add: store_bound_def)
  have n: "sends (w_log quiet) = []" "unat (ms_maxRetryCount one_user) = 5"
    by (simp_all add: quiet_def one_user_def MessageService_init_def)
  have l: "[0..<min 7 5] = [0, 1, 2, 3, 4]" by code_simp
  from retries_then_fails [OF b m up p surjective_pairing, of quiet]
  show ?thesis unfolding n length_replicate l append_Nil by simp
qed

end
