(* ===== verification/LoopThread.thy ===== *)
theory LoopThread
  imports EventLoop
begin

text \<open>
  \<open>src/net/currentThread.h\<close>, \<open>src/net/currentThread.cpp\<close> and the parts of \<open>src/net/eventLoop.cpp\<close> that
  depend on the calling thread: the cached thread number, the construction and destruction of event loops,
  the test whether a call comes from a loop's own thread and the choice \<open>runInLoop\<close> makes by it. Threads
  and loops are numbers; \<open>gettid\<close> is the system call, a wake-up descriptor is the result of \<open>eventfd\<close>. A
  failed assertion and a pointer to a loop that does not exist are \<open>None\<close>; what \<open>LOG_FATAL\<close> reports is a
  value of \<open>lp_fatal\<close>, after which the code goes on. \<open>lo_creator\<close> and \<open>lo_ran\<close>, the functors run with the
  thread that ran them, are never read by the code.
\<close>

section \<open>Threads and loops\<close>

record ('k, 'f) loop_obj =
  lo_threadId :: int
  lo_net :: "'k net"
  lo_currentActive :: "nat option"
  lo_wakeupFd :: int
  lo_wakeupChannel :: nat
  lo_state :: "'f EventLoop"
  lo_creator :: nat
  lo_ran :: "('f \<times> nat) list"

datatype fatal = AnotherLoop nat nat | EventfdFailed nat | NotInLoopThread nat nat

record ('k, 'f) loops =
  lp_cachedTid :: "nat \<Rightarrow> int"
  lp_loopInThisThread :: "nat \<Rightarrow> nat option"
  lp_objs :: "nat \<rightharpoonup> ('k, 'f) loop_obj"
  lp_fatal :: "fatal list"

definition loops_init :: "('k, 'f) loops" where
  "loops_init = \<lparr>lp_cachedTid = (\<lambda>_. 0), lp_loopInThisThread = (\<lambda>_. None), lp_objs = Map.empty, lp_fatal = []\<rparr>"

definition cacheTid :: "(nat \<Rightarrow> int) \<Rightarrow> nat \<Rightarrow> ('k, 'f) loops \<Rightarrow> ('k, 'f) loops" where
  "cacheTid gettid th s =
     (if lp_cachedTid s th = 0 then s\<lparr>lp_cachedTid := (lp_cachedTid s)(th := gettid th)\<rparr> else s)"

definition tid :: "(nat \<Rightarrow> int) \<Rightarrow> nat \<Rightarrow> ('k, 'f) loops \<Rightarrow> int \<times> ('k, 'f) loops" where
  "tid gettid th s =
     (let s = (if lp_cachedTid s th = 0 then cacheTid gettid th s else s) in (lp_cachedTid s th, s))"

definition fatal :: "fatal \<Rightarrow> ('k, 'f) loops \<Rightarrow> ('k, 'f) loops" where
  "fatal e s = s\<lparr>lp_fatal := lp_fatal s @ [e]\<rparr>"

definition set_loop :: "nat \<Rightarrow> ('k, 'f) loop_obj \<Rightarrow> ('k, 'f) loops \<Rightarrow> ('k, 'f) loops" where
  "set_loop l x s = s\<lparr>lp_objs := (lp_objs s)(l \<mapsto> x)\<rparr>"

definition isInLoopThread ::
    "(nat \<Rightarrow> int) \<Rightarrow> nat \<Rightarrow> ('k, 'f) loop_obj \<Rightarrow> ('k, 'f) loops \<Rightarrow> bool \<times> ('k, 'f) loops" where
  "isInLoopThread gettid th x s = (let (t, s) = tid gettid th s in (lo_threadId x = t, s))"

definition abortNotInLoopThread :: "nat \<Rightarrow> nat \<Rightarrow> ('k, 'f) loops \<Rightarrow> ('k, 'f) loops" where
  "abortNotInLoopThread th l s = fatal (NotInLoopThread l th) s"

definition assertInLoopThread ::
    "(nat \<Rightarrow> int) \<Rightarrow> nat \<Rightarrow> nat \<Rightarrow> ('k, 'f) loops \<Rightarrow> ('k, 'f) loops option" where
  "assertInLoopThread gettid th l s = do {
     x \<leftarrow> lp_objs s l;
     let (inside, s) = isInLoopThread gettid th x s;
     Some (if inside then s else abortNotInLoopThread th l s) }"

definition getEventLoopOfCurrentThread :: "nat \<Rightarrow> ('k, 'f) loops \<Rightarrow> nat option" where
  "getEventLoopOfCurrentThread th s = lp_loopInThisThread s th"

section \<open>Construction and destruction\<close>

text \<open>
  The constructor's poller starts with the kernel state \<open>k\<close>, its wake-up channel is created at address
  \<open>p\<close>. The calls of \<open>updateChannel\<close> it leads to come from the thread it records.
\<close>

definition EventLoop_new ::
    "(nat \<Rightarrow> int) \<Rightarrow> 'k epoll_ctl \<Rightarrow> 'k \<Rightarrow> nat \<Rightarrow> nat \<Rightarrow> nat \<Rightarrow> int \<Rightarrow> ('k, 'f) loops \<Rightarrow> ('k, 'f) loops option" where
  "EventLoop_new gettid ctl k th l p eventfd s =
     (if lp_objs s l \<noteq> None then None
      else do {
        let (threadId, s) = tid gettid th s;
        let s = (case lp_loopInThisThread s th of
                   Some l' \<Rightarrow> fatal (AnotherLoop l' th) s
                 | None \<Rightarrow> s\<lparr>lp_loopInThisThread := (lp_loopInThisThread s)(th \<mapsto> l)\<rparr>);
        let s = (if eventfd < 0 then fatal (EventfdFailed l) s else s);
        net \<leftarrow> new_channel p eventfd (net_init k);
        net \<leftarrow> enableReading ctl p net;
        Some (set_loop l \<lparr>lo_threadId = threadId, lo_net = net, lo_currentActive = None, lo_wakeupFd = eventfd,
          lo_wakeupChannel = p, lo_state = EventLoop_init, lo_creator = th, lo_ran = []\<rparr> s) })"

definition EventLoop_delete ::
    "(nat \<Rightarrow> int) \<Rightarrow> 'k epoll_ctl \<Rightarrow> nat \<Rightarrow> nat \<Rightarrow> ('k, 'f) loops \<Rightarrow> ('k, 'f) loops option" where
  "EventLoop_delete gettid ctl th l s = do {
     x \<leftarrow> lp_objs s l;
     if el_phase (lo_state x) \<noteq> Idle then None
     else do {
       s \<leftarrow> assertInLoopThread gettid th l s;
       net \<leftarrow> disable_all_events ctl (lo_wakeupChannel x) (lo_net x);
       s \<leftarrow> assertInLoopThread gettid th l s;
       net \<leftarrow> channel_remove ctl (lo_wakeupChannel x) net;
       net \<leftarrow> delete_channel (lo_wakeupChannel x) net;
       Some (s\<lparr>lp_loopInThisThread := (lp_loopInThisThread s)(th := None), lp_objs := (lp_objs s)(l := None)\<rparr>) } }"

section \<open>Calls from any thread\<close>

text \<open>The channels of a loop are those of its poller's store: \<open>ownerLoop() == this\<close> is their being there.\<close>

definition loop_updateChannel ::
    "(nat \<Rightarrow> int) \<Rightarrow> 'k epoll_ctl \<Rightarrow> nat \<Rightarrow> nat \<Rightarrow> nat \<Rightarrow> ('k, 'f) loops \<Rightarrow> ('k, 'f) loops option" where
  "loop_updateChannel gettid ctl th l p s = do {
     x \<leftarrow> lp_objs s l;
     _ \<leftarrow> nt_heap (lo_net x) p;
     s \<leftarrow> assertInLoopThread gettid th l s;
     net \<leftarrow> updateChannel ctl p (lo_net x);
     Some (set_loop l (x\<lparr>lo_net := net\<rparr>) s) }"

definition loop_removeChannel ::
    "(nat \<Rightarrow> int) \<Rightarrow> 'k epoll_ctl \<Rightarrow> nat \<Rightarrow> nat \<Rightarrow> nat \<Rightarrow> ('k, 'f) loops \<Rightarrow> ('k, 'f) loops option" where
  "loop_removeChannel gettid ctl th l p s = do {
     x \<leftarrow> lp_objs s l;
     _ \<leftarrow> nt_heap (lo_net x) p;
     s \<leftarrow> assertInLoopThread gettid th l s;
     let x = (if lo_currentActive x = Some p then x\<lparr>lo_currentActive := None\<rparr> else x);
     net \<leftarrow> removeChannel ctl p (lo_net x);
     Some (set_loop l (x\<lparr>lo_net := net\<rparr>) s) }"

definition loop_setUseEdgeTrigger :: "nat \<Rightarrow> bool \<Rightarrow> ('k, 'f) loops \<Rightarrow> ('k, 'f) loops option" where
  "loop_setUseEdgeTrigger l enabled s = do {
     x \<leftarrow> lp_objs s l;
     Some (set_loop l (x\<lparr>lo_net := setUseEdgeTrigger enabled (lo_net x)\<rparr>) s) }"

definition loop_queueInLoop ::
    "(nat \<Rightarrow> int) \<Rightarrow> nat \<Rightarrow> nat \<Rightarrow> 'f \<Rightarrow> ('k, 'f) loops \<Rightarrow> ('k, 'f) loops option" where
  "loop_queueInLoop gettid th l f s = do {
     x \<leftarrow> lp_objs s l;
     let (inside, s) = isInLoopThread gettid th x s;
     Some (set_loop l (x\<lparr>lo_state := queueInLoop inside f (lo_state x)\<rparr>) s) }"

definition runInLoop ::
    "(nat \<Rightarrow> int) \<Rightarrow> nat \<Rightarrow> nat \<Rightarrow> 'f \<Rightarrow> ('k, 'f) loops \<Rightarrow> ('k, 'f) loops option" where
  "runInLoop gettid th l f s = do {
     x \<leftarrow> lp_objs s l;
     let (inside, s) = isInLoopThread gettid th x s;
     if inside then Some (set_loop l (x\<lparr>lo_ran := lo_ran x @ [(f, th)]\<rparr>) s)
     else loop_queueInLoop gettid th l f s }"

definition loop_quit :: "(nat \<Rightarrow> int) \<Rightarrow> nat \<Rightarrow> nat \<Rightarrow> ('k, 'f) loops \<Rightarrow> ('k, 'f) loops option" where
  "loop_quit gettid th l s = do {
     x \<leftarrow> lp_objs s l;
     let (inside, s) = isInLoopThread gettid th x s;
     Some (set_loop l (x\<lparr>lo_state := quit inside (lo_state x)\<rparr>) s) }"

text \<open>
  A step of \<open>loop()\<close> in a thread, or the write of a wake-up by the thread that owes it: entering the loop
  asserts the thread, running the next functor runs it here.
\<close>

definition about_to_run :: "'f loop_step \<Rightarrow> 'f EventLoop \<Rightarrow> 'f list" where
  "about_to_run a s = (case (a, el_phase s) of (RunNext, Calling (f # _)) \<Rightarrow> [f] | _ \<Rightarrow> [])"

definition loop_thread_step ::
    "(nat \<Rightarrow> int) \<Rightarrow> nat \<Rightarrow> nat \<Rightarrow> 'f loop_step \<Rightarrow> ('k, 'f) loops \<Rightarrow> ('k, 'f) loops option" where
  "loop_thread_step gettid th l a s = do {
     s \<leftarrow> (if a = Start then assertInLoopThread gettid th l s else Some s);
     x \<leftarrow> lp_objs s l;
     e \<leftarrow> loop_do a (lo_state x);
     Some (set_loop l (x\<lparr>lo_state := e, lo_ran := lo_ran x @ map (\<lambda>f. (f, th)) (about_to_run a (lo_state x))\<rparr>) s) }"

section \<open>Histories\<close>

datatype 'f thread_op =
    NewLoop nat nat nat int
  | DeleteLoop nat nat
  | UpdateChannel nat nat nat
  | RemoveChannelOf nat nat nat
  | EdgeTrigger nat bool
  | QueueInLoop nat nat 'f
  | RunInLoop nat nat 'f
  | QuitLoop nat nat
  | LoopStep nat nat "'f loop_step"
  | WakeWrite nat nat

fun thread_do ::
    "(nat \<Rightarrow> int) \<Rightarrow> 'k epoll_ctl \<Rightarrow> 'k \<Rightarrow> 'f thread_op \<Rightarrow> ('k, 'f) loops \<Rightarrow> ('k, 'f) loops option" where
  "thread_do gettid ctl k (NewLoop th l p fd) s = EventLoop_new gettid ctl k th l p fd s"
| "thread_do gettid ctl k (DeleteLoop th l) s = EventLoop_delete gettid ctl th l s"
| "thread_do gettid ctl k (UpdateChannel th l p) s = loop_updateChannel gettid ctl th l p s"
| "thread_do gettid ctl k (RemoveChannelOf th l p) s = loop_removeChannel gettid ctl th l p s"
| "thread_do gettid ctl k (EdgeTrigger l e) s = loop_setUseEdgeTrigger l e s"
| "thread_do gettid ctl k (QueueInLoop th l f) s = loop_queueInLoop gettid th l f s"
| "thread_do gettid ctl k (RunInLoop th l f) s = runInLoop gettid th l f s"
| "thread_do gettid ctl k (QuitLoop th l) s = loop_quit gettid th l s"
| "thread_do gettid ctl k (LoopStep th l a) s = loop_thread_step gettid th l a s"
| "thread_do gettid ctl k (WakeWrite th l) s = loop_thread_step gettid th l Write s"

text \<open>The rule of the program: a loop is run, destroyed and given channels by the thread that made it.\<close>

fun confined :: "'f thread_op \<Rightarrow> ('k, 'f) loops \<Rightarrow> bool" where
  "confined (DeleteLoop th l) s = (case lp_objs s l of None \<Rightarrow> True | Some x \<Rightarrow> lo_creator x = th)"
| "confined (UpdateChannel th l p) s = (case lp_objs s l of None \<Rightarrow> True | Some x \<Rightarrow> lo_creator x = th)"
| "confined (RemoveChannelOf th l p) s = (case lp_objs s l of None \<Rightarrow> True | Some x \<Rightarrow> lo_creator x = th)"
| "confined (LoopStep th l a) s = (case lp_objs s l of None \<Rightarrow> True | Some x \<Rightarrow> lo_creator x = th)"
| "confined _ s = True"

primrec thread_run ::
    "(nat \<Rightarrow> int) \<Rightarrow> 'k epoll_ctl \<Rightarrow> 'k \<Rightarrow> 'f thread_op list \<Rightarrow> ('k, 'f) loops \<Rightarrow> ('k, 'f) loops option" where
  "thread_run gettid ctl k [] s = Some s"
| "thread_run gettid ctl k (a # as) s =
     (if confined a s then Option.bind (thread_do gettid ctl k a s) (thread_run gettid ctl k as) else None)"

section \<open>Functors run in the thread of their loop\<close>

definition obj_ok :: "(nat \<Rightarrow> int) \<Rightarrow> ('k, 'f) loop_obj \<Rightarrow> bool" where
  "obj_ok gettid x \<longleftrightarrow> lo_threadId x = gettid (lo_creator x) \<and> (\<forall>(f, th) \<in> set (lo_ran x). th = lo_creator x)"

definition thread_inv :: "(nat \<Rightarrow> int) \<Rightarrow> ('k, 'f) loops \<Rightarrow> bool" where
  "thread_inv gettid s \<longleftrightarrow>
     (\<forall>th. lp_cachedTid s th = 0 \<or> lp_cachedTid s th = gettid th) \<and>
     (\<forall>l x. lp_objs s l = Some x \<longrightarrow> obj_ok gettid x) \<and>
     (\<forall>th l. lp_loopInThisThread s th = Some l \<longrightarrow> (\<exists>x. lp_objs s l = Some x \<and> lo_creator x = th)) \<and>
     (\<forall>l th. NotInLoopThread l th \<notin> set (lp_fatal s)) \<and>
     ((\<forall>l th. AnotherLoop l th \<notin> set (lp_fatal s)) \<longrightarrow>
        (\<forall>l x. lp_objs s l = Some x \<longrightarrow> lp_loopInThisThread s (lo_creator x) = Some l))"

lemma thread_inv_init: "thread_inv gettid loops_init"
  by (simp add: thread_inv_def loops_init_def)

abbreviation remember :: "(nat \<Rightarrow> int) \<Rightarrow> nat \<Rightarrow> ('k, 'f) loops \<Rightarrow> ('k, 'f) loops" where
  "remember gettid th s \<equiv> s\<lparr>lp_cachedTid := (lp_cachedTid s)(th := gettid th)\<rparr>"

lemma tid_eq: "thread_inv gettid s \<Longrightarrow> tid gettid th s = (gettid th, remember gettid th s)"
  by (auto simp: thread_inv_def tid_def cacheTid_def fun_upd_idem)

lemma remember_inv: "thread_inv gettid s \<Longrightarrow> thread_inv gettid (remember gettid th s)"
  by (simp add: thread_inv_def)

text \<open>Numbers of threads are unique, as the system promises.\<close>

lemma isInLoopThread_eq:
  assumes "inj gettid" "thread_inv gettid s" "lp_objs s l = Some x"
  shows "isInLoopThread gettid th x s = (lo_creator x = th, remember gettid th s)"
proof -
  have "lo_threadId x = gettid (lo_creator x)" using assms(2,3) by (auto simp: thread_inv_def obj_ok_def)
  with assms(1) show ?thesis by (simp add: isInLoopThread_def tid_eq [OF assms(2)] inj_eq)
qed

lemma assertInLoopThread_eq:
  assumes "inj gettid" "thread_inv gettid s" "lp_objs s l = Some x" "lo_creator x = th"
  shows "assertInLoopThread gettid th l s = Some (remember gettid th s)"
  using isInLoopThread_eq [OF assms(1-3), of th] assms(3,4) by (simp add: assertInLoopThread_def)

lemma set_loop_inv:
  assumes "thread_inv gettid s" "lp_objs s l = Some x" "obj_ok gettid y" "lo_creator y = lo_creator x"
  shows "thread_inv gettid (set_loop l y s)"
  using assms unfolding thread_inv_def set_loop_def by (auto split: if_splits) (metis option.inject)+

lemma obj_ok_keep:
  "obj_ok gettid x \<Longrightarrow> lo_threadId y = lo_threadId x \<Longrightarrow> lo_creator y = lo_creator x \<Longrightarrow>
   lo_ran y = lo_ran x @ map (\<lambda>f. (f, lo_creator x)) fs \<Longrightarrow> obj_ok gettid y"
  by (auto simp: obj_ok_def)

lemma known_obj: "thread_inv gettid s \<Longrightarrow> lp_objs s l = Some x \<Longrightarrow> obj_ok gettid x"
  by (auto simp: thread_inv_def)

lemma pointer_owner:
  "thread_inv gettid s \<Longrightarrow> lp_loopInThisThread s th = Some l \<Longrightarrow> \<exists>x. lp_objs s l = Some x \<and> lo_creator x = th"
  unfolding thread_inv_def by blast

lemma EventLoop_new_inv:
  assumes "thread_inv gettid s" "EventLoop_new gettid ctl k th l p fd s = Some s'"
  shows "thread_inv gettid s'"
proof -
  define u where "u = (case lp_loopInThisThread s th of Some l' \<Rightarrow> fatal (AnotherLoop l' th) (remember gettid th s)
      | None \<Rightarrow> (remember gettid th s)\<lparr>lp_loopInThisThread := (lp_loopInThisThread s)(th \<mapsto> l)\<rparr>)"
  have free: "lp_objs s l = None" using assms(2) by (auto simp: EventLoop_new_def split: if_splits)
  have "EventLoop_new gettid ctl k th l p fd s = do {
      net \<leftarrow> new_channel p fd (net_init k);
      net \<leftarrow> enableReading ctl p net;
      Some (set_loop l \<lparr>lo_threadId = gettid th, lo_net = net, lo_currentActive = None, lo_wakeupFd = fd, lo_wakeupChannel = p,
        lo_state = EventLoop_init, lo_creator = th, lo_ran = []\<rparr> (if fd < 0 then fatal (EventfdFailed l) u else u)) }"
    using free by (cases "lp_loopInThisThread s th") (simp_all add: EventLoop_new_def tid_eq [OF assms(1)] u_def Let_def)
  with assms(2) obtain net where s': "s' = set_loop l
      \<lparr>lo_threadId = gettid th, lo_net = net, lo_currentActive = None, lo_wakeupFd = fd, lo_wakeupChannel = p,
        lo_state = EventLoop_init, lo_creator = th, lo_ran = []\<rparr> (if fd < 0 then fatal (EventfdFailed l) u else u)"
    by (auto simp: bind_eq_Some_conv)
  have "lp_loopInThisThread s q \<noteq> Some l" for q
    using pointer_owner [OF assms(1), of q l] free by auto
  then show ?thesis
    using assms(1) free unfolding s' u_def thread_inv_def set_loop_def fatal_def
    by (auto simp: obj_ok_def split: option.splits if_splits)
qed

lemma EventLoop_delete_inv:
  assumes "inj gettid" "thread_inv gettid s" "confined (DeleteLoop th l) s" "EventLoop_delete gettid ctl th l s = Some s'"
  shows "thread_inv gettid s'"
proof -
  obtain x where x: "lp_objs s l = Some x" "lo_creator x = th"
    using assms(3,4) by (auto simp: EventLoop_delete_def bind_eq_Some_conv)
  let ?t = "remember gettid th s"
  have a: "assertInLoopThread gettid th l s = Some ?t" "assertInLoopThread gettid th l ?t = Some ?t"
    using assertInLoopThread_eq [OF assms(1,2) x] assertInLoopThread_eq [OF assms(1) remember_inv [OF assms(2)], where l = l and x = x and th = th] x
    by simp_all
  have s': "s' = ?t\<lparr>lp_loopInThisThread := (lp_loopInThisThread s)(th := None), lp_objs := (lp_objs s)(l := None)\<rparr>"
    using assms(4) x(1) by (auto simp: EventLoop_delete_def bind_eq_Some_conv a split: if_splits)
  have "lp_loopInThisThread s q \<noteq> Some l" if "q \<noteq> th" for q
    using pointer_owner [OF assms(2), of q l] x that by auto
  then show ?thesis
    using assms(2) x unfolding s' thread_inv_def by (auto split: if_splits) (metis option.inject)
qed

text \<open>The other operations put back a loop with at most its own thread's functors added.\<close>

lemma put_back_inv:
  assumes "thread_inv gettid s" "lp_objs s l = Some x"
    and "lo_threadId y = lo_threadId x" "lo_creator y = lo_creator x"
    and "lo_ran y = lo_ran x @ map (\<lambda>f. (f, lo_creator x)) fs"
  shows "thread_inv gettid (set_loop l y (remember gettid th s))" "thread_inv gettid (set_loop l y s)"
  using set_loop_inv [OF _ _ obj_ok_keep [OF known_obj [OF assms(1,2)] assms(3-5)] assms(4)] remember_inv [OF assms(1)] assms(1,2)
  by simp_all

lemma thread_do_inv:
  assumes "inj gettid" "thread_inv gettid s" "confined a s" "thread_do gettid ctl k a s = Some s'"
  shows "thread_inv gettid s'"
proof (cases a)
  case (NewLoop th l p fd)
  with assms(4) EventLoop_new_inv [OF assms(2)] show ?thesis by simp
next
  case (DeleteLoop th l)
  with assms(3,4) EventLoop_delete_inv [OF assms(1,2)] show ?thesis by simp
next
  case (UpdateChannel th l p)
  with assms(3,4) show ?thesis
    by (auto simp: loop_updateChannel_def bind_eq_Some_conv assertInLoopThread_eq [OF assms(1,2)]
        intro!: put_back_inv [OF assms(2), where fs = "[]"])
next
  case (RemoveChannelOf th l p)
  with assms(3,4) show ?thesis
    by (auto simp: loop_removeChannel_def bind_eq_Some_conv assertInLoopThread_eq [OF assms(1,2)] Let_def
        intro!: put_back_inv [OF assms(2), where fs = "[]"])
next
  case (EdgeTrigger l e)
  with assms(4) show ?thesis
    by (auto simp: loop_setUseEdgeTrigger_def bind_eq_Some_conv intro!: put_back_inv [OF assms(2), where fs = "[]"])
next
  case (QueueInLoop th l f)
  with assms(4) show ?thesis
    by (auto simp: loop_queueInLoop_def bind_eq_Some_conv isInLoopThread_eq [OF assms(1,2)]
        intro!: put_back_inv [OF assms(2), where fs = "[]"])
next
  case (RunInLoop th l f)
  then obtain x where x: "lp_objs s l = Some x" using assms(4) by (auto simp: runInLoop_def bind_eq_Some_conv)
  show ?thesis
  proof (cases "lo_creator x = th")
    case True
    with RunInLoop assms(4) x show ?thesis
      by (auto simp: runInLoop_def isInLoopThread_eq [OF assms(1,2)] intro!: put_back_inv [OF assms(2), where fs = "[f]"])
  next
    case False
    with RunInLoop assms(4) x have "loop_queueInLoop gettid th l f (remember gettid th s) = Some s'"
      by (simp add: runInLoop_def isInLoopThread_eq [OF assms(1,2)])
    with x show ?thesis
      by (auto simp: loop_queueInLoop_def isInLoopThread_eq [OF assms(1) remember_inv [OF assms(2)]]
          intro!: put_back_inv [OF remember_inv [OF assms(2)], where fs = "[]"])
  qed
next
  case (QuitLoop th l)
  with assms(4) show ?thesis
    by (auto simp: loop_quit_def bind_eq_Some_conv isInLoopThread_eq [OF assms(1,2)]
        intro!: put_back_inv [OF assms(2), where fs = "[]"])
next
  case (LoopStep th l b)
  then obtain x where x: "lp_objs s l = Some x" "lo_creator x = th"
    using assms(3,4) by (auto simp: loop_thread_step_def bind_eq_Some_conv assertInLoopThread_def split: if_splits option.splits)
  with LoopStep assms(4) show ?thesis
    by (auto simp: loop_thread_step_def bind_eq_Some_conv assertInLoopThread_eq [OF assms(1,2)] split: if_splits
        intro!: put_back_inv [OF assms(2), where fs = "about_to_run b (lo_state x)"])
next
  case (WakeWrite th l)
  with assms(4) show ?thesis
    by (auto simp: loop_thread_step_def bind_eq_Some_conv about_to_run_def intro!: put_back_inv [OF assms(2), where fs = "[]"])
qed

lemma thread_run_inv:
  "inj gettid \<Longrightarrow> thread_inv gettid s \<Longrightarrow> thread_run gettid ctl k as s = Some s' \<Longrightarrow> thread_inv gettid s'"
  by (induction as arbitrary: s) (auto simp: bind_eq_Some_conv split: if_splits dest: thread_do_inv)

text \<open>
  Claim C30 (loop_confined). Over any history of any number of threads and loops in which every loop is run,
  given channels and destroyed by the thread that made it, and in which other threads only hand it
  functors or tell it to quit: every functor given to \<open>runInLoop\<close> or \<open>queueInLoop\<close>, by whatever thread, is
  run by the thread that made the loop; \<open>isInLoopThread\<close> is true exactly in that thread; no assertion of
  the thread is reported; \<open>getEventLoopOfCurrentThread\<close> never returns a destroyed loop or the loop of
  another thread, and returns the thread's loop as long as no thread has made a second one.
\<close>

theorem loop_confined:
  assumes "inj gettid" "thread_run gettid ctl k ops loops_init = Some s"
  shows "(\<forall>l x f th. lp_objs s l = Some x \<and> (f, th) \<in> set (lo_ran x) \<longrightarrow> th = lo_creator x) \<and>
    (\<forall>l x th. lp_objs s l = Some x \<longrightarrow> (fst (isInLoopThread gettid th x s) \<longleftrightarrow> th = lo_creator x)) \<and>
    (\<forall>l th. NotInLoopThread l th \<notin> set (lp_fatal s)) \<and>
    (\<forall>th l. getEventLoopOfCurrentThread th s = Some l \<longrightarrow> (\<exists>x. lp_objs s l = Some x \<and> lo_creator x = th)) \<and>
    ((\<forall>l th. AnotherLoop l th \<notin> set (lp_fatal s)) \<longrightarrow>
       (\<forall>l x. lp_objs s l = Some x \<longrightarrow> getEventLoopOfCurrentThread (lo_creator x) s = Some l))"
proof -
  have inv: "thread_inv gettid s" by (rule thread_run_inv [OF assms(1) thread_inv_init assms(2)])
  have "fst (isInLoopThread gettid th x s) \<longleftrightarrow> th = lo_creator x" if "lp_objs s l = Some x" for l x th
    using isInLoopThread_eq [OF assms(1) inv that, of th] by auto
  moreover have "th = lo_creator x" if "lp_objs s l = Some x" "(f, th) \<in> set (lo_ran x)" for l x f th
    using known_obj [OF inv that(1)] that(2) by (auto simp: obj_ok_def)
  ultimately show ?thesis using inv unfolding thread_inv_def getEventLoopOfCurrentThread_def by blast
qed

text \<open>A functor from another thread and one from the loop's own, which overtakes it.\<close>

definition two_threads :: "nat thread_op list" where
  "two_threads =
     [NewLoop 0 0 0 5, NewLoop 1 1 0 6, LoopStep 0 0 Start, RunInLoop 1 0 7, RunInLoop 0 0 8, WakeWrite 1 0,
      LoopStep 0 0 PollReturn, LoopStep 0 0 ReadWakeup, LoopStep 0 0 TakePending, LoopStep 0 0 RunNext]"

lemmas thread_op_defs =
  EventLoop_new_def runInLoop_def loop_queueInLoop_def loop_thread_step_def isInLoopThread_def tid_def cacheTid_def
  assertInLoopThread_def set_loop_def fatal_def about_to_run_def loops_init_def

lemmas channel_eval =
  net_init_def EpollPoller_init_def new_channel_def delete_channel_def channel_ops channel_update_def updateChannel_def
  setIndex_def epoll_update_def set_channel_def isNoneEvent_def channel_remove_def removeChannel_def Channel_init_def poll_bits

theorem loop_confined_witness:
  "\<exists>s x. thread_run (\<lambda>th. int th + 1) interest_list_ctl Map.empty two_threads loops_init = Some s \<and>
     lp_objs s 0 = Some x \<and> lo_ran x = [(8, 0), (7, 0)] \<and> lo_creator x = 0 \<and>
     fst (isInLoopThread (\<lambda>th. int th + 1) 0 x s) \<and> \<not> fst (isInLoopThread (\<lambda>th. int th + 1) 1 x s) \<and>
     getEventLoopOfCurrentThread 0 s = Some 0 \<and> getEventLoopOfCurrentThread 1 s = Some 1"
proof -
  have inj: "inj (\<lambda>th. int th + 1)" by (rule injI) simp
  obtain s x y where s: "thread_run (\<lambda>th. int th + 1) interest_list_ctl Map.empty two_threads loops_init = Some s"
    "lp_objs s 0 = Some x" "lo_ran x = [(8, 0), (7, 0)]" "lo_creator x = 0" "lp_objs s 1 = Some y" "lo_creator y = 1"
    "lp_fatal s = []"
    by (simp add: two_threads_def thread_op_defs channel_eval EventLoop_init_def loop_defs)
  note c = loop_confined [OF inj s(1)]
  have "fst (isInLoopThread (\<lambda>th. int th + 1) th x s) \<longleftrightarrow> th = 0" for th
    using c [THEN conjunct2, THEN conjunct1] s(2,4) by fastforce
  moreover have "getEventLoopOfCurrentThread (lo_creator x) s = Some 0" "getEventLoopOfCurrentThread (lo_creator y) s = Some 1"
    using c s(2,5,7) by auto
  ultimately show ?thesis using s by (intro exI [of _ s] exI [of _ x]) simp
qed

text \<open>
  A second loop in a thread is reported and made nevertheless; when it is destroyed the thread's pointer is
  cleared although the first loop is still there.
\<close>

theorem second_loop_hides_first:
  "\<exists>s x. thread_run (\<lambda>th. int th + 1) interest_list_ctl Map.empty
       [NewLoop 0 0 0 5, NewLoop 0 1 0 6, DeleteLoop 0 1] (loops_init :: (_, nat) loops) = Some s \<and>
     lp_objs s 0 = Some x \<and> lo_creator x = 0 \<and> lp_fatal s = [AnotherLoop 0 0] \<and> getEventLoopOfCurrentThread 0 s = None"
  by (simp add: thread_op_defs channel_eval EventLoop_delete_def EventLoop_init_def getEventLoopOfCurrentThread_def)

end
