(* ===== verification/Shutdown.thy ===== *)
theory Shutdown
  imports Startup LoopThread MetricsServer
begin

text \<open>
  \<open>src/server_full.cpp\<close>, the end of \<open>main\<close>: the signal handler, the event loop it stops, and the orderly end of the
  services after the loop has returned, with \<open>src/server.cpp\<close>, which does the same for fewer services. The
  process is the composed server, the event loop with the functors that other threads have queued on it (a
  functor is a packet for a connection), the metrics server and the position of the main thread. Its steps
  are those of its threads in any order. A packet sent by the loop's own thread is written at once, one sent
  by another thread is queued on the loop. An exception is \<open>None\<close>, as in the composed server.
\<close>

section \<open>The process\<close>

datatype main_phase = Ready | Looping | Draining | StoppingMetrics bool | Exited int | Aborted

type_synonym packet_out = "conn_ref \<times> string"

record ('h, 'w, 's) process =
  pr_server :: "('h, 'w, 's) server"
  pr_loop :: "packet_out EventLoop"
  pr_metrics :: "MetricsServer option"
  pr_main :: main_phase

text \<open>\<open>SignalHandler\<close>, in the thread the signal is delivered to; \<open>g_loop\<close> may still be null.\<close>

definition SignalHandler :: "bool \<Rightarrow> 'f EventLoop option \<Rightarrow> 'f EventLoop option" where
  "SignalHandler inLoop g_loop = (case g_loop of None \<Rightarrow> None | Some loop \<Rightarrow> Some (quit inLoop loop))"

definition small_SignalHandler :: "bool \<Rightarrow> 'f EventLoop option \<Rightarrow> 'f EventLoop option" where
  "small_SignalHandler inLoop g_loop = (case g_loop of None \<Rightarrow> None | Some loop \<Rightarrow> Some (quit inLoop loop))"

text \<open>What a thread other than the loop's has sent is pushed on the loop, packet by packet.\<close>

definition sent_packets :: "('h, 'w, 's) server \<Rightarrow> packet_out list" where
  "sent_packets sv = sends (w_log (sv_world sv))"

definition hand_over ::
    "('h, 'w, 's) server \<Rightarrow> ('h, 'w, 's) server \<Rightarrow> packet_out EventLoop \<Rightarrow> packet_out EventLoop" where
  "hand_over sv sv' loop = fold (queueInLoop False) (drop (length (sent_packets sv)) (sent_packets sv')) loop"

section \<open>The end of main\<close>

text \<open>
  \<open>messageService->stop()\<close>, which waits for the retry thread, \<open>heartbeatService->stop()\<close> and the beginning of
  \<open>threadPool.stop()\<close>, which then waits for its workers to run the queue empty.
\<close>

definition stop_services :: "('h, 'w, 's) server \<Rightarrow> ('h, 'w, 's) server" where
  "stop_services sv =
     sv\<lparr>sv_message := snd (MessageService.stop (sv_message sv)), sv_heartbeat := HeartbeatService.stop (sv_heartbeat sv),
        sv_poolRunning := False\<rparr>"

definition small_stop_services :: "('h, 'w, 's) server \<Rightarrow> ('h, 'w, 's) server" where
  "small_stop_services sv = sv\<lparr>sv_heartbeat := HeartbeatService.stop (sv_heartbeat sv), sv_poolRunning := False\<rparr>"

definition disconnect_redis :: "('h, 'w, 'j, 's) server_env \<Rightarrow> ('h, 'w, 's) server \<Rightarrow> ('h, 'w, 's) server" where
  "disconnect_redis env sv =
     (let (c, w) = RedisClient.disconnect (ae_redis (sn_auth env)) (be_redis (sv_backend sv), be_world (sv_backend sv)) in
      sv\<lparr>sv_backend := (sv_backend sv)\<lparr>be_redis := c, be_world := w\<rparr>\<rparr>)"

text \<open>
  The join of the metrics server's \<open>stop\<close>, the client of Redis, and the destructor of the metrics server's
  thread at the end of \<open>main\<close>.
\<close>

definition leave_main ::
    "('h, 'w, 'j, 's) server_env \<Rightarrow> bool \<Rightarrow> ('h, 'w, 's) process \<Rightarrow> ('h, 'w, 's) process option" where
  "leave_main env joining p =
     (let p' = p\<lparr>pr_server := disconnect_redis env (pr_server p)\<rparr> in
      case pr_metrics p of
        None \<Rightarrow> Some (p'\<lparr>pr_main := Exited 0\<rparr>)
      | Some m \<Rightarrow>
          if joining \<and> mt_joinable m \<and> mt_thread m \<noteq> Ended then None
          else let m = (if joining then join m else m) in
               Some (p'\<lparr>pr_metrics := Some m, pr_main := (if destroy_thread m = None then Aborted else Exited 0)\<rparr>))"

section \<open>Steps\<close>

datatype proc_step =
    Signal bool
  | Handle server_op
  | Work
  | RetryWork
  | HeartbeatWork
  | Loop "packet_out loop_step"
  | MetricsWork metrics_step
  | MainLoop
  | MainStop
  | MainDrained
  | MainExit

definition in_handler :: "'f EventLoop \<Rightarrow> bool" where
  "in_handler s \<longleftrightarrow> (case el_phase s of Handling _ \<Rightarrow> True | _ \<Rightarrow> False)"

fun proc_do ::
    "('h, 'w, 'j, 's) server_env \<Rightarrow> proc_step \<Rightarrow> ('h, 'w, 's) process \<Rightarrow> ('h, 'w, 's) process option" where
  "proc_do env (Signal inLoop) p = map_option (\<lambda>l. p\<lparr>pr_loop := l\<rparr>) (SignalHandler inLoop (Some (pr_loop p)))"
| "proc_do env (Handle a) p =
     (if in_handler (pr_loop p) \<and> a \<notin> {server_op.RunTask, HeartbeatTurn, RetryTurn}
      then map_option (\<lambda>sv. p\<lparr>pr_server := sv\<rparr>) (server_do env (pr_server p) a) else None)"
| "proc_do env Work p =
     (case sv_queue (pr_server p) of
        [] \<Rightarrow> None
      | _ \<Rightarrow> map_option (\<lambda>sv. p\<lparr>pr_server := sv, pr_loop := hand_over (pr_server p) sv (pr_loop p)\<rparr>)
               (server_do env (pr_server p) server_op.RunTask))"
| "proc_do env RetryWork p =
     (if ms_retryRunning (sv_message (pr_server p))
      then let sv = retry_thread env (pr_server p) in
           Some (p\<lparr>pr_server := sv, pr_loop := hand_over (pr_server p) sv (pr_loop p)\<rparr>) else None)"
| "proc_do env HeartbeatWork p = map_option (\<lambda>sv. p\<lparr>pr_server := sv\<rparr>) (heartbeat_thread env (pr_server p))"
| "proc_do env (Loop a) p =
     (if machinery a \<or> a = Write then map_option (\<lambda>l. p\<lparr>pr_loop := l\<rparr>) (loop_do a (pr_loop p)) else None)"
| "proc_do env (MetricsWork a) p = Some (p\<lparr>pr_metrics := map_option (thread_step a) (pr_metrics p)\<rparr>)"
| "proc_do env MainLoop p =
     (if pr_main p = Ready then map_option (\<lambda>l. p\<lparr>pr_loop := l, pr_main := Looping\<rparr>) (loop_do Start (pr_loop p)) else None)"
| "proc_do env MainStop p =
     (if pr_main p = Looping \<and> el_phase (pr_loop p) = phase.Idle
      then Some (p\<lparr>pr_server := stop_services (pr_server p), pr_main := Draining\<rparr>) else None)"
| "proc_do env MainDrained p =
     (if pr_main p = Draining \<and> sv_queue (pr_server p) = []
      then Some (case pr_metrics p of
             None \<Rightarrow> p\<lparr>pr_main := StoppingMetrics False\<rparr>
           | Some m \<Rightarrow> let (joining, m) = stop_request m in p\<lparr>pr_metrics := Some m, pr_main := StoppingMetrics joining\<rparr>)
      else None)"
| "proc_do env MainExit p = (case pr_main p of StoppingMetrics joining \<Rightarrow> leave_main env joining p | _ \<Rightarrow> None)"

primrec proc_run ::
    "('h, 'w, 'j, 's) server_env \<Rightarrow> proc_step list \<Rightarrow> ('h, 'w, 's) process \<Rightarrow> ('h, 'w, 's) process option" where
  "proc_run env [] p = Some p"
| "proc_run env (a # as) p = Option.bind (proc_do env a p) (proc_run env as)"

text \<open>The workers run the queue empty, in order.\<close>

primrec drain ::
    "('h, 'w, 'j, 's) server_env \<Rightarrow> business_task list \<Rightarrow> ('h, 'w, 's) server \<Rightarrow> ('h, 'w, 's) server option" where
  "drain env [] sv = Some sv"
| "drain env (t # ts) sv = Option.bind (run_business env t (sv\<lparr>sv_queue := ts\<rparr>)) (drain env ts)"

section \<open>A loop that is told to quit\<close>

lemma quit_inv: "loop_inv s \<Longrightarrow> loop_inv (quit b s)" "el_quit (quit b s)" "el_phase (quit b s) = el_phase s"
  by (cases b; auto simp: loop_inv_def loop_defs Let_def split: phase.splits)+

lemma quit_step:
  assumes "loop_do a s = Some t" "el_quit s" "a \<noteq> Start"
  shows "el_quit t" "a = PollReturn \<Longrightarrow> el_phase s = Polling \<and> el_phase t \<noteq> Polling"
    "el_phase t = Polling \<Longrightarrow> el_phase s = Polling"
  using assms by (cases a; auto simp: loop_defs split: phase.splits if_splits list.splits bool.splits)+

definition loop_ends :: "'f EventLoop \<Rightarrow> bool" where
  "loop_ends s \<longleftrightarrow> (\<exists>as s'. list_all machinery as \<and> loop_run as s = Some s' \<and> el_phase s' = phase.Idle)"

lemma loop_ends_step:
  assumes "machinery a" "loop_do a s = Some t" "loop_ends t"
  shows "loop_ends s"
proof -
  from assms(3) obtain as s' where "list_all machinery as" "loop_run as t = Some s'" "el_phase s' = phase.Idle"
    by (auto simp: loop_ends_def)
  with assms(1,2) show ?thesis
    unfolding loop_ends_def by (intro exI [of _ "a # as"] exI [of _ s']) simp
qed

lemma loop_ends_calling: "el_phase s = Calling fs \<Longrightarrow> el_quit s \<Longrightarrow> \<not> el_ownWrite s \<Longrightarrow> loop_ends s"
proof (induction fs arbitrary: s)
  case Nil
  then have "loop_do EndTurn s = Some (end_turn s)" "el_phase (end_turn s) = phase.Idle" by (simp_all add: end_turn_def)
  then show ?case unfolding loop_ends_def by (intro exI [of _ "[EndTurn]"]) (auto simp: machinery_def)
next
  case (Cons f fs)
  let ?t = "s\<lparr>el_phase := Calling fs, el_done := el_done s @ [f]\<rparr>"
  have "loop_do RunNext s = Some ?t" "loop_ends ?t" using Cons by simp_all
  then show ?case by (intro loop_ends_step [of RunNext s ?t]) (simp_all add: machinery_def)
qed

lemma loop_ends_handled:
  assumes "el_phase s = Handling False" "el_quit s" "\<not> el_ownWrite s"
  shows "loop_ends s"
proof (rule loop_ends_step [of TakePending])
  show "loop_do TakePending s = Some (take_pending s)" using assms by simp
  show "loop_ends (take_pending s)" using assms by (intro loop_ends_calling) (simp_all add: take_pending_def)
qed (simp add: machinery_def)

lemma loop_ends_handling:
  assumes "el_phase s = Handling w" "el_quit s" "\<not> el_ownWrite s"
  shows "loop_ends s"
proof (cases w)
  case True
  have "loop_do ReadWakeup s = Some (handle_wakeup s)" using True assms by simp
  moreover have "loop_ends (handle_wakeup s)" using assms by (intro loop_ends_handled) (simp_all add: handle_wakeup_def)
  ultimately show ?thesis by (intro loop_ends_step [of ReadWakeup s]) (simp_all add: machinery_def)
qed (use assms loop_ends_handled in simp)

lemma quit_ends_loop:
  assumes "loop_inv s" "el_quit s" "el_phase s \<noteq> phase.Idle"
  shows "loop_ends s"
proof (cases "el_ownWrite s")
  case True
  then obtain fs where fs: "el_phase s = Calling fs"
    using assms(1) by (auto simp: loop_inv_def m_callingPendingFunctors_def split: phase.splits)
  let ?t = "wakeup (s\<lparr>el_ownWrite := False\<rparr>)"
  have "loop_do OwnWrite s = Some ?t" using True by simp
  moreover have "loop_ends ?t" using fs assms(2) by (intro loop_ends_calling) (simp_all add: wakeup_def)
  ultimately show ?thesis by (intro loop_ends_step [of OwnWrite s]) (simp_all add: machinery_def)
next
  case False
  show ?thesis
  proof (cases "el_phase s")
    case Polling
    have "loop_do PollReturn s = Some (poll_return s)" using False Polling by simp
    moreover have "loop_ends (poll_return s)"
      using False assms(2) by (intro loop_ends_handling) (simp_all add: poll_return_def)
    ultimately show ?thesis by (intro loop_ends_step [of PollReturn s]) (simp_all add: machinery_def)
  qed (use False assms loop_ends_handling loop_ends_calling in auto)
qed

section \<open>Workers without a pool to submit to\<close>

text \<open>Once the pool has stopped taking tasks, running one adds none, and nothing starts the services again.\<close>

definition stopped :: "('h, 'w, 's) server \<Rightarrow> bool" where
  "stopped sv \<longleftrightarrow> \<not> sv_poolRunning sv \<and> \<not> ms_retryRunning (sv_message sv) \<and> \<not> hb_running (sv_heartbeat sv)"

definition same_services :: "('h, 'w, 's) server \<Rightarrow> ('h, 'w, 's) server \<Rightarrow> bool" where
  "same_services sv sv' \<longleftrightarrow> sv_queue sv' = sv_queue sv \<and> sv_poolRunning sv' = sv_poolRunning sv \<and>
     ms_retryRunning (sv_message sv') = ms_retryRunning (sv_message sv) \<and>
     hb_running (sv_heartbeat sv') = hb_running (sv_heartbeat sv)"

lemma same_services_trans: "same_services sv sv1 \<Longrightarrow> same_services sv1 sv2 \<Longrightarrow> same_services sv sv2"
  by (simp add: same_services_def)

lemma stop_services_stopped: "stopped (stop_services sv)" "sv_queue (stop_services sv) = sv_queue sv"
  by (simp_all add: stopped_def stop_services_def MessageService.stop_def HeartbeatService.stop_def)

lemma redis_commands_same: "redis_commands env cmds sv = Some sv' \<Longrightarrow> same_services sv sv'"
proof (induction cmds arbitrary: sv)
  case (Cons c cs)
  from Cons.prems obtain sv1 where "redis_command env c sv = Some sv1" "redis_commands env cs sv1 = Some sv'"
    by (auto simp: bind_eq_Some_conv)
  moreover from this(1) have "same_services sv sv1" by (cases c) (auto simp: same_services_def)
  ultimately show ?case using Cons.IH same_services_trans by blast
qed (simp add: same_services_def)

lemma apply_effects_same: "apply_effects env es sv = Some sv' \<Longrightarrow> \<not> sv_poolRunning sv \<Longrightarrow> same_services sv sv'"
proof (induction es arbitrary: sv)
  case (Cons e es)
  from Cons.prems(1) obtain sv1 where sv1: "apply_effect env e sv = Some sv1" "apply_effects env es sv1 = Some sv'"
    by (auto simp: bind_eq_Some_conv)
  have "same_services sv sv1"
  proof (cases e)
    case (Redis cmd)
    with sv1(1) redis_commands_same [of env "[cmd]" sv sv1] show ?thesis by simp
  qed (use sv1(1) Cons.prems(2) in \<open>auto simp: same_services_def pool_submit_def count_metric_def\<close>)
  with sv1(2) Cons.IH Cons.prems(2) same_services_trans show ?case by (fastforce simp: same_services_def)
qed (simp add: same_services_def)

lemma answer_same: "answer conn cmd rid pl fl cs ss err sv = Some sv' \<Longrightarrow> same_services sv sv'"
  by (auto simp: answer_def sendPacket_def same_services_def)

lemma clock_same: "same_services sv (snd (clock env sv))"
  by (simp add: clock_def same_services_def split: prod.split)

lemma onAuthenticated_running: "hb_running (fst (onAuthenticated t1 t2 conn u hb)) = hb_running hb"
  by (simp add: onAuthenticated_def Let_def)

lemma registerConnection_running: "ms_retryRunning (registerConnection u conn svc) = ms_retryRunning svc"
  by (simp add: registerConnection_def)

lemma after_login_same:
  assumes "after_login env conn u sid sv = Some sv'" "\<not> sv_poolRunning sv"
  shows "same_services sv sv'"
proof -
  from assms(1) obtain r au b where b: "bindSessionToNode (sn_auth env) sid (sn_nodeId env) (sv_auth sv, sv_backend sv) = Some (r, au, b)"
    by (auto simp: after_login_def bind_eq_Some_conv)
  obtain st w where d: "deliverPendingMessages (sn_outside env) (sn_store env) (registerConnection u conn (sv_message sv)) u
      (sv_store sv) (sv_world sv) = (st, w)" by force
  let ?sv = "sv\<lparr>sv_auth := au, sv_backend := b, sv_message := registerConnection u conn (sv_message sv), sv_store := st, sv_world := w\<rparr>"
  obtain t1 svc where c1: "clock env ?sv = (t1, svc)" by force
  obtain t2 svd where c2: "clock env svc = (t2, svd)" by force
  obtain hb ev where h: "onAuthenticated t1 t2 conn u (sv_heartbeat svd) = (hb, ev)" by force
  define sve where "sve = svd\<lparr>sv_heartbeat := hb\<rparr>"
  note eqs = after_login_def b d c1 c2 h sve_def [symmetric]
  from assms(1) obtain svf where f: "apply_effects env ev sve = Some svf"
    by (auto simp: eqs bind_eq_Some_conv)
  have "same_services svf sv'"
    using assms(1) f by (auto simp: eqs bind_eq_Some_conv same_services_def split: if_splits)
  moreover have e: "same_services sv sve"
    using clock_same [of ?sv env] clock_same [of svc env] c1 c2 h onAuthenticated_running [of t1 t2 conn u "sv_heartbeat svd"]
    by (simp add: same_services_def sve_def registerConnection_running)
  moreover from e assms(2) have "same_services sve svf"
    by (intro apply_effects_same [OF f]) (simp add: same_services_def)
  ultimately show ?thesis by (blast intro: same_services_trans)
qed

lemma run_login_same:
  assumes "run_login env conn rid req sv = Some sv'" "\<not> sv_poolRunning sv"
  shows "same_services sv sv'"
proof -
  from assms(1) obtain sv1 sv2 sid ok cmd pl fl cs ss err where a: "answer conn cmd rid pl fl cs ss err sv1 = Some sv2"
      "same_services sv sv1"
      "(if ok then after_login env conn (lreq_userId req) sid sv2 else Some sv2) = Some sv'"
    by (auto simp: run_login_def bind_eq_Some_conv clock_def same_services_def Let_def split: prod.splits)
  from answer_same [OF a(1)] a(2) have s2: "same_services sv sv2" by (blast intro: same_services_trans)
  with assms(2) have "\<not> sv_poolRunning sv2" by (simp add: same_services_def)
  with a(3) after_login_same [of env conn "lreq_userId req" sid sv2 sv'] have "same_services sv2 sv'"
    by (cases ok) (simp_all add: same_services_def)
  with s2 show ?thesis by (blast intro: same_services_trans)
qed

lemma answer_from: "answer conn cmd rid pl fl cs ss err sv1 = Some sv' \<Longrightarrow> same_services sv sv1 \<Longrightarrow> same_services sv sv'"
  by (blast intro: same_services_trans answer_same)

lemma run_p2p_same:
  assumes "run_p2p env conn rid req u sv = Some sv'"
  shows "same_services sv sv'"
proof -
  from assms obtain remote sv1 where r: "remote_route env (preq_toUserId req) sv = Some (remote, sv1)"
    by (auto simp: run_p2p_def bind_eq_Some_conv)
  then have "same_services sv sv1"
    by (auto simp: remote_route_def same_services_def bind_eq_Some_conv split: if_splits)
  with assms r show ?thesis
    by (cases remote) (auto simp: run_p2p_def send_p2p_def Let_def same_services_def elim!: answer_from [unfolded same_services_def]
        split: prod.splits)
qed

lemma run_business_same:
  assumes "run_business env t sv = Some sv'" "\<not> sv_poolRunning sv"
  shows "same_services sv sv'"
proof (cases t)
  case (LoginTask conn rid req)
  with assms run_login_same show ?thesis by (simp add: run_business_def)
next
  case (P2PTask conn rid req u)
  with assms(1) run_p2p_same show ?thesis by (simp add: run_business_def)
next
  case (AckTask conn rid req u)
  with assms(1) show ?thesis
    by (auto simp: run_business_def run_ack_def same_services_def elim!: answer_from [unfolded same_services_def] split: prod.splits)
next
  case (PullTask conn rid req u)
  with assms(1) show ?thesis
    by (auto simp: run_business_def run_pull_def same_services_def Let_def elim!: answer_from [unfolded same_services_def]
        split: prod.splits)
next
  case (PresenceTask cmds)
  with assms(1) redis_commands_same show ?thesis by (simp add: run_business_def)
qed (use assms in \<open>auto simp: run_business_def same_services_def bind_eq_Some_conv\<close>)

lemma drain_same: "drain env ts sv = Some sv' \<Longrightarrow> stopped sv \<Longrightarrow> sv_queue sv = ts \<Longrightarrow> stopped sv' \<and> sv_queue sv' = []"
proof (induction ts arbitrary: sv)
  case (Cons t ts)
  from Cons.prems(1) obtain sv1 where sv1: "run_business env t (sv\<lparr>sv_queue := ts\<rparr>) = Some sv1" "drain env ts sv1 = Some sv'"
    by (auto simp: bind_eq_Some_conv)
  with run_business_same [OF sv1(1)] Cons.prems(2) have "stopped sv1" "sv_queue sv1 = ts"
    by (simp_all add: stopped_def same_services_def)
  with sv1(2) Cons.IH show ?case by blast
qed simp

section \<open>Runs of the process\<close>

lemma proc_run_append: "proc_run env (as @ bs) p = Option.bind (proc_run env as p) (proc_run env bs)"
proof (induction as arbitrary: p)
  case (Cons a as)
  then show ?case by (cases "proc_do env a p") simp_all
qed simp

lemma proc_run_loop:
  "list_all machinery as \<Longrightarrow> loop_run as (pr_loop p) = Some l \<Longrightarrow> proc_run env (map Loop as) p = Some (p\<lparr>pr_loop := l\<rparr>)"
proof (induction as arbitrary: p)
  case (Cons a as)
  from Cons.prems obtain t where t: "loop_do a (pr_loop p) = Some t" "loop_run as t = Some l" by (auto simp: bind_eq_Some_conv)
  from Cons.IH [of "p\<lparr>pr_loop := t\<rparr>"] Cons.prems(1) t show ?case by simp
qed simp

lemma hand_over_loop [simp]:
  "el_phase (hand_over sv sv' l) = el_phase l" "el_quit (hand_over sv sv' l) = el_quit l" "el_done (hand_over sv sv' l) = el_done l"
proof -
  have "el_phase (fold (queueInLoop False) xs k) = el_phase k \<and> el_quit (fold (queueInLoop False) xs k) = el_quit k \<and>
      el_done (fold (queueInLoop False) xs k) = el_done k" for xs and k :: "packet_out EventLoop"
    by (induction xs arbitrary: k) (simp_all add: queueInLoop_def)
  then show "el_phase (hand_over sv sv' l) = el_phase l" "el_quit (hand_over sv sv' l) = el_quit l"
    "el_done (hand_over sv sv' l) = el_done l" by (simp_all add: hand_over_def)
qed

lemma proc_run_drain:
  assumes "drain env ts (pr_server p) = Some sv" "stopped (pr_server p)" "sv_queue (pr_server p) = ts"
  obtains l where "proc_run env (replicate (length ts) Work) p = Some (p\<lparr>pr_server := sv, pr_loop := l\<rparr>)"
  using assms
proof (induction ts arbitrary: p thesis)
  case Nil
  then show ?case by (cases p) auto
next
  case (Cons t ts)
  from Cons.prems(2) obtain sv1 where sv1: "run_business env t (pr_server p\<lparr>sv_queue := ts\<rparr>) = Some sv1" "drain env ts sv1 = Some sv"
    by (auto simp: bind_eq_Some_conv)
  let ?p = "p\<lparr>pr_server := sv1, pr_loop := hand_over (pr_server p) sv1 (pr_loop p)\<rparr>"
  from run_business_same [OF sv1(1)] Cons.prems(3) have "stopped sv1" "sv_queue sv1 = ts"
    by (simp_all add: stopped_def same_services_def)
  with Cons.IH [of ?p] sv1(2) obtain l where "proc_run env (replicate (length ts) Work) ?p = Some (?p\<lparr>pr_server := sv, pr_loop := l\<rparr>)"
    by auto
  with Cons.prems(4) sv1(1) show ?case by (intro Cons.prems(1)) simp
qed

lemmas proc_splits = if_splits list.splits option.splits main_phase.splits prod.splits

lemma proc_do_main:
  assumes "proc_do env a p = Some p'" "pr_main p \<noteq> Ready"
  shows "pr_main p' \<noteq> Ready" "pr_main p \<noteq> Looping \<Longrightarrow> pr_main p' \<noteq> Looping"
  using assms by (cases a; auto simp: SignalHandler_def leave_main_def Let_def split: proc_splits)+

lemma proc_do_quit:
  assumes "proc_do env a p = Some p'" "el_quit (pr_loop p)" "pr_main p \<noteq> Ready"
  shows "el_quit (pr_loop p') \<and>
      (a = Loop PollReturn \<longrightarrow> el_phase (pr_loop p) = Polling \<and> el_phase (pr_loop p') \<noteq> Polling) \<and>
      (el_phase (pr_loop p') = Polling \<longrightarrow> el_phase (pr_loop p) = Polling)"
proof (cases a)
  case (Loop b)
  with assms(1) obtain l where "loop_do b (pr_loop p) = Some l" "p' = p\<lparr>pr_loop := l\<rparr>" "b \<noteq> Start"
    by (auto simp: machinery_def split: if_splits)
  with quit_step [of b "pr_loop p" l] assms(2) Loop show ?thesis by auto
qed (use assms in \<open>auto simp: SignalHandler_def quit_inv leave_main_def Let_def split: proc_splits\<close>)

lemma proc_quit_one_poll:
  assumes "proc_run env as p = Some p'" "el_quit (pr_loop p)" "pr_main p \<noteq> Ready"
  shows "length (filter (\<lambda>a. a = Loop PollReturn) as) \<le> (if el_phase (pr_loop p) = Polling then 1 else 0)"
  using assms
proof (induction as arbitrary: p)
  case (Cons a as)
  from Cons.prems obtain q where q: "proc_do env a p = Some q" "proc_run env as q = Some p'" by (auto simp: bind_eq_Some_conv)
  with proc_do_quit [OF q(1)] proc_do_main(1) [OF q(1)] Cons.prems(2,3) Cons.IH [OF q(2)] show ?case by (auto split: if_splits)
qed simp

definition metrics_up :: "MetricsServer option \<Rightarrow> bool" where
  "metrics_up ms \<longleftrightarrow> (case ms of None \<Rightarrow> True
     | Some m \<Rightarrow> mt_running m \<and> mt_joinable m \<and> (case mt_thread m of Serving _ \<Rightarrow> True | _ \<Rightarrow> False))"

lemma metrics_stops:
  assumes "metrics_up (Some m)"
  obtains m1 where "stop_request m = (True, m1)" "mt_thread (thread_step (Turn t r fd q) m1) = Ended"
proof -
  from assms obtain lfd where l: "mt_running m" "mt_thread m = Serving lfd"
    by (auto simp: metrics_up_def split: server_thread.splits)
  define m1 where "m1 = snd (stop_request m)"
  have m1: "stop_request m = (True, m1)" "mt_thread m1 = Serving lfd" "\<not> mt_running m1"
    using l by (simp_all add: stop_request_def CloseSocket_def m1_def)
  from m1(2,3) have "thread_step (Turn t r fd q) m1 = leave_loop lfd m1" by simp
  with that [OF m1(1)] show ?thesis by (simp add: leave_loop_def)
qed

lemma drained_exits:
  assumes "pr_main p = Draining" "sv_queue (pr_server p) = []" "metrics_up (pr_metrics p)"
  obtains p' where "proc_run env [MainDrained, MetricsWork (Turn [] False (- 1) None), MainExit] p = Some p'"
    "pr_main p' = Exited 0" "pr_server p' = disconnect_redis env (pr_server p)" "pr_loop p' = pr_loop p"
proof (cases "pr_metrics p")
  case None
  let ?p = "p\<lparr>pr_metrics := None, pr_server := disconnect_redis env (pr_server p), pr_main := Exited 0\<rparr>"
  from None assms(1,2) show ?thesis by (intro that [of ?p]) (simp_all add: leave_main_def Let_def)
next
  case (Some m)
  with assms(3) obtain m1 where m1: "stop_request m = (True, m1)" "mt_thread (thread_step (Turn [] False (- 1) None) m1) = Ended"
    using metrics_stops by metis
  let ?m = "join (thread_step (Turn [] False (- 1) None) m1)"
  let ?p = "p\<lparr>pr_metrics := Some ?m, pr_server := disconnect_redis env (pr_server p), pr_main := Exited 0\<rparr>"
  from Some assms(1,2) m1 show ?thesis
    by (intro that [of ?p]) (simp_all add: leave_main_def Let_def join_def destroy_thread_def del: thread_step.simps)
qed

lemma disconnect_redis_same: "same_services sv (disconnect_redis env sv)" "\<not> isConnected (be_redis (sv_backend (disconnect_redis env sv)))"
  by (auto simp: disconnect_redis_def RedisClient.disconnect_def isConnected_def same_services_def split: option.splits)


text \<open>A broadcast is still queued when the signal arrives, and the metrics server is serving.\<close>

definition demo_process :: "(unit, string \<rightharpoonup> string, InMemoryMessageStore) process" where
  "demo_process =
     \<lparr>pr_server = demo_server\<lparr>sv_queue := [BroadcastTask ''ann'' \<lparr>breq_fromUserId = ''ann'', breq_content = ''bye''\<rparr>]\<rparr>, pr_loop = loop_start EventLoop_init,
      pr_metrics = Some ((MetricsServer_init ''0.0.0.0'' 9090 ''/metrics'')\<lparr>mt_running := True, mt_joinable := True, mt_listenFd := 7,
        mt_thread := Serving 7\<rparr>), pr_main = Looping\<rparr>"


section \<open>Replies of the last tasks\<close>

text \<open>
  The tasks that the pool runs after the loop has ended queue their packets on that loop, and nothing runs
  them: no functor is executed from then on, whatever the threads do.
\<close>

theorem replies_after_loop_lost:
  assumes "proc_run env as p = Some p'" "pr_main p \<notin> {Ready, Looping}" "el_phase (pr_loop p) = phase.Idle"
  shows "el_done (pr_loop p') = el_done (pr_loop p)"
  using assms
proof (induction as arbitrary: p)
  case (Cons a as)
  from Cons.prems obtain q where q: "proc_do env a p = Some q" "proc_run env as q = Some p'" by (auto simp: bind_eq_Some_conv)
  have "el_phase (pr_loop q) = phase.Idle \<and> el_done (pr_loop q) = el_done (pr_loop p)"
  proof (cases a)
    case (Loop b)
    with q(1) Cons.prems(3) show ?thesis by (cases b) (auto simp: machinery_def loop_defs split: if_splits)
  qed (use q(1) Cons.prems in \<open>auto simp: SignalHandler_def quit_def leave_main_def Let_def split: proc_splits\<close>)
  with Cons.IH [OF q(2)] proc_do_main [OF q(1)] Cons.prems(2) show ?case by auto
qed simp

end
