(* ===== verification/Logging.thy ===== *)
theory Logging
  imports Startup TraceContext Addresses TcpServer
begin

text \<open>
  \<open>src/base/log.*\<close>: the process's logger, which is a null pointer until \<open>Log::init\<close> has succeeded, the macros that
  log through it without a test, and the field of the trace context in every line; with the two remaining
  functions of \<open>src/base/util.cpp\<close>, the printed time and the pause. The sinks, which belong to spdlog, are an
  argument: creating one may throw, with a text. Dereferencing the null logger is \<open>None\<close>.
\<close>

section \<open>The logger\<close>

record 'k spdlog =
  sd_console :: 'k
  sd_rotating :: "string \<Rightarrow> u64 \<Rightarrow> u64 \<Rightarrow> string + 'k"

record 'k logger =
  lg_name :: string
  lg_sinks :: "'k list"
  lg_level :: int
  lg_pattern :: string

text \<open>
  A line in a sink: its level, the field that stands for \<open>%*\<close> and the message. The default logger of spdlog, once set, is
  the same object as the process's.
\<close>

record 'k log_process =
  lp_logger :: "'k logger option"
  lp_isDefault :: bool
  lp_flushOn :: "int option"
  lp_directories :: "string list"
  lp_printed :: "string list"
  lp_lines :: "('k \<times> int \<times> string \<times> string) list"

definition log_process_init :: "'k log_process" where
  "log_process_init = \<lparr>lp_logger = None, lp_isDefault = False, lp_flushOn = None, lp_directories = [], lp_printed = [], lp_lines = []\<rparr>"

text \<open>The level as the number it is cast from.\<close>

definition level_enum :: "log_level \<Rightarrow> int" where
  "level_enum l = (case l of Trace \<Rightarrow> 0 | Debug \<Rightarrow> 1 | Info \<Rightarrow> 2 | Warn \<Rightarrow> 3 | Err \<Rightarrow> 4 | Critical \<Rightarrow> 5)"

text \<open>\<open>std::filesystem::path::parent_path\<close>: what stands before the last separator, the root alone for a path in it.\<close>

definition parent_path :: "string \<Rightarrow> string" where
  "parent_path path =
     (let dir = rev (dropWhile (\<lambda>c. c \<noteq> CHR ''/'') (rev path)); dir' = rev (dropWhile (\<lambda>c. c = CHR ''/'') (rev dir)) in
      if dir' = [] \<and> dir \<noteq> [] then ''/'' else dir')"

definition log_pattern :: string where
  "log_pattern = ''time=%Y-%m-%dT%H:%M:%S.%e level=%l thread=%t %* msg=%v''"

text \<open>The error of \<open>create_directories\<close> goes to a variable that is not read.\<close>

definition Log_init ::
    "'k spdlog \<Rightarrow> string \<Rightarrow> string \<Rightarrow> int \<Rightarrow> u64 \<Rightarrow> u64 \<Rightarrow> 'k log_process \<Rightarrow> 'k log_process" where
  "Log_init lib logName logPath level maxFileSize maxFiles s =
     (let s = (if parent_path logPath \<noteq> [] then s\<lparr>lp_directories := lp_directories s @ [parent_path logPath]\<rparr> else s) in
      case sd_rotating lib logPath maxFileSize maxFiles of
        Inl what \<Rightarrow> s\<lparr>lp_printed := lp_printed s @ [''Log init failed: '' @ what @ [CHR 0x0A]]\<rparr>
      | Inr fileSink \<Rightarrow>
          let logger = \<lparr>lg_name = logName, lg_sinks = [sd_console lib, fileSink], lg_level = level, lg_pattern = log_pattern\<rparr> in
          s\<lparr>lp_logger := Some logger, lp_isDefault := True, lp_flushOn := Some (level_enum Info)\<rparr>)"

definition Log_setLevel :: "int \<Rightarrow> 'k log_process \<Rightarrow> 'k log_process" where
  "Log_setLevel level s = s\<lparr>lp_logger := map_option (\<lambda>l. l\<lparr>lg_level := level\<rparr>) (lp_logger s)\<rparr>"

definition Log_getLogger :: "'k log_process \<Rightarrow> 'k logger option" where
  "Log_getLogger s = lp_logger s"

definition TraceContextFlag_format :: "trace_state \<Rightarrow> string \<Rightarrow> string" where
  "TraceContextFlag_format g dest = dest @ FormatTraceContextForLog g"

text \<open>A macro: the call through the pointer, and the logger's filter.\<close>

definition log_at :: "log_level \<Rightarrow> trace_state \<Rightarrow> string \<Rightarrow> 'k log_process \<Rightarrow> 'k log_process option" where
  "log_at lvl g msg s =
     map_option
       (\<lambda>logger. if lg_level logger \<le> level_enum lvl
          then s\<lparr>lp_lines := lp_lines s @ map (\<lambda>k. (k, level_enum lvl, TraceContextFlag_format g [], msg)) (lg_sinks logger)\<rparr>
          else s)
       (Log_getLogger s)"

definition LOG_DEBUG :: "trace_state \<Rightarrow> string \<Rightarrow> 'k log_process \<Rightarrow> 'k log_process option" where "LOG_DEBUG = log_at Debug"
definition LOG_INFO :: "trace_state \<Rightarrow> string \<Rightarrow> 'k log_process \<Rightarrow> 'k log_process option" where "LOG_INFO = log_at Info"
definition LOG_WARN :: "trace_state \<Rightarrow> string \<Rightarrow> 'k log_process \<Rightarrow> 'k log_process option" where "LOG_WARN = log_at Warn"
definition LOG_ERROR :: "trace_state \<Rightarrow> string \<Rightarrow> 'k log_process \<Rightarrow> 'k log_process option" where "LOG_ERROR = log_at Err"
definition LOG_FATAL :: "trace_state \<Rightarrow> string \<Rightarrow> 'k log_process \<Rightarrow> 'k log_process option" where "LOG_FATAL = log_at Critical"

text \<open>The start of \<open>main\<close>: the logger from the settings, then the first line.\<close>

definition start_logging ::
    "'k spdlog \<Rightarrow> log_settings \<Rightarrow> trace_state \<Rightarrow> 'k log_process \<Rightarrow> 'k log_process option" where
  "start_logging lib settings g s =
     LOG_INFO g ''========================================''
       (Log_init lib ''server_full'' (st_logPath settings) (level_enum (st_logLevel settings))
          (st_logMaxFileSize settings) (st_logMaxFiles settings) s)"

section \<open>The printed time and the pause\<close>

text \<open>
  \<open>GetTimestampString\<close> prints its second reading of the clock, in the local calendar (year, month, day, hour, minute and
  second, as printed). \<open>SleepMs\<close> gives \<open>usleep\<close> its argument in microseconds as an unsigned 32-bit number; a product that
  does not fit an \<open>int\<close> is undefined, which is \<open>None\<close>.
\<close>

definition GetTimestampString :: "(int \<Rightarrow> int \<times> int \<times> int \<times> int \<times> int \<times> int) \<Rightarrow> timeval \<Rightarrow> string" where
  "GetTimestampString local_calendar tv =
     (case local_calendar (tv_sec tv) of (y, mo, d, h, mi, s) \<Rightarrow>
        snprintf 64 (zero_padded 4 y @ ''-'' @ zero_padded 2 mo @ ''-'' @ zero_padded 2 d @ '' '' @
          zero_padded 2 h @ '':'' @ zero_padded 2 mi @ '':'' @ zero_padded 2 s @ ''.'' @ zero_padded 6 (tv_usec tv)))"

definition SleepMs :: "int \<Rightarrow> u32 option" where
  "SleepMs ms = (if - (2 ^ 31) \<le> ms * 1000 \<and> ms * 1000 < 2 ^ 31 then Some (word_of_int (ms * 1000)) else None)"

lemma zero_padded_length:
  assumes "0 \<le> i" "i < 10 ^ Suc n"
  shows "length (zero_padded (Suc n) i) = Suc n"
proof -
  have "nat i < 10 ^ Suc n" using assms by (simp add: nat_less_iff)
  from length_dec [OF this] assms(1) show ?thesis by (simp add: zero_padded_def Let_def)
qed

text \<open>The text of a time in the years 0 to 9999 has 26 characters.\<close>

lemma GetTimestampString_length:
  assumes "local_calendar (tv_sec tv) = (y, mo, d, h, mi, s)" "0 \<le> tv_usec tv" "tv_usec tv < 1000000"
    and "0 \<le> y" "y < 10000" "0 \<le> mo" "mo < 100" "0 \<le> d" "d < 100" "0 \<le> h" "h < 100" "0 \<le> mi" "mi < 100" "0 \<le> s" "s < 100"
  shows "length (GetTimestampString local_calendar tv) = 26"
proof -
  have "length (zero_padded 4 y) = 4" "length (zero_padded 6 (tv_usec tv)) = 6"
    using zero_padded_length [of y 3] zero_padded_length [of "tv_usec tv" 5] assms by (simp_all add: numeral_eq_Suc)
  moreover have "length (zero_padded 2 i) = 2" if "i \<in> {mo, d, h, mi, s}" for i
    using zero_padded_length [of i 1] assms that by (auto simp: numeral_eq_Suc)
  ultimately show ?thesis using assms(1) by (simp add: GetTimestampString_def snprintf_def)
qed

text \<open>A negative pause is a long one: one millisecond back sleeps for more than an hour.\<close>

lemma SleepMs_negative: "SleepMs (- 1) = Some 4294966296"
  by (simp add: SleepMs_def)

section \<open>A logger or a null pointer\<close>

text \<open>The first line of the process is written exactly if the file sink was created; otherwise the null logger is used.\<close>

theorem start_logging_defined:
  "start_logging lib settings g log_process_init \<noteq> None \<longleftrightarrow>
     (\<exists>k. sd_rotating lib (st_logPath settings) (st_logMaxFileSize settings) (st_logMaxFiles settings) = Inr k)"
  by (simp add: start_logging_def LOG_INFO_def log_at_def Log_getLogger_def Log_init_def log_process_init_def Let_def split: sum.split)

text \<open>Once there is a logger, no call takes it away, and no macro is undefined.\<close>

lemma logger_stays:
  "lp_logger s \<noteq> None \<Longrightarrow> lp_logger (Log_init lib name path level maxSize files s) \<noteq> None"
  "lp_logger s \<noteq> None \<Longrightarrow> lp_logger (Log_setLevel n s) \<noteq> None"
  "lp_logger s \<noteq> None \<Longrightarrow> \<exists>s'. log_at lvl g msg s = Some s' \<and> lp_logger s' = lp_logger s"
  by (auto simp: Log_init_def Log_setLevel_def log_at_def Log_getLogger_def Let_def map_option_case split: sum.split)

text \<open>
  With a logger, a line goes to the console and to the file exactly if its level is at least the logger's, and it
  carries the trace context of the thread that logs.
\<close>

theorem log_line_written:
  assumes "sd_rotating lib path maxSize files = Inr k" "log_at lvl g msg (Log_init lib name path level maxSize files s) = Some s'"
  shows "lp_lines s' = lp_lines s @ (if level \<le> level_enum lvl
     then [(sd_console lib, level_enum lvl, FormatTraceContextForLog g, msg), (k, level_enum lvl, FormatTraceContextForLog g, msg)] else [])"
  using assms by (auto simp: log_at_def Log_getLogger_def Log_init_def TraceContextFlag_format_def Let_def)

section \<open>Settings that leave the logger null\<close>

lemma stoi_range: "stoi s = Some i \<Longrightarrow> - (2 ^ 31) \<le> i \<and> i < 2 ^ 31"
  by (auto simp: stoi_def bind_eq_Some_conv Let_def split: if_splits)

lemma getInt_range:
  assumes "- (2 ^ 31) \<le> d" "d < 2 ^ 31"
  shows "- (2 ^ 31) \<le> getInt sec key d c" "getInt sec key d c < 2 ^ 31"
  using assms stoi_range by (auto simp: getInt_def Let_def opt_default_def split: option.splits)

text \<open>
  A negative number of files in the configuration is a huge one once cast, and spdlog refuses more than 200000
  files with an exception: the server then dies at its first log line.
\<close>

theorem negative_max_files_crashes:
  assumes "\<And>path maxSize files. 200000 < files \<Longrightarrow> \<exists>what. sd_rotating lib path maxSize files = Inl what"
    and "getInt ''log'' ''max_files'' 3 config < 0"
  shows "start_logging lib (read_log_settings config) g log_process_init = None"
proof -
  let ?i = "getInt ''log'' ''max_files'' 3 config"
  have low: "- (2 ^ 31) \<le> ?i" by (rule getInt_range) simp_all
  have "?i mod 2 ^ 64 = (?i + 2 ^ 64) mod 2 ^ 64" by simp
  also have "\<dots> = ?i + 2 ^ 64" using low assms(2) by (intro mod_pos_pos_trivial) simp_all
  finally have "uint (word_of_int ?i :: u64) = ?i + 2 ^ 64" by (simp add: uint_word_of_int)
  with low have "200000 < uint (word_of_int ?i :: u64)" by simp
  then have "200000 < (word_of_int ?i :: u64)" by (simp add: word_less_def)
  then have "200000 < st_logMaxFiles (read_log_settings config)" by (simp add: read_log_settings_def)
  from assms(1) [OF this] obtain what where "sd_rotating lib (st_logPath (read_log_settings config))
      (st_logMaxFileSize (read_log_settings config)) (st_logMaxFiles (read_log_settings config)) = Inl what" by blast
  then show ?thesis using start_logging_defined [of lib "read_log_settings config" g] by simp
qed

lemma negative_max_files_example:
  "start_logging \<lparr>sd_console = (0 :: nat), sd_rotating = (\<lambda>path maxSize files. if 200000 < files then Inl ''max_files'' else Inr 1)\<rparr>
     (read_log_settings (Config_init\<lparr>cfg_data := [''log'' \<mapsto> [''max_files'' \<mapsto> ''-1'']]\<rparr>)) trace_start log_process_init = None"
proof (rule negative_max_files_crashes)
  have "stoi ''-1'' = Some (- 1)" by code_simp
  then show "getInt ''log'' ''max_files'' 3 (Config_init\<lparr>cfg_data := [''log'' \<mapsto> [''max_files'' \<mapsto> ''-1'']]\<rparr>) < 0"
    by (simp add: getInt_def getString_def opt_default_def)
qed simp

end
